(* ===== verification/Prelude.thy ===== *)
theory Prelude
  imports Main "HOL-Library.AList" "HOL-Library.Char_ord" "HOL-Library.List_Lexorder"
begin

text \<open>
  The prelude of the FOSSIL development: what every component shares.

  \<^item> Exceptions. A Python exception is a value \<open>Exn c m\<close>: its class \<open>c\<close> and the literal
    text of its message \<open>m\<close> up to the first interpolated value. A function that may raise
    returns \<open>exn + 'a\<close>. \<open>exn_isa\<close> is the subclass test of an \<open>except\<close> clause.
  \<^item> Sequencing. \<open>rbind\<close> runs a computation and stops at the first exception, \<open>check\<close> is
    \<open>if not b: raise e\<close>, \<open>each\<close> is a \<open>for\<close> loop whose body only raises, \<open>rmap\<close> a list
    comprehension whose element may raise and \<open>rfold\<close> a loop that threads a state.
  \<^item> Strings. A Python \<open>str\<close> is the \<open>string\<close> of its UTF-8 bytes, so that \<open>encode\<close> is the
    identity and the code point order of Python is the lexicographic order of
    \<open>List_Lexorder\<close>. Case folding, stripping and character classes are those of ASCII.
  \<^item> Insertion-ordered dictionaries as association lists with the library's
    \<open>AList.update\<close> and \<open>AList.delete\<close>, and sorted lists of keys.
\<close>

section \<open>Automation\<close>

named_theorems res_simps
  \<open>rewrite rules that turn a successful computation into a conjunction\<close>
named_theorems wf_intros
  \<open>introduction rules for well-formedness predicates\<close>
named_theorems inv_intros
  \<open>introduction rules for invariants of stores and state machines\<close>

section \<open>Exceptions\<close>

datatype exn_class =
    KeyError | IndexError | FileExistsError | TypeError | AttributeError | ValueError | RuntimeError
  | OverflowError | OSError | FileNotFoundError | UnicodeDecodeError | JSONDecodeError | ValidationError
  | RecursionError
  | PackBoundaryError | PackSetLockError | LifecycleError | OntologyConstraintError
  | PromotionSourceError | EventContractError
  | ArtifactIntegrityError | ArtifactRedactedError
  | IdempotencyConflict | EventRedactedError | EventRedactionConflict
  | RemoteStoreUnavailable | RemoteObjectConflict
  | SourceSnapshotConflict | CitationIntegrityError | CitationLaunderingError
  | ConversationConflict | ConversationProvenanceError
  | SharedChatCaptureError | ReviewedEvidenceIngestError | PackFixtureIntegrityError
  | CapabilityError | AgentProvenanceError | WorkOrderError | SupervisorError
  | ExternalError

datatype exn = Exn (exn_class: exn_class) (exn_msg: string)

type_synonym 'a res = "exn + 'a"

fun exn_parent :: "exn_class \<Rightarrow> exn_class option" where
  "exn_parent PackBoundaryError = Some ValueError"
| "exn_parent PackSetLockError = Some PackBoundaryError"
| "exn_parent LifecycleError = Some ValueError"
| "exn_parent OntologyConstraintError = Some ValueError"
| "exn_parent PromotionSourceError = Some ValueError"
| "exn_parent EventContractError = Some ValueError"
| "exn_parent FileExistsError = Some OSError"
| "exn_parent FileNotFoundError = Some OSError"
| "exn_parent UnicodeDecodeError = Some ValueError"
| "exn_parent JSONDecodeError = Some ValueError"
| "exn_parent ArtifactIntegrityError = Some RuntimeError"
| "exn_parent ArtifactRedactedError = Some FileNotFoundError"
| "exn_parent IdempotencyConflict = Some RuntimeError"
| "exn_parent EventRedactedError = Some FileNotFoundError"
| "exn_parent EventRedactionConflict = Some RuntimeError"
| "exn_parent RemoteStoreUnavailable = Some RuntimeError"
| "exn_parent RemoteObjectConflict = Some RuntimeError"
| "exn_parent RecursionError = Some RuntimeError"
| "exn_parent SourceSnapshotConflict = Some RuntimeError"
| "exn_parent CitationIntegrityError = Some RuntimeError"
| "exn_parent CitationLaunderingError = Some ValueError"
| "exn_parent ConversationConflict = Some RuntimeError"
| "exn_parent ConversationProvenanceError = Some ValueError"
| "exn_parent SharedChatCaptureError = Some ValueError"
| "exn_parent ReviewedEvidenceIngestError = Some ValueError"
| "exn_parent PackFixtureIntegrityError = Some ValueError"
| "exn_parent AgentProvenanceError = Some ValueError"
| "exn_parent WorkOrderError = Some ValueError"
| "exn_parent SupervisorError = Some RuntimeError"
| "exn_parent _ = None"

definition exn_isa :: "exn_class \<Rightarrow> exn_class \<Rightarrow> bool" where
  "exn_isa c d \<longleftrightarrow> c = d \<or> exn_parent c = Some d
     \<or> (case exn_parent c of None \<Rightarrow> False | Some c' \<Rightarrow> exn_parent c' = Some d)"

section \<open>Sequencing\<close>

fun rbind :: "'a res \<Rightarrow> ('a \<Rightarrow> 'b res) \<Rightarrow> 'b res" where
  "rbind (Inl e) f = Inl e"
| "rbind (Inr x) f = f x"

definition check :: "bool \<Rightarrow> exn \<Rightarrow> unit res" where
  "check b e = (if b then Inr () else Inl e)"

definition is_ok :: "'a res \<Rightarrow> bool" where
  "is_ok r \<longleftrightarrow> (case r of Inl _ \<Rightarrow> False | Inr _ \<Rightarrow> True)"

fun each :: "('a \<Rightarrow> unit res) \<Rightarrow> 'a list \<Rightarrow> unit res" where
  "each f [] = Inr ()"
| "each f (x # xs) = rbind (f x) (\<lambda>_. each f xs)"

fun rmap :: "('a \<Rightarrow> 'b res) \<Rightarrow> 'a list \<Rightarrow> 'b list res" where
  "rmap f [] = Inr []"
| "rmap f (x # xs) = rbind (f x) (\<lambda>y. rbind (rmap f xs) (\<lambda>ys. Inr (y # ys)))"

fun rfold :: "('s \<Rightarrow> 'a \<Rightarrow> 's res) \<Rightarrow> 's \<Rightarrow> 'a list \<Rightarrow> 's res" where
  "rfold f s [] = Inr s"
| "rfold f s (x # xs) = rbind (f s x) (\<lambda>s'. rfold f s' xs)"

definition of_option :: "exn \<Rightarrow> 'a option \<Rightarrow> 'a res" where
  "of_option e r = (case r of None \<Rightarrow> Inl e | Some x \<Rightarrow> Inr x)"

lemma rbind_Inr_iff [simp, res_simps]:
  "rbind m f = Inr y \<longleftrightarrow> (\<exists>x. m = Inr x \<and> f x = Inr y)"
  by (cases m) auto

lemma rbind_Inl_iff: "rbind m f = Inl e \<longleftrightarrow> m = Inl e \<or> (\<exists>x. m = Inr x \<and> f x = Inl e)"
  by (cases m) auto

lemma rbind_assoc: "rbind (rbind m f) g = rbind m (\<lambda>x. rbind (f x) g)"
  by (cases m) auto

lemma rbind_cong [fundef_cong]:
  "m = m' \<Longrightarrow> (\<And>x. m' = Inr x \<Longrightarrow> f x = g x) \<Longrightarrow> rbind m f = rbind m' g"
  by (cases m') auto

lemma check_Inr_iff [simp, res_simps]: "check b e = Inr u \<longleftrightarrow> b"
  by (auto simp: check_def)

lemma check_Inl_iff [simp]: "check b e = Inl x \<longleftrightarrow> \<not> b \<and> x = e"
  by (auto simp: check_def)

lemma check_True [simp]: "check True e = Inr ()"
  by (simp add: check_def)

lemma check_False [simp]: "check False e = Inl e"
  by (simp add: check_def)

lemma ex_Inr_True [simp]: "(\<exists>b. r = Inr b \<and> b) \<longleftrightarrow> r = Inr True"
  "(\<exists>b. r = Inr b \<and> b \<and> P) \<longleftrightarrow> r = Inr True \<and> P"
  by auto

lemma if_Inr_unit [simp]: "(if b then r else Inr ()) = Inr u \<longleftrightarrow> (b \<longrightarrow> r = Inr ())"
  by simp

lemma is_ok_simps [simp]: "is_ok (Inr x)" "\<not> is_ok (Inl e)"
  by (simp_all add: is_ok_def)

lemma is_ok_iff: "is_ok r \<longleftrightarrow> (\<exists>x. r = Inr x)"
  by (cases r) auto

lemma not_is_ok_iff: "\<not> is_ok r \<longleftrightarrow> (\<exists>e. r = Inl e)"
  by (cases r) auto

lemma each_Inr_iff [simp, res_simps]: "each f xs = Inr u \<longleftrightarrow> (\<forall>x \<in> set xs. f x = Inr ())"
  by (induction xs) auto

lemma each_Inl_D: "each f xs = Inl e \<Longrightarrow> \<exists>x \<in> set xs. f x = Inl e"
  by (induction xs) (auto simp: rbind_Inl_iff)

lemma rmap_Inr_iff [res_simps]:
  "rmap f xs = Inr ys \<longleftrightarrow> length ys = length xs \<and> (\<forall>i < length xs. f (xs ! i) = Inr (ys ! i))"
proof (induction xs arbitrary: ys)
  case Nil
  then show ?case by auto
next
  case (Cons x xs)
  show ?case
    by (cases ys) (auto simp: Cons.IH nth_Cons less_Suc_eq_0_disj split: nat.splits)
qed

lemma rmap_pure [simp]: "rmap (\<lambda>x. Inr (g x)) xs = Inr (map g xs)"
  by (induction xs) auto

lemma rmap_cong_pure: "(\<And>x. x \<in> set xs \<Longrightarrow> f x = Inr (g x)) \<Longrightarrow> rmap f xs = Inr (map g xs)"
  by (induction xs) auto

lemma rmap_Inl_D: "rmap f xs = Inl e \<Longrightarrow> \<exists>x \<in> set xs. f x = Inl e"
  by (induction xs) (auto simp: rbind_Inl_iff)

lemma rmap_Inr_set: "rmap f xs = Inr ys \<Longrightarrow> set ys = {y. \<exists>x \<in> set xs. f x = Inr y}"
  by (induction xs arbitrary: ys) auto

lemma rfold_append: "rfold f s (xs @ ys) = rbind (rfold f s xs) (\<lambda>t. rfold f t ys)"
  by (induction xs arbitrary: s) (auto simp: rbind_assoc)

lemma rfold_invariant:
  assumes "rfold f s xs = Inr t" and "P s"
    and "\<And>s x s'. x \<in> set xs \<Longrightarrow> P s \<Longrightarrow> f s x = Inr s' \<Longrightarrow> P s'"
  shows "P t"
  using assms
proof (induction xs arbitrary: s)
  case Nil
  then show ?case by simp
next
  case (Cons x xs)
  from Cons.prems(1) obtain s' where s': "f s x = Inr s'" "rfold f s' xs = Inr t" by auto
  show ?case
    by (rule Cons.IH [OF s'(2)]) (use Cons.prems s' in auto)
qed

lemma of_option_Inr_iff [simp, res_simps]: "of_option e r = Inr x \<longleftrightarrow> r = Some x"
  by (auto simp: of_option_def split: option.splits)

lemma of_option_Inl_iff [simp]: "of_option e r = Inl x \<longleftrightarrow> r = None \<and> x = e"
  by (auto simp: of_option_def split: option.splits)

lemma of_option_Some [simp]: "of_option e (Some x) = Inr x"
  by (simp add: of_option_def)

lemma of_option_None [simp]: "of_option e None = Inl e"
  by (simp add: of_option_def)

section \<open>Strings\<close>

definition starts_with :: "string \<Rightarrow> string \<Rightarrow> bool" where
  "starts_with p s \<longleftrightarrow> take (length p) s = p"

definition ends_with :: "string \<Rightarrow> string \<Rightarrow> bool" where
  "ends_with p s \<longleftrightarrow> starts_with (rev p) (rev s)"

definition removeprefix :: "string \<Rightarrow> string \<Rightarrow> string" where
  "removeprefix p s = (if starts_with p s then drop (length p) s else s)"

definition is_space :: "char \<Rightarrow> bool" where
  "is_space c \<longleftrightarrow> c \<in> {CHR '' '', CHR 0x09, CHR 0x0A, CHR 0x0B, CHR 0x0C, CHR 0x0D,
     CHR 0x1C, CHR 0x1D, CHR 0x1E, CHR 0x1F}"

definition strip :: "string \<Rightarrow> string" where
  "strip s = rev (dropWhile is_space (rev (dropWhile is_space s)))"

definition lower_char :: "char \<Rightarrow> char" where
  "lower_char c = (if CHR ''A'' \<le> c \<and> c \<le> CHR ''Z'' then char_of (of_char c + (32::nat)) else c)"

definition lower :: "string \<Rightarrow> string" where
  "lower s = map lower_char s"

fun join :: "string \<Rightarrow> string list \<Rightarrow> string" where
  "join sep [] = []"
| "join sep [s] = s"
| "join sep (s # t # ss) = s @ sep @ join sep (t # ss)"

lemma starts_with_append [simp]: "starts_with p (p @ s)"
  by (simp add: starts_with_def)

lemma starts_with_iff: "starts_with p s \<longleftrightarrow> (\<exists>t. s = p @ t)"
  by (auto simp: starts_with_def) (metis append_take_drop_id)

lemma ends_with_iff: "ends_with p s \<longleftrightarrow> (\<exists>t. s = t @ p)"
  by (auto simp: ends_with_def starts_with_iff) (metis rev_append rev_rev_ident)

lemma removeprefix_append [simp]: "removeprefix p (p @ s) = s"
  by (simp add: removeprefix_def)

lemma strip_Nil [simp]: "strip [] = []"
  by (simp add: strip_def)

text \<open>\<open>str.splitlines\<close> and \<open>str.split\<close>; both end because a suffix is left.\<close>

definition is_break :: "char \<Rightarrow> bool" where
  "is_break c \<longleftrightarrow> c \<in> {CHR 0x0A, CHR 0x0B, CHR 0x0C, CHR 0x0D, CHR 0x1C, CHR 0x1D, CHR 0x1E}"

function splitlines :: "string \<Rightarrow> string list" where
  "splitlines s =
     (if s = [] then []
      else takeWhile (\<lambda>c. \<not> is_break c) s #
        (case dropWhile (\<lambda>c. \<not> is_break c) s of
           [] \<Rightarrow> []
         | c # r \<Rightarrow> splitlines (if c = CHR 0x0D \<and> r \<noteq> [] \<and> hd r = CHR 0x0A then drop 1 r else r)))"
  by auto
termination
proof (relation "measure length")
  fix s :: string and c r
  assume "dropWhile (\<lambda>c. \<not> is_break c) s = c # r"
  then have "length (c # r) \<le> length s" by (metis length_dropWhile_le)
  then show "(if c = CHR 0x0D \<and> r \<noteq> [] \<and> hd r = CHR 0x0A then drop 1 r else r, s) \<in> measure length" by auto
qed simp

declare splitlines.simps [simp del]

function split_words :: "string \<Rightarrow> string list" where
  "split_words s =
     (case dropWhile is_space s of
        [] \<Rightarrow> []
      | c # r \<Rightarrow> takeWhile (\<lambda>c. \<not> is_space c) (c # r) # split_words (dropWhile (\<lambda>c. \<not> is_space c) r))"
  by auto
termination
proof (relation "measure length")
  fix s :: string and c r
  assume "dropWhile is_space s = c # r"
  then have "length (c # r) \<le> length s" by (metis length_dropWhile_le)
  moreover have "length (dropWhile (\<lambda>c. \<not> is_space c) r) \<le> length r" by (rule length_dropWhile_le)
  ultimately show "(dropWhile (\<lambda>c. \<not> is_space c) r, s) \<in> measure length" by simp
qed simp

declare split_words.simps [simp del]

section \<open>Dictionaries with their insertion order\<close>

lemma map_of_update [simp]: "map_of (AList.update k v al) = (map_of al)(k \<mapsto> v)"
  by (rule update_conv')

lemma map_of_delete [simp]: "map_of (AList.delete k al) = (map_of al)(k := None)"
  by (rule delete_conv')

lemma distinct_update [simp]:
  "distinct (map fst al) \<Longrightarrow> distinct (map fst (AList.update k v al))"
  by (rule distinct_update)

lemma distinct_delete [simp]:
  "distinct (map fst al) \<Longrightarrow> distinct (map fst (AList.delete k al))"
  by (rule distinct_delete)

lemma set_keys_update [simp]: "fst ` set (AList.update k v al) = insert k (fst ` set al)"
  by (metis dom_map_of_conv_image_fst dom_fun_upd map_of_update option.distinct(1))

lemma set_keys_delete [simp]: "fst ` set (AList.delete k al) = fst ` set al - {k}"
  by (metis dom_map_of_conv_image_fst dom_fun_upd map_of_delete)

lemma map_of_eq_None_set: "map_of al k = None \<longleftrightarrow> k \<notin> fst ` set al"
  by (simp add: map_of_eq_None_iff)

lemma map_of_Some_key: "map_of al k = Some v \<Longrightarrow> k \<in> fst ` set al"
  by (metis map_of_eq_None_iff option.distinct(1))

lemma update_fresh: "map_of al k = None \<Longrightarrow> AList.update k v al = al @ [(k, v)]"
  by (induction al) (auto split: if_splits)

section \<open>Sorted lists of keys\<close>

definition sorted_set :: "('a::linorder) set \<Rightarrow> 'a list" where
  "sorted_set A = sorted_list_of_set A"

lemma sorted_set_set [code_unfold]: "sorted_set (set xs) = sort (remdups xs)"
  by (simp add: sorted_set_def sorted_list_of_set_sort_remdups)

lemma set_sorted_set [simp]: "finite A \<Longrightarrow> set (sorted_set A) = A"
  by (simp add: sorted_set_def)

lemma sorted_sorted_set [simp]: "sorted (sorted_set A)" "distinct (sorted_set A)"
  by (simp_all add: sorted_set_def)

section \<open>Machines\<close>

text \<open>
  A component that processes a sequence of inputs, each of which may fail: \<open>rfold step\<close> runs it.
  \<open>inv\<close> is its invariant and \<open>grow\<close> a preorder along which its state only moves.
\<close>

locale replay_machine =
  fixes step :: "'s \<Rightarrow> 'e \<Rightarrow> 's res"
    and inv :: "'s \<Rightarrow> bool"
    and grow :: "'s \<Rightarrow> 's \<Rightarrow> bool"
  assumes step_ok: "step s e = Inr s' \<Longrightarrow> inv s \<Longrightarrow> inv s' \<and> grow s s'"
    and grow_refl: "grow s s"
    and grow_trans: "grow s t \<Longrightarrow> grow t u \<Longrightarrow> grow s u"
begin

lemma run_ok: "rfold step s es = Inr t \<Longrightarrow> inv s \<Longrightarrow> inv t \<and> grow s t"
proof (induction es arbitrary: s)
  case Nil
  then show ?case by (simp add: grow_refl)
next
  case (Cons e es)
  then obtain s' where s': "step s e = Inr s'" "rfold step s' es = Inr t" by auto
  with step_ok Cons.prems have "inv s'" "grow s s'" by blast+
  with Cons.IH [OF s'(2)] show ?case by (blast intro: grow_trans)
qed

lemma run_prefix:
  assumes "rfold step s (xs @ ys) = Inr t" and "inv s"
  shows "\<exists>m. rfold step s xs = Inr m \<and> inv m \<and> grow m t"
  using assms run_ok by (auto simp: rfold_append)

end

section \<open>State and exceptions\<close>

text \<open>
  An operation on a mutable store returns the store together with its result, since what it
  changed before it raised stays changed. \<open>sbind\<close> sequences such operations, \<open>pure_res s r\<close> is a
  computation \<open>r\<close> that leaves the store \<open>s\<close> alone.
\<close>

fun sbind :: "'s \<times> 'a res \<Rightarrow> ('s \<Rightarrow> 'a \<Rightarrow> 's \<times> 'b res) \<Rightarrow> 's \<times> 'b res" where
  "sbind (s, Inl e) f = (s, Inl e)"
| "sbind (s, Inr x) f = f s x"

definition pure_res :: "'s \<Rightarrow> 'a res \<Rightarrow> 's \<times> 'a res" where
  "pure_res s r = (s, r)"

lemma sbind_pure_Inl [simp]: "sbind (pure_res s (Inl e)) f = (s, Inl e)"
  by (simp add: pure_res_def)

lemma sbind_pure_Inr [simp]: "sbind (pure_res s (Inr x)) f = f s x"
  by (simp add: pure_res_def)

lemma fst_pure_res [simp]: "fst (pure_res s r) = s" "snd (pure_res s r) = r"
  by (simp_all add: pure_res_def)

text \<open>The store after a sequence is the store after its first part or after its second part.\<close>

lemma fst_sbind_keep [simp]: "fst (sbind (s, r) (\<lambda>s x. (s, f x))) = s"
  by (cases r) simp_all

lemma snd_sbind_Inr [res_simps]:
  "snd (sbind m f) = Inr y \<longleftrightarrow> (\<exists>x. snd m = Inr x \<and> snd (f (fst m) x) = Inr y)"
  by (cases "snd m"; cases m) auto

lemma fst_sbind_invariant [inv_intros]:
  "P (fst m) \<Longrightarrow> (\<And>x. snd m = Inr x \<Longrightarrow> P (fst (f (fst m) x))) \<Longrightarrow> P (fst (sbind m f))"
  by (cases "snd m"; cases m) auto

lemma pure_res_Inr_iff [simp]: "pure_res s r = (t, Inr x) \<longleftrightarrow> t = s \<and> r = Inr x"
  by (auto simp: pure_res_def)

lemma sbind_InrE:
  assumes "sbind m f = (t, Inr y)"
  obtains s x where "m = (s, Inr x)" "f s x = (t, Inr y)"
  using assms by (cases m; cases "snd m") auto

lemma sbind_ret_InrE:
  assumes "sbind m (\<lambda>s x. (s, Inr (g s x))) = (t, Inr y)"
  obtains x where "m = (t, Inr x)" "y = g t x"
  using assms by (cases m; cases "snd m") auto

lemma fst_sbind_ret [simp]: "fst (sbind m (\<lambda>w x. (w, f w x))) = fst m"
  by (cases m; cases "snd m") auto

lemma is_okE:
  assumes "is_ok r"
  obtains x where "r = Inr x"
  using assms by (cases r) auto

end
