(* ===== verification/Json.thy ===== *)
theory Json
  imports Prelude
begin

text \<open>
  JSON values as the Python program holds them, \<open>json.dumps(value, sort_keys=True,
  separators=(",", ":"), ensure_ascii=False)\<close> and \<open>json.loads\<close>.

  \<^item> A Python dictionary is \<open>JObj\<close> of an association list in insertion order; a Python float is
    \<open>JFloat\<close> of the text \<open>float.__repr__\<close> gives, which \<open>dumps\<close> writes and \<open>loads\<close> reads back
    exactly; numbers are unbounded \<open>int\<close>.
  \<^item> \<open>canon\<close> sorts the keys of every object, \<open>enc\<close> prints a value as it stands, \<open>dumps\<close> is their
    composition. \<open>loads\<close> is the decoder, with a fuel that is the length of the text; a lone or
    paired surrogate escape is decoded as its code point's three UTF-8 bytes.
  \<^item> The round trip \<open>loads (dumps v) = Some (canon v)\<close> for every well-formed \<open>v\<close> (distinct keys,
    float texts that are float literals) is what the stores rely on: it is the locale
    \<open>json_codec\<close> and its interpretation.
  \<^item> \<open>truthy\<close>, \<open>py_str\<close>, \<open>py_eq\<close>, \<open>index\<close> and their kin are the Python operations the program
    applies to such values.
\<close>

section \<open>Values\<close>

datatype json =
    JNull
  | JBool bool
  | JInt int
  | JFloat string
  | JStr string
  | JArr "json list"
  | JObj "(string \<times> json) list"

type_synonym dict = "(string \<times> json) list"

fun canon :: "json \<Rightarrow> json" where
  "canon (JArr vs) = JArr (map canon vs)"
| "canon (JObj ps) = JObj (sort_key fst (map (\<lambda>(k, v). (k, canon v)) ps))"
| "canon v = v"

section \<open>Encoding\<close>

definition digit_char :: "nat \<Rightarrow> char" where
  "digit_char d = char_of (48 + d)"

fun show_nat :: "nat \<Rightarrow> string" where
  "show_nat n = (if n < 10 then [digit_char n] else show_nat (n div 10) @ [digit_char (n mod 10)])"

declare show_nat.simps [simp del]

definition show_int :: "int \<Rightarrow> string" where
  "show_int i = (if i < 0 then CHR ''-'' # show_nat (nat (- i)) else show_nat (nat i))"

definition hex_digit :: "nat \<Rightarrow> char" where
  "hex_digit d = (if d < 10 then char_of (48 + d) else char_of (87 + d))"

definition enc_char :: "char \<Rightarrow> string" where
  "enc_char c =
     (if c = CHR 0x22 then [CHR 0x5C, CHR 0x22]
      else if c = CHR 0x5C then [CHR 0x5C, CHR 0x5C]
      else if c = CHR 0x0A then [CHR 0x5C, CHR ''n'']
      else if c = CHR 0x0D then [CHR 0x5C, CHR ''r'']
      else if c = CHR 0x09 then [CHR 0x5C, CHR ''t'']
      else if c = CHR 0x0C then [CHR 0x5C, CHR ''f'']
      else if c = CHR 0x08 then [CHR 0x5C, CHR ''b'']
      else if of_char c < (32 :: nat)
        then [CHR 0x5C, CHR ''u'', CHR ''0'', CHR ''0'',
              hex_digit (of_char c div 16), hex_digit (of_char c mod 16)]
      else [c])"

definition enc_str :: "string \<Rightarrow> string" where
  "enc_str s = CHR 0x22 # concat (map enc_char s) @ [CHR 0x22]"

fun enc :: "json \<Rightarrow> string"
and enc_elems :: "json list \<Rightarrow> string"
and enc_members :: "(string \<times> json) list \<Rightarrow> string" where
  "enc JNull = ''null''"
| "enc (JBool True) = ''true''"
| "enc (JBool False) = ''false''"
| "enc (JInt i) = show_int i"
| "enc (JFloat t) = t"
| "enc (JStr s) = enc_str s"
| "enc (JArr []) = ''[]''"
| "enc (JArr (v # vs)) = CHR ''['' # enc v @ enc_elems vs"
| "enc (JObj []) = ''{}''"
| "enc (JObj ((k, v) # ps)) = CHR ''{'' # enc_str k @ CHR '':'' # enc v @ enc_members ps"
| "enc_elems [] = '']''"
| "enc_elems (v # vs) = CHR '','' # enc v @ enc_elems vs"
| "enc_members [] = ''}''"
| "enc_members ((k, v) # ps) = CHR '','' # enc_str k @ CHR '':'' # enc v @ enc_members ps"

definition dumps :: "json \<Rightarrow> string" where
  "dumps v = enc (canon v)"

section \<open>Decoding\<close>

definition json_ws :: "char \<Rightarrow> bool" where
  "json_ws c \<longleftrightarrow> c \<in> {CHR '' '', CHR 0x09, CHR 0x0A, CHR 0x0D}"

definition skip_ws :: "string \<Rightarrow> string" where
  "skip_ws s = dropWhile json_ws s"

definition is_digit :: "char \<Rightarrow> bool" where
  "is_digit c \<longleftrightarrow> 48 \<le> (of_char c :: nat) \<and> (of_char c :: nat) \<le> 57"

definition num_char :: "char \<Rightarrow> bool" where
  "num_char c \<longleftrightarrow> is_digit c \<or> c \<in> {CHR ''-'', CHR ''+'', CHR ''.'', CHR ''e'', CHR ''E''}"

definition read_nat :: "string \<Rightarrow> nat" where
  "read_nat ds = foldl (\<lambda>n c. 10 * n + (of_char c - 48)) 0 ds"

definition nat_text :: "string \<Rightarrow> bool" where
  "nat_text ds \<longleftrightarrow> ds \<noteq> [] \<and> list_all is_digit ds \<and> (hd ds = CHR ''0'' \<longrightarrow> tl ds = [])"

definition unsigned :: "string \<Rightarrow> string" where
  "unsigned s = (case s of [] \<Rightarrow> [] | c # cs \<Rightarrow> if c = CHR ''-'' then cs else s)"

definition int_text :: "string \<Rightarrow> bool" where
  "int_text s \<longleftrightarrow> nat_text (unsigned s)"

definition read_int :: "string \<Rightarrow> int" where
  "read_int s = (if s \<noteq> [] \<and> hd s = CHR ''-'' then - int (read_nat (tl s)) else int (read_nat s))"

definition exp_text :: "string \<Rightarrow> bool" where
  "exp_text s \<longleftrightarrow> (case s of
      [] \<Rightarrow> True
    | c # cs \<Rightarrow> c \<in> {CHR ''e'', CHR ''E''} \<and>
        (let ds = (case cs of [] \<Rightarrow> [] | d # ds' \<Rightarrow> if d \<in> {CHR ''+'', CHR ''-''} then ds' else cs)
         in ds \<noteq> [] \<and> list_all is_digit ds))"

definition float_text :: "string \<Rightarrow> bool" where
  "float_text s \<longleftrightarrow>
     (let u = unsigned s; ip = takeWhile is_digit u; r = dropWhile is_digit u in
      list_all num_char s \<and> nat_text ip \<and> r \<noteq> [] \<and>
      (if hd r = CHR ''.''
       then takeWhile is_digit (tl r) \<noteq> [] \<and> exp_text (dropWhile is_digit (tl r))
       else exp_text r))"

definition parse_number :: "string \<Rightarrow> (json \<times> string) option" where
  "parse_number s =
     (let t = takeWhile num_char s; r = dropWhile num_char s in
      if int_text t then Some (JInt (read_int t), r)
      else if float_text t then Some (JFloat t, r)
      else None)"

definition unhex :: "char \<Rightarrow> nat option" where
  "unhex c = (let n = of_char c :: nat in
     if 48 \<le> n \<and> n \<le> 57 then Some (n - 48)
     else if 97 \<le> n \<and> n \<le> 102 then Some (n - 87)
     else if 65 \<le> n \<and> n \<le> 70 then Some (n - 55)
     else None)"

definition utf8_of :: "nat \<Rightarrow> string" where
  "utf8_of n =
     (if n < 128 then [char_of n]
      else if n < 2048 then [char_of (192 + n div 64), char_of (128 + n mod 64)]
      else [char_of (224 + n div 4096), char_of (128 + n div 64 mod 64), char_of (128 + n mod 64)])"

definition unescape :: "char \<Rightarrow> string option" where
  "unescape c =
     (if c = CHR 0x22 \<or> c = CHR 0x5C \<or> c = CHR ''/'' then Some [c]
      else if c = CHR ''b'' then Some [CHR 0x08]
      else if c = CHR ''f'' then Some [CHR 0x0C]
      else if c = CHR ''n'' then Some [CHR 0x0A]
      else if c = CHR ''r'' then Some [CHR 0x0D]
      else if c = CHR ''t'' then Some [CHR 0x09]
      else None)"

text \<open>The rest of a string literal, after its opening quote.\<close>

fun parse_chars :: "nat \<Rightarrow> string \<Rightarrow> (string \<times> string) option" where
  "parse_chars 0 s = None"
| "parse_chars (Suc n) [] = None"
| "parse_chars (Suc n) (c # cs) =
     (if c = CHR 0x22 then Some ([], cs)
      else if c = CHR 0x5C then
        (case cs of
           [] \<Rightarrow> None
         | e # es \<Rightarrow>
             if e = CHR ''u'' then
               (case es of
                  a # b # x # y # es' \<Rightarrow>
                    (case (unhex a, unhex b, unhex x, unhex y) of
                       (Some ha, Some hb, Some hx, Some hy) \<Rightarrow>
                         map_option (\<lambda>(t, r). (utf8_of (4096 * ha + 256 * hb + 16 * hx + hy) @ t, r))
                           (parse_chars n es')
                     | _ \<Rightarrow> None)
                | _ \<Rightarrow> None)
             else (case unescape e of
                     None \<Rightarrow> None
                   | Some u \<Rightarrow> map_option (\<lambda>(t, r). (u @ t, r)) (parse_chars n es)))
      else if of_char c < (32 :: nat) then None
      else map_option (\<lambda>(t, r). (c # t, r)) (parse_chars n cs))"

definition parse_key :: "nat \<Rightarrow> string \<Rightarrow> (string \<times> string) option" where
  "parse_key n s =
     (case skip_ws s of
        [] \<Rightarrow> None
      | c # cs \<Rightarrow>
          if c \<noteq> CHR 0x22 then None
          else (case parse_chars n cs of
                  None \<Rightarrow> None
                | Some (k, r) \<Rightarrow>
                    (case skip_ws r of
                       [] \<Rightarrow> None
                     | d # ds \<Rightarrow> if d = CHR '':'' then Some (k, ds) else None)))"

text \<open>
  \<open>parse_elems\<close> and \<open>parse_members\<close> read what follows an element or a member: a comma and the
  next one, or the closing bracket.
\<close>

fun parse_value :: "nat \<Rightarrow> string \<Rightarrow> (json \<times> string) option"
and parse_elems :: "nat \<Rightarrow> string \<Rightarrow> (json list \<times> string) option"
and parse_members :: "nat \<Rightarrow> string \<Rightarrow> ((string \<times> json) list \<times> string) option" where
  "parse_value 0 s = None"
| "parse_value (Suc n) s =
     (case skip_ws s of
        [] \<Rightarrow> None
      | c # cs \<Rightarrow>
          if c = CHR 0x22 then map_option (\<lambda>(t, r). (JStr t, r)) (parse_chars (Suc n) cs)
          else if c = CHR ''['' then
            (case skip_ws cs of
               [] \<Rightarrow> None
             | d # ds \<Rightarrow>
                 if d = CHR '']'' then Some (JArr [], ds)
                 else (case parse_value n cs of
                         None \<Rightarrow> None
                       | Some (v, r) \<Rightarrow> map_option (\<lambda>(vs, r'). (JArr (v # vs), r')) (parse_elems n r)))
          else if c = CHR ''{'' then
            (case skip_ws cs of
               [] \<Rightarrow> None
             | d # ds \<Rightarrow>
                 if d = CHR ''}'' then Some (JObj [], ds)
                 else (case parse_key n cs of
                         None \<Rightarrow> None
                       | Some (k, r) \<Rightarrow>
                           (case parse_value n r of
                              None \<Rightarrow> None
                            | Some (v, r') \<Rightarrow>
                                map_option
                                  (\<lambda>(ps, r''). (JObj (foldl (\<lambda>d (k, v). AList.update k v d) [] ((k, v) # ps)), r''))
                                  (parse_members n r'))))
          else if starts_with ''null'' (c # cs) then Some (JNull, drop 4 (c # cs))
          else if starts_with ''true'' (c # cs) then Some (JBool True, drop 4 (c # cs))
          else if starts_with ''false'' (c # cs) then Some (JBool False, drop 5 (c # cs))
          else parse_number (c # cs))"
| "parse_elems 0 s = None"
| "parse_elems (Suc n) s =
     (case skip_ws s of
        [] \<Rightarrow> None
      | c # cs \<Rightarrow>
          if c = CHR '']'' then Some ([], cs)
          else if c = CHR '','' then
            (case parse_value n cs of
               None \<Rightarrow> None
             | Some (v, r) \<Rightarrow> map_option (\<lambda>(vs, r'). (v # vs, r')) (parse_elems n r))
          else None)"
| "parse_members 0 s = None"
| "parse_members (Suc n) s =
     (case skip_ws s of
        [] \<Rightarrow> None
      | c # cs \<Rightarrow>
          if c = CHR ''}'' then Some ([], cs)
          else if c = CHR '','' then
            (case parse_key n cs of
               None \<Rightarrow> None
             | Some (k, r) \<Rightarrow>
                 (case parse_value n r of
                    None \<Rightarrow> None
                  | Some (v, r') \<Rightarrow> map_option (\<lambda>(ps, r''). ((k, v) # ps, r'')) (parse_members n r')))
          else None)"

definition loads :: "string \<Rightarrow> json option" where
  "loads s = (case parse_value (Suc (length s)) s of
      None \<Rightarrow> None
    | Some (v, r) \<Rightarrow> if skip_ws r = [] then Some v else None)"

section \<open>Well-formed values\<close>

fun wf_json :: "json \<Rightarrow> bool" where
  "wf_json (JFloat t) = float_text t"
| "wf_json (JArr vs) = (\<forall>v \<in> set vs. wf_json v)"
| "wf_json (JObj ps) = (distinct (map fst ps) \<and> (\<forall>p \<in> set ps. wf_json (snd p)))"
| "wf_json _ = True"

section \<open>The round trip\<close>

subsection \<open>Numbers\<close>

lemma is_digit_digit_char: "d < 10 \<Longrightarrow> is_digit (digit_char d)"
  by (simp add: is_digit_def digit_char_def)

lemma of_char_digit_char: "d < 10 \<Longrightarrow> of_char (digit_char d) = 48 + d"
  by (simp add: digit_char_def)

lemma show_nat_digits: "list_all is_digit (show_nat n)"
proof (induction n rule: show_nat.induct)
  case (1 n)
  then show ?case
    by (subst show_nat.simps) (auto simp: is_digit_digit_char)
qed

lemma show_nat_nonempty [simp]: "show_nat n \<noteq> []"
  by (subst show_nat.simps) simp

lemma read_nat_append: "read_nat (ds @ [d]) = 10 * read_nat ds + (of_char d - 48)"
  by (simp add: read_nat_def)

lemma read_show_nat [simp]: "read_nat (show_nat n) = n"
proof (induction n rule: show_nat.induct)
  case (1 n)
  show ?case
  proof (cases "n < 10")
    case True
    then show ?thesis
      by (subst show_nat.simps) (simp add: read_nat_def of_char_digit_char)
  next
    case False
    with 1 have "read_nat (show_nat (n div 10)) = n div 10" by simp
    with False show ?thesis
      by (subst show_nat.simps) (simp add: read_nat_append of_char_digit_char)
  qed
qed

lemma hd_show_nat_zero: "hd (show_nat n) = CHR ''0'' \<Longrightarrow> n = 0"
proof (induction n rule: show_nat.induct)
  case (1 n)
  show ?case
  proof (cases "n < 10")
    case True
    have "hd (show_nat n) = digit_char n"
      using True by (subst show_nat.simps) simp
    with "1.prems" have "of_char (digit_char n) = (of_char CHR ''0'' :: nat)" by simp
    with True show ?thesis by (simp add: of_char_digit_char)
  next
    case False
    have "hd (show_nat n) = hd (show_nat (n div 10))"
      using False by (subst show_nat.simps) simp
    with 1 False have "n div 10 = 0" by simp
    with False show ?thesis by simp
  qed
qed

lemma nat_text_show_nat: "nat_text (show_nat n)"
proof -
  have "hd (show_nat n) = CHR ''0'' \<longrightarrow> tl (show_nat n) = []"
    using hd_show_nat_zero [of n] by (auto simp: show_nat.simps [of 0])
  then show ?thesis
    by (simp add: nat_text_def show_nat_digits)
qed

lemma digit_not_minus: "is_digit c \<Longrightarrow> c \<noteq> CHR ''-''"
  by (auto simp: is_digit_def)

lemma hd_show_nat_digit: "is_digit (hd (show_nat n))"
  using show_nat_digits [of n] show_nat_nonempty [of n] by (cases "show_nat n") auto

lemma int_text_show_int: "int_text (show_int i)"
proof (cases "i < 0")
  case True
  then show ?thesis by (simp add: int_text_def show_int_def unsigned_def nat_text_show_nat)
next
  case False
  have "unsigned (show_nat (nat i)) = show_nat (nat i)"
    using hd_show_nat_digit [of "nat i"] digit_not_minus
    by (cases "show_nat (nat i)") (auto simp: unsigned_def)
  with False show ?thesis by (simp add: int_text_def show_int_def nat_text_show_nat)
qed

lemma read_show_int [simp]: "read_int (show_int i) = i"
proof (cases "i < 0")
  case True
  then show ?thesis by (simp add: read_int_def show_int_def)
next
  case False
  have "hd (show_nat (nat i)) \<noteq> CHR ''-''"
    using hd_show_nat_digit [of "nat i"] digit_not_minus by blast
  with False show ?thesis by (simp add: read_int_def show_int_def)
qed

lemma digits_num_char: "list_all is_digit s \<Longrightarrow> list_all num_char s"
  by (auto simp: list_all_iff num_char_def)

lemma show_int_num_char: "list_all num_char (show_int i)"
  using digits_num_char [OF show_nat_digits] by (simp add: show_int_def num_char_def)

definition stops :: "string \<Rightarrow> bool" where
  "stops r \<longleftrightarrow> r = [] \<or> \<not> num_char (hd r)"

lemma takeWhile_stops:
  "list_all num_char t \<Longrightarrow> stops r \<Longrightarrow> takeWhile num_char (t @ r) = t \<and> dropWhile num_char (t @ r) = r"
  by (cases r) (auto simp: stops_def list_all_iff takeWhile_append dropWhile_append)

lemma parse_number_int: "stops r \<Longrightarrow> parse_number (show_int i @ r) = Some (JInt i, r)"
  using takeWhile_stops [OF show_int_num_char, of r i]
  by (simp add: parse_number_def int_text_show_int)

lemma float_not_int: "float_text t \<Longrightarrow> \<not> int_text t"
proof
  assume f: "float_text t" and i: "int_text t"
  let ?u = "unsigned t"
  from i have "list_all is_digit ?u" by (simp add: int_text_def nat_text_def)
  then have "dropWhile is_digit ?u = []" by (simp add: list_all_iff)
  with f show False by (simp add: float_text_def Let_def)
qed

lemma parse_number_float: "float_text t \<Longrightarrow> stops r \<Longrightarrow> parse_number (t @ r) = Some (JFloat t, r)"
  using takeWhile_stops [of t r] float_not_int [of t]
  by (auto simp: parse_number_def float_text_def Let_def)

subsection \<open>String literals\<close>

lemma unhex_hex_digit: "d < 16 \<Longrightarrow> unhex (hex_digit d) = Some d"
  by (auto simp: unhex_def hex_digit_def Let_def)

lemma parse_chars_enc:
  "length s < n \<Longrightarrow> parse_chars n (concat (map enc_char s) @ CHR 0x22 # r) = Some (s, r)"
proof (induction s arbitrary: n)
  case Nil
  then show ?case by (cases n) auto
next
  case (Cons c s)
  from Cons.prems obtain m where n: "n = Suc m" and m: "length s < m" by (cases n) auto
  note IH = Cons.IH [OF m]
  have z: "unhex CHR ''0'' = Some 0" by (simp add: unhex_def)
  show ?case
  proof (cases "enc_char c = [c]")
    case True
    then have "c \<noteq> CHR 0x22" "c \<noteq> CHR 0x5C" "\<not> of_char c < (32 :: nat)"
      by (auto simp: enc_char_def split: if_splits)
    with True IH n show ?thesis by simp
  next
    case False
    show ?thesis
    proof (cases "c \<in> {CHR 0x22, CHR 0x5C, CHR 0x0A, CHR 0x0D, CHR 0x09, CHR 0x0C, CHR 0x08}")
      case True
      then show ?thesis using IH n by (auto simp: enc_char_def unescape_def)
    next
      case c: False
      with False have lt: "of_char c < (32 :: nat)" by (auto simp: enc_char_def split: if_splits)
      with c have e: "enc_char c = [CHR 0x5C, CHR ''u'', CHR ''0'', CHR ''0'',
          hex_digit (of_char c div 16), hex_digit (of_char c mod 16)]"
        by (auto simp: enc_char_def)
      have d: "of_char c div 16 < (16 :: nat)" "of_char c mod 16 < (16 :: nat)"
        using lt by auto
      have "utf8_of (16 * (of_char c div 16) + of_char c mod 16) = [c]"
        using lt by (simp add: utf8_of_def)
      then show ?thesis
        using IH n e d by (simp add: z unhex_hex_digit)
    qed
  qed
qed


subsection \<open>Values\<close>

lemma hd_json_number:
  assumes "c = CHR ''-'' \<or> is_digit c"
  shows "skip_ws (c # cs) = c # cs" "c \<noteq> CHR 0x22" "c \<noteq> CHR ''[''" "c \<noteq> CHR ''{''"
    "\<not> starts_with ''null'' (c # cs)" "\<not> starts_with ''true'' (c # cs)"
    "\<not> starts_with ''false'' (c # cs)"
  using assms by (auto simp: skip_ws_def json_ws_def is_digit_def starts_with_def)

lemma hd_show_int: "\<exists>c cs. show_int i = c # cs \<and> (c = CHR ''-'' \<or> is_digit c)"
  using hd_show_nat_digit [of "nat i"] show_nat_nonempty [of "nat i"]
  by (cases "show_nat (nat i)") (auto simp: show_int_def)

lemma hd_float_text: "float_text t \<Longrightarrow> \<exists>c cs. t = c # cs \<and> (c = CHR ''-'' \<or> is_digit c)"
  by (cases t) (auto simp: float_text_def unsigned_def nat_text_def Let_def split: if_splits)

lemma parse_value_number:
  assumes "t = c # cs" and "c = CHR ''-'' \<or> is_digit c"
  shows "parse_value (Suc n) (t @ r) = parse_number (t @ r)"
  using hd_json_number [OF assms(2)] by (simp add: assms(1))

lemma foldl_update_distinct:
  "distinct (map fst (acc @ ps)) \<Longrightarrow> foldl (\<lambda>d (k, v). AList.update k v d) acc ps = acc @ ps"
proof (induction ps arbitrary: acc)
  case Nil
  then show ?case by simp
next
  case (Cons p ps)
  obtain k v where p: "p = (k, v)" by (cases p)
  from Cons.prems have "map_of acc k = None" by (auto simp: p map_of_eq_None_iff)
  then have "AList.update k v acc = acc @ [(k, v)]" by (rule update_fresh)
  with Cons.IH [of "acc @ [(k, v)]"] Cons.prems show ?case by (simp add: p)
qed

lemma enc_nonempty [simp]: "wf_json v \<Longrightarrow> enc v \<noteq> []"
  using hd_show_int hd_float_text
  by (cases v rule: enc.cases) (auto simp: enc_str_def, metis list.distinct(1))

lemma hd_enc:
  assumes "wf_json v" and "enc v = c # cs"
  shows "\<not> json_ws c \<and> c \<noteq> CHR '']''"
proof (cases v)
  case (JInt i)
  then show ?thesis
    using assms(2) hd_show_int [of i] by (auto simp: json_ws_def is_digit_def)
next
  case (JFloat t)
  then show ?thesis
    using assms hd_float_text [of t] by (auto simp: json_ws_def is_digit_def)
next
  case (JBool b)
  then show ?thesis using assms(2) by (cases b) (auto simp: json_ws_def)
next
  case (JArr vs)
  then show ?thesis using assms(2) by (cases vs) (auto simp: json_ws_def)
next
  case (JObj ps)
  then show ?thesis using assms(2) by (cases ps) (auto simp: json_ws_def)
qed (use assms in \<open>auto simp: json_ws_def enc_str_def\<close>)

lemma stops_elems: "stops (enc_elems vs @ r)"
  by (cases vs) (auto simp: stops_def num_char_def is_digit_def)

lemma stops_members: "stops (enc_members ps @ r)"
  by (cases ps) (auto simp: stops_def num_char_def is_digit_def)

lemma parse_key_enc:
  assumes "length (enc_str k) \<le> n"
  shows "parse_key n (enc_str k @ CHR '':'' # r) = Some (k, r)"
proof -
  have "length s \<le> length (concat (map enc_char s))" for s
    by (induction s) (auto simp: enc_char_def)
  from this [of k] assms have "length k < n" by (simp add: enc_str_def)
  from parse_chars_enc [OF this] show ?thesis
    by (simp add: parse_key_def enc_str_def skip_ws_def json_ws_def)
qed

lemma parse_enc:
  "\<lbrakk>wf_json v; length (enc v) \<le> n; stops r\<rbrakk> \<Longrightarrow> parse_value n (enc v @ r) = Some (v, r)"
  "\<lbrakk>\<forall>v \<in> set vs. wf_json v; length (enc_elems vs) \<le> n\<rbrakk>
    \<Longrightarrow> parse_elems n (enc_elems vs @ r) = Some (vs, r)"
  "\<lbrakk>\<forall>p \<in> set ps. wf_json (snd p); length (enc_members ps) \<le> n\<rbrakk>
    \<Longrightarrow> parse_members n (enc_members ps @ r) = Some (ps, r)"
proof (induction v and vs and ps arbitrary: n r and n r and n r
    rule: enc_enc_elems_enc_members.induct)
  case (1 n r)
  then show ?case by (cases n) (auto simp: skip_ws_def json_ws_def starts_with_def)
next
  case (2 n r)
  then show ?case by (cases n) (auto simp: skip_ws_def json_ws_def starts_with_def)
next
  case (3 n r)
  then show ?case by (cases n) (auto simp: skip_ws_def json_ws_def starts_with_def)
next
  case (4 i n r)
  obtain c cs where c: "show_int i = c # cs" "c = CHR ''-'' \<or> is_digit c" using hd_show_int by blast
  with 4 obtain m where "n = Suc m" by (cases n) auto
  then show ?case using parse_value_number [OF c] parse_number_int [OF "4.prems"(3)] by simp
next
  case (5 t n r)
  then have ft: "float_text t" by simp
  obtain c cs where c: "t = c # cs" "c = CHR ''-'' \<or> is_digit c" using hd_float_text [OF ft] by blast
  with 5 obtain m where "n = Suc m" by (cases n) auto
  then show ?case using parse_value_number [OF c] parse_number_float [OF ft "5.prems"(3)] by simp
next
  case (6 s n r)
  then obtain m where n: "n = Suc m" by (cases n) (auto simp: enc_str_def)
  have "length s \<le> length (concat (map enc_char s))" for s
    by (induction s) (auto simp: enc_char_def)
  from this [of s] "6.prems"(2) n have "length s < Suc m" by (simp add: enc_str_def)
  from parse_chars_enc [OF this] show ?case
    by (simp add: n enc_str_def skip_ws_def json_ws_def)
next
  case (7 n r)
  then show ?case by (cases n) (auto simp: skip_ws_def json_ws_def)
next
  case (8 v vs n r)
  then obtain m where n: "n = Suc m" by (cases n) auto
  have wf: "wf_json v" "\<forall>v \<in> set vs. wf_json v" using "8.prems"(1) by auto
  have len: "length (enc v) \<le> m" "length (enc_elems vs) \<le> m" using "8.prems"(2) n by auto
  have v: "parse_value m (enc v @ enc_elems vs @ r) = Some (v, enc_elems vs @ r)"
    by (rule "8.IH"(1) [OF wf(1) len(1) stops_elems])
  obtain c cs where c: "enc v = c # cs" using enc_nonempty [OF wf(1)] by (cases "enc v") auto
  note hd_enc [OF wf(1) c]
  then show ?case
    using v "8.IH"(2) [OF wf(2) len(2)] by (simp add: n c skip_ws_def) (simp add: json_ws_def)
next
  case (9 n r)
  then show ?case by (cases n) (auto simp: skip_ws_def json_ws_def)
next
  case (10 k v ps n r)
  then obtain m where n: "n = Suc m" by (cases n) auto
  have wf: "wf_json v" "\<forall>p \<in> set ps. wf_json (snd p)" "distinct (map fst ((k, v) # ps))"
    using "10.prems"(1) by auto
  have len: "length (enc_str k) \<le> m" "length (enc v) \<le> m" "length (enc_members ps) \<le> m"
    using "10.prems"(2) n by auto
  have k: "parse_key m (enc_str k @ CHR '':'' # enc v @ enc_members ps @ r)
      = Some (k, enc v @ enc_members ps @ r)"
    by (rule parse_key_enc [OF len(1)])
  have v: "parse_value m (enc v @ enc_members ps @ r) = Some (v, enc_members ps @ r)"
    by (rule "10.IH"(1) [OF wf(1) len(2) stops_members])
  have s: "dropWhile json_ws (enc_str k @ t) = CHR 0x22 # concat (map enc_char k) @ CHR 0x22 # t"
    for t
    by (simp add: enc_str_def json_ws_def)
  have "\<not> json_ws CHR ''{''" by (simp add: json_ws_def)
  then show ?case
    using k v "10.IH"(2) [OF wf(2) len(3)] foldl_update_distinct [of "[]" "(k, v) # ps"] wf(3)
    by (simp add: n skip_ws_def s)
next
  case (11 n r)
  then show ?case by (cases n) (auto simp: skip_ws_def json_ws_def)
next
  case (12 v vs n r)
  then obtain m where n: "n = Suc m" by (cases n) auto
  have "parse_value m (enc v @ enc_elems vs @ r) = Some (v, enc_elems vs @ r)"
    by (rule "12.IH"(1) [OF _ _ stops_elems]) (use "12.prems" n in auto)
  moreover have "parse_elems m (enc_elems vs @ r) = Some (vs, r)"
    by (rule "12.IH"(2)) (use "12.prems" n in auto)
  ultimately show ?case by (simp add: n skip_ws_def json_ws_def)
next
  case (13 n r)
  then show ?case by (cases n) (auto simp: skip_ws_def json_ws_def)
next
  case (14 k v ps n r)
  then obtain m where n: "n = Suc m" by (cases n) auto
  have "parse_key m (enc_str k @ CHR '':'' # enc v @ enc_members ps @ r)
      = Some (k, enc v @ enc_members ps @ r)"
    by (rule parse_key_enc) (use "14.prems" n in auto)
  moreover have "parse_value m (enc v @ enc_members ps @ r) = Some (v, enc_members ps @ r)"
    by (rule "14.IH"(1) [OF _ _ stops_members]) (use "14.prems" n in auto)
  moreover have "parse_members m (enc_members ps @ r) = Some (ps, r)"
    by (rule "14.IH"(2)) (use "14.prems" n in auto)
  ultimately show ?case by (simp add: n skip_ws_def json_ws_def)
qed


subsection \<open>Canonical form\<close>

lemma distinct_map_fst_sort_key [simp]:
  "distinct (map fst (sort_key f ps)) \<longleftrightarrow> distinct (map fst ps)"
  by (simp add: distinct_map)

lemma canon_idem [simp]: "canon (canon v) = canon v"
proof (induction v rule: canon.induct)
  case (2 ps)
  have "map (\<lambda>(k, v). (k, canon v)) (sort_key fst (map (\<lambda>(k, v). (k, canon v)) ps))
      = sort_key fst (map (\<lambda>(k, v). (k, canon v)) ps)"
    by (rule map_idI) (use 2 in \<open>auto\<close>)
  then show ?case by (simp add: sort_key_id_if_sorted)
qed auto

lemma wf_canon: "wf_json v \<Longrightarrow> wf_json (canon v)"
proof (induction v rule: canon.induct)
  case (2 ps)
  let ?qs = "map (\<lambda>(k, v). (k, canon v)) ps"
  have "map fst ?qs = map fst ps" by (simp add: case_prod_beta comp_def)
  then have "distinct (map fst ?qs)" using "2.prems" by (simp del: map_map)
  then have "distinct (map fst (sort_key fst ?qs))"
    by (simp del: map_map)
  moreover have "wf_json (snd p)" if "p \<in> set ?qs" for p
    using that 2 by fastforce
  ultimately show ?case by auto
qed auto

lemma loads_dumps [simp]: "wf_json v \<Longrightarrow> loads (dumps v) = Some (canon v)"
  using parse_enc(1) [OF wf_canon, of v "Suc (length (dumps v))" "[]"]
  by (simp add: loads_def dumps_def stops_def skip_ws_def)

lemma loads_dumps_nl [simp]: "wf_json v \<Longrightarrow> loads (dumps v @ [CHR 0x0A]) = Some (canon v)"
proof -
  assume wf: "wf_json v"
  have "stops [CHR 0x0A]" by (simp add: stops_def num_char_def is_digit_def)
  then show ?thesis
    using parse_enc(1) [OF wf_canon [OF wf], of "Suc (length (dumps v @ [CHR 0x0A]))" "[CHR 0x0A]"]
    by (simp add: loads_def dumps_def skip_ws_def json_ws_def)
qed

lemma dumps_canon [simp]: "dumps (canon v) = dumps v"
  by (simp add: dumps_def)

lemma dumps_eq_iff: "wf_json v \<Longrightarrow> wf_json w \<Longrightarrow> dumps v = dumps w \<longleftrightarrow> canon v = canon w"
  by (metis dumps_canon loads_dumps option.inject)


section \<open>The codec as an interface\<close>

text \<open>
  What a store needs of its document format: a document written from a value reads back as the
  normal form of the value, and equal documents are equal normal forms.
\<close>

locale json_codec =
  fixes encode :: "'v \<Rightarrow> string"
    and decode :: "string \<Rightarrow> 'v option"
    and norm :: "'v \<Rightarrow> 'v"
    and wf :: "'v \<Rightarrow> bool"
  assumes decode_encode: "wf v \<Longrightarrow> decode (encode v) = Some (norm v)"
    and encode_norm: "encode (norm v) = encode v"
    and wf_norm: "wf v \<Longrightarrow> wf (norm v)"
begin

lemma encode_inj: "wf v \<Longrightarrow> wf w \<Longrightarrow> encode v = encode w \<Longrightarrow> norm v = norm w"
  by (metis decode_encode option.inject)

lemma encode_eq_iff: "wf v \<Longrightarrow> wf w \<Longrightarrow> encode v = encode w \<longleftrightarrow> norm v = norm w"
  by (metis encode_inj encode_norm)

lemma reencode: "wf v \<Longrightarrow> decode (encode v) = Some w \<Longrightarrow> encode w = encode v"
  by (auto simp: decode_encode encode_norm)

lemma norm_idem: "wf v \<Longrightarrow> norm (norm v) = norm v"
  by (metis decode_encode encode_norm option.inject wf_norm)

end

definition canonical :: "json \<Rightarrow> string" where
  "canonical v = dumps v @ [CHR 0x0A]"

interpretation doc: json_codec canonical loads canon wf_json
  by unfold_locales (simp_all add: canonical_def wf_canon)

interpretation compact: json_codec dumps loads canon wf_json
  by unfold_locales (simp_all add: wf_canon)

section \<open>Python operations on values\<close>

text \<open>
  \<open>truthy v\<close> is \<open>bool(v)\<close>; \<open>float_zero\<close> are the reprs of the zeros.
\<close>

definition float_zero :: "string \<Rightarrow> bool" where
  "float_zero t \<longleftrightarrow> t = ''0.0'' \<or> t = ''-0.0''"

fun truthy :: "json \<Rightarrow> bool" where
  "truthy JNull = False"
| "truthy (JBool b) = b"
| "truthy (JInt i) = (i \<noteq> 0)"
| "truthy (JFloat t) = (\<not> float_zero t)"
| "truthy (JStr s) = (s \<noteq> [])"
| "truthy (JArr vs) = (vs \<noteq> [])"
| "truthy (JObj ps) = (ps \<noteq> [])"

definition repr_char :: "char \<Rightarrow> char \<Rightarrow> string" where
  "repr_char q c =
     (if c = CHR 0x5C \<or> c = q then [CHR 0x5C, c]
      else if c = CHR 0x0A then [CHR 0x5C, CHR ''n'']
      else if c = CHR 0x0D then [CHR 0x5C, CHR ''r'']
      else if c = CHR 0x09 then [CHR 0x5C, CHR ''t'']
      else if of_char c < (32 :: nat) \<or> of_char c = (127 :: nat)
        then [CHR 0x5C, CHR ''x'', hex_digit (of_char c div 16), hex_digit (of_char c mod 16)]
      else [c])"

definition repr_str :: "string \<Rightarrow> string" where
  "repr_str s =
     (let q = (if CHR 0x27 \<in> set s \<and> CHR 0x22 \<notin> set s then CHR 0x22 else CHR 0x27)
      in q # concat (map (repr_char q) s) @ [q])"

fun py_repr :: "json \<Rightarrow> string" where
  "py_repr JNull = ''None''"
| "py_repr (JBool b) = (if b then ''True'' else ''False'')"
| "py_repr (JInt i) = show_int i"
| "py_repr (JFloat t) = t"
| "py_repr (JStr s) = repr_str s"
| "py_repr (JArr vs) = CHR ''['' # join '', '' (map py_repr vs) @ '']''"
| "py_repr (JObj ps) =
     CHR ''{'' # join '', '' (map (\<lambda>(k, v). repr_str k @ '': '' @ py_repr v) ps) @ ''}''"

fun py_str :: "json \<Rightarrow> string" where
  "py_str (JStr s) = s"
| "py_str v = py_repr v"

text \<open>
  \<open>v == w\<close>. Dictionaries compare by key, \<open>True\<close> and \<open>False\<close> equal 1 and 0, and an integral float
  whose repr has no exponent equals its integer.
\<close>

fun eq_form :: "json \<Rightarrow> json" where
  "eq_form (JBool b) = JInt (if b then 1 else 0)"
| "eq_form (JFloat t) =
     (if ends_with ''.0'' t then JInt (read_int (take (length t - 2) t)) else JFloat t)"
| "eq_form (JArr vs) = JArr (map eq_form vs)"
| "eq_form (JObj ps) = JObj (sort_key fst (map (\<lambda>(k, v). (k, eq_form v)) ps))"
| "eq_form v = v"

definition py_eq :: "json \<Rightarrow> json \<Rightarrow> bool" where
  "py_eq v w \<longleftrightarrow> eq_form v = eq_form w"

lemma py_eq_refl [simp]: "py_eq v v"
  by (simp add: py_eq_def)

lemma py_eq_sym: "py_eq v w \<longleftrightarrow> py_eq w v"
  by (auto simp: py_eq_def)

lemma py_eq_trans: "py_eq u v \<Longrightarrow> py_eq v w \<Longrightarrow> py_eq u w"
  by (simp add: py_eq_def)

lemma py_eq_JStr [simp]: "py_eq (JStr s) v \<longleftrightarrow> v = JStr s" "py_eq v (JStr s) \<longleftrightarrow> v = JStr s"
  by (cases v; auto simp: py_eq_def)+

lemma py_eq_JNull [simp]: "py_eq JNull v \<longleftrightarrow> v = JNull" "py_eq v JNull \<longleftrightarrow> v = JNull"
  by (cases v; auto simp: py_eq_def)+

text \<open>\<open>d.get(k)\<close>, \<open>d.get(k, default)\<close>, \<open>d[k]\<close> on a dictionary, and \<open>v[k]\<close> on any value.\<close>

definition dget :: "dict \<Rightarrow> string \<Rightarrow> json" where
  "dget d k = (case map_of d k of None \<Rightarrow> JNull | Some v \<Rightarrow> v)"

definition dget_or :: "dict \<Rightarrow> string \<Rightarrow> json \<Rightarrow> json" where
  "dget_or d k dflt = (case map_of d k of None \<Rightarrow> dflt | Some v \<Rightarrow> v)"

definition dindex :: "dict \<Rightarrow> string \<Rightarrow> json res" where
  "dindex d k = of_option (Exn KeyError k) (map_of d k)"

definition index :: "json \<Rightarrow> string \<Rightarrow> json res" where
  "index v k = (case v of JObj d \<Rightarrow> dindex d k | _ \<Rightarrow> Inl (Exn TypeError ''indices''))"

definition as_dict :: "json \<Rightarrow> dict res" where
  "as_dict v = (case v of JObj d \<Rightarrow> Inr d | _ \<Rightarrow> Inl (Exn TypeError ''not a mapping''))"

text \<open>
  Attribute access \<open>v.get\<close> on a value that is no dictionary raises \<open>AttributeError\<close>; iteration
  over a value visits list elements, dictionary keys or the characters of a string.
\<close>

definition get_attr :: "json \<Rightarrow> string \<Rightarrow> json \<Rightarrow> json res" where
  "get_attr v k dflt =
     (case v of JObj d \<Rightarrow> Inr (dget_or d k dflt) | _ \<Rightarrow> Inl (Exn AttributeError ''get''))"

definition py_iter :: "json \<Rightarrow> json list res" where
  "py_iter v = (case v of
       JArr vs \<Rightarrow> Inr vs
     | JObj d \<Rightarrow> Inr (map (\<lambda>p. JStr (fst p)) d)
     | JStr s \<Rightarrow> Inr (map (\<lambda>c. JStr [c]) s)
     | _ \<Rightarrow> Inl (Exn TypeError ''not iterable''))"

definition is_str :: "json \<Rightarrow> bool" where
  "is_str v \<longleftrightarrow> (case v of JStr _ \<Rightarrow> True | _ \<Rightarrow> False)"

definition is_obj :: "json \<Rightarrow> bool" where
  "is_obj v \<longleftrightarrow> (case v of JObj _ \<Rightarrow> True | _ \<Rightarrow> False)"

definition is_arr :: "json \<Rightarrow> bool" where
  "is_arr v \<longleftrightarrow> (case v of JArr _ \<Rightarrow> True | _ \<Rightarrow> False)"

text \<open>\<open>isinstance(v, str) and v.strip()\<close>.\<close>

definition nonblank_str :: "json \<Rightarrow> bool" where
  "nonblank_str v \<longleftrightarrow> (case v of JStr s \<Rightarrow> strip s \<noteq> [] | _ \<Rightarrow> False)"

definition strs :: "string list \<Rightarrow> json" where
  "strs ss = JArr (map JStr ss)"

text \<open>
  \<open>x in c\<close>: an element of a list, a key of a dictionary or a substring of a string. A value used
  as the key of a dictionary must be a string here (\<open>key_str\<close>): the schemas of the program make
  every identifier one.
\<close>

fun substring :: "string \<Rightarrow> string \<Rightarrow> bool" where
  "substring p [] = (p = [])"
| "substring p (c # cs) = (starts_with p (c # cs) \<or> substring p cs)"

definition py_in :: "json \<Rightarrow> json \<Rightarrow> bool res" where
  "py_in x c = (case c of
       JArr vs \<Rightarrow> Inr (\<exists>v \<in> set vs. py_eq x v)
     | JObj d \<Rightarrow> Inr (\<exists>k \<in> fst ` set d. x = JStr k)
     | JStr s \<Rightarrow> (case x of JStr p \<Rightarrow> Inr (substring p s) | _ \<Rightarrow> Inl (Exn TypeError ''in''))
     | _ \<Rightarrow> Inl (Exn TypeError ''in''))"

definition key_str :: "json \<Rightarrow> string res" where
  "key_str v = (case v of JStr s \<Rightarrow> Inr s | _ \<Rightarrow> Inl (Exn TypeError ''key''))"

text \<open>\<open>int(v)\<close> on the values that stand where the program computes with an \<open>int\<close>.\<close>

definition py_int :: "json \<Rightarrow> int res" where
  "py_int v = (case v of JInt i \<Rightarrow> Inr i | JBool b \<Rightarrow> Inr (if b then 1 else 0) | _ \<Rightarrow> Inl (Exn TypeError ''int''))"

text \<open>
  \<open>set(v)\<close> or \<open>frozenset(v)\<close>, of which the program only asks whether a \<open>str\<close> is in it: the
  strings among the elements, or \<open>TypeError\<close> for an unhashable element.
\<close>

definition str_set :: "json \<Rightarrow> string set res" where
  "str_set v = rbind (py_iter v) (\<lambda>vs.
     rbind (each (\<lambda>w. check (\<not> is_arr w \<and> \<not> is_obj w) (Exn TypeError ''unhashable'')) vs)
       (\<lambda>_. Inr (set (concat (map (\<lambda>w. case w of JStr s \<Rightarrow> [s] | _ \<Rightarrow> []) vs)))))"

text \<open>\<open>v[0]\<close> of a list or a string.\<close>

definition first_item :: "json \<Rightarrow> json res" where
  "first_item v =
     (case v of
        JArr (x # _) \<Rightarrow> Inr x
      | JArr [] \<Rightarrow> Inl (Exn IndexError ''list index out of range'')
      | JStr (c # _) \<Rightarrow> Inr (JStr [c])
      | JStr [] \<Rightarrow> Inl (Exn IndexError ''string index out of range'')
      | JObj _ \<Rightarrow> Inl (Exn KeyError ''0'')
      | _ \<Rightarrow> Inl (Exn TypeError ''not subscriptable''))"

text \<open>The strings among the elements of a list: membership of a \<open>str\<close> in it needs no other.\<close>

fun str_items :: "json \<Rightarrow> string list" where
  "str_items (JArr vs) = concat (map (\<lambda>v. case v of JStr s \<Rightarrow> [s] | _ \<Rightarrow> []) vs)"
| "str_items _ = []"

lemma dindex_Inr_iff [simp, res_simps]: "dindex d k = Inr v \<longleftrightarrow> map_of d k = Some v"
  by (simp add: dindex_def)

lemma dindex_Some [simp]: "map_of d k = Some v \<Longrightarrow> dindex d k = Inr v"
  by simp

lemma dindex_Inl_iff [simp]: "dindex d k = Inl e \<longleftrightarrow> map_of d k = None \<and> e = Exn KeyError k"
  by (simp add: dindex_def)

lemma index_Inr_iff [simp, res_simps]:
  "index v k = Inr w \<longleftrightarrow> (\<exists>d. v = JObj d \<and> map_of d k = Some w)"
  by (auto simp: index_def split: json.splits)

lemma index_JObj [simp]: "index (JObj d) k = dindex d k"
  by (simp add: index_def)

lemma as_dict_Inr_iff [simp, res_simps]: "as_dict v = Inr d \<longleftrightarrow> v = JObj d"
  by (auto simp: as_dict_def split: json.splits)

lemma as_dict_JObj [simp]: "as_dict (JObj d) = Inr d"
  by simp

lemma py_iter_JArr [simp]: "py_iter (JArr vs) = Inr vs"
  by (simp add: py_iter_def)

lemma get_attr_JObj [simp]: "get_attr (JObj d) k v = Inr (dget_or d k v)"
  by (simp add: get_attr_def)

lemma key_str_Inr_iff [simp, res_simps]: "key_str v = Inr s \<longleftrightarrow> v = JStr s"
  by (cases v) (auto simp: key_str_def)

lemma key_str_JStr [simp]: "key_str (JStr s) = Inr s"
  by simp

lemma py_in_JArr [simp]: "py_in x (JArr vs) = Inr (\<exists>v \<in> set vs. py_eq x v)"
  by (simp add: py_in_def)

lemma py_in_strs [simp]: "py_in (JStr s) (strs ss) = Inr (s \<in> set ss)"
  by (auto simp: py_in_def strs_def)

lemma str_set_strs [simp]: "str_set (strs ss) = Inr (set ss)"
  by (auto simp: str_set_def strs_def is_arr_def is_obj_def comp_def)

lemma str_items_strs [simp]: "str_items (strs ss) = ss"
  by (induction ss) (auto simp: strs_def)

lemma py_iter_strs [simp]: "py_iter (strs ss) = Inr (map JStr ss)"
  by (simp add: strs_def)

lemma wf_strs [simp]: "wf_json (strs ss)"
  by (auto simp: strs_def)

lemma dget_Some [simp]: "map_of d k = Some v \<Longrightarrow> dget d k = v"
  by (simp add: dget_def)

lemma dget_None [simp]: "map_of d k = None \<Longrightarrow> dget d k = JNull"
  by (simp add: dget_def)

lemma dget_or_Some [simp]: "map_of d k = Some v \<Longrightarrow> dget_or d k w = v"
  by (simp add: dget_or_def)

lemma dget_or_None [simp]: "map_of d k = None \<Longrightarrow> dget_or d k w = w"
  by (simp add: dget_or_def)

lemma wf_update: "wf_json (JObj d) \<Longrightarrow> wf_json v \<Longrightarrow> wf_json (JObj (AList.update k v d))"
  by (induction d) auto

lemma map_of_map_snd: "map_of (map (\<lambda>(k, v). (k, f v)) ps) k = map_option f (map_of ps k)"
  by (induction ps) auto

lemma map_of_sort_key_fst: "distinct (map fst ps) \<Longrightarrow> map_of (sort_key fst ps) = map_of ps"
  by (rule map_of_inject_set [THEN iffD2]) auto

lemma map_of_canon:
  assumes "distinct (map fst d)" and "canon (JObj d) = JObj d'"
  shows "map_of d' k = map_option canon (map_of d k)"
proof -
  have "distinct (map fst (map (\<lambda>(k, v). (k, canon v)) d))"
    using assms(1) by (simp add: case_prod_beta comp_def)
  then show ?thesis
    using assms(2) by (auto simp: map_of_sort_key_fst map_of_map_snd simp del: map_map)
qed

section \<open>UTF-8\<close>

text \<open>\<open>bytes.decode("utf-8")\<close>: the strict decoder's acceptance test over byte values.\<close>

fun utf8_bytes :: "nat list \<Rightarrow> bool" where
  "utf8_bytes [] = True"
| "utf8_bytes (a # bs) =
     (if a < 128 then utf8_bytes bs
      else if 194 \<le> a \<and> a \<le> 223 then
        (case bs of b # bs' \<Rightarrow> b div 64 = 2 \<and> utf8_bytes bs' | _ \<Rightarrow> False)
      else if 224 \<le> a \<and> a \<le> 239 then
        (case bs of b # c # bs' \<Rightarrow>
           b div 64 = 2 \<and> c div 64 = 2 \<and> (a = 224 \<longrightarrow> 160 \<le> b) \<and> (a = 237 \<longrightarrow> b < 160)
             \<and> utf8_bytes bs'
         | _ \<Rightarrow> False)
      else if 240 \<le> a \<and> a \<le> 244 then
        (case bs of b # c # d # bs' \<Rightarrow>
           b div 64 = 2 \<and> c div 64 = 2 \<and> d div 64 = 2 \<and> (a = 240 \<longrightarrow> 144 \<le> b)
             \<and> (a = 244 \<longrightarrow> b < 144) \<and> utf8_bytes bs'
         | _ \<Rightarrow> False)
      else False)"

definition utf8_valid :: "string \<Rightarrow> bool" where
  "utf8_valid bs \<longleftrightarrow> utf8_bytes (map of_char bs)"

definition decode_utf8 :: "string \<Rightarrow> string res" where
  "decode_utf8 bs = (if utf8_valid bs then Inr bs else Inl (Exn UnicodeDecodeError []))"

end
