(* ===== verification/Packs.thy ===== *)
theory Packs
  imports Json
begin

text \<open>
  Knowledge packs: access control (\<open>domain/pack.py\<close>) and the validation of a set of pack
  manifests (\<open>application/ingest/pack_validation.py\<close>). A manifest is the dictionary of its JSON
  document. The JSON schema of a manifest is checked by the \<open>jsonschema\<close> package, which is the
  parameter \<open>V\<close> of the definitions: whether a manifest conforms.
\<close>

section \<open>Access to packs\<close>

record pack_access =
  acc_pack_id :: json
  read_mounts :: "string set"
  write_targets :: "string set"

definition from_manifest :: "dict \<Rightarrow> pack_access res" where
  "from_manifest m =
     rbind (dindex m ''pack_id'') (\<lambda>p.
     rbind (dindex m ''read_mounts'') (\<lambda>r.
     rbind (str_set r) (\<lambda>rs.
     rbind (dindex m ''write_targets'') (\<lambda>w.
     rbind (str_set w) (\<lambda>ws.
       Inr \<lparr>acc_pack_id = p, read_mounts = rs, write_targets = ws\<rparr>)))))"

definition require_read :: "pack_access \<Rightarrow> string \<Rightarrow> unit res" where
  "require_read a p = check (p \<in> read_mounts a) (Exn PackBoundaryError ''pack '')"

definition require_write :: "pack_access \<Rightarrow> string \<Rightarrow> unit res" where
  "require_write a p = check (p \<in> write_targets a) (Exn PackBoundaryError ''pack '')"

lemma require_read_Inr_iff [simp, res_simps]: "require_read a p = Inr u \<longleftrightarrow> p \<in> read_mounts a"
  by (simp add: require_read_def)

lemma require_write_Inr_iff [simp, res_simps]: "require_write a p = Inr u \<longleftrightarrow> p \<in> write_targets a"
  by (simp add: require_write_def)

section \<open>Validation of manifests\<close>

definition pack_validate :: "(json \<Rightarrow> bool) \<Rightarrow> dict \<Rightarrow> unit res" where
  "pack_validate V m =
     rbind (check (V (JObj m)) (Exn ValidationError [])) (\<lambda>_.
     rbind (dindex m ''pack_id'') (\<lambda>pid.
     rbind (dindex m ''read_mounts'') (\<lambda>rm.
     rbind (py_in pid rm) (\<lambda>b.
     rbind (check b (Exn PackBoundaryError ''a pack must be able to read itself'')) (\<lambda>_.
     rbind (dindex m ''write_targets'') (\<lambda>wt.
     rbind (py_iter wt) (\<lambda>ts.
     rbind (each (\<lambda>t. rbind (py_in t rm) (\<lambda>b.
              check b (Exn PackBoundaryError ''every write target must also be readable''))) ts) (\<lambda>_.
     rbind (py_iter (dget_or m ''dependencies'' (JArr []))) (\<lambda>deps.
       each (\<lambda>d. rbind (index d ''required'') (\<lambda>r.
         if truthy r
         then rbind (index d ''pack_id'') (\<lambda>t. rbind (py_in t rm) (\<lambda>b.
                check b (Exn PackBoundaryError ''every required dependency must be in read_mounts'')))
         else Inr ())) deps)))))))))"

definition validate_catalog :: "(json \<Rightarrow> bool) \<Rightarrow> dict list \<Rightarrow> (string \<times> dict) list res" where
  "validate_catalog V ms =
     rfold (\<lambda>by m.
       rbind (pack_validate V m) (\<lambda>_.
       rbind (dindex m ''pack_id'') (\<lambda>p.
       rbind (key_str p) (\<lambda>pid.
         if map_of by pid \<noteq> None then Inl (Exn PackBoundaryError ''duplicate pack_id: '')
         else Inr (AList.update pid m by))))) [] ms"

text \<open>
  What validation establishes about one manifest: it conforms to the schema, it reads itself, and
  its write targets and its required dependencies are among its read mounts.
\<close>

definition pack_boundary_ok :: "dict \<Rightarrow> bool" where
  "pack_boundary_ok m \<longleftrightarrow>
     (\<exists>pid rm. map_of m ''pack_id'' = Some pid \<and> map_of m ''read_mounts'' = Some rm
        \<and> py_in pid rm = Inr True
        \<and> (\<exists>wt ts. map_of m ''write_targets'' = Some wt \<and> py_iter wt = Inr ts
             \<and> (\<forall>t \<in> set ts. py_in t rm = Inr True))
        \<and> (\<exists>deps. py_iter (dget_or m ''dependencies'' (JArr [])) = Inr deps
             \<and> (\<forall>d \<in> set deps. \<exists>r. index d ''required'' = Inr r
                  \<and> (truthy r \<longrightarrow> (\<exists>t. index d ''pack_id'' = Inr t \<and> py_in t rm = Inr True)))))"

lemma pack_validate_iff: "pack_validate V m = Inr () \<longleftrightarrow> V (JObj m) \<and> pack_boundary_ok m"
  by (simp add: pack_validate_def pack_boundary_ok_def) blast

end
