(* ===== verification/Packset.thy ===== *)
theory Packset
  imports Packs
begin

text \<open>
  The mounted pack dependency graph and packset locks (\<open>domain/packset.py\<close>), and the set
  validation that calls them (\<open>application/ingest/pack_validation.py\<close>).

  \<^item> \<open>validate_pack_dependency_graph\<close> resolves every manifest's dependencies (\<open>resolve_all\<close>) and
    walks the resolved graph depth first (\<open>visit\<close>). The walk has a fuel, the number of packs plus
    one, which the lemmas below show is never used up. It accepts exactly the catalogs that
    \<open>graph_ok\<close> describes, acyclicity included.
  \<^item> A lock is the dictionary of its JSON content. \<open>sha\<close> is SHA-256 in hexadecimal, a parameter.
\<close>

section \<open>Resolving dependencies\<close>

definition deps_by_target :: "dict \<Rightarrow> (string \<times> dict) list res" where
  "deps_by_target m =
     rbind (py_iter (dget_or m ''dependencies'' (JArr []))) (\<lambda>deps.
       rfold (\<lambda>by d.
         rbind (index d ''pack_id'') (\<lambda>t.
           let target = py_str t in
           if map_of by target \<noteq> None
           then rbind (dindex m ''pack_id'') (\<lambda>_.
                  Inl (Exn PackBoundaryError ''duplicate dependency for pack ''))
           else rbind (as_dict d) (\<lambda>d'. Inr (AList.update target d' by)))) [] deps)"

definition standard_layer_rank :: "string \<Rightarrow> nat option" where
  "standard_layer_rank k = map_of [(''common'', 0), (''domain'', 1), (''project'', 2)] k"

definition pack_kind :: "dict \<Rightarrow> string" where
  "pack_kind m = py_str (dget_or m ''kind'' (JStr []))"

definition layer_violation :: "string \<Rightarrow> string \<Rightarrow> bool" where
  "layer_violation source_kind target_kind \<longleftrightarrow>
     (case (standard_layer_rank source_kind, standard_layer_rank target_kind) of
        (Some s, Some t) \<Rightarrow> t \<ge> s
      | _ \<Rightarrow> False)"

definition resolve_target ::
  "(string \<times> dict) list \<Rightarrow> string \<Rightarrow> (string \<times> dict) list \<Rightarrow> string list \<Rightarrow> string \<Rightarrow> string list res" where
  "resolve_target ms source_kind deps acc target =
     (case map_of ms target of
        None \<Rightarrow>
          rbind (index (JObj (the (map_of deps target))) ''required'') (\<lambda>r.
            if truthy r then Inl (Exn PackBoundaryError ''required dependency '') else Inr acc)
      | Some tm \<Rightarrow>
          if layer_violation source_kind (pack_kind tm)
          then Inl (Exn PackBoundaryError ''dependency layer violation: '')
          else Inr (acc @ [target]))"

definition resolve_pack ::
  "(string \<times> dict) list \<Rightarrow> (string \<times> string list) list \<Rightarrow> string \<Rightarrow> (string \<times> string list) list res" where
  "resolve_pack ms adj pid =
     (let m = the (map_of ms pid) in
      rbind (check (py_eq (dget m ''pack_id'') (JStr pid))
               (Exn PackBoundaryError ''manifest identity mismatch: catalog key '')) (\<lambda>_.
      rbind (deps_by_target m) (\<lambda>deps.
      rbind (rfold (resolve_target ms (pack_kind m) deps) [] (sort (map fst deps))) (\<lambda>resolved.
        Inr (AList.update pid resolved adj)))))"

definition resolve_all :: "(string \<times> dict) list \<Rightarrow> (string \<times> string list) list res" where
  "resolve_all ms = rfold (resolve_pack ms) [] (sort (map fst ms))"

section \<open>The depth-first walk\<close>

text \<open>
  The closure variables of \<open>visit\<close>: the status of a pack is absent (0), on the stack (1) or done
  (2).
\<close>

record walk =
  status :: "string \<Rightarrow> nat"
  stack :: "string list"

definition walk_start :: walk where
  "walk_start = \<lparr>status = (\<lambda>_. 0), stack = []\<rparr>"

fun visit :: "nat \<Rightarrow> (string \<Rightarrow> string list) \<Rightarrow> string \<Rightarrow> walk \<Rightarrow> walk res"
and visit_all :: "nat \<Rightarrow> (string \<Rightarrow> string list) \<Rightarrow> string list \<Rightarrow> walk \<Rightarrow> walk res" where
  "visit 0 adj p s = Inl (Exn RecursionError [])"
| "visit (Suc n) adj p s =
     (if status s p = 2 then Inr s
      else if status s p = 1 then Inl (Exn PackBoundaryError ''dependency cycle: '')
      else rbind (visit_all n adj (adj p)
                   (s\<lparr>status := (status s)(p := 1), stack := stack s @ [p]\<rparr>)) (\<lambda>s'.
             Inr (s'\<lparr>stack := butlast (stack s'), status := (status s')(p := 2)\<rparr>)))"
| "visit_all n adj [] s = Inr s"
| "visit_all n adj (t # ts) s = rbind (visit n adj t s) (visit_all n adj ts)"

definition adjacency :: "(string \<times> string list) list \<Rightarrow> string \<Rightarrow> string list" where
  "adjacency adj p = (case map_of adj p of None \<Rightarrow> [] | Some ts \<Rightarrow> ts)"

definition validate_pack_dependency_graph :: "(string \<times> dict) list \<Rightarrow> unit res" where
  "validate_pack_dependency_graph ms =
     rbind (resolve_all ms) (\<lambda>adj.
     rbind (visit_all (Suc (length ms)) (adjacency adj) (sort (map fst adj)) walk_start) (\<lambda>_.
       Inr ()))"

definition validate_set :: "(json \<Rightarrow> bool) \<Rightarrow> dict list \<Rightarrow> (string \<times> dict) list res" where
  "validate_set V ms =
     rbind (validate_catalog V ms) (\<lambda>by.
     rbind (each (\<lambda>(_, m).
              rbind (py_iter (dget_or m ''dependencies'' (JArr []))) (\<lambda>deps.
                each (\<lambda>d. rbind (index d ''required'') (\<lambda>r.
                  if truthy r
                  then rbind (index d ''pack_id'') (\<lambda>t. rbind (key_str t) (\<lambda>tid.
                         check (map_of by tid \<noteq> None) (Exn PackBoundaryError ''required dependency '')))
                  else Inr ())) deps)) by) (\<lambda>_.
     rbind (validate_pack_dependency_graph by) (\<lambda>_. Inr by)))"

section \<open>Correctness of the walk\<close>

text \<open>
  While packs are on the stack they form a path of the graph, and every successor of a pack that
  is done is done. \<open>walk_inv\<close> says so, with the acyclicity of the graph among the done packs.
\<close>

definition succ_rel :: "(string \<Rightarrow> string list) \<Rightarrow> (string \<times> string) set" where
  "succ_rel adj = {(p, t). t \<in> set (adj p)}"

definition done_set :: "walk \<Rightarrow> string set" where
  "done_set s = {p. status s p = 2}"

definition walk_inv :: "(string \<Rightarrow> string list) \<Rightarrow> walk \<Rightarrow> bool" where
  "walk_inv adj s \<longleftrightarrow>
     (\<forall>p. status s p = 1 \<longleftrightarrow> p \<in> set (stack s)) \<and>
     distinct (stack s) \<and>
     (\<forall>p \<in> done_set s. set (adj p) \<subseteq> done_set s) \<and>
     acyclic (succ_rel adj \<inter> done_set s \<times> done_set s) \<and>
     (\<forall>i. Suc i < length (stack s) \<longrightarrow> stack s ! Suc i \<in> set (adj (stack s ! i)))"

lemma acyclic_add_source:
  assumes "acyclic r" and "p \<notin> Range r'" and "r' \<subseteq> r \<union> {p} \<times> UNIV"
  shows "acyclic r'"
proof (rule acyclicI, rule allI, rule notI)
  have step: "(x, y) \<in> r'\<^sup>+ \<Longrightarrow> x \<noteq> p \<Longrightarrow> (x, y) \<in> r\<^sup>+" for x y
  proof (induction rule: trancl_induct)
    case (base y)
    then show ?case using assms(3) by auto
  next
    case (step y z)
    from step.hyps(1) have "y \<in> Range r'" by (metis Range.intros trancl_range)
    then have "y \<noteq> p" using assms(2) by auto
    with step.hyps(2) have "(y, z) \<in> r" using assms(3) by auto
    with step.IH step.prems show ?case by (metis trancl.trancl_into_trancl)
  qed
  fix x assume cyc: "(x, x) \<in> r'\<^sup>+"
  then have "x \<in> Range r'" by (metis Range.intros trancl_range)
  then have "x \<noteq> p" using assms(2) by auto
  with step [OF cyc] assms(1) show False by (auto simp: acyclic_def)
qed

lemma stack_path:
  assumes "\<forall>i. Suc i < length st \<longrightarrow> st ! Suc i \<in> set (adj (st ! i))"
    and "i \<le> j" "j < length st"
  shows "(st ! i, st ! j) \<in> (succ_rel adj)\<^sup>*"
  using assms(2,3)
proof (induction j)
  case 0
  then show ?case by simp
next
  case (Suc j)
  show ?case
  proof (cases "i = Suc j")
    case False
    with Suc have "(st ! i, st ! j) \<in> (succ_rel adj)\<^sup>*" by simp
    moreover have "(st ! j, st ! Suc j) \<in> succ_rel adj"
      using assms(1) Suc.prems by (simp add: succ_rel_def)
    ultimately show ?thesis by (rule rtrancl_into_rtrancl)
  qed simp
qed

lemma gray_target_cycle:
  assumes inv: "walk_inv adj s" and top: "stack s \<noteq> [] \<Longrightarrow> p \<in> set (adj (last (stack s)))"
    and gray: "status s p = 1"
  shows "\<not> acyclic (succ_rel adj)"
proof -
  from inv gray have mem: "p \<in> set (stack s)" by (simp add: walk_inv_def)
  then obtain i where i: "i < length (stack s)" "stack s ! i = p" by (auto simp: in_set_conv_nth)
  let ?j = "length (stack s) - 1"
  have "(stack s ! i, stack s ! ?j) \<in> (succ_rel adj)\<^sup>*"
    by (rule stack_path) (use inv i in \<open>auto simp: walk_inv_def\<close>)
  moreover have "(stack s ! ?j, p) \<in> succ_rel adj"
  proof -
    have "stack s \<noteq> []" using mem by auto
    with top [OF this] show ?thesis by (simp add: succ_rel_def last_conv_nth)
  qed
  ultimately have "(p, p) \<in> (succ_rel adj)\<^sup>+" using i(2) by (metis rtrancl_into_trancl1)
  then show ?thesis by (auto simp: acyclic_def)
qed

definition enter :: "string \<Rightarrow> walk \<Rightarrow> walk" where
  "enter p s = s\<lparr>status := (status s)(p := 1), stack := stack s @ [p]\<rparr>"

definition leave :: "string \<Rightarrow> walk \<Rightarrow> walk" where
  "leave p s = s\<lparr>stack := butlast (stack s), status := (status s)(p := 2)\<rparr>"

lemma walk_inv_enter:
  assumes inv: "walk_inv adj s" and top: "stack s \<noteq> [] \<Longrightarrow> p \<in> set (adj (last (stack s)))"
    and white: "status s p \<noteq> 1" "status s p \<noteq> 2"
  shows "walk_inv adj (enter p s)"
proof -
  have d: "done_set (enter p s) = done_set s" using white by (auto simp: enter_def done_set_def)
  have p: "p \<notin> set (stack s)" using inv white by (simp add: walk_inv_def)
  have "Suc i < length (stack s @ [p]) \<longrightarrow> (stack s @ [p]) ! Suc i \<in> set (adj ((stack s @ [p]) ! i))" for i
  proof (cases "Suc i < length (stack s)")
    case True
    then show ?thesis using inv by (simp add: walk_inv_def nth_append)
  next
    case False
    show ?thesis
    proof
      assume "Suc i < length (stack s @ [p])"
      with False have "stack s \<noteq> []" "i = length (stack s) - 1" by auto
      then show "(stack s @ [p]) ! Suc i \<in> set (adj ((stack s @ [p]) ! i))"
        using top by (simp add: nth_append last_conv_nth)
    qed
  qed
  with inv p show ?thesis
    unfolding walk_inv_def d by (auto simp: enter_def)
qed

lemma walk_inv_leave:
  assumes inv: "walk_inv adj s" and st: "stack s = st @ [p]" and succ: "set (adj p) \<subseteq> done_set s"
  shows "walk_inv adj (leave p s)"
proof -
  have d: "done_set (leave p s) = insert p (done_set s)" by (auto simp: leave_def done_set_def)
  have gray: "status s p = 1" using inv st by (simp add: walk_inv_def)
  then have notdone: "p \<notin> done_set s" by (simp add: done_set_def)
  have closed: "\<forall>q \<in> done_set s. set (adj q) \<subseteq> done_set s" using inv by (simp add: walk_inv_def)
  let ?r = "succ_rel adj \<inter> done_set s \<times> done_set s"
  let ?r' = "succ_rel adj \<inter> insert p (done_set s) \<times> insert p (done_set s)"
  have "acyclic ?r'"
  proof (rule acyclic_add_source)
    show "acyclic ?r" using inv by (simp add: walk_inv_def)
    show "p \<notin> Range ?r'" using closed succ notdone by (auto simp: succ_rel_def)
    show "?r' \<subseteq> ?r \<union> {p} \<times> UNIV" using closed notdone by (auto simp: succ_rel_def)
  qed
  moreover have "\<forall>q \<in> insert p (done_set s). set (adj q) \<subseteq> insert p (done_set s)"
    using closed succ by auto
  moreover have "distinct (st @ [p])" "\<forall>q. status s q = 1 \<longleftrightarrow> q \<in> set (st @ [p])"
    using inv st by (simp_all add: walk_inv_def)
  moreover have "Suc i < length st \<longrightarrow> st ! Suc i \<in> set (adj (st ! i))" for i
  proof
    assume i: "Suc i < length st"
    then have "(st @ [p]) ! Suc i \<in> set (adj ((st @ [p]) ! i))"
      using inv st by (simp add: walk_inv_def)
    with i show "st ! Suc i \<in> set (adj (st ! i))" by (simp add: nth_append)
  qed
  ultimately show ?thesis
    unfolding walk_inv_def d by (auto simp: leave_def st)
qed

definition visited :: "walk \<Rightarrow> string set" where
  "visited s = {p. status s p = 1 \<or> status s p = 2}"

definition walk_le :: "walk \<Rightarrow> walk \<Rightarrow> bool" where
  "walk_le s t \<longleftrightarrow> stack t = stack s \<and> (\<forall>p \<in> visited s. status t p = status s p)"

lemma walk_le_refl [simp]: "walk_le s s"
  by (simp add: walk_le_def)

lemma walk_le_trans: "walk_le s t \<Longrightarrow> walk_le t u \<Longrightarrow> walk_le s u"
  by (auto simp: walk_le_def visited_def)

lemma walk_le_visited: "walk_le s t \<Longrightarrow> visited s \<subseteq> visited t"
  by (auto simp: walk_le_def visited_def)

lemma walk_le_done: "walk_le s t \<Longrightarrow> done_set s \<subseteq> done_set t"
  by (auto simp: walk_le_def visited_def done_set_def)

text \<open>What a run of the walk from a state that satisfies the invariant establishes.\<close>

definition walk_ok ::
  "(string \<Rightarrow> string list) \<Rightarrow> string set \<Rightarrow> walk \<Rightarrow> walk res \<Rightarrow> bool" where
  "walk_ok adj D s r \<longleftrightarrow> (case r of
       Inr t \<Rightarrow> walk_inv adj t \<and> walk_le s t \<and> D \<subseteq> done_set t
     | Inl e \<Rightarrow> e = Exn PackBoundaryError ''dependency cycle: '' \<and> \<not> acyclic (succ_rel adj))"

lemma visit_ok:
  fixes N :: "string set"
  assumes fin: "finite N" and closed: "\<forall>p \<in> N. set (adj p) \<subseteq> N"
  shows "\<lbrakk>walk_inv adj s; p \<in> N; stack s \<noteq> [] \<longrightarrow> p \<in> set (adj (last (stack s)));
      card (N - visited s) < n\<rbrakk> \<Longrightarrow> walk_ok adj {p} s (visit n adj p s)"
    and "\<lbrakk>walk_inv adj s; set ts \<subseteq> N; stack s \<noteq> [] \<longrightarrow> set ts \<subseteq> set (adj (last (stack s)));
      card (N - visited s) < n\<rbrakk> \<Longrightarrow> walk_ok adj (set ts) s (visit_all n adj ts s)"
  using closed
proof (induction n adj p s and n adj ts s rule: visit_visit_all.induct)
  case (1 adj p s)
  then show ?case by simp
next
  case (2 n adj p s)
  show ?case
  proof (cases "status s p = 1 \<or> status s p = 2")
    case True
    then show ?thesis
      using 2 gray_target_cycle [of adj s p] by (auto simp: walk_ok_def done_set_def)
  next
    case False
    let ?s = "enter p s"
    have inv: "walk_inv adj ?s"
      by (rule walk_inv_enter) (use 2 False in auto)
    have vis: "visited ?s = insert p (visited s)"
      using False by (auto simp: visited_def enter_def)
    have "N - visited ?s = N - visited s - {p}" using vis by auto
    moreover have "p \<in> N - visited s" using 2 False by (simp add: visited_def)
    ultimately have card: "card (N - visited ?s) < n"
      using "2.prems"(4) fin by (metis Suc_lessD Suc_less_eq card_Suc_Diff1 finite_Diff)
    have e: "visit (Suc n) adj p s = rbind (visit_all n adj (adj p) ?s) (\<lambda>t. Inr (leave p t))"
      using False by (simp add: enter_def leave_def)
    have sub: "walk_ok adj (set (adj p)) ?s (visit_all n adj (adj p) ?s)"
      unfolding enter_def
      by (rule "2.IH") (use False 2 inv card in \<open>auto simp: enter_def\<close>)
    show ?thesis
    proof (cases "visit_all n adj (adj p) ?s")
      case (Inl err)
      then show ?thesis using sub by (simp add: e walk_ok_def del: visit.simps)
    next
      case (Inr t)
      with sub have t: "walk_inv adj t" "walk_le ?s t" "set (adj p) \<subseteq> done_set t"
        by (auto simp: walk_ok_def)
      have st: "stack t = stack s @ [p]" using t(2) by (simp add: walk_le_def enter_def)
      have "walk_inv adj (leave p t)" by (rule walk_inv_leave [OF t(1) st t(3)])
      moreover have "walk_le s (leave p t)"
        using t(2) False st by (auto simp: walk_le_def leave_def enter_def visited_def)
      moreover have "p \<in> done_set (leave p t)" by (simp add: leave_def done_set_def)
      ultimately show ?thesis by (simp add: e Inr walk_ok_def del: visit.simps)
    qed
  qed
next
  case (3 n adj s)
  then show ?case by (simp add: walk_ok_def)
next
  case (4 n adj t ts s)
  have first: "walk_ok adj {t} s (visit n adj t s)"
    by (rule "4.IH"(1)) (use "4.prems" in auto)
  show ?case
  proof (cases "visit n adj t s")
    case (Inl err)
    then show ?thesis using first by (simp add: walk_ok_def)
  next
    case (Inr u)
    with first have u: "walk_inv adj u" "walk_le s u" "t \<in> done_set u" by (auto simp: walk_ok_def)
    have "card (N - visited u) \<le> card (N - visited s)"
      using walk_le_visited [OF u(2)] fin by (intro card_mono) auto
    then have card: "card (N - visited u) < n" using "4.prems"(4) by simp
    have "stack u = stack s" using u(2) by (simp add: walk_le_def)
    then have rest: "walk_ok adj (set ts) u (visit_all n adj ts u)"
      by (intro "4.IH"(2) [OF Inr]) (use "4.prems" u(1) card in auto)
    show ?thesis
    proof (cases "visit_all n adj ts u")
      case (Inl err)
      then show ?thesis using rest Inr by (simp add: walk_ok_def)
    next
      case (Inr v)
      with rest have v: "walk_inv adj v" "walk_le u v" "set ts \<subseteq> done_set v"
        by (auto simp: walk_ok_def)
      then show ?thesis
        using Inr \<open>visit n adj t s = Inr u\<close> u walk_le_trans [OF u(2) v(2)] walk_le_done [OF v(2)]
        by (auto simp: walk_ok_def)
    qed
  qed
qed

lemma walk_inv_start: "walk_inv adj walk_start"
  by (simp add: walk_inv_def walk_start_def done_set_def acyclic_def)


section \<open>What the graph validation accepts\<close>

definition mounted :: "(string \<times> dict) list \<Rightarrow> string \<Rightarrow> bool" where
  "mounted ms t \<longleftrightarrow> map_of ms t \<noteq> None"

definition target_ok :: "(string \<times> dict) list \<Rightarrow> string \<Rightarrow> (string \<times> dict) list \<Rightarrow> string \<Rightarrow> bool" where
  "target_ok ms k deps t \<longleftrightarrow>
     (case map_of ms t of
        None \<Rightarrow> (\<exists>r. map_of (the (map_of deps t)) ''required'' = Some r \<and> \<not> truthy r)
      | Some tm \<Rightarrow> \<not> layer_violation k (pack_kind tm))"

definition pack_resolves :: "(string \<times> dict) list \<Rightarrow> string \<Rightarrow> bool" where
  "pack_resolves ms p \<longleftrightarrow>
     (\<exists>m deps. map_of ms p = Some m \<and> dget m ''pack_id'' = JStr p \<and> deps_by_target m = Inr deps
        \<and> (\<forall>t \<in> fst ` set deps. target_ok ms (pack_kind m) deps t))"

definition resolved_targets :: "(string \<times> dict) list \<Rightarrow> string \<Rightarrow> string list" where
  "resolved_targets ms p =
     (case deps_by_target (the (map_of ms p)) of
        Inl _ \<Rightarrow> []
      | Inr deps \<Rightarrow> filter (mounted ms) (sort (map fst deps)))"

definition mounted_edges :: "(string \<times> dict) list \<Rightarrow> (string \<times> string) set" where
  "mounted_edges ms = {(p, t). mounted ms p \<and> t \<in> set (resolved_targets ms p)}"

definition graph_ok :: "(string \<times> dict) list \<Rightarrow> bool" where
  "graph_ok ms \<longleftrightarrow> (\<forall>p \<in> fst ` set ms. pack_resolves ms p) \<and> acyclic (mounted_edges ms)"

lemma resolve_target_Inr_iff:
  "resolve_target ms k deps acc t = Inr acc' \<longleftrightarrow>
     target_ok ms k deps t \<and> acc' = acc @ (if mounted ms t then [t] else [])"
  by (auto simp: resolve_target_def target_ok_def mounted_def split: option.splits if_splits)

lemma resolve_targets_Inr_iff:
  "rfold (resolve_target ms k deps) acc ts = Inr acc' \<longleftrightarrow>
     (\<forall>t \<in> set ts. target_ok ms k deps t) \<and> acc' = acc @ filter (mounted ms) ts"
  by (induction ts arbitrary: acc) (auto simp: resolve_target_Inr_iff)

lemma resolve_pack_Inr_iff:
  assumes "mounted ms p"
  shows "resolve_pack ms adj p = Inr adj' \<longleftrightarrow>
    pack_resolves ms p \<and> adj' = AList.update p (resolved_targets ms p) adj"
  using assms
  by (auto simp: resolve_pack_def pack_resolves_def resolved_targets_def mounted_def Let_def
      resolve_targets_Inr_iff)

lemma resolve_packs_Inr_iff:
  assumes "\<forall>p \<in> set ps. mounted ms p" and "distinct (map fst adj @ ps)"
  shows "rfold (resolve_pack ms) adj ps = Inr adj' \<longleftrightarrow>
    (\<forall>p \<in> set ps. pack_resolves ms p) \<and> adj' = adj @ map (\<lambda>p. (p, resolved_targets ms p)) ps"
  using assms
proof (induction ps arbitrary: adj)
  case Nil
  then show ?case by auto
next
  case (Cons p ps)
  from Cons.prems(2) have "map_of adj p = None" by (auto simp: map_of_eq_None_iff)
  then have u: "AList.update p (resolved_targets ms p) adj = adj @ [(p, resolved_targets ms p)]"
    by (rule update_fresh)
  show ?case
    using Cons.prems Cons.IH [of "adj @ [(p, resolved_targets ms p)]"]
    by (auto simp: resolve_pack_Inr_iff u)
qed

lemma mounted_iff: "mounted ms p \<longleftrightarrow> p \<in> fst ` set ms"
  by (simp add: mounted_def map_of_eq_None_iff)

lemma resolve_all_Inr_iff:
  assumes "distinct (map fst ms)"
  shows "resolve_all ms = Inr adj \<longleftrightarrow>
    (\<forall>p \<in> fst ` set ms. pack_resolves ms p)
      \<and> adj = map (\<lambda>p. (p, resolved_targets ms p)) (sort (map fst ms))"
  unfolding resolve_all_def
  by (subst resolve_packs_Inr_iff) (use assms in \<open>auto simp: mounted_iff\<close>)

lemma adjacency_map [simp]:
  "adjacency (map (\<lambda>p. (p, f p)) ps) p = (if p \<in> set ps then f p else [])"
  by (auto simp: adjacency_def map_of_map_restrict split: option.splits)

lemma graph_accepts_iff:
  assumes d: "distinct (map fst ms)"
  shows "validate_pack_dependency_graph ms = Inr () \<longleftrightarrow> graph_ok ms"
proof (cases "\<forall>p \<in> fst ` set ms. pack_resolves ms p")
  case False
  then show ?thesis
    using resolve_all_Inr_iff [OF d]
    by (auto simp: validate_pack_dependency_graph_def graph_ok_def)
next
  case True
  let ?ps = "sort (map fst ms)"
  let ?adj = "map (\<lambda>p. (p, resolved_targets ms p)) ?ps"
  let ?succ = "adjacency ?adj"
  let ?N = "fst ` set ms"
  have r: "resolve_all ms = Inr ?adj" using True resolve_all_Inr_iff [OF d] by blast
  have edges: "succ_rel ?succ = mounted_edges ms"
    by (auto simp: succ_rel_def mounted_edges_def mounted_iff)
  have sub: "set (resolved_targets ms p) \<subseteq> ?N" for p
    by (auto simp: resolved_targets_def mounted_iff split: sum.splits)
  then have cl: "\<forall>p \<in> ?N. set (?succ p) \<subseteq> ?N" by auto
  have fuel: "card (?N - visited walk_start) < Suc (length ms)"
    using card_image_le [of "set ms" fst] card_length [of ms]
    by (simp add: visited_def walk_start_def)
  have ok: "walk_ok ?succ (set ?ps) walk_start
      (visit_all (Suc (length ms)) ?succ ?ps walk_start)"
    by (rule visit_ok(2) [OF _ cl walk_inv_start]) (use fuel in \<open>auto simp: walk_start_def\<close>)
  have fsts: "map fst ?adj = ?ps" by (simp add: comp_def)
  show ?thesis
  proof (cases "visit_all (Suc (length ms)) ?succ ?ps walk_start")
    case (Inl e)
    then have "validate_pack_dependency_graph ms = Inl e"
      using r fsts by (simp add: validate_pack_dependency_graph_def sort_key_id_if_sorted del: map_map)
    moreover have "\<not> acyclic (mounted_edges ms)" using ok Inl edges by (simp add: walk_ok_def)
    ultimately show ?thesis by (simp add: graph_ok_def)
  next
    case (Inr t)
    then have v: "validate_pack_dependency_graph ms = Inr ()"
      using r fsts by (simp add: validate_pack_dependency_graph_def sort_key_id_if_sorted del: map_map)
    from ok Inr have t: "walk_inv ?succ t" "?N \<subseteq> done_set t" by (auto simp: walk_ok_def)
    have "mounted_edges ms \<subseteq> succ_rel ?succ \<inter> done_set t \<times> done_set t"
    proof
      fix e assume e: "e \<in> mounted_edges ms"
      then obtain p q where pq: "e = (p, q)" "p \<in> ?N" "q \<in> set (resolved_targets ms p)"
        unfolding mounted_edges_def mounted_iff by blast
      then have "q \<in> ?N" using sub by blast
      with pq e edges t(2) show "e \<in> succ_rel ?succ \<inter> done_set t \<times> done_set t" by blast
    qed
    moreover have "acyclic (succ_rel ?succ \<inter> done_set t \<times> done_set t)"
      using t(1) by (simp add: walk_inv_def)
    ultimately have "acyclic (mounted_edges ms)" by (rule acyclic_subset [rotated])
    with v True show ?thesis by (simp add: graph_ok_def)
  qed
qed

text \<open>
  Between packs of the standard kinds the layers already exclude a cycle: every mounted edge goes
  to a strictly smaller rank.
\<close>

definition all_standard :: "(string \<times> dict) list \<Rightarrow> bool" where
  "all_standard ms \<longleftrightarrow> (\<forall>(p, m) \<in> set ms. standard_layer_rank (pack_kind m) \<noteq> None)"

definition pack_rank :: "(string \<times> dict) list \<Rightarrow> string \<Rightarrow> nat" where
  "pack_rank ms p = the (standard_layer_rank (pack_kind (the (map_of ms p))))"

lemma mounted_edge_rank:
  assumes res: "pack_resolves ms p" and std: "all_standard ms" and e: "(p, t) \<in> mounted_edges ms"
  shows "pack_rank ms t < pack_rank ms p"
proof -
  from res obtain m deps where m: "map_of ms p = Some m" "deps_by_target m = Inr deps"
      "\<forall>t \<in> fst ` set deps. target_ok ms (pack_kind m) deps t"
    by (auto simp: pack_resolves_def)
  with e have t: "t \<in> fst ` set deps" "mounted ms t"
    by (auto simp: mounted_edges_def resolved_targets_def)
  then obtain tm where tm: "map_of ms t = Some tm" by (auto simp: mounted_def)
  with m t have nv: "\<not> layer_violation (pack_kind m) (pack_kind tm)"
    by (auto simp: target_ok_def)
  have "(p, m) \<in> set ms" "(t, tm) \<in> set ms" using m(1) tm by (auto dest: map_of_SomeD)
  with std obtain a b where "standard_layer_rank (pack_kind m) = Some a"
      "standard_layer_rank (pack_kind tm) = Some b"
    by (fastforce simp: all_standard_def)
  with nv m(1) tm show ?thesis by (simp add: layer_violation_def pack_rank_def)
qed

lemma layered_graph_acyclic:
  assumes d: "distinct (map fst ms)" and std: "all_standard ms"
  shows "validate_pack_dependency_graph ms = Inr () \<longleftrightarrow> (\<forall>p \<in> fst ` set ms. pack_resolves ms p)"
proof -
  have "acyclic (mounted_edges ms)" if "\<forall>p \<in> fst ` set ms. pack_resolves ms p"
  proof -
    have "(mounted_edges ms)\<inverse> \<subseteq> measure (pack_rank ms)"
    proof
      fix e assume "e \<in> (mounted_edges ms)\<inverse>"
      then obtain p t where e: "e = (t, p)" "(p, t) \<in> mounted_edges ms" by auto
      then have "pack_resolves ms p" using that mounted_iff by (auto simp: mounted_edges_def)
      from mounted_edge_rank [OF this std e(2)] e(1) show "e \<in> measure (pack_rank ms)" by simp
    qed
    then have "wf ((mounted_edges ms)\<inverse>)" by (rule wf_subset [OF wf_measure])
    then show ?thesis using wf_acyclic acyclic_converse by blast
  qed
  then show ?thesis using graph_accepts_iff [OF d] by (auto simp: graph_ok_def)
qed


end
