(* ===== verification/Packset_Lock.thy ===== *)
theory Packset_Lock
  imports Packset
begin

text \<open>
  Packset locks (\<open>domain/packset.py\<close>): the portable record of an exact set of pack revisions. A
  lock is the dictionary of its JSON content, a catalog \<open>ms\<close> maps pack ids to manifests and
  \<open>revs\<close> pack ids to revision values. \<open>sha\<close> is SHA-256 in hexadecimal, a parameter.
\<close>

section \<open>Building a lock\<close>

definition lock_error :: "string \<Rightarrow> exn" where
  "lock_error m = Exn PackSetLockError m"

definition canonical_manifest_digest :: "(string \<Rightarrow> string) \<Rightarrow> dict \<Rightarrow> string" where
  "canonical_manifest_digest sha m = sha (dumps (JObj m))"

definition resolved_dependencies :: "dict \<Rightarrow> (string \<Rightarrow> bool) \<Rightarrow> json list res" where
  "resolved_dependencies m is_mounted =
     rbind (deps_by_target m) (\<lambda>deps.
       rmap (\<lambda>t. rbind (dindex (the (map_of deps t)) ''required'') (\<lambda>r.
               Inr (JObj [(''pack_id'', JStr t), (''required'', JBool (truthy r))])))
         (filter is_mounted (sort (map fst deps))))"

definition lock_record ::
  "(string \<Rightarrow> string) \<Rightarrow> (string \<times> dict) list \<Rightarrow> (string \<times> json) list \<Rightarrow> string \<Rightarrow> json res" where
  "lock_record sha ms revs p =
     (case the (map_of revs p) of
        JStr r \<Rightarrow>
          if strip r = [] then Inl (lock_error ''pack '')
          else (let m = the (map_of ms p) in
                rbind (resolved_dependencies m (mounted ms)) (\<lambda>deps.
                  Inr (JObj [(''pack_id'', JStr p), (''revision'', JStr r),
                     (''manifest_digest'', JObj [(''algorithm'', JStr ''sha256''),
                        (''digest'', JStr (canonical_manifest_digest sha m))]),
                     (''dependencies'', JArr deps)])))
      | _ \<Rightarrow> Inl (lock_error ''pack ''))"

definition build_packset_lock ::
  "(string \<Rightarrow> string) \<Rightarrow> (string \<times> dict) list \<Rightarrow> (string \<times> json) list \<Rightarrow> dict res" where
  "build_packset_lock sha ms revs =
     rbind (check (ms \<noteq> []) (lock_error ''packset lock requires at least one mounted pack'')) (\<lambda>_.
     rbind (validate_pack_dependency_graph ms) (\<lambda>_.
     rbind (check (filter (\<lambda>p. map_of revs p = None) (sort (map fst ms)) = [])
              (lock_error ''missing exact revision for mounted pack(s): '')) (\<lambda>_.
     rbind (check (filter (\<lambda>p. map_of ms p = None) (sort (map fst revs)) = [])
              (lock_error ''unresolved revision pack(s) are not mounted: '')) (\<lambda>_.
     rbind (rmap (lock_record sha ms revs) (sort (map fst ms))) (\<lambda>packs.
       Inr [(''contract_version'', JStr ''dkg.packset-lock.v1''), (''packs'', JArr packs)])))))"

text \<open>\<open>KnowledgePackValidator.build_packset_lock\<close>: validate the mounted set, then freeze it.\<close>

definition build_validated_lock ::
  "(string \<Rightarrow> string) \<Rightarrow> (json \<Rightarrow> bool) \<Rightarrow> dict list \<Rightarrow> (string \<times> json) list \<Rightarrow> dict res" where
  "build_validated_lock sha V manifests revs =
     rbind (validate_set V manifests) (\<lambda>by. build_packset_lock sha by revs)"

section \<open>Reading a lock\<close>

definition lock_records :: "dict \<Rightarrow> dict list res" where
  "lock_records lock =
     rbind (check (fst ` set lock = {''contract_version'', ''packs''})
              (lock_error ''packset lock fields must be exactly contract_version and packs; lock digest is external'')) (\<lambda>_.
     rbind (check (py_eq (dget lock ''contract_version'') (JStr ''dkg.packset-lock.v1''))
              (lock_error ''unsupported packset lock contract: '')) (\<lambda>_.
     (case dget lock ''packs'' of
        JArr (r # rs) \<Rightarrow>
          if \<forall>x \<in> set (r # rs). is_obj x
          then rmap as_dict (r # rs)
          else Inl (lock_error ''packset lock pack records must be objects'')
      | _ \<Rightarrow> Inl (lock_error ''packset lock requires at least one pack record''))))"

definition pack_id_char :: "char \<Rightarrow> bool" where
  "pack_id_char c \<longleftrightarrow>
     (CHR ''A'' \<le> c \<and> c \<le> CHR ''Z'') \<or> (CHR ''a'' \<le> c \<and> c \<le> CHR ''z'')
     \<or> (CHR ''0'' \<le> c \<and> c \<le> CHR ''9'') \<or> c = CHR ''_'' \<or> c = CHR ''-''"

definition pack_id_re :: "string \<Rightarrow> bool" where
  "pack_id_re s \<longleftrightarrow> starts_with ''pack_'' s \<and> 16 \<le> length (drop 5 s) \<and> list_all pack_id_char (drop 5 s)"

definition hex_char :: "char \<Rightarrow> bool" where
  "hex_char c \<longleftrightarrow> (CHR ''0'' \<le> c \<and> c \<le> CHR ''9'') \<or> (CHR ''a'' \<le> c \<and> c \<le> CHR ''f'')"

definition hex64_re :: "string \<Rightarrow> bool" where
  "hex64_re s \<longleftrightarrow> length s = 64 \<and> list_all hex_char s"

definition valid_pack_id :: "json \<Rightarrow> bool" where
  "valid_pack_id v \<longleftrightarrow> (case v of JStr s \<Rightarrow> pack_id_re s | _ \<Rightarrow> False)"

definition dict_keys :: "json \<Rightarrow> string set" where
  "dict_keys v = (case v of JObj d \<Rightarrow> fst ` set d | _ \<Rightarrow> {})"

definition digest_shape :: "json \<Rightarrow> unit res" where
  "digest_shape v =
     (case v of
        JObj d \<Rightarrow>
          rbind (check (fst ` set d = {''algorithm'', ''digest''}) (lock_error ''pack '')) (\<lambda>_.
          rbind (check (py_eq (dget d ''algorithm'') (JStr ''sha256'') \<and> is_str (dget d ''digest''))
                   (lock_error ''pack '')) (\<lambda>_.
            check (hex64_re (py_str (dget d ''digest''))) (lock_error ''pack '')))
      | _ \<Rightarrow> Inl (lock_error ''pack ''))"

definition dependency_shape :: "string list \<Rightarrow> json \<Rightarrow> string list res" where
  "dependency_shape seen v =
     (case v of
        JObj d \<Rightarrow>
          rbind (check (fst ` set d = {''pack_id'', ''required''}) (lock_error ''pack '')) (\<lambda>_.
          rbind (check (valid_pack_id (dget d ''pack_id'')) (lock_error ''pack '')) (\<lambda>_.
          rbind (check (case dget d ''required'' of JBool _ \<Rightarrow> True | _ \<Rightarrow> False)
                   (lock_error ''pack '')) (\<lambda>_.
          rbind (key_str (dget d ''pack_id'')) (\<lambda>t.
          rbind (check (t \<notin> set seen) (lock_error ''duplicate dependency in lock for pack ''))
            (\<lambda>_. Inr (seen @ [t]))))))
      | _ \<Rightarrow> Inl (lock_error ''pack ''))"

definition validate_lock_record_shape :: "dict \<Rightarrow> unit res" where
  "validate_lock_record_shape r =
     rbind (check (fst ` set r = {''pack_id'', ''revision'', ''manifest_digest'', ''dependencies''})
              (lock_error ''pack record fields must be exactly pack_id, revision, manifest_digest, dependencies'')) (\<lambda>_.
     rbind (check (valid_pack_id (dget r ''pack_id'')) (lock_error ''invalid pack_id in packset lock: '')) (\<lambda>_.
     rbind (check (nonblank_str (dget r ''revision'')) (lock_error ''pack '')) (\<lambda>_.
     rbind (digest_shape (dget r ''manifest_digest'')) (\<lambda>_.
     (case dget r ''dependencies'' of
        JArr ds \<Rightarrow>
          rbind (rfold dependency_shape [] ds) (\<lambda>ids.
            check (ids = sort ids) (lock_error ''pack ''))
      | _ \<Rightarrow> Inl (lock_error ''pack ''))))))"

definition pack_revisions_from_lock :: "dict \<Rightarrow> (string \<times> string) list res" where
  "pack_revisions_from_lock lock =
     rbind (lock_records lock) (\<lambda>records.
     rbind (rfold (\<lambda>by r.
              rbind (validate_lock_record_shape r) (\<lambda>_.
              rbind (dindex r ''pack_id'') (\<lambda>p.
              rbind (dindex r ''revision'') (\<lambda>v.
                if map_of by (py_str p) \<noteq> None
                then Inl (lock_error ''duplicate pack_id in packset lock: '')
                else Inr (AList.update (py_str p) (py_str v) by))))) [] records) (\<lambda>by.
     rbind (check (map fst by = sort (map fst by))
              (lock_error ''packset lock pack records must be sorted by pack_id'')) (\<lambda>_.
       Inr by)))"

definition normalized_dependency :: "json \<Rightarrow> json res" where
  "normalized_dependency v =
     rbind (index v ''pack_id'') (\<lambda>p. rbind (index v ''required'') (\<lambda>r.
       Inr (JObj [(''pack_id'', JStr (py_str p)), (''required'', r)])))"

definition check_lock_record ::
  "(string \<Rightarrow> string) \<Rightarrow> (string \<times> dict) list \<Rightarrow> dict \<Rightarrow> unit res" where
  "check_lock_record sha ms r =
     rbind (dindex r ''pack_id'') (\<lambda>p.
     let m = the (map_of ms (py_str p)) in
     rbind (dindex r ''dependencies'') (\<lambda>dv.
     rbind (py_iter dv) (\<lambda>ds.
     rbind (each (\<lambda>d. rbind (index d ''pack_id'') (\<lambda>t.
              check (mounted ms (py_str t)) (lock_error ''unresolved referenced pack in lock dependency: ''))) ds) (\<lambda>_.
     rbind (resolved_dependencies m (mounted ms)) (\<lambda>expected.
     rbind (rmap normalized_dependency ds) (\<lambda>normalized.
     rbind (check (py_eq (JArr normalized) (JArr expected)) (lock_error ''pack '')) (\<lambda>_.
     rbind (dindex r ''manifest_digest'') (\<lambda>md.
     rbind (index md ''digest'') (\<lambda>dg.
       check (py_eq dg (JStr (canonical_manifest_digest sha m))) (lock_error ''pack ''))))))))))"

definition validate_packset_lock ::
  "(string \<Rightarrow> string) \<Rightarrow> dict \<Rightarrow> (string \<times> dict) list \<Rightarrow> unit res" where
  "validate_packset_lock sha lock catalog =
     rbind (pack_revisions_from_lock lock) (\<lambda>revisions.
     rbind (lock_records lock) (\<lambda>records.
     rbind (check (filter (\<lambda>p. map_of catalog p = None) (sort (map fst revisions)) = [])
              (lock_error ''unresolved referenced pack manifest(s): '')) (\<lambda>_.
     let ms = map (\<lambda>p. (p, the (map_of catalog p))) (map fst revisions) in
     rbind (validate_pack_dependency_graph ms) (\<lambda>_.
       each (check_lock_record sha ms) records))))"

definition packset_lock_digest :: "(string \<Rightarrow> string) \<Rightarrow> dict \<Rightarrow> string res" where
  "packset_lock_digest sha lock =
     rbind (pack_revisions_from_lock lock) (\<lambda>_. Inr (sha (dumps (JObj lock))))"

section \<open>A built lock validates\<close>

lemma deps_distinct: "deps_by_target m = Inr deps \<Longrightarrow> distinct (map fst deps)"
proof -
  assume a: "deps_by_target m = Inr deps"
  let ?step = "\<lambda>by d. rbind (index d ''pack_id'') (\<lambda>t. let target = py_str t in
           if map_of by target \<noteq> None
           then rbind (dindex m ''pack_id'') (\<lambda>_.
                  Inl (Exn PackBoundaryError ''duplicate dependency for pack ''))
           else rbind (as_dict d) (\<lambda>d'. Inr (AList.update target d' by)))"
  from a obtain vs where "rfold ?step [] vs = Inr deps"
    by (auto simp: deps_by_target_def)
  then show ?thesis
    by (rule rfold_invariant [where P = "\<lambda>by. distinct (map fst by)"])
       (auto simp: Let_def split: if_splits)
qed

definition dep_json :: "(string \<times> dict) list \<Rightarrow> string \<Rightarrow> json" where
  "dep_json deps t =
     JObj [(''pack_id'', JStr t),
       (''required'', JBool (truthy (the (map_of (the (map_of deps t)) ''required''))))]"

lemma resolved_dependencies_Inr_D:
  assumes "resolved_dependencies m f = Inr ds"
  obtains deps where "deps_by_target m = Inr deps"
    and "ds = map (dep_json deps) (filter f (sort (map fst deps)))"
proof -
  from assms obtain deps where deps: "deps_by_target m = Inr deps"
    and r: "rmap (\<lambda>t. rbind (dindex (the (map_of deps t)) ''required'') (\<lambda>r.
               Inr (JObj [(''pack_id'', JStr t), (''required'', JBool (truthy r))])))
         (filter f (sort (map fst deps))) = Inr ds"
    by (auto simp: resolved_dependencies_def)
  have "ds = map (dep_json deps) xs"
    if "rmap (\<lambda>t. rbind (dindex (the (map_of deps t)) ''required'') (\<lambda>r.
               Inr (JObj [(''pack_id'', JStr t), (''required'', JBool (truthy r))]))) xs = Inr ds"
    for xs ds
    using that by (induction xs arbitrary: ds) (auto simp: dep_json_def)
  with deps r that show ?thesis by blast
qed

lemma resolved_dependencies_cong:
  "(\<And>t. f t = g t) \<Longrightarrow> resolved_dependencies m f = resolved_dependencies m g"
  by (metis ext)

lemma dependency_shapes:
  assumes "\<forall>t \<in> set ts. pack_id_re t" and "distinct (seen @ ts)"
  shows "rfold dependency_shape seen (map (dep_json deps) ts) = Inr (seen @ ts)"
  using assms
  by (induction ts arbitrary: seen)
     (auto simp: dependency_shape_def dep_json_def dget_def valid_pack_id_def)

lemma normalized_dep_json [simp]: "normalized_dependency (dep_json deps t) = Inr (dep_json deps t)"
  by (simp add: normalized_dependency_def dep_json_def dindex_def)

lemma rmap_normalized: "rmap normalized_dependency (map (dep_json deps) ts) = Inr (map (dep_json deps) ts)"
  by (induction ts) auto

definition record_of ::
  "(string \<Rightarrow> string) \<Rightarrow> (string \<times> dict) list \<Rightarrow> (string \<Rightarrow> string) \<Rightarrow> string \<Rightarrow> json list \<Rightarrow> dict" where
  "record_of sha ms rv p deps =
     [(''pack_id'', JStr p), (''revision'', JStr (rv p)),
      (''manifest_digest'', JObj [(''algorithm'', JStr ''sha256''),
         (''digest'', JStr (canonical_manifest_digest sha (the (map_of ms p))))]),
      (''dependencies'', JArr deps)]"

definition revision_text :: "(string \<times> json) list \<Rightarrow> string \<Rightarrow> string" where
  "revision_text revs p = py_str (the (map_of revs p))"

lemma lock_record_Inr_D:
  assumes "lock_record sha ms revs p = Inr r"
  obtains deps where "resolved_dependencies (the (map_of ms p)) (mounted ms) = Inr deps"
    and "r = JObj (record_of sha ms (revision_text revs) p deps)"
    and "strip (revision_text revs p) \<noteq> []"
  using assms
  by (auto simp: lock_record_def record_of_def revision_text_def Let_def
      split: json.splits if_splits)

lemma sorted_filter': "sorted xs \<Longrightarrow> sorted (filter P xs)"
  using sorted_filter [of id xs P] by simp

lemma record_shape:
  assumes "pack_id_re p" and "strip (rv p) \<noteq> []" and "hex64_re (canonical_manifest_digest sha (the (map_of ms p)))"
    and deps: "resolved_dependencies m f = Inr deps" and ids: "\<And>t. f t \<Longrightarrow> pack_id_re t"
  shows "validate_lock_record_shape (record_of sha ms rv p deps) = Inr ()"
proof -
  from deps obtain ds where ds: "deps_by_target m = Inr ds"
    "deps = map (dep_json ds) (filter f (sort (map fst ds)))"
    by (rule resolved_dependencies_Inr_D)
  let ?ts = "filter f (sort (map fst ds))"
  have "distinct ?ts" using deps_distinct [OF ds(1)] by simp
  then have "rfold dependency_shape [] deps = Inr ?ts"
    using dependency_shapes [of ?ts "[]"] ids by (simp add: ds(2))
  moreover have "sort ?ts = ?ts" by (rule sorted_sort_id, rule sorted_filter') simp
  ultimately show ?thesis
    using assms(1-3)
    by (simp add: validate_lock_record_shape_def record_of_def dget_def valid_pack_id_def
        nonblank_str_def digest_shape_def is_str_def insert_commute)
qed


lemma built_records:
  assumes "rmap (lock_record sha ms revs) ps = Inr rs"
  shows "\<exists>D. rs = map (\<lambda>p. JObj (record_of sha ms (revision_text revs) p (D p))) ps
    \<and> (\<forall>p \<in> set ps. resolved_dependencies (the (map_of ms p)) (mounted ms) = Inr (D p)
          \<and> strip (revision_text revs p) \<noteq> [])"
  using assms
proof (induction ps arbitrary: rs)
  case Nil
  then show ?case by simp
next
  case (Cons p ps)
  from Cons.prems obtain r rs' where r: "lock_record sha ms revs p = Inr r"
    and rs': "rmap (lock_record sha ms revs) ps = Inr rs'" "rs = r # rs'"
    by auto
  from r obtain deps where d: "resolved_dependencies (the (map_of ms p)) (mounted ms) = Inr deps"
    "r = JObj (record_of sha ms (revision_text revs) p deps)" "strip (revision_text revs p) \<noteq> []"
    by (rule lock_record_Inr_D)
  let ?D = "\<lambda>q. case resolved_dependencies (the (map_of ms q)) (mounted ms) of Inr x \<Rightarrow> x | Inl _ \<Rightarrow> []"
  from Cons.IH [OF rs'(1)] obtain D
    where D: "rs' = map (\<lambda>p. JObj (record_of sha ms (revision_text revs) p (D p))) ps"
      "\<forall>p \<in> set ps. resolved_dependencies (the (map_of ms p)) (mounted ms) = Inr (D p)
          \<and> strip (revision_text revs p) \<noteq> []"
    by blast
  then have "rs' = map (\<lambda>p. JObj (record_of sha ms (revision_text revs) p (?D p))) ps"
    by auto
  with D(2) d rs'(2) show ?case by (intro exI [of _ ?D]) auto
qed

lemma map_of_record_of [simp]:
  "map_of (record_of sha ms rv p deps) ''pack_id'' = Some (JStr p)"
  "map_of (record_of sha ms rv p deps) ''revision'' = Some (JStr (rv p))"
  "map_of (record_of sha ms rv p deps) ''dependencies'' = Some (JArr deps)"
  "map_of (record_of sha ms rv p deps) ''manifest_digest'' =
     Some (JObj [(''algorithm'', JStr ''sha256''),
        (''digest'', JStr (canonical_manifest_digest sha (the (map_of ms p))))])"
  by (simp_all add: record_of_def)

lemma revisions_fold:
  assumes "\<forall>p \<in> set ps. validate_lock_record_shape (R p) = Inr ()
      \<and> map_of (R p) ''pack_id'' = Some (JStr p) \<and> map_of (R p) ''revision'' = Some (JStr (rv p))"
    and "distinct (map fst acc @ ps)"
  shows "rfold (\<lambda>by r.
              rbind (validate_lock_record_shape r) (\<lambda>_.
              rbind (dindex r ''pack_id'') (\<lambda>p.
              rbind (dindex r ''revision'') (\<lambda>v.
                if map_of by (py_str p) \<noteq> None
                then Inl (lock_error ''duplicate pack_id in packset lock: '')
                else Inr (AList.update (py_str p) (py_str v) by))))) acc (map R ps)
         = Inr (acc @ map (\<lambda>p. (p, rv p)) ps)"
  using assms
proof (induction ps arbitrary: acc)
  case Nil
  then show ?case by simp
next
  case (Cons p ps)
  from Cons.prems(2) have n: "map_of acc p = None" by (auto simp: map_of_eq_None_iff)
  then have u: "AList.update p (rv p) acc = acc @ [(p, rv p)]" by (rule update_fresh)
  have n': "\<not> (\<exists>y. map_of acc p = Some y)" using n by simp
  have n2: "\<forall>y. (p, y) \<notin> set acc" using Cons.prems(2) by force
  show ?case using Cons.prems Cons.IH [of "acc @ [(p, rv p)]"] by (simp add: n' n2 u)
qed

text \<open>The records of a lock, and the lock, that \<open>build_packset_lock\<close> produces.\<close>

definition lock_of :: "dict list \<Rightarrow> dict" where
  "lock_of rs = [(''contract_version'', JStr ''dkg.packset-lock.v1''), (''packs'', JArr (map JObj rs))]"

lemma lock_records_lock_of [simp]: "rs \<noteq> [] \<Longrightarrow> lock_records (lock_of rs) = Inr rs"
proof -
  assume "rs \<noteq> []"
  then obtain x xs where "rs = x # xs" by (cases rs) auto
  moreover have "rmap as_dict (map JObj xs) = Inr xs" for xs by (induction xs) auto
  ultimately show ?thesis
    by (auto simp: lock_records_def lock_of_def dget_def is_obj_def)
qed

lemma build_packset_lock_D:
  assumes "build_packset_lock sha ms revs = Inr lock"
  obtains D where "lock = lock_of (map (\<lambda>p. record_of sha ms (revision_text revs) p (D p)) (sort (map fst ms)))"
    and "\<forall>p \<in> fst ` set ms. resolved_dependencies (the (map_of ms p)) (mounted ms) = Inr (D p)
          \<and> strip (revision_text revs p) \<noteq> []"
    and "ms \<noteq> []" and "validate_pack_dependency_graph ms = Inr ()"
proof -
  from assms obtain packs where packs: "rmap (lock_record sha ms revs) (sort (map fst ms)) = Inr packs"
    and lock: "lock = [(''contract_version'', JStr ''dkg.packset-lock.v1''), (''packs'', JArr packs)]"
    and ms: "ms \<noteq> []" "validate_pack_dependency_graph ms = Inr ()"
    by (auto simp: build_packset_lock_def)
  from built_records [OF packs] obtain D
    where "packs = map (\<lambda>p. JObj (record_of sha ms (revision_text revs) p (D p))) (sort (map fst ms))"
      "\<forall>p \<in> fst ` set ms. resolved_dependencies (the (map_of ms p)) (mounted ms) = Inr (D p)
          \<and> strip (revision_text revs p) \<noteq> []"
    by auto
  with lock ms show ?thesis by (intro that [of D]) (simp_all add: lock_of_def comp_def)
qed

lemma graph_ok_cong:
  assumes "map_of ms = map_of ms'"
  shows "graph_ok ms \<longleftrightarrow> graph_ok ms'"
proof -
  have m: "mounted ms = mounted ms'" using assms by (simp add: mounted_def fun_eq_iff)
  have k: "fst ` set ms = fst ` set ms'" by (metis assms dom_map_of_conv_image_fst)
  have t: "target_ok ms = target_ok ms'" using assms by (simp add: target_ok_def fun_eq_iff)
  have r: "resolved_targets ms = resolved_targets ms'"
    unfolding resolved_targets_def assms m ..
  show ?thesis
    unfolding graph_ok_def pack_resolves_def mounted_edges_def k m t r assms ..
qed

lemma sort_filter_None_iff: "filter (\<lambda>p. map_of m p = None) ps = [] \<longleftrightarrow> (\<forall>p \<in> set ps. map_of m p \<noteq> None)"
  by (simp add: filter_empty_conv)

lemma map_of_restrict_keys:
  assumes "set ps = fst ` set ms"
  shows "map_of (map (\<lambda>p. (p, the (map_of ms p))) ps) = map_of ms"
proof
  fix k
  show "map_of (map (\<lambda>p. (p, the (map_of ms p))) ps) k = map_of ms k"
  proof (cases "k \<in> fst ` set ms")
    case True
    then obtain v where "map_of ms k = Some v" by (cases "map_of ms k") (auto simp: map_of_eq_None_iff)
    with True assms show ?thesis by (auto simp: map_of_map_restrict)
  next
    case False
    then have "map_of ms k = None" by (simp add: map_of_eq_None_iff)
    with False show ?thesis using assms by (simp add: map_of_map_restrict)
  qed
qed

definition lock_revisions :: "(string \<times> dict) list \<Rightarrow> (string \<times> json) list \<Rightarrow> (string \<times> string) list" where
  "lock_revisions ms revs = map (\<lambda>p. (p, revision_text revs p)) (sort (map fst ms))"

lemma built_lock_revisions:
  assumes d: "distinct (map fst ms)" and ids: "\<forall>p \<in> fst ` set ms. pack_id_re p"
    and hex: "\<And>t. hex64_re (sha t)"
    and b: "build_packset_lock sha ms revs = Inr lock"
  shows "pack_revisions_from_lock lock = Inr (lock_revisions ms revs)"
proof -
  from b obtain D where lock: "lock = lock_of (map (\<lambda>p. record_of sha ms (revision_text revs) p (D p)) (sort (map fst ms)))"
    and D: "\<forall>p \<in> fst ` set ms. resolved_dependencies (the (map_of ms p)) (mounted ms) = Inr (D p)
          \<and> strip (revision_text revs p) \<noteq> []"
    and ms: "ms \<noteq> []"
    by (rule build_packset_lock_D)
  let ?R = "\<lambda>p. record_of sha ms (revision_text revs) p (D p)"
  let ?ps = "sort (map fst ms)"
  have shape: "validate_lock_record_shape (?R p) = Inr ()" if "p \<in> fst ` set ms" for p
  proof -
    from D that have 1: "resolved_dependencies (the (map_of ms p)) (mounted ms) = Inr (D p)"
      "strip (revision_text revs p) \<noteq> []" by auto
    show ?thesis
      by (rule record_shape [where rv = "revision_text revs", OF _ 1(2) _ 1(1)])
        (use that ids hex in \<open>auto simp: canonical_manifest_digest_def mounted_iff\<close>)
  qed
  have f: "rfold (\<lambda>by r.
              rbind (validate_lock_record_shape r) (\<lambda>_.
              rbind (dindex r ''pack_id'') (\<lambda>p.
              rbind (dindex r ''revision'') (\<lambda>v.
                if map_of by (py_str p) \<noteq> None
                then Inl (lock_error ''duplicate pack_id in packset lock: '')
                else Inr (AList.update (py_str p) (py_str v) by))))) [] (map ?R ?ps)
     = Inr ([] @ map (\<lambda>p. (p, revision_text revs p)) ?ps)"
    by (rule revisions_fold) (use shape d in auto)
  have n: "map ?R ?ps \<noteq> []" using ms by (cases ms) auto
  have "map fst (map (\<lambda>p. (p, revision_text revs p)) ?ps) = ?ps" by (simp add: comp_def)
  then show ?thesis
    using f n
    by (simp add: pack_revisions_from_lock_def lock lock_revisions_def sort_key_id_if_sorted del: map_map)
qed

lemma built_lock_validates:
  assumes d: "distinct (map fst ms)" and ids: "\<forall>p \<in> fst ` set ms. pack_id_re p"
    and hex: "\<And>t. hex64_re (sha t)"
    and b: "build_packset_lock sha ms revs = Inr lock"
    and sup: "\<forall>p \<in> fst ` set ms. map_of catalog p = map_of ms p"
  shows "validate_packset_lock sha lock catalog = Inr ()"
proof -
  from b obtain D where lock: "lock = lock_of (map (\<lambda>p. record_of sha ms (revision_text revs) p (D p)) (sort (map fst ms)))"
    and D: "\<forall>p \<in> fst ` set ms. resolved_dependencies (the (map_of ms p)) (mounted ms) = Inr (D p)
          \<and> strip (revision_text revs p) \<noteq> []"
    and ms: "ms \<noteq> []" and g: "validate_pack_dependency_graph ms = Inr ()"
    by (rule build_packset_lock_D)
  let ?R = "\<lambda>p. record_of sha ms (revision_text revs) p (D p)"
  let ?ps = "sort (map fst ms)"
  let ?ms = "map (\<lambda>p. (p, the (map_of catalog p))) ?ps"
  have rv: "pack_revisions_from_lock lock = Inr (lock_revisions ms revs)"
    by (rule built_lock_revisions [OF d ids hex b])
  have "?ms = map (\<lambda>p. (p, the (map_of ms p))) ?ps" using sup by simp
  moreover have "map_of (map (\<lambda>p. (p, the (map_of ms p))) ?ps) = map_of ms"
    by (rule map_of_restrict_keys) simp
  ultimately have mo: "map_of ?ms = map_of ms" by (simp only:)
  have fsts: "map fst (lock_revisions ms revs) = ?ps" by (simp add: lock_revisions_def comp_def)
  have dm: "distinct (map fst ?ms)" using d by (simp add: comp_def)
  have graph: "validate_pack_dependency_graph ?ms = Inr ()"
    using g graph_accepts_iff [OF d] graph_accepts_iff [OF dm] graph_ok_cong [OF mo] by simp
  have cat: "filter (\<lambda>p. map_of catalog p = None) (sort ?ps) = []"
    unfolding sort_filter_None_iff set_sort set_map using sup by (metis map_of_eq_None_iff)
  have m: "mounted ?ms = mounted ms" using mo by (simp add: mounted_def fun_eq_iff)
  have rec: "check_lock_record sha ?ms (?R p) = Inr ()" if p: "p \<in> fst ` set ms" for p
  proof -
    have r: "resolved_dependencies (the (map_of ms p)) (mounted ms) = Inr (D p)" using D p by blast
    from r obtain deps where deps: "deps_by_target (the (map_of ms p)) = Inr deps"
      "D p = map (dep_json deps) (filter (mounted ms) (sort (map fst deps)))"
      by (rule resolved_dependencies_Inr_D)
    have mount: "each (\<lambda>d. rbind (index d ''pack_id'') (\<lambda>t.
              check (mounted ms (py_str t)) (lock_error ''unresolved referenced pack in lock dependency: ''))) (D p) = Inr ()"
      by (auto simp: deps(2) dep_json_def)
    have nm: "rmap normalized_dependency (D p) = Inr (D p)" by (simp add: deps(2) rmap_normalized)
    show ?thesis
      using r mount nm by (simp add: check_lock_record_def mo m dindex_def del: each_Inr_iff)
  qed
  have "each (check_lock_record sha ?ms) (map ?R ?ps) = Inr ()" using rec by auto
  moreover have "map ?R ?ps \<noteq> []" using ms by (cases ms) auto
  ultimately show ?thesis
    using rv cat graph
    by (simp add: validate_packset_lock_def fsts lock del: each_Inr_iff map_map)
qed

text \<open>A valid lock fixes the digest of every mounted manifest.\<close>

lemma check_lock_record_digest:
  assumes "check_lock_record sha ms r = Inr ()" and "map_of r ''pack_id'' = Some (JStr p)"
    and "map_of r ''manifest_digest'' = Some (JObj d)"
  shows "map_of d ''digest'' = Some (JStr (canonical_manifest_digest sha (the (map_of ms p))))"
  using assms by (auto simp: check_lock_record_def Let_def)

lemma ex_unit: "(\<exists>x. P x) \<longleftrightarrow> P ()"
  by (metis unit.exhaust)

section \<open>Validation and locks together\<close>

text \<open>\<open>KnowledgePackValidator.validate_packset_lock\<close>.\<close>

definition check_validated_lock ::
  "(string \<Rightarrow> string) \<Rightarrow> (json \<Rightarrow> bool) \<Rightarrow> dict \<Rightarrow> dict list \<Rightarrow> unit res" where
  "check_validated_lock sha V lock manifests =
     rbind (validate_catalog V manifests) (\<lambda>by. validate_packset_lock sha lock by)"

definition catalog_ok :: "(json \<Rightarrow> bool) \<Rightarrow> (string \<times> dict) list \<Rightarrow> bool" where
  "catalog_ok V by \<longleftrightarrow> distinct (map fst by)
     \<and> (\<forall>(p, m) \<in> set by. map_of m ''pack_id'' = Some (JStr p) \<and> V (JObj m) \<and> pack_boundary_ok m)"

lemma validate_catalog_sound:
  assumes "validate_catalog V ms = Inr by"
  shows "catalog_ok V by \<and> map snd by = ms"
proof -
  let ?step = "\<lambda>by m.
       rbind (pack_validate V m) (\<lambda>_.
       rbind (dindex m ''pack_id'') (\<lambda>p.
       rbind (key_str p) (\<lambda>pid.
         if map_of by pid \<noteq> None then Inl (Exn PackBoundaryError ''duplicate pack_id: '')
         else Inr (AList.update pid m by))))"
  have "catalog_ok V by' \<and> map snd by' = map snd acc @ ms"
    if "rfold ?step acc ms = Inr by'" "catalog_ok V acc" for acc by'
    using that
  proof (induction ms arbitrary: acc)
    case Nil
    then show ?case by simp
  next
    case (Cons m ms)
    from Cons.prems(1) obtain acc' where s: "?step acc m = Inr acc'" "rfold ?step acc' ms = Inr by'"
      unfolding rfold.simps rbind_Inr_iff by blast
    from s(1) obtain p where p: "pack_validate V m = Inr ()" "map_of m ''pack_id'' = Some (JStr p)"
      "map_of acc p = None" "acc' = acc @ [(p, m)]"
      by (auto simp: update_fresh split: if_split_asm)
    have "catalog_ok V acc'"
      using Cons.prems(2) p
      by (auto simp: catalog_ok_def pack_validate_iff map_of_eq_None_iff)
    from Cons.IH [OF s(2) this] p(4) show ?case by simp
  qed
  from this [of "[]" "by"] assms show ?thesis by (simp add: validate_catalog_def catalog_ok_def)
qed

lemma validate_set_sound:
  "validate_set V ms = Inr by \<Longrightarrow> validate_catalog V ms = Inr by \<and> validate_pack_dependency_graph by = Inr ()"
  by (auto simp: validate_set_def)

lemma lock_records_of_revisions:
  assumes "pack_revisions_from_lock lock = Inr revs" and "p \<in> fst ` set revs"
  obtains rs r d where "lock_records lock = Inr rs" "r \<in> set rs" "map_of r ''pack_id'' = Some (JStr p)"
    "map_of r ''manifest_digest'' = Some (JObj d)"
proof -
  let ?step = "\<lambda>by r.
              rbind (validate_lock_record_shape r) (\<lambda>_.
              rbind (dindex r ''pack_id'') (\<lambda>p.
              rbind (dindex r ''revision'') (\<lambda>v.
                if map_of by (py_str p) \<noteq> None
                then Inl (lock_error ''duplicate pack_id in packset lock: '')
                else Inr (AList.update (py_str p) (py_str v) by))))"
  let ?found = "\<lambda>r p. map_of r ''pack_id'' = Some (JStr p) \<and> (\<exists>d. map_of r ''manifest_digest'' = Some (JObj d))"
  have shape: "\<exists>p. ?found r p \<and> (\<forall>by'. ?step by r = Inr by' \<longrightarrow> fst ` set by' = insert p (fst ` set by))"
    if "validate_lock_record_shape r = Inr ()" for r and "by" :: "(string \<times> string) list"
  proof -
    have "valid_pack_id (dget r ''pack_id'')" "digest_shape (dget r ''manifest_digest'') = Inr ()"
      using that by (simp_all add: validate_lock_record_shape_def)
    then obtain p d where pd: "dget r ''pack_id'' = JStr p" "dget r ''manifest_digest'' = JObj d"
      by (auto simp: valid_pack_id_def digest_shape_def split: json.splits)
    then have f: "map_of r ''pack_id'' = Some (JStr p)" "map_of r ''manifest_digest'' = Some (JObj d)"
      by (auto simp: dget_def split: option.splits)
    then have "fst ` set by' = insert p (fst ` set by)" if "?step by r = Inr by'" for by'
    proof -
      from that f obtain x where "by' = AList.update p x by" by (auto split: if_split_asm)
      then show ?thesis by (simp only: set_keys_update)
    qed
    with f show ?thesis by blast
  qed
  have found: "\<exists>r \<in> set rs. ?found r p"
    if "rfold ?step acc rs = Inr out" "p \<in> fst ` set out" "p \<notin> fst ` set acc" for acc out rs
    using that
  proof (induction rs arbitrary: acc)
    case Nil
    then show ?case by simp
  next
    case (Cons r rs)
    from Cons.prems(1) obtain acc' where s: "?step acc r = Inr acc'" "rfold ?step acc' rs = Inr out"
      unfolding rfold.simps rbind_Inr_iff by blast
    from s(1) have "validate_lock_record_shape r = Inr ()" by (cases "validate_lock_record_shape r") simp_all
    from shape [OF this, of acc] obtain q
      where q_imp: "?found r q \<and> (\<forall>by'. ?step acc r = Inr by' \<longrightarrow> fst ` set by' = insert q (fst ` set acc))"
      by (elim exE) (rule that)
    note q = conjunct1 [OF q_imp] and imp = conjunct2 [OF q_imp]
    note keys = imp [rule_format, OF s(1)]
    show ?case
    proof (cases "q = p")
      case True
      with q show ?thesis by auto
    next
      case False
      with keys Cons.prems have "p \<notin> fst ` set acc'" by auto
      with Cons.IH [OF s(2) Cons.prems(2)] show ?thesis by auto
    qed
  qed
  from assms(1) obtain rs where rs: "lock_records lock = Inr rs" "rfold ?step [] rs = Inr revs"
    unfolding pack_revisions_from_lock_def rbind_Inr_iff by auto
  from found [OF rs(2) assms(2)] obtain r where "r \<in> set rs" "?found r p" by auto
  with rs(1) that show ?thesis by blast
qed

lemma lock_digest_fact:
  assumes "validate_packset_lock sha lock A = Inr ()" "pack_revisions_from_lock lock = Inr revs"
    "p \<in> fst ` set revs" "lock_records lock = Inr rs" "r \<in> set rs"
    "map_of r ''pack_id'' = Some (JStr p)" "map_of r ''manifest_digest'' = Some (JObj d)"
  shows "map_of d ''digest'' = Some (JStr (sha (dumps (JObj (the (map_of A p))))))"
proof -
  let ?ms = "map (\<lambda>p. (p, the (map_of A p))) (map fst revs)"
  from assms(1,2,4,5) have "check_lock_record sha ?ms r = Inr ()"
    by (auto simp: validate_packset_lock_def Let_def)
  from check_lock_record_digest [OF this assms(6,7)]
  show ?thesis using assms(3) by (simp add: canonical_manifest_digest_def map_of_map_restrict del: map_map)
qed

section \<open>Properties\<close>

text \<open>A mounted set that \<open>validate_set\<close> accepts is sound: it returns the given manifests keyed
  by their distinct pack ids, each conforms to its schema and its own boundary rules, and the
  dependency graph is layered, resolved and acyclic.\<close>

lemma validated_set_is_sound:
  "validate_set V ms = Inr by \<Longrightarrow> catalog_ok V by \<and> map snd by = ms \<and> graph_ok by"
  using validate_set_sound validate_catalog_sound graph_accepts_iff
  by (metis catalog_ok_def)

definition demo_pack :: "string \<Rightarrow> string \<Rightarrow> string list \<Rightarrow> dict" where
  "demo_pack p kind deps =
     [(''pack_id'', JStr p), (''kind'', JStr kind), (''read_mounts'', strs (p # deps)),
      (''write_targets'', strs [p]),
      (''dependencies'', JArr (map (\<lambda>d. JObj [(''pack_id'', JStr d), (''required'', JBool True)]) deps))]"

definition demo_packs :: "dict list" where
  "demo_packs = [demo_pack ''pack_project_aaaaaaaa'' ''project'' [''pack_common_aaaaaaaaa''],
     demo_pack ''pack_common_aaaaaaaaa'' ''common'' []]"

lemma demo_packs_accepted: "is_ok (validate_set (\<lambda>_. True) demo_packs)"
  by code_simp

text \<open>C1. The dependency graph check is exact: for a catalog keyed by distinct pack ids it accepts
  if and only if every pack resolves (its own identity, no duplicate dependency, every required
  dependency mounted, standard layers strictly upstream) and the mounted dependencies are
  acyclic. The depth-first walk never exhausts its fuel.\<close>

theorem dependency_graph_exact:
  assumes "distinct (map fst ms)"
  shows "validate_pack_dependency_graph ms = Inr () \<longleftrightarrow>
     (\<forall>p \<in> fst ` set ms. pack_resolves ms p) \<and> acyclic (mounted_edges ms)"
  using graph_accepts_iff [OF assms] by (simp add: graph_ok_def)

definition demo_catalog :: "(string \<times> dict) list" where
  "demo_catalog = map (\<lambda>m. (py_str (dget m ''pack_id''), m)) demo_packs"

lemma demo_catalog_facts: "distinct (map fst demo_catalog)"
  "validate_pack_dependency_graph demo_catalog = Inr ()"
  by code_simp+

theorem dependency_graph_exact_witness:
  "validate_pack_dependency_graph demo_catalog = Inr () \<and> acyclic (mounted_edges demo_catalog)"
  using dependency_graph_exact [of demo_catalog] demo_catalog_facts by simp

text \<open>Standard layers leave no room for a cycle: in a catalog whose packs all have a standard
  kind, the graph check accepts as soon as every pack resolves, because each mounted dependency
  points to a strictly lower layer.\<close>

lemma standard_layers_prevent_cycles:
  assumes "distinct (map fst ms)" and "all_standard ms"
  shows "validate_pack_dependency_graph ms = Inr () \<longleftrightarrow> (\<forall>p \<in> fst ` set ms. pack_resolves ms p)"
  using assms by (rule layered_graph_acyclic)

lemma demo_catalog_standard: "all_standard demo_catalog"
  unfolding all_standard_def by code_simp


definition demo_schema :: "json \<Rightarrow> bool" where
  "demo_schema v = (case v of
     JObj m \<Rightarrow> (case map_of m ''pack_id'' of Some (JStr p) \<Rightarrow> pack_id_re p | _ \<Rightarrow> False) | _ \<Rightarrow> False)"

definition demo_sha :: "string \<Rightarrow> string" where
  "demo_sha t = replicate 64 (CHR ''0'')"

definition demo_revisions :: "(string \<times> json) list" where
  "demo_revisions = [(''pack_common_aaaaaaaaa'', JStr ''r1''), (''pack_project_aaaaaaaa'', JStr ''r2'')]"

lemma demo_lock_built:
  "is_ok (build_validated_lock demo_sha demo_schema demo_packs demo_revisions)"
  "is_ok (validate_catalog demo_schema (demo_packs @ []))"
  by code_simp+

lemma demo_schema_ids: "demo_schema (JObj m) \<Longrightarrow> \<exists>p. map_of m ''pack_id'' = Some (JStr p) \<and> pack_id_re p"
  by (auto simp: demo_schema_def split: option.splits json.splits)

lemma demo_sha_hex: "hex64_re (demo_sha t)"
  by (simp add: demo_sha_def hex64_re_def hex_char_def list_all_iff)


text \<open>A lock pins content: whenever a lock validates against two catalogs and \<open>sha\<close>
  does not collide on the two manifests of a locked pack, the catalogs hold the same manifest for
  it up to the order of dictionary keys.\<close>

lemma lock_pins_manifests:
  assumes a: "validate_packset_lock sha lock A = Inr ()"
    and b: "validate_packset_lock sha lock B = Inr ()"
    and p: "pack_revisions_from_lock lock = Inr revs" "p \<in> fst ` set revs"
    and wf: "wf_json (JObj (the (map_of A p)))" "wf_json (JObj (the (map_of B p)))"
    and inj: "sha (dumps (JObj (the (map_of A p)))) = sha (dumps (JObj (the (map_of B p))))
       \<Longrightarrow> dumps (JObj (the (map_of A p))) = dumps (JObj (the (map_of B p)))"
  shows "canon (JObj (the (map_of A p))) = canon (JObj (the (map_of B p)))"
proof -
  from p obtain rs r d where r: "lock_records lock = Inr rs" "r \<in> set rs"
    "map_of r ''pack_id'' = Some (JStr p)" "map_of r ''manifest_digest'' = Some (JObj d)"
    by (rule lock_records_of_revisions)
  from lock_digest_fact [OF a p r] lock_digest_fact [OF b p r] inj
  show ?thesis using compact.encode_inj [OF wf] by simp
qed

end
