(* ===== verification/Ontology.thy ===== *)
theory Ontology
  imports Json
begin

text \<open>
  The core ontology (\<open>domain/ontology.py\<close>): which kinds of entity a relation may join. The tables
  are the frozen sets of the source as lists. An endpoint type resolver is the caller's: it maps a
  reference to an entity kind, to \<open>None\<close>, or raises; it may also be missing.
\<close>

section \<open>Tables\<close>

definition CORE_ONTOLOGY_REF :: string where
  "CORE_ONTOLOGY_REF = ''dkg.core@1.0.0''"

type_synonym endpoint_type_resolver = "string \<Rightarrow> string option res"

definition ENTITY_TYPES :: "string list" where
  "ENTITY_TYPES =
     [''Artifact'', ''Episode'', ''Source'', ''Evidence'', ''Claim'', ''Assumption'', ''Argument'',
      ''Observation'', ''Experiment'', ''Decision'', ''Question'', ''Concept'', ''Methodology'']"

record endpoint_types =
  source_types :: "string list"
  target_types :: "string list"

definition endpoints :: "string list \<Rightarrow> string list \<Rightarrow> endpoint_types" where
  "endpoints s t = \<lparr> source_types = s, target_types = t \<rparr>"

definition RELATION_ENDPOINT_TYPES :: "(string \<times> endpoint_types) list" where
  "RELATION_ENDPOINT_TYPES =
     [(''SUPPORTS'', endpoints [''Evidence'', ''Claim'', ''Observation'', ''Experiment'']
         [''Claim'', ''Assumption'', ''Decision'']),
      (''CHALLENGES'', endpoints [''Evidence'', ''Claim'', ''Observation'', ''Argument'']
         [''Claim'', ''Assumption'', ''Decision'']),
      (''CONTRADICTS'', endpoints [''Claim'', ''Evidence'', ''Observation'']
         [''Claim'', ''Assumption'']),
      (''REFINES'', endpoints [''Claim'', ''Concept'', ''Methodology'']
         [''Claim'', ''Concept'', ''Methodology'']),
      (''DEPENDS_ON'', endpoints [''Claim'', ''Decision'', ''Argument'', ''Methodology'']
         [''Claim'', ''Assumption'', ''Concept'', ''Source'']),
      (''ASSUMES'', endpoints [''Claim'', ''Argument'', ''Decision'', ''Methodology'']
         [''Assumption'', ''Claim'']),
      (''DERIVED_FROM'', endpoints [''Claim'', ''Concept'', ''Decision'', ''Evidence'', ''Methodology'']
         [''Artifact'', ''Episode'', ''Source'', ''Evidence'', ''Claim'', ''Observation'']),
      (''EXEMPLIFIES'', endpoints [''Observation'', ''Evidence'', ''Episode'']
         [''Claim'', ''Concept'', ''Methodology'']),
      (''SUPERSEDES'', endpoints [''Claim'', ''Concept'', ''Decision'', ''Methodology'']
         [''Claim'', ''Concept'', ''Decision'', ''Methodology'']),
      (''RELATED_TO'', endpoints [''Claim'', ''Concept'', ''Source'', ''Methodology'']
         [''Claim'', ''Concept'', ''Source'', ''Methodology'']),
      (''BROADER_THAN'', endpoints [''Concept''] [''Concept'']),
      (''NARROWER_THAN'', endpoints [''Concept''] [''Concept''])]"

definition RELATION_TYPES :: "string list" where
  "RELATION_TYPES = map fst RELATION_ENDPOINT_TYPES"

text \<open>
  \<open>v in S\<close> for a frozen set \<open>S\<close> of strings: a list or a dictionary is unhashable, another value
  that is no string is not in it.
\<close>

definition in_names :: "json \<Rightarrow> string list \<Rightarrow> bool res" where
  "in_names v S =
     (case v of JStr s \<Rightarrow> Inr (s \<in> set S)
      | JArr _ \<Rightarrow> Inl (Exn TypeError ''unhashable'')
      | JObj _ \<Rightarrow> Inl (Exn TypeError ''unhashable'')
      | _ \<Rightarrow> Inr False)"

lemma in_names_True [simp]: "in_names v S = Inr True \<longleftrightarrow> (\<exists>s. v = JStr s \<and> s \<in> set S)"
  by (cases v) (auto simp: in_names_def)

lemma in_names_JStr [simp]: "in_names (JStr s) S = Inr (s \<in> set S)"
  by (simp add: in_names_def)

section \<open>Validation\<close>

definition ontology_error :: "string \<Rightarrow> exn" where
  "ontology_error m = Exn OntologyConstraintError m"

definition validate_relation_endpoints ::
  "string \<Rightarrow> string \<Rightarrow> string \<Rightarrow> string \<Rightarrow> unit res" where
  "validate_relation_endpoints relation_type source_type target_type ontology_ref =
     rbind (check (ontology_ref = CORE_ONTOLOGY_REF)
              (ontology_error ''ontology_ref must resolve exactly to '')) (\<lambda>_.
     rbind (of_option (ontology_error ''unregistered relation type in '')
              (map_of RELATION_ENDPOINT_TYPES relation_type)) (\<lambda>constraints.
     rbind (check (source_type \<in> set (source_types constraints))
              (ontology_error ''source_type '')) (\<lambda>_.
       check (target_type \<in> set (target_types constraints)) (ontology_error ''target_type ''))))"

definition resolve_endpoint ::
  "string \<Rightarrow> string \<Rightarrow> endpoint_type_resolver option \<Rightarrow> string res" where
  "resolve_endpoint ref role resolver =
     (case resolver of
        None \<Rightarrow> Inl (ontology_error
          ''accepted relation endpoint identity cannot be resolved without an endpoint type resolver'')
      | Some r \<Rightarrow>
          (case r ref of
             Inl _ \<Rightarrow> Inl (ontology_error (role @ '' endpoint identity ''))
           | Inr None \<Rightarrow> Inl (ontology_error (role @ '' endpoint identity ''))
           | Inr (Some t) \<Rightarrow>
               if t = [] then Inl (ontology_error (role @ '' endpoint identity ''))
               else if t \<notin> set ENTITY_TYPES then Inl (ontology_error (role @ '' endpoint identity ''))
               else Inr t))"

definition validate_resolved_relation_endpoints ::
  "string \<Rightarrow> string \<Rightarrow> string \<Rightarrow> string \<Rightarrow> string \<Rightarrow> string \<Rightarrow> endpoint_type_resolver option \<Rightarrow> unit res"
where
  "validate_resolved_relation_endpoints relation_type source_ref source_type target_ref target_type
       ontology_ref resolver =
     rbind (resolve_endpoint source_ref ''source'' resolver) (\<lambda>resolved_source_type.
     rbind (resolve_endpoint target_ref ''target'' resolver) (\<lambda>resolved_target_type.
     rbind (check (source_type = resolved_source_type) (ontology_error ''source_type '')) (\<lambda>_.
     rbind (check (target_type = resolved_target_type) (ontology_error ''target_type '')) (\<lambda>_.
       validate_relation_endpoints relation_type resolved_source_type resolved_target_type
         ontology_ref))))"

section \<open>What validation establishes\<close>

definition legal_pair :: "string \<Rightarrow> string \<Rightarrow> string \<Rightarrow> bool" where
  "legal_pair rt s t \<longleftrightarrow>
     (\<exists>c. map_of RELATION_ENDPOINT_TYPES rt = Some c \<and> s \<in> set (source_types c) \<and> t \<in> set (target_types c))"

definition resolves_to :: "endpoint_type_resolver option \<Rightarrow> string \<Rightarrow> string \<Rightarrow> bool" where
  "resolves_to resolver ref t \<longleftrightarrow> (\<exists>r. resolver = Some r \<and> r ref = Inr (Some t)) \<and> t \<in> set ENTITY_TYPES"

lemma validate_relation_endpoints_iff:
  "validate_relation_endpoints rt s t ref = Inr () \<longleftrightarrow> ref = CORE_ONTOLOGY_REF \<and> legal_pair rt s t"
  by (auto simp: validate_relation_endpoints_def legal_pair_def)

lemma resolve_endpoint_iff: "resolve_endpoint ref role resolver = Inr t \<longleftrightarrow> resolves_to resolver ref t"
proof -
  have "[] \<notin> set ENTITY_TYPES" by (simp add: ENTITY_TYPES_def)
  then show ?thesis
    by (auto simp: resolve_endpoint_def resolves_to_def split: option.splits sum.splits)
qed

lemma validate_relation_endpoints_error:
  "validate_relation_endpoints rt s t ref = Inl e \<Longrightarrow> exn_class e = OntologyConstraintError"
  by (auto simp: validate_relation_endpoints_def ontology_error_def rbind_Inl_iff of_option_def
      split: option.splits)

lemma resolve_endpoint_error:
  "resolve_endpoint ref role resolver = Inl e \<Longrightarrow> exn_class e = OntologyConstraintError"
  by (auto simp: resolve_endpoint_def ontology_error_def split: option.splits sum.splits if_splits)

lemma validate_resolved_iff:
  "validate_resolved_relation_endpoints rt sr st tr tt ref resolver = Inr () \<longleftrightarrow>
     resolves_to resolver sr st \<and> resolves_to resolver tr tt \<and> ref = CORE_ONTOLOGY_REF \<and> legal_pair rt st tt"
  by (auto simp: validate_resolved_relation_endpoints_def resolve_endpoint_iff validate_relation_endpoints_iff)

lemma validate_resolved_error:
  "validate_resolved_relation_endpoints rt sr st tr tt ref resolver = Inl e
   \<Longrightarrow> exn_class e = OntologyConstraintError"
  by (auto simp: validate_resolved_relation_endpoints_def rbind_Inl_iff ontology_error_def
      dest: validate_relation_endpoints_error resolve_endpoint_error)

text \<open>Every kind the table names is an entity kind.\<close>

lemma relation_table_entity_types:
  "\<forall>(rt, c) \<in> set RELATION_ENDPOINT_TYPES.
     set (source_types c) \<subseteq> set ENTITY_TYPES \<and> set (target_types c) \<subseteq> set ENTITY_TYPES"
  by (simp add: RELATION_ENDPOINT_TYPES_def ENTITY_TYPES_def endpoints_def)

end
