(* ===== verification/Lifecycle.thy ===== *)
theory Lifecycle
  imports Ontology
begin

text \<open>
  Knowledge lifecycle (\<open>domain/lifecycle.py\<close>): the current state of claims and relations as a
  projection of the event log. \<open>KnowledgeState\<close> is a record of ordered dictionaries, its methods
  return the updated record or the exception they raise.
\<close>

section \<open>State\<close>

definition CLAIM_STATES :: "string list" where
  "CLAIM_STATES = [''proposed'', ''open'', ''supported'', ''disputed'', ''rejected'', ''superseded'',
     ''retracted'', ''stale_pending_review'']"

definition RELATION_STATES :: "string list" where
  "RELATION_STATES = [''proposed'', ''active'', ''disputed'', ''superseded'', ''invalidated'']"

definition lifecycle_error :: "string \<Rightarrow> exn" where
  "lifecycle_error m = Exn LifecycleError m"

record relation_record =
  relation_id :: string
  relation_type :: string
  source_ref :: json
  target_ref :: json
  rel_state :: string

record knowledge_state =
  claims :: "(string \<times> string) list"
  claim_history :: "(string \<times> string list) list"
  relations :: "(string \<times> relation_record) list"
  relation_history :: "(string \<times> string list) list"

definition empty_knowledge :: knowledge_state where
  "empty_knowledge = \<lparr> claims = [], claim_history = [], relations = [], relation_history = [] \<rparr>"

section \<open>Operations\<close>

text \<open>\<open>history[k].append(v)\<close>.\<close>

definition append_history ::
  "(string \<times> string list) list \<Rightarrow> string \<Rightarrow> string \<Rightarrow> (string \<times> string list) list res" where
  "append_history h k v =
     rbind (of_option (Exn KeyError k) (map_of h k)) (\<lambda>xs. Inr (AList.update k (xs @ [v]) h))"

definition change_claim :: "knowledge_state \<Rightarrow> string \<Rightarrow> json \<Rightarrow> json \<Rightarrow> knowledge_state res" where
  "change_claim st claim_id target expected =
     (case map_of (claims st) claim_id of
        None \<Rightarrow> Inl (lifecycle_error ''unknown claim: '')
      | Some current \<Rightarrow>
          rbind (in_names target CLAIM_STATES) (\<lambda>ok.
          rbind (check ok (lifecycle_error ''invalid claim state: '')) (\<lambda>_.
          rbind (check (expected = JNull \<or> py_eq (JStr current) expected)
                   (lifecycle_error ''claim from_state does not match current state'')) (\<lambda>_.
          rbind (key_str target) (\<lambda>t.
          rbind (append_history (claim_history st) claim_id t) (\<lambda>h.
            Inr (st\<lparr>claims := AList.update claim_id t (claims st), claim_history := h\<rparr>)))))))"

text \<open>Whether \<open>v in self.claims\<close>, for the reference \<open>v\<close> of a relation.\<close>

definition known_ref :: "knowledge_state \<Rightarrow> json \<Rightarrow> bool res" where
  "known_ref st v = in_names v (map fst (claims st))"

definition terminal_states :: "string list" where
  "terminal_states = [''superseded'', ''retracted'', ''rejected'']"

definition mark_relation :: "string \<Rightarrow> knowledge_state \<Rightarrow> relation_record \<Rightarrow> knowledge_state res" where
  "mark_relation premise_id st r =
     (if relation_type r \<noteq> ''DEPENDS_ON'' \<or> rel_state r \<noteq> ''active'' then Inr st
      else if \<not> py_eq (target_ref r) (JStr premise_id) then Inr st
      else rbind (known_ref st (source_ref r)) (\<lambda>known.
        if \<not> known then Inr st
        else rbind (key_str (source_ref r)) (\<lambda>c.
          if the (map_of (claims st) c) \<notin> set terminal_states
          then change_claim st c (JStr ''stale_pending_review'') JNull
          else Inr st)))"

definition mark_dependents_stale :: "knowledge_state \<Rightarrow> string \<Rightarrow> knowledge_state res" where
  "mark_dependents_stale st premise_id =
     rfold (mark_relation premise_id) st (map snd (relations st))"

definition propose_relation :: "knowledge_state \<Rightarrow> json \<Rightarrow> knowledge_state res" where
  "propose_relation st payload =
     rbind (index payload ''relation_id'') (\<lambda>rv.
     rbind (key_str rv) (\<lambda>rid.
     rbind (check (map_of (relations st) rid = None) (lifecycle_error ''relation already exists: '')) (\<lambda>_.
     rbind (index payload ''relation_type'') (\<lambda>rt.
     rbind (in_names rt RELATION_TYPES) (\<lambda>ok.
     rbind (check ok (lifecycle_error ''invalid relation type: '')) (\<lambda>_.
     rbind (get_attr payload ''state'' (JStr ''proposed'')) (\<lambda>sv.
     rbind (in_names sv RELATION_STATES) (\<lambda>ok.
     rbind (check ok (lifecycle_error ''invalid relation state: '')) (\<lambda>_.
     rbind (index payload ''source_ref'') (\<lambda>src.
     rbind (index payload ''target_ref'') (\<lambda>tgt.
     rbind (key_str rt) (\<lambda>rt.
     rbind (key_str sv) (\<lambda>s.
       Inr (st\<lparr>relations := AList.update rid
                 \<lparr> relation_id = rid, relation_type = rt, source_ref = src, target_ref = tgt, rel_state = s \<rparr>
                 (relations st),
               relation_history := AList.update rid [s] (relation_history st)\<rparr>))))))))))))))"

definition change_relation :: "knowledge_state \<Rightarrow> string \<Rightarrow> json \<Rightarrow> knowledge_state res" where
  "change_relation st kind payload =
     rbind (index payload ''relation_id'') (\<lambda>rv.
     rbind (key_str rv) (\<lambda>rid.
     rbind (of_option (Exn KeyError rid) (map_of (relations st) rid)) (\<lambda>relation.
     rbind (get_attr payload ''from_state'' JNull) (\<lambda>expected.
     rbind (check (expected = JNull \<or> py_eq (JStr (rel_state relation)) expected)
              (lifecycle_error ''relation from_state does not match current state'')) (\<lambda>_.
     rbind (if kind = ''relation.superseded'' then Inr (JStr ''superseded'')
            else index payload ''to_state'') (\<lambda>target.
     rbind (in_names target RELATION_STATES) (\<lambda>ok.
     rbind (check ok (lifecycle_error ''invalid relation state: '')) (\<lambda>_.
     rbind (key_str target) (\<lambda>t.
     rbind (append_history (relation_history st) (relation_id relation) t) (\<lambda>h.
       Inr (st\<lparr>relations := AList.update rid (relation\<lparr>rel_state := t\<rparr>) (relations st),
               relation_history := h\<rparr>)))))))))))"

definition apply_kind :: "knowledge_state \<Rightarrow> json \<Rightarrow> json \<Rightarrow> json \<Rightarrow> knowledge_state res" where
  "apply_kind st kind payload subject =
     (if kind = JStr ''claim.proposed'' then
        rbind (key_str subject) (\<lambda>c.
        rbind (check (map_of (claims st) c = None) (lifecycle_error ''claim already exists: '')) (\<lambda>_.
          Inr (st\<lparr>claims := AList.update c ''proposed'' (claims st),
                  claim_history := AList.update c [''proposed''] (claim_history st)\<rparr>)))
      else if kind = JStr ''claim.state_changed'' then
        rbind (index payload ''to_state'') (\<lambda>to_state.
        rbind (get_attr payload ''from_state'' JNull) (\<lambda>from_state.
        rbind (key_str subject) (\<lambda>c. change_claim st c to_state from_state)))
      else if kind = JStr ''claim.superseded'' then
        rbind (get_attr payload ''from_state'' JNull) (\<lambda>from_state.
        rbind (key_str subject) (\<lambda>c.
        rbind (change_claim st c (JStr ''superseded'') from_state) (\<lambda>st'.
          mark_dependents_stale st' c)))
      else if kind = JStr ''relation.proposed'' then propose_relation st payload
      else rbind (in_names kind [''relation.state_changed'', ''relation.superseded'']) (\<lambda>b.
        if b then rbind (key_str kind) (\<lambda>k. change_relation st k payload) else Inr st))"

definition apply_event :: "knowledge_state \<Rightarrow> dict \<Rightarrow> knowledge_state res" where
  "apply_event st event =
     rbind (dindex event ''event_type'') (\<lambda>kind.
     rbind (dindex event ''payload'') (\<lambda>payload.
     rbind (dindex event ''subject_refs'') (\<lambda>refs.
     rbind (first_item refs) (\<lambda>subject. apply_kind st kind payload subject))))"

definition replay :: "dict list \<Rightarrow> knowledge_state res" where
  "replay events = rfold apply_event empty_knowledge events"

section \<open>The invariant of the projection\<close>

text \<open>
  A table of current states agrees with its histories: the same keys, and every history is a
  non-empty list of legal states that ends in the current one.
\<close>

definition tracked_at :: "string option \<Rightarrow> string list option \<Rightarrow> string list \<Rightarrow> bool" where
  "tracked_at cur hist legal \<longleftrightarrow>
     cur = None \<and> hist = None
     \<or> (\<exists>h. hist = Some h \<and> h \<noteq> [] \<and> cur = Some (last h) \<and> set h \<subseteq> set legal)"

definition tracked :: "(string \<times> string) list \<Rightarrow> (string \<times> string list) list \<Rightarrow> string list \<Rightarrow> bool" where
  "tracked cur hist legal \<longleftrightarrow> (\<forall>k. tracked_at (map_of cur k) (map_of hist k) legal)"

definition relation_states :: "knowledge_state \<Rightarrow> (string \<times> string) list" where
  "relation_states st = map (\<lambda>(k, r). (k, rel_state r)) (relations st)"

definition relations_typed :: "knowledge_state \<Rightarrow> bool" where
  "relations_typed st \<longleftrightarrow>
     (\<forall>k r. map_of (relations st) k = Some r \<longrightarrow> relation_id r = k \<and> relation_type r \<in> set RELATION_TYPES)"

definition knowledge_ok :: "knowledge_state \<Rightarrow> bool" where
  "knowledge_ok st \<longleftrightarrow>
     tracked (claims st) (claim_history st) CLAIM_STATES
     \<and> tracked (relation_states st) (relation_history st) RELATION_STATES
     \<and> distinct (map fst (relations st)) \<and> relations_typed st"

text \<open>Histories only grow, and no claim or relation disappears.\<close>

definition grows :: "(string \<times> string list) list \<Rightarrow> (string \<times> string list) list \<Rightarrow> bool" where
  "grows h h' \<longleftrightarrow> (\<forall>k xs. map_of h k = Some xs \<longrightarrow> (\<exists>ys. map_of h' k = Some (xs @ ys)))"

definition knowledge_grows :: "knowledge_state \<Rightarrow> knowledge_state \<Rightarrow> bool" where
  "knowledge_grows st st' \<longleftrightarrow>
     grows (claim_history st) (claim_history st') \<and> grows (relation_history st) (relation_history st')"

lemma grows_refl [simp, inv_intros]: "grows h h"
  by (auto simp: grows_def intro: exI [of _ "[]"])

lemma grows_trans [inv_intros]: "grows h h' \<Longrightarrow> grows h' h'' \<Longrightarrow> grows h h''"
  unfolding grows_def by (metis append.assoc)

lemma knowledge_grows_refl [simp]: "knowledge_grows st st"
  by (simp add: knowledge_grows_def)

lemma knowledge_grows_trans: "knowledge_grows a b \<Longrightarrow> knowledge_grows b c \<Longrightarrow> knowledge_grows a c"
  unfolding knowledge_grows_def by (blast intro: grows_trans)

lemma grows_update_new: "map_of h k = None \<Longrightarrow> grows h (AList.update k xs h)"
  by (auto simp: grows_def map_of_update)

lemma append_history_grows: "append_history h k v = Inr h' \<Longrightarrow> grows h h'"
  by (auto simp: append_history_def grows_def map_of_update)

lemma tracked_new:
  "tracked cur hist legal \<Longrightarrow> v \<in> set legal
   \<Longrightarrow> tracked (AList.update k v cur) (AList.update k [v] hist) legal"
  by (auto simp: tracked_def tracked_at_def map_of_update)

lemma tracked_append:
  assumes t: "tracked cur hist legal" and a: "append_history hist k v = Inr hist'" and v: "v \<in> set legal"
  shows "tracked (AList.update k v cur) hist' legal"
proof -
  from a obtain xs where xs: "map_of hist k = Some xs" "hist' = AList.update k (xs @ [v]) hist"
    by (auto simp: append_history_def)
  have "set xs \<subseteq> set legal"
    using t xs(1) by (auto simp: tracked_def tracked_at_def dest!: spec [of _ k])
  then show ?thesis using t v xs(2) by (auto simp: tracked_def tracked_at_def map_of_update)
qed

lemma tracked_history_Some:
  "tracked cur hist legal \<Longrightarrow> map_of cur k = Some v \<Longrightarrow> \<exists>xs. map_of hist k = Some xs"
  by (auto simp: tracked_def tracked_at_def dest: spec [of _ k])

lemma empty_knowledge_ok [simp]: "knowledge_ok empty_knowledge"
  by (simp add: knowledge_ok_def empty_knowledge_def tracked_def tracked_at_def relation_states_def
      relations_typed_def)

lemma change_claim_Inr:
  assumes "change_claim st c target expected = Inr st'"
  obtains cur t h where "map_of (claims st) c = Some cur" "target = JStr t" "t \<in> set CLAIM_STATES"
    "expected = JNull \<or> expected = JStr cur" "append_history (claim_history st) c t = Inr h"
    "st' = st\<lparr>claims := AList.update c t (claims st), claim_history := h\<rparr>"
  using assms by (auto simp: change_claim_def split: option.splits)

lemma change_claim_step:
  assumes "change_claim st c target expected = Inr st'"
  shows "(knowledge_ok st \<longrightarrow> knowledge_ok st') \<and> knowledge_grows st st' \<and> relations st' = relations st"
  using assms
  by (elim change_claim_Inr)
    (auto simp: knowledge_ok_def knowledge_grows_def relation_states_def relations_typed_def
      intro: tracked_append append_history_grows)

lemma mark_relation_step:
  assumes "mark_relation p st r = Inr st'"
  shows "(knowledge_ok st \<longrightarrow> knowledge_ok st') \<and> knowledge_grows st st' \<and> relations st' = relations st"
  using assms change_claim_step by (fastforce simp: mark_relation_def split: if_splits)

lemma mark_dependents_step:
  assumes "mark_dependents_stale st p = Inr st'"
  shows "(knowledge_ok st \<longrightarrow> knowledge_ok st') \<and> knowledge_grows st st' \<and> relations st' = relations st"
  using assms unfolding mark_dependents_stale_def
proof (rule rfold_invariant)
  fix s r s'
  assume "(knowledge_ok st \<longrightarrow> knowledge_ok s) \<and> knowledge_grows st s \<and> relations s = relations st"
    and "mark_relation p s r = Inr s'"
  with mark_relation_step [of p s r s'] knowledge_grows_trans
  show "(knowledge_ok st \<longrightarrow> knowledge_ok s') \<and> knowledge_grows st s' \<and> relations s' = relations st"
    by metis
qed simp

lemma relation_states_update:
  "relation_states (st\<lparr>relations := AList.update k r (relations st), relation_history := h\<rparr>)
   = AList.update k (rel_state r) (relation_states st)"
proof -
  have "map (\<lambda>(k, r). (k, rel_state r)) (AList.update k r al)
      = AList.update k (rel_state r) (map (\<lambda>(k, r). (k, rel_state r)) al)" for al
    by (induction al) auto
  then show ?thesis by (simp add: relation_states_def)
qed

lemma map_of_relation_states: "map_of (relation_states st) k = map_option rel_state (map_of (relations st) k)"
  by (simp add: relation_states_def map_of_map_snd)

lemma propose_relation_Inr:
  assumes "propose_relation st payload = Inr st'"
  obtains k t src tgt s where "map_of (relations st) k = None" "t \<in> set RELATION_TYPES"
    "s \<in> set RELATION_STATES"
    "st' = st\<lparr>relations := AList.update k
                 \<lparr> relation_id = k, relation_type = t, source_ref = src, target_ref = tgt, rel_state = s \<rparr>
                 (relations st),
               relation_history := AList.update k [s] (relation_history st)\<rparr>"
  using assms by (auto simp: propose_relation_def)

lemma propose_relation_step:
  assumes "propose_relation st payload = Inr st'" "knowledge_ok st"
  shows "knowledge_ok st' \<and> knowledge_grows st st'"
proof -
  from assms(1) obtain k t src tgt s where new: "map_of (relations st) k = None"
    "t \<in> set RELATION_TYPES" "s \<in> set RELATION_STATES"
    and st': "st' = st\<lparr>relations := AList.update k
                 \<lparr> relation_id = k, relation_type = t, source_ref = src, target_ref = tgt, rel_state = s \<rparr>
                 (relations st),
               relation_history := AList.update k [s] (relation_history st)\<rparr>"
    by (rule propose_relation_Inr)
  have "map_of (relation_history st) k = None"
    using assms(2) new(1)
    by (auto simp: knowledge_ok_def tracked_def tracked_at_def map_of_relation_states dest!: spec [of _ k])
  then show ?thesis
    using assms(2) new
    by (auto simp: st' knowledge_ok_def relation_states_update knowledge_grows_def tracked_new
        relations_typed_def map_of_update intro: grows_update_new)
qed

lemma change_relation_Inr:
  assumes "change_relation st kind payload = Inr st'"
  obtains k r t h where "map_of (relations st) k = Some r" "t \<in> set RELATION_STATES"
    "append_history (relation_history st) (relation_id r) t = Inr h"
    "st' = st\<lparr>relations := AList.update k (r\<lparr>rel_state := t\<rparr>) (relations st), relation_history := h\<rparr>"
  using assms by (auto simp: change_relation_def)

lemma change_relation_step:
  assumes "change_relation st kind payload = Inr st'" "knowledge_ok st"
  shows "knowledge_ok st' \<and> knowledge_grows st st'"
proof -
  from assms(1) obtain k r t h where r: "map_of (relations st) k = Some r" "t \<in> set RELATION_STATES"
    "append_history (relation_history st) (relation_id r) t = Inr h"
    and st': "st' = st\<lparr>relations := AList.update k (r\<lparr>rel_state := t\<rparr>) (relations st), relation_history := h\<rparr>"
    by (rule change_relation_Inr)
  have id: "relation_id r = k" using assms(2) r(1) by (simp add: knowledge_ok_def relations_typed_def)
  have "tracked (AList.update k t (relation_states st)) h RELATION_STATES"
    by (rule tracked_append [of _ "relation_history st"]) (use assms(2) r id in \<open>simp_all add: knowledge_ok_def\<close>)
  then show ?thesis
    using assms(2) r id
    by (auto simp: st' knowledge_ok_def relation_states_update knowledge_grows_def
        relations_typed_def map_of_update intro: append_history_grows)
qed

lemma apply_kind_step:
  assumes a: "apply_kind st kind payload subject = Inr st'" and ok: "knowledge_ok st"
  shows "knowledge_ok st' \<and> knowledge_grows st st'"
proof -
  consider "kind = JStr ''claim.proposed''" | "kind = JStr ''claim.state_changed''"
    | "kind = JStr ''claim.superseded''" | "kind = JStr ''relation.proposed''"
    | "kind \<notin> {JStr ''claim.proposed'', JStr ''claim.state_changed'', JStr ''claim.superseded'',
         JStr ''relation.proposed''}" by blast
  then show ?thesis
  proof cases
    case 1
    with a obtain c where c: "map_of (claims st) c = None"
        "st' = st\<lparr>claims := AList.update c ''proposed'' (claims st),
                  claim_history := AList.update c [''proposed''] (claim_history st)\<rparr>"
      by (auto simp: apply_kind_def)
    then have "map_of (claim_history st) c = None"
      using ok by (auto simp: knowledge_ok_def tracked_def tracked_at_def dest!: spec [of _ c])
    with c ok show ?thesis
      by (auto simp: knowledge_ok_def relation_states_def relations_typed_def knowledge_grows_def
          CLAIM_STATES_def intro: tracked_new grows_update_new)
  next
    case 2
    with a obtain c t e where "change_claim st c t e = Inr st'" by (auto simp: apply_kind_def)
    then show ?thesis using change_claim_step ok by blast
  next
    case 3
    with a obtain c t e s where "change_claim st c t e = Inr s" "mark_dependents_stale s c = Inr st'"
      by (auto simp: apply_kind_def)
    with change_claim_step [OF this(1)] mark_dependents_step [OF this(2)] ok
    show ?thesis by (blast intro: knowledge_grows_trans)
  next
    case 4
    with a have "propose_relation st payload = Inr st'" by (simp add: apply_kind_def)
    then show ?thesis using propose_relation_step ok by blast
  next
    case 5
    with a obtain b where "(if b then rbind (key_str kind) (\<lambda>k. change_relation st k payload) else Inr st) = Inr st'"
      by (auto simp: apply_kind_def simp del: key_str_Inr_iff if_Inr_unit)
    then show ?thesis using change_relation_step ok by (cases b) auto
  qed
qed

lemma apply_event_step:
  assumes "apply_event st ev = Inr st'" "knowledge_ok st"
  shows "knowledge_ok st' \<and> knowledge_grows st st'"
  using assms apply_kind_step by (auto simp: apply_event_def)

text \<open>\<open>depends_on r p c\<close>: an active \<open>DEPENDS_ON\<close> relation from \<open>c\<close> to \<open>p\<close>.\<close>

definition depends_on :: "relation_record \<Rightarrow> string \<Rightarrow> string \<Rightarrow> bool" where
  "depends_on r p c \<longleftrightarrow> relation_type r = ''DEPENDS_ON'' \<and> rel_state r = ''active''
     \<and> target_ref r = JStr p \<and> source_ref r = JStr c"

definition staled :: "bool \<Rightarrow> string \<Rightarrow> string" where
  "staled hit v = (if hit \<and> v \<notin> set terminal_states then ''stale_pending_review'' else v)"

lemma staled_simps [simp]: "staled False v = v" "staled a (staled b v) = staled (a \<or> b) v"
  by (auto simp: staled_def terminal_states_def)

lemma staled_False [simp]: "map_option (staled False) x = x"
  by (cases x) simp_all

lemma change_claim_claims:
  "change_claim st c target expected = Inr st' \<Longrightarrow>
   \<exists>t. target = JStr t \<and> map_of (claims st') = (map_of (claims st))(c \<mapsto> t)"
  by (elim change_claim_Inr) (auto simp: map_of_update)

lemma map_of_keys: "s \<in> set (map fst al) \<longleftrightarrow> map_of al s \<noteq> None"
  by (simp add: map_of_eq_None_iff)

lemma mark_relation_claims:
  assumes "mark_relation p st r = Inr st'"
  shows "map_of (claims st') c = map_option (staled (depends_on r p c)) (map_of (claims st) c)"
proof (cases "relation_type r = ''DEPENDS_ON'' \<and> rel_state r = ''active'' \<and> target_ref r = JStr p")
  case False
  with assms have "st' = st" by (auto simp: mark_relation_def split: if_split_asm)
  moreover have "\<not> depends_on r p c" using False by (auto simp: depends_on_def)
  ultimately show ?thesis by (simp add: option.map_ident)
next
  case True
  with assms obtain known where kn: "known_ref st (source_ref r) = Inr known"
    and k: "(if \<not> known then Inr st
         else rbind (key_str (source_ref r)) (\<lambda>c.
           if the (map_of (claims st) c) \<notin> set terminal_states
           then change_claim st c (JStr ''stale_pending_review'') JNull else Inr st)) = Inr st'"
    by (auto simp: mark_relation_def simp del: key_str_Inr_iff rbind_Inr_iff elim: rbind.elims)
  show ?thesis
  proof (cases known)
    case False
    with k have "st' = st" by simp
    moreover have "map_of (claims st) c = None" if "depends_on r p c"
      using that kn False
      by (auto simp: depends_on_def known_ref_def simp flip: map_of_eq_None_iff)
    ultimately show ?thesis by (cases "depends_on r p c") (simp_all add: option.map_ident)
  next
    case True': True
    with kn obtain s where s: "source_ref r = JStr s" "map_of (claims st) s \<noteq> None"
      by (auto simp: known_ref_def map_of_eq_None_iff)
    have d: "depends_on r p c \<longleftrightarrow> c = s" using True s by (auto simp: depends_on_def)
    show ?thesis
    proof (cases "the (map_of (claims st) s) \<in> set terminal_states")
      case True
      with k s True' have "st' = st" by simp
      with True s show ?thesis unfolding d by (cases "c = s") (auto simp: staled_def)
    next
      case False
      with k s True' have "change_claim st s (JStr ''stale_pending_review'') JNull = Inr st'" by simp
      from change_claim_claims [OF this] False s show ?thesis
        unfolding d by (cases "c = s") (auto simp: staled_def)
    qed
  qed
qed

lemma marks_claims:
  assumes "rfold (mark_relation p) st rs = Inr st'"
  shows "map_of (claims st') c = map_option (staled (\<exists>r \<in> set rs. depends_on r p c)) (map_of (claims st) c)"
  using assms
proof (induction rs arbitrary: st)
  case Nil
  then show ?case by (simp add: option.map_ident)
next
  case (Cons r rs)
  then obtain s where s: "mark_relation p st r = Inr s" "rfold (mark_relation p) s rs = Inr st'" by auto
  show ?case
    unfolding Cons.IH [OF s(2)] mark_relation_claims [OF s(1)]
    by (simp add: option.map_comp comp_def disj_commute)
qed

lemma supersede_claims:
  assumes "change_claim st p (JStr ''superseded'') expected = Inr s"
    and "mark_dependents_stale s p = Inr st'"
  shows "map_of (claims st') c =
     (if c = p then Some ''superseded''
      else map_option (staled (\<exists>r \<in> snd ` set (relations st). depends_on r p c)) (map_of (claims st) c))"
proof -
  have rel: "relations s = relations st" using change_claim_step [OF assms(1)] by simp
  have "map_of (claims s) = (map_of (claims st))(p \<mapsto> ''superseded'')"
    using change_claim_claims [OF assms(1)] by auto
  then show ?thesis
    using marks_claims [OF assms(2) [unfolded mark_dependents_stale_def], of c]
    by (simp add: rel staled_def terminal_states_def)
qed

text \<open>The log is replayed by a machine whose invariant holds and whose histories grow.\<close>

interpretation lifecycle: replay_machine apply_event knowledge_ok knowledge_grows
  by unfold_locales (auto dest: apply_event_step intro: knowledge_grows_trans)

section \<open>Properties\<close>

definition demo_event :: "string \<Rightarrow> string \<Rightarrow> dict \<Rightarrow> dict" where
  "demo_event kind subject payload =
     [(''event_type'', JStr kind), (''subject_refs'', strs [subject]), (''payload'', JObj payload)]"

definition demo_relation :: dict where
  "demo_relation = [(''relation_id'', JStr ''r1''), (''relation_type'', JStr ''DEPENDS_ON''),
     (''source_ref'', JStr ''c2''), (''target_ref'', JStr ''c1'')]"

definition demo_events :: "dict list" where
  "demo_events =
     [demo_event ''claim.proposed'' ''c1'' [],
      demo_event ''claim.proposed'' ''c2'' [],
      demo_event ''claim.state_changed'' ''c2'' [(''to_state'', JStr ''supported'')],
      demo_event ''relation.proposed'' ''r1'' demo_relation,
      demo_event ''relation.state_changed'' ''r1''
        [(''relation_id'', JStr ''r1''), (''from_state'', JStr ''proposed''), (''to_state'', JStr ''active'')]]"

text \<open>C3. Every state replayed from a log is consistent: the current state of each claim and each
  relation is the last entry of its history, every recorded state is legal, and every relation is
  stored under its own id with a registered type.\<close>

theorem replay_consistent: "replay events = Inr st \<Longrightarrow> knowledge_ok st"
  unfolding replay_def using lifecycle.run_ok by fastforce

lemma demo_events_run: "is_ok (replay demo_events)"
  by code_simp

theorem replay_consistent_witness: "\<exists>st. replay demo_events = Inr st \<and> knowledge_ok st"
  using demo_events_run replay_consistent by (auto simp: is_ok_iff)

text \<open>C4. Replay is append-only: the state after a longer log extends every history of the state
  after a prefix of it, so no recorded claim or relation state is rewritten or lost.\<close>

theorem replay_append_only:
  "replay (earlier @ later) = Inr st' \<Longrightarrow> \<exists>st. replay earlier = Inr st \<and> knowledge_grows st st'"
  unfolding replay_def using lifecycle.run_prefix by fastforce

theorem replay_append_only_witness:
  "\<exists>st st'. replay (take 2 demo_events) = Inr st \<and> replay demo_events = Inr st' \<and> knowledge_grows st st'"
  using replay_append_only [of "take 2 demo_events" "drop 2 demo_events"] demo_events_run
  by (auto simp: is_ok_iff)

text \<open>C5. Superseding a claim marks exactly its live dependents stale: after \<open>claim.superseded\<close> on
  \<open>p\<close>, \<open>p\<close> is superseded, a known claim with an active \<open>DEPENDS_ON\<close> relation to \<open>p\<close> and no
  terminal state is \<open>stale_pending_review\<close>, every other claim keeps its state, and no relation
  changes.\<close>

theorem superseding_marks_dependents:
  assumes "apply_kind st (JStr ''claim.superseded'') payload (JStr p) = Inr st'"
  shows "map_of (claims st') c =
      (if c = p then Some ''superseded''
       else map_option (staled (\<exists>r \<in> snd ` set (relations st). depends_on r p c)) (map_of (claims st) c))
    \<and> relations st' = relations st"
proof -
  from assms obtain e s where s: "change_claim st p (JStr ''superseded'') e = Inr s"
      "mark_dependents_stale s p = Inr st'"
    by (auto simp: apply_kind_def)
  then show ?thesis
    using supersede_claims [OF s] change_claim_step [OF s(1)] mark_dependents_step [OF s(2)] by simp
qed

definition demo_state :: knowledge_state where
  "demo_state = (case replay demo_events of Inr st \<Rightarrow> st | _ \<Rightarrow> empty_knowledge)"

lemma demo_supersede_runs:
  "is_ok (apply_kind demo_state (JStr ''claim.superseded'') (JObj []) (JStr ''c1''))"
  by code_simp

lemma demo_state_facts:
  "map_of (claims demo_state) ''c2'' = Some ''supported''"
  "\<exists>r \<in> snd ` set (relations demo_state). depends_on r ''c1'' ''c2''"
  by code_simp+

theorem superseding_marks_dependents_witness:
  "\<exists>st'. apply_kind demo_state (JStr ''claim.superseded'') (JObj []) (JStr ''c1'') = Inr st'
     \<and> map_of (claims st') ''c2'' = Some ''stale_pending_review''"
proof -
  from demo_supersede_runs obtain st'
    where st': "apply_kind demo_state (JStr ''claim.superseded'') (JObj []) (JStr ''c1'') = Inr st'"
    by (auto simp: is_ok_iff)
  with superseding_marks_dependents [OF st', of "''c2''"] show ?thesis
    using demo_state_facts by (auto simp: staled_def terminal_states_def)
qed

end
