(* ===== verification/Promotion.thy ===== *)
theory Promotion
  imports Json
begin

text \<open>
  Cross-pack promotion (\<open>domain/promotion.py\<close>): the event that carries knowledge from one pack to
  another, and the check that binds it to its exact source event. The resolver of source events is
  the caller's: it maps a pinned pack id, revision and event id to the event, to \<open>None\<close>, or raises.
\<close>

type_synonym promotion_source_resolver = "string \<Rightarrow> string \<Rightarrow> string \<Rightarrow> dict option res"

definition PROMOTION_CONTRACT_VERSION :: string where
  "PROMOTION_CONTRACT_VERSION = ''dkg.promotion.v2''"

definition promotion_error :: "string \<Rightarrow> exn" where
  "promotion_error m = Exn PromotionSourceError m"

definition required_source_pin :: "dict \<Rightarrow> string \<Rightarrow> string res" where
  "required_source_pin payload field =
     (case dget payload field of
        JStr s \<Rightarrow> if strip s = [] then Inl (promotion_error ''promotion requires a non-empty string '') else Inr s
      | _ \<Rightarrow> Inl (promotion_error ''promotion requires a non-empty string ''))"

definition build_promotion_event ::
  "string \<Rightarrow> string \<Rightarrow> string \<Rightarrow> string \<Rightarrow> string list \<Rightarrow> dict \<Rightarrow> string \<Rightarrow> string \<Rightarrow> string \<Rightarrow> string list \<Rightarrow> string
   \<Rightarrow> dict res" where
  "build_promotion_event source_pack_id source_pack_revision source_event_id target_pack_id subjects actor
       occurred_at recorded_at idempotency_key evidence_refs reason =
     rbind (check (subjects \<noteq> []) (Exn ValueError ''promotion requires at least one stable subject reference'')) (\<lambda>_.
     rbind (check (source_pack_id \<noteq> target_pack_id)
              (Exn ValueError ''promotion requires different source and target packs'')) (\<lambda>_.
     rbind (check (source_pack_revision \<noteq> [] \<and> strip source_pack_revision \<noteq> [])
              (Exn ValueError ''promotion requires an exact non-empty source pack revision'')) (\<lambda>_.
     rbind (check (source_event_id \<noteq> [] \<and> strip source_event_id \<noteq> [])
              (Exn ValueError ''promotion requires a stable source event ID'')) (\<lambda>_.
       Inr [(''schema_version'', JStr ''dkg.event.v1''),
            (''event_type'', JStr ''knowledge.promoted''),
            (''occurred_at'', JStr occurred_at),
            (''recorded_at'', JStr recorded_at),
            (''pack_id'', JStr target_pack_id),
            (''actor'', JObj actor),
            (''subject_refs'', strs subjects),
            (''idempotency_key'', JStr idempotency_key),
            (''evidence_refs'', strs evidence_refs),
            (''payload'', JObj
               [(''contract_version'', JStr PROMOTION_CONTRACT_VERSION),
                (''source_pack_id'', JStr source_pack_id),
                (''source_pack_revision'', JStr source_pack_revision),
                (''source_event_id'', JStr source_event_id),
                (''target_pack_id'', JStr target_pack_id),
                (''reason'', JStr reason)]),
            (''provenance'', JObj [(''method'', JStr ''explicit_cross_pack_promotion'')])]))))"

text \<open>\<open>set(xs).issubset(set(ys))\<close> for lists of values: unhashable elements raise.\<close>

definition hashable :: "json \<Rightarrow> bool" where
  "hashable v \<longleftrightarrow> \<not> is_arr v \<and> \<not> is_obj v"

definition values_subset :: "json list \<Rightarrow> json list \<Rightarrow> bool res" where
  "values_subset xs ys =
     rbind (each (\<lambda>x. check (hashable x) (Exn TypeError ''unhashable'')) xs) (\<lambda>_.
     rbind (each (\<lambda>y. check (hashable y) (Exn TypeError ''unhashable'')) ys) (\<lambda>_.
       Inr (list_all (\<lambda>x. list_ex (py_eq x) ys) xs)))"

definition resolve_promotion_source ::
  "promotion_source_resolver option \<Rightarrow> string \<Rightarrow> string \<Rightarrow> string \<Rightarrow> dict res" where
  "resolve_promotion_source resolver p v e =
     (case resolver of
        None \<Rightarrow> Inl (promotion_error ''promotion source cannot be accepted without a source resolver'')
      | Some r \<Rightarrow>
          (case r p v e of
             Inr (Some ev) \<Rightarrow> Inr ev
           | _ \<Rightarrow> Inl (promotion_error
               ''promotion source event is not resolvable at the pinned source revision'')))"

definition check_promoted_subjects :: "json \<Rightarrow> json \<Rightarrow> unit res" where
  "check_promoted_subjects promoted source =
     (case promoted of
        JArr (s # ss) \<Rightarrow>
          (case source of
             JArr sources \<Rightarrow>
               rbind (values_subset (s # ss) sources) (\<lambda>ok.
                 check ok (promotion_error
                   ''promotion subject_refs must be present in the pinned source event''))
           | _ \<Rightarrow> Inl (promotion_error
               ''promotion subject_refs must be present in the pinned source event''))
      | _ \<Rightarrow> Inl (promotion_error ''promotion requires stable subject_refs''))"

definition validate_promotion_source :: "dict \<Rightarrow> promotion_source_resolver option \<Rightarrow> dict res" where
  "validate_promotion_source event resolver =
     (case dget event ''payload'' of
        JObj payload \<Rightarrow>
          rbind (required_source_pin payload ''source_pack_id'') (\<lambda>source_pack_id.
          rbind (required_source_pin payload ''source_pack_revision'') (\<lambda>source_revision.
          rbind (required_source_pin payload ''source_event_id'') (\<lambda>source_event_id.
          let target_pack_id = py_str (dget_or payload ''target_pack_id'' (JStr []));
              durable_pack_id = py_str (dget_or event ''pack_id'' (JStr []))
          in rbind (check (target_pack_id = durable_pack_id)
                      (promotion_error ''promotion target_pack_id must equal durable pack_id'')) (\<lambda>_.
             rbind (check (source_pack_id \<noteq> target_pack_id)
                      (promotion_error ''promotion requires different source and target packs'')) (\<lambda>_.
             rbind (resolve_promotion_source resolver source_pack_id source_revision source_event_id) (\<lambda>resolved.
             rbind (check (py_str (dget_or resolved ''pack_id'' (JStr [])) = source_pack_id)
                      (promotion_error ''resolved source pack does not match promotion source_pack_id'')) (\<lambda>_.
             rbind (check (py_str (dget_or resolved ''event_id'' (JStr [])) = source_event_id)
                      (promotion_error ''resolved source event does not match promotion source_event_id'')) (\<lambda>_.
             rbind (check_promoted_subjects (dget event ''subject_refs'') (dget resolved ''subject_refs'')) (\<lambda>_.
               Inr resolved)))))))))
      | _ \<Rightarrow> Inl (promotion_error ''promotion payload must be an object''))"

end
