(* ===== verification/Event_Contracts.thy ===== *)
theory Event_Contracts
  imports Lifecycle Promotion
begin

text \<open>
  The registry of event types and the acceptance boundary of the event log
  (\<open>domain/event_contracts.py\<close>). A payload schema is the JSON schema document of the source, built
  by the same helpers; whether a value conforms to a schema is decided by the \<open>jsonschema\<close>
  package, the parameter \<open>V\<close> of \<open>validate_event_for_commit\<close>.
\<close>

section \<open>Contracts\<close>

definition EVENT_TYPE_REGISTRY_VERSION :: string where
  "EVENT_TYPE_REGISTRY_VERSION = ''dkg.event-type-registry.v1''"

definition contract_error :: "string \<Rightarrow> exn" where
  "contract_error m = Exn EventContractError m"

record evidence_policy =
  evidence_refs :: string
  source_snapshot_refs :: string
  required_provenance_fields :: "string list"

definition default_policy :: evidence_policy where
  "default_policy = \<lparr> evidence_refs = ''optional'', source_snapshot_refs = ''optional'',
     required_provenance_fields = [] \<rparr>"

definition evidence_policy_ok :: "evidence_policy \<Rightarrow> unit res" where
  "evidence_policy_ok p =
     rbind (check (evidence_refs p \<in> {''optional'', ''required''})
              (Exn ValueError ''unsupported evidence_refs policy: '')) (\<lambda>_.
       check (source_snapshot_refs p \<in> {''optional'', ''required''})
         (Exn ValueError ''unsupported source_snapshot_refs policy: ''))"

record event_type_contract =
  contract_event_type :: string
  contract_version :: string
  commit_eligibility :: string
  payload_schema :: dict
  contract_policy :: evidence_policy
  ontology_constraints :: "dict option"
  property_ids :: "string list"
  oracle_ids :: "string list"

definition event_type_contract_ok :: "event_type_contract \<Rightarrow> unit res" where
  "event_type_contract_ok c =
     check (commit_eligibility c \<in> {''proposal_only'', ''accepted''})
       (Exn ValueError ''unsupported commit eligibility for '')"

definition build_payload_schema :: "string \<Rightarrow> string list \<Rightarrow> dict \<Rightarrow> int \<Rightarrow> dict" where
  "build_payload_schema event_type required properties schema_version =
     [(''$schema'', JStr ''https://json-schema.org/draft/2020-12/schema''),
      (''$id'', JStr (''https://pukujan.github.io/fossil-core/schemas/event-types/'' @ event_type @ ''/v''
                      @ show_int schema_version @ ''.schema.json'')),
      (''type'', JStr ''object''),
      (''additionalProperties'', JBool True),
      (''required'', strs required),
      (''properties'', JObj properties)]"

definition string_schema :: "int \<Rightarrow> json" where
  "string_schema min_length = JObj [(''type'', JStr ''string''), (''minLength'', JInt min_length)]"

definition string_array_schema :: "int \<Rightarrow> json" where
  "string_array_schema min_items =
     JObj [(''type'', JStr ''array''), (''minItems'', JInt min_items), (''uniqueItems'', JBool True),
           (''items'', string_schema 1)]"

definition enum_schema :: "string list \<Rightarrow> json" where
  "enum_schema names = JObj [(''type'', JStr ''string''), (''enum'', strs names)]"

definition PACK_ID_SCHEMA :: json where
  "PACK_ID_SCHEMA = JObj [(''type'', JStr ''string''), (''pattern'', JStr ''^pack_[A-Za-z0-9_-]{16,}$'')]"

definition CLAIM_STATE_SCHEMA :: json where
  "CLAIM_STATE_SCHEMA = enum_schema (sort CLAIM_STATES)"

definition RELATION_STATE_SCHEMA :: json where
  "RELATION_STATE_SCHEMA = enum_schema (sort RELATION_STATES)"

definition RELATION_TYPE_SCHEMA :: json where
  "RELATION_TYPE_SCHEMA = enum_schema (sort RELATION_TYPES)"

definition ENTITY_TYPE_SCHEMA :: json where
  "ENTITY_TYPE_SCHEMA = enum_schema (sort ENTITY_TYPES)"

definition RELATION_ENDPOINT_REQUIRED :: "string list" where
  "RELATION_ENDPOINT_REQUIRED =
     [''ontology_ref'', ''relation_type'', ''source_ref'', ''source_type'', ''target_ref'', ''target_type'']"

definition RELATION_ENDPOINT_PROPERTIES :: dict where
  "RELATION_ENDPOINT_PROPERTIES =
     [(''ontology_ref'', string_schema 1), (''relation_type'', RELATION_TYPE_SCHEMA),
      (''source_ref'', string_schema 1), (''source_type'', ENTITY_TYPE_SCHEMA),
      (''target_ref'', string_schema 1), (''target_type'', ENTITY_TYPE_SCHEMA)]"

definition RELATION_ONTOLOGY_CONSTRAINTS :: dict where
  "RELATION_ONTOLOGY_CONSTRAINTS =
     [(''ontology_ref'', JStr CORE_ONTOLOGY_REF), (''relation_type_field'', JStr ''relation_type''),
      (''source_ref_field'', JStr ''source_ref''), (''source_type_field'', JStr ''source_type''),
      (''target_ref_field'', JStr ''target_ref''), (''target_type_field'', JStr ''target_type'')]"

definition citation_schema :: json where
  "citation_schema = JObj [(''type'', JStr ''object'')]"

definition build_contract ::
  "string \<Rightarrow> string \<Rightarrow> dict \<Rightarrow> evidence_policy \<Rightarrow> dict option \<Rightarrow> string list \<Rightarrow> string list \<Rightarrow> int
   \<Rightarrow> event_type_contract" where
  "build_contract event_type eligibility schema policy constraints properties oracles version =
     \<lparr> contract_event_type = event_type,
       contract_version = ''dkg.event-contract.'' @ event_type @ ''.v'' @ show_int version,
       commit_eligibility = eligibility,
       payload_schema = schema,
       contract_policy = policy,
       ontology_constraints = constraints,
       property_ids = properties,
       oracle_ids = oracles \<rparr>"

definition default_oracles :: "string list" where
  "default_oracles = [''tests/test_event_contracts.py'']"

subsection \<open>The registry\<close>

definition claim_proposed_contract :: event_type_contract where
  "claim_proposed_contract =
     build_contract ''claim.proposed'' ''proposal_only''
       (build_payload_schema ''claim.proposed'' [''claim_text'']
          [(''claim_text'', string_schema 0), (''citation'', citation_schema)] 1)
       default_policy None [''FOSSIL-PROP-PROVENANCE-001'', ''FOSSIL-PROP-HISTORY-001''] default_oracles 1"

definition claim_state_changed_contract :: event_type_contract where
  "claim_state_changed_contract =
     build_contract ''claim.state_changed'' ''accepted''
       (build_payload_schema ''claim.state_changed'' [''to_state'']
          [(''from_state'', CLAIM_STATE_SCHEMA), (''to_state'', CLAIM_STATE_SCHEMA),
           (''citation'', citation_schema)] 1)
       default_policy None [''FOSSIL-PROP-HISTORY-001''] default_oracles 1"

definition claim_superseded_contract :: event_type_contract where
  "claim_superseded_contract =
     build_contract ''claim.superseded'' ''accepted''
       (build_payload_schema ''claim.superseded'' [''superseded_by'']
          [(''from_state'', CLAIM_STATE_SCHEMA), (''superseded_by'', string_schema 1),
           (''citation'', citation_schema)] 1)
       default_policy None
       [''FOSSIL-PROP-HISTORY-001'', ''FOSSIL-PROP-LIFECYCLE-DEPENDENCY-001''] default_oracles 1"

definition relation_proposed_contract :: event_type_contract where
  "relation_proposed_contract =
     build_contract ''relation.proposed'' ''proposal_only''
       (build_payload_schema ''relation.proposed''
          [''relation_id'', ''relation_type'', ''source_ref'', ''target_ref'']
          ((''relation_id'', string_schema 1) # RELATION_ENDPOINT_PROPERTIES
            @ [(''state'', RELATION_STATE_SCHEMA)]) 1)
       default_policy (Some RELATION_ONTOLOGY_CONSTRAINTS)
       [''FOSSIL-PROP-HISTORY-001'', ''FOSSIL-PROP-LIFECYCLE-DEPENDENCY-001'']
       [''tests/test_event_contracts.py'', ''tests/test_ontology_contracts.py'',
        ''tests/test_relation_acceptance.py''] 1"

definition relation_state_changed_contract :: event_type_contract where
  "relation_state_changed_contract =
     build_contract ''relation.state_changed'' ''accepted''
       (build_payload_schema ''relation.state_changed''
          ([''relation_id'', ''to_state''] @ RELATION_ENDPOINT_REQUIRED)
          ([(''relation_id'', string_schema 1), (''from_state'', RELATION_STATE_SCHEMA),
            (''to_state'', RELATION_STATE_SCHEMA)] @ RELATION_ENDPOINT_PROPERTIES) 1)
       default_policy (Some RELATION_ONTOLOGY_CONSTRAINTS)
       [''FOSSIL-PROP-HISTORY-001'', ''FOSSIL-PROP-LIFECYCLE-DEPENDENCY-001'']
       [''tests/test_relation_acceptance.py'', ''tests/test_ontology_contracts.py''] 1"

definition relation_superseded_contract :: event_type_contract where
  "relation_superseded_contract =
     build_contract ''relation.superseded'' ''accepted''
       (build_payload_schema ''relation.superseded''
          ([''relation_id''] @ RELATION_ENDPOINT_REQUIRED)
          ([(''relation_id'', string_schema 1), (''from_state'', RELATION_STATE_SCHEMA)]
            @ RELATION_ENDPOINT_PROPERTIES) 1)
       default_policy (Some RELATION_ONTOLOGY_CONSTRAINTS)
       [''FOSSIL-PROP-HISTORY-001'', ''FOSSIL-PROP-LIFECYCLE-DEPENDENCY-001'']
       [''tests/test_relation_acceptance.py'', ''tests/test_ontology_contracts.py''] 1"

definition source_event_contract :: "string \<Rightarrow> event_type_contract" where
  "source_event_contract event_type =
     build_contract event_type ''accepted''
       (build_payload_schema event_type [''snapshot_id'', ''source_id'', ''reason'']
          [(''snapshot_id'', string_schema 1), (''source_id'', string_schema 1), (''reason'', string_schema 0)] 1)
       \<lparr> evidence_refs = ''optional'', source_snapshot_refs = ''required'', required_provenance_fields = [''method''] \<rparr>
       None [''FOSSIL-PROP-PROVENANCE-001''] default_oracles 1"

definition evidence_redacted_contract :: event_type_contract where
  "evidence_redacted_contract =
     build_contract ''evidence.redacted'' ''accepted''
       (build_payload_schema ''evidence.redacted''
          [''artifact_id'', ''snapshot_ids'', ''reason'', ''authority'', ''request_ref'', ''redacted_at'']
          [(''artifact_id'', string_schema 1), (''snapshot_ids'', string_array_schema 0),
           (''reason'', string_schema 1), (''authority'', string_schema 1),
           (''request_ref'', JObj [(''type'', strs [''string'', ''null''])]),
           (''redacted_at'', JObj [(''type'', JStr ''string''), (''format'', JStr ''date-time'')])] 1)
       \<lparr> evidence_refs = ''optional'', source_snapshot_refs = ''optional'', required_provenance_fields = [''method''] \<rparr>
       None [''FOSSIL-PROP-PROVENANCE-001'', ''FOSSIL-PROP-REDACTION-NONRESURRECTION-001''] default_oracles 1"

definition knowledge_promoted_contract :: event_type_contract where
  "knowledge_promoted_contract =
     build_contract ''knowledge.promoted'' ''accepted''
       (build_payload_schema ''knowledge.promoted''
          [''contract_version'', ''source_pack_id'', ''source_pack_revision'', ''source_event_id'',
           ''target_pack_id'', ''reason'']
          [(''contract_version'', JObj [(''const'', JStr PROMOTION_CONTRACT_VERSION)]),
           (''source_pack_id'', PACK_ID_SCHEMA), (''source_pack_revision'', string_schema 1),
           (''source_event_id'', string_schema 1), (''target_pack_id'', PACK_ID_SCHEMA),
           (''reason'', string_schema 0)] 2)
       \<lparr> evidence_refs = ''required'', source_snapshot_refs = ''optional'', required_provenance_fields = [''method''] \<rparr>
       None [''FOSSIL-PROP-PROMOTION-001'', ''FOSSIL-PROP-PROVENANCE-001'']
       [''tests/test_event_contracts.py'', ''tests/test_promotion_source_pin.py''] 2"

definition conversation_ingested_contract :: event_type_contract where
  "conversation_ingested_contract =
     build_contract ''conversation.ingested'' ''accepted''
       (build_payload_schema ''conversation.ingested''
          [''conversation_id'', ''source_status'', ''source_artifact_ids'', ''message_ids'']
          [(''conversation_id'', string_schema 1),
           (''source_status'', enum_schema [''verbatim'', ''reconstructed'', ''mixed'']),
           (''source_artifact_ids'', string_array_schema 1), (''message_ids'', string_array_schema 1),
           (''lineage_id'', string_schema 1)] 1)
       \<lparr> evidence_refs = ''required'', source_snapshot_refs = ''optional'', required_provenance_fields = [] \<rparr>
       None [''FOSSIL-PROP-PROVENANCE-001''] default_oracles 1"

definition review_completed_contract :: event_type_contract where
  "review_completed_contract =
     build_contract ''review.completed'' ''accepted''
       (build_payload_schema ''review.completed'' [''decision''] [(''decision'', string_schema 1)] 1)
       \<lparr> evidence_refs = ''optional'', source_snapshot_refs = ''optional'', required_provenance_fields = [''method''] \<rparr>
       None [''FOSSIL-PROP-PROVENANCE-001'', ''FOSSIL-PROP-HISTORY-001'']
       [''tests/test_event_contracts.py'', ''tests/test_cognitive_services_benchmark.py''] 1"

definition EVENT_TYPE_CONTRACTS :: "(string \<times> event_type_contract) list" where
  "EVENT_TYPE_CONTRACTS =
     [(''claim.proposed'', claim_proposed_contract),
      (''claim.state_changed'', claim_state_changed_contract),
      (''claim.superseded'', claim_superseded_contract),
      (''relation.proposed'', relation_proposed_contract),
      (''relation.state_changed'', relation_state_changed_contract),
      (''relation.superseded'', relation_superseded_contract),
      (''source.stale'', source_event_contract ''source.stale''),
      (''source.retracted'', source_event_contract ''source.retracted''),
      (''source.restored'', source_event_contract ''source.restored''),
      (''evidence.redacted'', evidence_redacted_contract),
      (''knowledge.promoted'', knowledge_promoted_contract),
      (''conversation.ingested'', conversation_ingested_contract),
      (''review.completed'', review_completed_contract)]"

section \<open>Acceptance\<close>

definition event_contract :: "string \<Rightarrow> event_type_contract res" where
  "event_contract event_type =
     of_option (contract_error ''unregistered event type cannot cross durable acceptance boundary: '')
       (map_of EVENT_TYPE_CONTRACTS event_type)"

definition require_nonempty_refs :: "dict \<Rightarrow> string \<Rightarrow> unit res" where
  "require_nonempty_refs event field =
     (case dget event field of
        JArr (_ # _) \<Rightarrow> Inr ()
      | _ \<Rightarrow> Inl (contract_error ''event type ''))"

text \<open>\<open>except E as exc: raise EventContractError(str(exc))\<close>.\<close>

definition as_contract_error :: "exn_class \<Rightarrow> 'a res \<Rightarrow> 'a res" where
  "as_contract_error c r =
     (case r of
        Inl e \<Rightarrow> if exn_isa (exn_class e) c then Inl (contract_error (exn_msg e)) else Inl e
      | Inr x \<Rightarrow> Inr x)"

definition str_index :: "dict \<Rightarrow> string \<Rightarrow> string res" where
  "str_index d k = rbind (dindex d k) (\<lambda>v. Inr (py_str v))"

definition validate_proposed_relation :: "dict \<Rightarrow> unit res" where
  "validate_proposed_relation payload =
     rbind (check (py_eq (dget_or payload ''state'' (JStr ''proposed'')) (JStr ''proposed''))
              (contract_error ''relation.proposed must remain proposed; use an accepted relation state transition'')) (\<lambda>_.
     let fields = [''ontology_ref'', ''source_type'', ''target_type''] in
     if list_all (\<lambda>f. map_of payload f = None) fields then Inr ()
     else rbind (check (list_all (\<lambda>f. truthy (dget payload f)) fields)
                   (contract_error ''relation.proposed ontology metadata must be complete when supplied: '')) (\<lambda>_.
          as_contract_error OntologyConstraintError
            (rbind (str_index payload ''relation_type'') (\<lambda>rt.
             rbind (str_index payload ''source_type'') (\<lambda>st.
             rbind (str_index payload ''target_type'') (\<lambda>tt.
             rbind (str_index payload ''ontology_ref'') (\<lambda>ref.
               validate_relation_endpoints rt st tt ref)))))))"

definition validate_relation_semantics ::
  "string \<Rightarrow> dict \<Rightarrow> endpoint_type_resolver option \<Rightarrow> unit res" where
  "validate_relation_semantics event_type payload resolver =
     (if event_type = ''relation.proposed'' then validate_proposed_relation payload
      else as_contract_error OntologyConstraintError
        (rbind (str_index payload ''relation_type'') (\<lambda>rt.
         rbind (str_index payload ''source_ref'') (\<lambda>sr.
         rbind (str_index payload ''source_type'') (\<lambda>st.
         rbind (str_index payload ''target_ref'') (\<lambda>tr.
         rbind (str_index payload ''target_type'') (\<lambda>tt.
         rbind (str_index payload ''ontology_ref'') (\<lambda>ref.
           validate_resolved_relation_endpoints rt sr st tr tt ref resolver))))))))"

definition require_provenance :: "dict \<Rightarrow> string \<Rightarrow> unit res" where
  "require_provenance event field =
     (case dget event ''provenance'' of
        JObj p \<Rightarrow> check (truthy (dget p field)) (contract_error ''event type '')
      | _ \<Rightarrow> Inl (contract_error ''event type ''))"

definition validate_event_for_commit ::
  "(json \<Rightarrow> json \<Rightarrow> bool) \<Rightarrow> dict \<Rightarrow> endpoint_type_resolver option \<Rightarrow> promotion_source_resolver option
   \<Rightarrow> event_type_contract res" where
  "validate_event_for_commit V event endpoint_resolver promotion_resolver =
     rbind (event_contract (py_str (dget_or event ''event_type'' (JStr [])))) (\<lambda>contract.
     rbind (check (V (JObj (payload_schema contract)) (dget event ''payload'')) (Exn ValidationError [])) (\<lambda>_.
     rbind (case dget event ''payload'' of
              JObj payload \<Rightarrow>
                if ontology_constraints contract \<noteq> None
                then validate_relation_semantics (contract_event_type contract) payload endpoint_resolver
                else Inr ()
            | _ \<Rightarrow> Inr ()) (\<lambda>_.
     rbind (if contract_event_type contract = ''knowledge.promoted''
            then as_contract_error PromotionSourceError (validate_promotion_source event promotion_resolver)
            else Inr []) (\<lambda>_.
     let policy = contract_policy contract in
     rbind (if evidence_refs policy = ''required'' then require_nonempty_refs event ''evidence_refs''
            else Inr ()) (\<lambda>_.
     rbind (if source_snapshot_refs policy = ''required''
            then require_nonempty_refs event ''source_snapshot_refs'' else Inr ()) (\<lambda>_.
     rbind (each (require_provenance event) (required_provenance_fields policy)) (\<lambda>_.
       Inr contract)))))))"

section \<open>What acceptance establishes\<close>

lemma as_contract_error_Inr [simp, res_simps]: "as_contract_error c r = Inr x \<longleftrightarrow> r = Inr x"
  by (auto simp: as_contract_error_def split: sum.splits if_split_asm)

lemma str_index_Inr [simp, res_simps]: "str_index d k = Inr s \<longleftrightarrow> (\<exists>v. map_of d k = Some v \<and> s = py_str v)"
  by (auto simp: str_index_def)

lemma contracts_keyed: "map_of EVENT_TYPE_CONTRACTS t = Some c \<Longrightarrow> contract_event_type c = t"
  by (auto simp: EVENT_TYPE_CONTRACTS_def build_contract_def claim_proposed_contract_def
      claim_state_changed_contract_def claim_superseded_contract_def relation_proposed_contract_def
      relation_state_changed_contract_def relation_superseded_contract_def source_event_contract_def
      evidence_redacted_contract_def knowledge_promoted_contract_def conversation_ingested_contract_def
      review_completed_contract_def split: if_split_asm)

lemma registry_well_formed:
  "list_all (\<lambda>(t, c). event_type_contract_ok c = Inr () \<and> evidence_policy_ok (contract_policy c) = Inr ()
     \<and> contract_event_type c = t \<and> map_of (payload_schema c) ''type'' = Some (JStr ''object'')) EVENT_TYPE_CONTRACTS"
  by code_simp

lemma event_contract_Inr [simp, res_simps]: "event_contract t = Inr c \<longleftrightarrow> map_of EVENT_TYPE_CONTRACTS t = Some c"
  by (simp add: event_contract_def)

definition event_kind :: "dict \<Rightarrow> string" where
  "event_kind event = py_str (dget_or event ''event_type'' (JStr []))"

definition required_refs :: "dict \<Rightarrow> string \<Rightarrow> bool" where
  "required_refs event field \<longleftrightarrow> (\<exists>x xs. dget event field = JArr (x # xs))"

definition has_provenance :: "dict \<Rightarrow> string \<Rightarrow> bool" where
  "has_provenance event field \<longleftrightarrow> (\<exists>p. dget event ''provenance'' = JObj p \<and> truthy (dget p field))"

lemma require_nonempty_refs_Inr [simp, res_simps]:
  "require_nonempty_refs event field = Inr u \<longleftrightarrow> required_refs event field"
  by (auto simp: require_nonempty_refs_def required_refs_def split: json.splits list.splits)

lemma require_provenance_Inr [simp, res_simps]:
  "require_provenance event field = Inr u \<longleftrightarrow> has_provenance event field"
  by (auto simp: require_provenance_def has_provenance_def split: json.splits)

lemma accepted_D:
  assumes "validate_event_for_commit V event er pr = Inr c"
  shows "map_of EVENT_TYPE_CONTRACTS (event_kind event) = Some c"
    and "V (JObj (payload_schema c)) (dget event ''payload'')"
    and "\<And>p. dget event ''payload'' = JObj p \<Longrightarrow> ontology_constraints c \<noteq> None
        \<Longrightarrow> validate_relation_semantics (event_kind event) p er = Inr ()"
    and "event_kind event = ''knowledge.promoted'' \<Longrightarrow> \<exists>src. validate_promotion_source event pr = Inr src"
    and "evidence_refs (contract_policy c) = ''required'' \<Longrightarrow> required_refs event ''evidence_refs''"
    and "source_snapshot_refs (contract_policy c) = ''required'' \<Longrightarrow> required_refs event ''source_snapshot_refs''"
    and "\<forall>f \<in> set (required_provenance_fields (contract_policy c)). has_provenance event f"
proof -
  from assms have m: "map_of EVENT_TYPE_CONTRACTS (event_kind event) = Some c"
    by (simp add: validate_event_for_commit_def Let_def event_kind_def)
  from contracts_keyed [OF m] have k: "contract_event_type c = event_kind event" .
  note a = assms [unfolded validate_event_for_commit_def Let_def event_kind_def [symmetric]]
  show "map_of EVENT_TYPE_CONTRACTS (event_kind event) = Some c" by (rule m)
  show "V (JObj (payload_schema c)) (dget event ''payload'')" using a by auto
  show "validate_relation_semantics (event_kind event) p er = Inr ()"
    if "dget event ''payload'' = JObj p" "ontology_constraints c \<noteq> None" for p
    using a that by (auto simp: k)
  show "\<exists>src. validate_promotion_source event pr = Inr src" if "event_kind event = ''knowledge.promoted''"
    using a that by (auto simp: k)
  show "required_refs event ''evidence_refs''" if "evidence_refs (contract_policy c) = ''required''"
    using a that by auto
  show "required_refs event ''source_snapshot_refs''" if "source_snapshot_refs (contract_policy c) = ''required''"
    using a that by auto
  show "\<forall>f \<in> set (required_provenance_fields (contract_policy c)). has_provenance event f" using a by auto
qed

text \<open>The documented behaviour of a JSON schema validator on the keyword \<open>type\<close>.\<close>

definition respects_object_type :: "(json \<Rightarrow> json \<Rightarrow> bool) \<Rightarrow> bool" where
  "respects_object_type V \<longleftrightarrow>
     (\<forall>s v. V (JObj s) v \<longrightarrow> map_of s ''type'' = Some (JStr ''object'') \<longrightarrow> is_obj v)"

lemma accepted_payload_obj:
  assumes "respects_object_type V" "validate_event_for_commit V event er pr = Inr c"
  obtains p where "dget event ''payload'' = JObj p"
proof -
  note a = accepted_D [OF assms(2)]
  have "(event_kind event, c) \<in> set EVENT_TYPE_CONTRACTS" using a(1) by (rule map_of_SomeD)
  then have "map_of (payload_schema c) ''type'' = Some (JStr ''object'')"
    using registry_well_formed by (auto simp: list_all_iff)
  with a(2) assms(1) have "is_obj (dget event ''payload'')" by (auto simp: respects_object_type_def)
  then show ?thesis using that by (cases "dget event ''payload''") (auto simp: is_obj_def)
qed

lemma promotion_source_D:
  assumes "validate_promotion_source event resolver = Inr src"
  shows "\<exists>payload p v e r. dget event ''payload'' = JObj payload
     \<and> map_of payload ''source_pack_id'' = Some (JStr p) \<and> map_of payload ''source_pack_revision'' = Some (JStr v)
     \<and> map_of payload ''source_event_id'' = Some (JStr e)
     \<and> strip p \<noteq> [] \<and> strip v \<noteq> [] \<and> strip e \<noteq> []
     \<and> resolver = Some r \<and> r p v e = Inr (Some src)
     \<and> py_str (dget_or src ''pack_id'' (JStr [])) = p \<and> py_str (dget_or src ''event_id'' (JStr [])) = e
     \<and> py_str (dget_or payload ''target_pack_id'' (JStr [])) = py_str (dget_or event ''pack_id'' (JStr []))
     \<and> p \<noteq> py_str (dget_or event ''pack_id'' (JStr []))
     \<and> (\<exists>subjects sources. dget event ''subject_refs'' = JArr subjects \<and> subjects \<noteq> []
          \<and> dget src ''subject_refs'' = JArr sources \<and> list_all (\<lambda>x. list_ex (py_eq x) sources) subjects)"
proof -
  have pin: "\<exists>s. map_of d f = Some (JStr s) \<and> strip s \<noteq> [] \<and> x = s"
    if "required_source_pin d f = Inr x" for d f x
    using that by (auto simp: required_source_pin_def dget_def split: json.splits option.splits if_split_asm)
  have res: "\<exists>r. resolver = Some r \<and> r p v e = Inr (Some s)"
    if "resolve_promotion_source resolver p v e = Inr s" for p v e s
    using that by (auto simp: resolve_promotion_source_def split: option.splits sum.splits)
  have sub: "\<exists>subjects sources. a = JArr subjects \<and> subjects \<noteq> [] \<and> b = JArr sources
      \<and> list_all (\<lambda>x. list_ex (py_eq x) sources) subjects" if "check_promoted_subjects a b = Inr ()" for a b
  proof -
    from that obtain s ss ys where "a = JArr (s # ss)" "b = JArr ys" "values_subset (s # ss) ys = Inr True"
      by (auto simp: check_promoted_subjects_def split: json.splits list.splits)
    then show ?thesis by (auto simp: values_subset_def)
  qed
  from assms obtain payload where P: "dget event ''payload'' = JObj payload"
    by (cases "dget event ''payload''") (simp_all add: validate_promotion_source_def)
  let ?t = "py_str (dget_or payload ''target_pack_id'' (JStr []))"
  let ?d = "py_str (dget_or event ''pack_id'' (JStr []))"
  from assms obtain p v e where f: "required_source_pin payload ''source_pack_id'' = Inr p"
    "required_source_pin payload ''source_pack_revision'' = Inr v"
    "required_source_pin payload ''source_event_id'' = Inr e"
    "?t = ?d" "p \<noteq> ?t" "resolve_promotion_source resolver p v e = Inr src"
    "py_str (dget_or src ''pack_id'' (JStr [])) = p" "py_str (dget_or src ''event_id'' (JStr [])) = e"
    "check_promoted_subjects (dget event ''subject_refs'') (dget src ''subject_refs'') = Inr ()"
    by (auto simp: validate_promotion_source_def P Let_def)
  from res [OF f(6)] obtain r where "resolver = Some r" "r p v e = Inr (Some src)" by blast
  with P f(4,5,7,8) pin [OF f(1)] pin [OF f(2)] pin [OF f(3)] sub [OF f(9)]
  show ?thesis by (intro exI [of _ payload] exI [of _ p] exI [of _ v] exI [of _ e] exI [of _ r]) auto
qed

text \<open>A promotion that the builder produced binds to its source.\<close>

lemma values_subset_strs:
  "set xs \<subseteq> set ys \<Longrightarrow> values_subset (map JStr xs) (map JStr ys) = Inr True"
  by (auto simp: values_subset_def hashable_def is_arr_def is_obj_def list_all_iff list_ex_iff)

lemma built_promotion_validates:
  assumes b: "build_promotion_event p v e t subjects actor occ rcd idem refs reason = Inr event"
    and r: "r p v e = Inr (Some src)" and p: "strip p \<noteq> []"
    and src: "map_of src ''pack_id'' = Some (JStr p)" "map_of src ''event_id'' = Some (JStr e)"
      "map_of src ''subject_refs'' = Some (strs sources)" and sub: "set subjects \<subseteq> set sources"
  shows "validate_promotion_source event (Some r) = Inr src"
proof -
  from b have n: "subjects \<noteq> []" "p \<noteq> t" "strip v \<noteq> []" "strip e \<noteq> []"
    by (auto simp: build_promotion_event_def)
  from b have f: "dget event ''payload'' = JObj [(''contract_version'', JStr PROMOTION_CONTRACT_VERSION),
      (''source_pack_id'', JStr p), (''source_pack_revision'', JStr v), (''source_event_id'', JStr e),
      (''target_pack_id'', JStr t), (''reason'', JStr reason)]"
    "dget_or event ''pack_id'' (JStr []) = JStr t" "dget event ''subject_refs'' = strs subjects"
    by (auto simp: build_promotion_event_def dget_def dget_or_def)
  obtain s ss where s: "subjects = s # ss" using n(1) by (cases subjects) auto
  have "check_promoted_subjects (strs subjects) (strs sources) = Inr ()"
    using values_subset_strs [OF sub] by (simp add: check_promoted_subjects_def strs_def s)
  then show ?thesis
    using n p src r
    by (simp add: validate_promotion_source_def f required_source_pin_def resolve_promotion_source_def)
qed

section \<open>Properties\<close>

definition demo_validator :: "json \<Rightarrow> json \<Rightarrow> bool" where
  "demo_validator s v = is_obj v"

lemma demo_validator_object: "respects_object_type demo_validator"
  by (simp add: respects_object_type_def demo_validator_def)

text \<open>C6. Nothing crosses the acceptance boundary outside the registry: an accepted event has a
  registered type, its payload conforms to that type's own schema, and it carries the evidence
  references, snapshot references and provenance fields that the type's policy requires.\<close>

theorem acceptance_enforces_registry:
  assumes "validate_event_for_commit V event er pr = Inr c"
  shows "(event_kind event, c) \<in> set EVENT_TYPE_CONTRACTS
    \<and> V (JObj (payload_schema c)) (dget event ''payload'')
    \<and> (evidence_refs (contract_policy c) = ''required'' \<longrightarrow> required_refs event ''evidence_refs'')
    \<and> (source_snapshot_refs (contract_policy c) = ''required'' \<longrightarrow> required_refs event ''source_snapshot_refs'')
    \<and> (\<forall>f \<in> set (required_provenance_fields (contract_policy c)). has_provenance event f)"
  using accepted_D [OF assms] by (auto dest: map_of_SomeD)

definition demo_stale :: dict where
  "demo_stale = [(''event_type'', JStr ''source.stale''), (''payload'', JObj []),
     (''source_snapshot_refs'', strs [''snap1'']), (''provenance'', JObj [(''method'', JStr ''source_lifecycle'')])]"

lemma demo_stale_accepted: "is_ok (validate_event_for_commit demo_validator demo_stale None None)"
  by code_simp

theorem acceptance_enforces_registry_witness:
  "\<exists>c. validate_event_for_commit demo_validator demo_stale None None = Inr c
     \<and> (event_kind demo_stale, c) \<in> set EVENT_TYPE_CONTRACTS"
  using demo_stale_accepted acceptance_enforces_registry by (auto simp: is_ok_iff)

text \<open>Accepted relation transitions are grounded: when \<open>relation.state_changed\<close> or
  \<open>relation.superseded\<close> is accepted, the configured resolver itself resolved both endpoint
  references, the declared endpoint kinds are the resolved ones, the pair is legal for the
  relation type, and the ontology pin is the core ontology.\<close>

lemma accepted_relations_are_grounded:
  assumes "respects_object_type V" and "validate_event_for_commit V event er pr = Inr c"
    and "event_kind event = ''relation.state_changed'' \<or> event_kind event = ''relation.superseded''"
  shows "\<exists>p rt sr st tr tt. dget event ''payload'' = JObj p
    \<and> map_of p ''relation_type'' = Some rt \<and> map_of p ''source_ref'' = Some sr \<and> map_of p ''source_type'' = Some st
    \<and> map_of p ''target_ref'' = Some tr \<and> map_of p ''target_type'' = Some tt
    \<and> resolves_to er (py_str sr) (py_str st) \<and> resolves_to er (py_str tr) (py_str tt)
    \<and> legal_pair (py_str rt) (py_str st) (py_str tt)
    \<and> (\<exists>ref. map_of p ''ontology_ref'' = Some ref \<and> py_str ref = CORE_ONTOLOGY_REF)"
proof -
  obtain p where p: "dget event ''payload'' = JObj p" by (rule accepted_payload_obj [OF assms(1,2)])
  note a = accepted_D [OF assms(2)]
  have "c = relation_state_changed_contract \<or> c = relation_superseded_contract"
    using assms(3) a(1) by (auto simp: EVENT_TYPE_CONTRACTS_def)
  then have "ontology_constraints c \<noteq> None"
    by (auto simp: relation_state_changed_contract_def relation_superseded_contract_def build_contract_def)
  from a(3) [OF p this] assms(3) p show ?thesis
    by (auto simp: validate_relation_semantics_def validate_resolved_iff)
qed

definition demo_transition :: dict where
  "demo_transition = [(''event_type'', JStr ''relation.state_changed''), (''payload'', JObj
     [(''relation_id'', JStr ''r1''), (''to_state'', JStr ''active''), (''ontology_ref'', JStr ''dkg.core@1.0.0''),
      (''relation_type'', JStr ''DEPENDS_ON''), (''source_ref'', JStr ''c2''), (''source_type'', JStr ''Claim''),
      (''target_ref'', JStr ''c1''), (''target_type'', JStr ''Claim'')])]"

definition demo_resolver :: endpoint_type_resolver where
  "demo_resolver ref = Inr (if ref = ''c1'' \<or> ref = ''c2'' then Some ''Claim'' else None)"

lemma demo_transition_accepted:
  "is_ok (validate_event_for_commit demo_validator demo_transition (Some demo_resolver) None)"
  "event_kind demo_transition = ''relation.state_changed''"
  by code_simp+


definition demo_source_event :: dict where
  "demo_source_event = [(''pack_id'', JStr ''pack_common_aaaaaaaaa''), (''event_id'', JStr ''evt_1''),
     (''subject_refs'', strs [''c1'', ''c2''])]"

definition demo_promotions :: promotion_source_resolver where
  "demo_promotions p v e = Inr (if p = ''pack_common_aaaaaaaaa'' \<and> v = ''r1'' \<and> e = ''evt_1''
     then Some demo_source_event else None)"

definition demo_promotion :: dict where
  "demo_promotion = (case build_promotion_event ''pack_common_aaaaaaaaa'' ''r1'' ''evt_1'' ''pack_project_aaaaaaaa'' [''c1'']
     [(''kind'', JStr ''human'')] ''2026-01-01T00:00:00Z'' ''2026-01-01T00:00:00Z'' ''k1'' [''art_1''] ''useful'' of
       Inr e \<Rightarrow> e | _ \<Rightarrow> [])"

lemma demo_promotion_accepted:
  "is_ok (validate_event_for_commit demo_validator demo_promotion None (Some demo_promotions))"
  "event_kind demo_promotion = ''knowledge.promoted''"
  by code_simp+


text \<open>C8. The builder and the acceptance check agree: a promotion event built from a source event
  that the resolver returns for its pins, whose subjects it covers, with evidence and a conforming
  payload, is accepted under the promotion contract.\<close>

theorem built_promotion_is_accepted:
  assumes "build_promotion_event p v e t subjects actor occ rcd idem refs reason = Inr event"
    and "r p v e = Inr (Some src)" and "strip p \<noteq> []" and "refs \<noteq> []"
    and "map_of src ''pack_id'' = Some (JStr p)" and "map_of src ''event_id'' = Some (JStr e)"
    and "map_of src ''subject_refs'' = Some (strs sources)" and "set subjects \<subseteq> set sources"
    and "V (JObj (payload_schema knowledge_promoted_contract)) (dget event ''payload'')"
  shows "validate_event_for_commit V event er (Some r) = Inr knowledge_promoted_contract"
proof -
  have src: "validate_promotion_source event (Some r) = Inr src"
    by (rule built_promotion_validates [where r = r]) (rule assms)+
  obtain x xs where refs: "refs = x # xs" using assms(4) by (cases refs) auto
  have f: "dget_or event ''event_type'' (JStr []) = JStr ''knowledge.promoted''"
    "dget event ''evidence_refs'' = strs refs"
    "dget event ''provenance'' = JObj [(''method'', JStr ''explicit_cross_pack_promotion'')]"
    using assms(1) by (auto simp: build_promotion_event_def dget_def dget_or_def)
  have c: "event_contract ''knowledge.promoted'' = Inr knowledge_promoted_contract"
    by (simp add: EVENT_TYPE_CONTRACTS_def)
  have k: "contract_event_type knowledge_promoted_contract = ''knowledge.promoted''"
    "ontology_constraints knowledge_promoted_contract = None"
    "evidence_refs (contract_policy knowledge_promoted_contract) = ''required''"
    "source_snapshot_refs (contract_policy knowledge_promoted_contract) = ''optional''"
    "required_provenance_fields (contract_policy knowledge_promoted_contract) = [''method'']"
    by (simp_all add: knowledge_promoted_contract_def build_contract_def)
  have refs_ok: "require_nonempty_refs event ''evidence_refs'' = Inr ()"
    using f(2) by (simp add: required_refs_def strs_def refs)
  have prov: "require_provenance event ''method'' = Inr ()"
    using f(3) by (simp add: has_provenance_def dget_def)
  show ?thesis
    unfolding validate_event_for_commit_def f(1) py_str.simps(1) c rbind.simps k Let_def
    using assms(9) src refs_ok prov
    by (cases "dget event ''payload''") (simp_all add: as_contract_error_def check_def)
qed

theorem built_promotion_is_accepted_witness:
  "validate_event_for_commit demo_validator demo_promotion None (Some demo_promotions)
   = Inr knowledge_promoted_contract"
proof (rule built_promotion_is_accepted)
  show "build_promotion_event ''pack_common_aaaaaaaaa'' ''r1'' ''evt_1'' ''pack_project_aaaaaaaa'' [''c1'']
     [(''kind'', JStr ''human'')] ''2026-01-01T00:00:00Z'' ''2026-01-01T00:00:00Z'' ''k1'' [''art_1''] ''useful''
     = Inr demo_promotion"
    by code_simp
  show "demo_promotions ''pack_common_aaaaaaaaa'' ''r1'' ''evt_1'' = Inr (Some demo_source_event)"
    by (simp add: demo_promotions_def)
  show "set [''c1''] \<subseteq> set [''c1'', ''c2'']" by simp
qed (code_simp+)

end
