(* ===== verification/Filestore.thy ===== *)
theory Filestore
  imports Json
begin

text \<open>
  The file system under the local stores (\<open>adapters/filesystem/io.py\<close>). A directory tree is the
  association list from the path of a file, relative to the root of a store and split at the
  separators, to its bytes. Directories are implicit: every write creates its parents.

  \<^item> \<open>publish_run\<close> is \<open>publish_immutable\<close> step by step: exclusive creation of a temporary file,
    writing it, linking it to the target, unlinking it. \<open>publish_states\<close> are the states of the
    tree that a crash can leave behind.
  \<^item> \<open>publish_immutable\<close> is its effect as one operation, on which the stores build.
  \<^item> \<open>redactable_store\<close> is the contract that the immutable stores share.
\<close>

section \<open>Files\<close>

type_synonym path = "string list"
type_synonym fs = "(path \<times> string) list"

definition exists_path :: "fs \<Rightarrow> path \<Rightarrow> bool" where
  "exists_path d p \<longleftrightarrow> map_of d p \<noteq> None"

definition read_file :: "fs \<Rightarrow> path \<Rightarrow> string res" where
  "read_file d p = of_option (Exn FileNotFoundError []) (map_of d p)"

definition parse_json :: "string \<Rightarrow> json res" where
  "parse_json t = of_option (Exn JSONDecodeError []) (loads t)"

text \<open>
  \<open>json.loads(path.read_text(encoding="utf-8"))\<close>. The text of a file is the \<open>str\<close> of its bytes,
  so reading a file that holds no UTF-8 text is not told apart from reading one that holds no
  JSON.
\<close>

definition read_json :: "fs \<Rightarrow> path \<Rightarrow> json res" where
  "read_json d p = rbind (read_file d p) parse_json"

definition unlink :: "fs \<Rightarrow> path \<Rightarrow> fs" where
  "unlink d p = AList.delete p d"

text \<open>\<open>sorted(root.glob("*/*.json"))\<close>.\<close>

definition glob_json :: "fs \<Rightarrow> path list" where
  "glob_json d = sort (filter (\<lambda>p. length p = 2 \<and> ends_with ''.json'' (last p)) (map fst d))"

section \<open>Publishing a file\<close>

definition temp_path :: "string \<Rightarrow> path \<Rightarrow> path" where
  "temp_path token p = butlast p @ [''.'' @ last p @ ''.'' @ token @ ''.tmp'']"

definition link_file :: "fs \<Rightarrow> path \<Rightarrow> path \<Rightarrow> fs \<times> bool" where
  "link_file d src p =
     (if exists_path d p then (d, False) else (AList.update p (the (map_of d src)) d, True))"

definition publish_run :: "string \<Rightarrow> path \<Rightarrow> string \<Rightarrow> fs \<Rightarrow> fs \<times> bool res" where
  "publish_run token p data d =
     (let temp = temp_path token p in
      if exists_path d temp then (unlink d temp, Inl (Exn FileExistsError []))
      else (let d1 = AList.update temp [] d;
                d2 = AList.update temp data d1;
                (d3, published) = link_file d2 temp p
            in (unlink d3 temp, Inr published)))"

definition publish_states :: "string \<Rightarrow> path \<Rightarrow> string \<Rightarrow> fs \<Rightarrow> fs list" where
  "publish_states token p data d =
     (let temp = temp_path token p;
          written = map (\<lambda>n. AList.update temp (take n data) d) [0..<Suc (length data)];
          d2 = AList.update temp data d;
          d3 = fst (link_file d2 temp p)
      in d # written @ [d3, unlink d3 temp])"

definition publish_immutable :: "path \<Rightarrow> string \<Rightarrow> fs \<Rightarrow> fs \<times> bool" where
  "publish_immutable p data d =
     (if exists_path d p then (d, False) else (AList.update p data d, True))"

lemma temp_path_neq [simp]: "p \<noteq> [] \<Longrightarrow> temp_path token p \<noteq> p"
proof
  assume "p \<noteq> []" "temp_path token p = p"
  then have "length (last (temp_path token p)) = length (last p)" by simp
  then show False by (simp add: temp_path_def)
qed

lemma publish_immutable_True_iff [simp]: "snd (publish_immutable p data d) \<longleftrightarrow> \<not> exists_path d p"
  by (simp add: publish_immutable_def)

lemma map_of_publish:
  "map_of (fst (publish_immutable p data d)) =
     (map_of d)(p \<mapsto> (case map_of d p of None \<Rightarrow> data | Some x \<Rightarrow> x))"
  by (auto simp: publish_immutable_def exists_path_def map_of_update fun_eq_iff split: option.splits)

lemma publish_keeps: "map_of d q = Some x \<Longrightarrow> map_of (fst (publish_immutable p data d)) q = Some x"
  by (auto simp: map_of_publish)

lemma publish_new:
  assumes "map_of (fst (publish_immutable p data d)) q = Some x" and "map_of d q \<noteq> Some x"
  shows "q = p \<and> x = data"
proof (cases "q = p")
  case True
  then show ?thesis using assms by (cases "map_of d p") (auto simp: map_of_publish)
next
  case False
  then show ?thesis using assms by (simp add: map_of_publish)
qed

lemma delete_fresh [simp]: "map_of d p = None \<Longrightarrow> AList.delete p d = d"
  by (induction d) (auto simp: AList.delete_eq split: if_split_asm)

lemma delete_append: "AList.delete p (xs @ ys) = AList.delete p xs @ AList.delete p ys"
  by (simp add: AList.delete_eq)

lemma publish_run_atomic:
  assumes "p \<noteq> []" and "\<not> exists_path d (temp_path token p)"
  shows "publish_run token p data d = (fst (publish_immutable p data d), Inr (snd (publish_immutable p data d)))"
proof -
  let ?t = "temp_path token p"
  have fresh: "map_of d ?t = None" using assms(2) by (simp add: exists_path_def)
  have d2: "AList.update ?t data d = d @ [(?t, data)]" using fresh by (rule update_fresh)
  show ?thesis
  proof (cases "exists_path d p")
    case True
    then show ?thesis using fresh assms
      by (simp add: publish_run_def Let_def d2 link_file_def exists_path_def unlink_def delete_append
          publish_immutable_def)
  next
    case False
    then have "AList.update p data (d @ [(?t, data)]) = d @ [(?t, data), (p, data)]"
      using temp_path_neq [OF assms(1), of token, symmetric] by (subst update_fresh) (auto simp: exists_path_def)
    moreover have "AList.update p data d = d @ [(p, data)]"
      using False by (simp add: update_fresh exists_path_def)
    moreover have "?t \<noteq> p" "p \<noteq> ?t" using temp_path_neq [OF assms(1), of token] by metis+
    ultimately show ?thesis using False fresh assms(2)
      by (simp add: publish_run_def Let_def d2 link_file_def exists_path_def unlink_def delete_append
          publish_immutable_def map_add_def)
  qed
qed

lemma publish_states_safe:
  assumes "p \<noteq> []" "\<not> exists_path d (temp_path token p)" "d' \<in> set (publish_states token p data d)"
    and q: "q \<noteq> temp_path token p"
  shows "map_of d' q = map_of d q \<or> (q = p \<and> map_of d p = None \<and> map_of d' p = Some data)"
  using assms
  by (auto simp: publish_states_def Let_def link_file_def exists_path_def unlink_def map_of_update
      map_of_delete split: if_split_asm)

section \<open>The contract of an immutable store\<close>

text \<open>
  A store maps ids to values that no operation rewrites: an id keeps its value until it is
  redacted, and a redacted id never has a value again. \<open>legal\<close> says which operations a caller can
  express at all.
\<close>

locale redactable_store =
  fixes step :: "'s \<Rightarrow> 'op \<Rightarrow> 's"
    and legal :: "'op \<Rightarrow> bool"
    and inv :: "'s \<Rightarrow> bool"
    and lookup :: "'s \<Rightarrow> string \<Rightarrow> 'v option"
    and gone :: "'s \<Rightarrow> string \<Rightarrow> bool"
  assumes inv_step: "legal op \<Longrightarrow> inv s \<Longrightarrow> inv (step s op)"
    and lookup_step: "legal op \<Longrightarrow> inv s \<Longrightarrow> lookup s i = Some v
      \<Longrightarrow> lookup (step s op) i = Some v \<or> gone (step s op) i"
    and gone_step: "legal op \<Longrightarrow> inv s \<Longrightarrow> gone s i \<Longrightarrow> gone (step s op) i"
    and gone_lookup: "inv s \<Longrightarrow> gone s i \<Longrightarrow> lookup s i = None"
begin

lemma run_inv: "list_all legal ops \<Longrightarrow> inv s \<Longrightarrow> inv (foldl step s ops)"
  by (induction ops arbitrary: s) (auto intro: inv_step)

lemma run_gone: "list_all legal ops \<Longrightarrow> inv s \<Longrightarrow> gone s i \<Longrightarrow> gone (foldl step s ops) i"
  by (induction ops arbitrary: s) (auto intro: inv_step gone_step)

lemma run_lookup:
  "list_all legal ops \<Longrightarrow> inv s \<Longrightarrow> lookup s i = Some v
   \<Longrightarrow> lookup (foldl step s ops) i = Some v \<or> gone (foldl step s ops) i"
proof (induction ops arbitrary: s)
  case Nil
  then show ?case by simp
next
  case (Cons op ops)
  with lookup_step [of op s i v] inv_step [of op s] run_gone [of ops "step s op" i] show ?case by auto
qed

lemma run_never_rewrites:
  assumes "list_all legal ops" "inv s" "lookup s i = Some v" "lookup (foldl step s ops) i = Some w"
  shows "w = v"
  using run_lookup [OF assms(1-3)] gone_lookup [OF run_inv [OF assms(1,2)], of i] assms(4) by auto

lemma run_gone_forever:
  "list_all legal ops \<Longrightarrow> inv s \<Longrightarrow> gone s i \<Longrightarrow> lookup (foldl step s ops) i = None"
  using run_gone run_inv gone_lookup by blast

end

end
