(* ===== verification/Artifact_Store.thy ===== *)
theory Artifact_Store
  imports Filestore
begin

text \<open>
  The content-addressed artifact store (\<open>adapters/filesystem/artifact_store.py\<close>). Its state is the
  three directories of the source; \<open>sha\<close> is SHA-256 in hexadecimal, a parameter. Operations that
  write return the store with their result.
\<close>

section \<open>State and paths\<close>

record artifact_store =
  blobs :: fs
  manifests :: fs
  redactions :: fs

definition empty_artifacts :: artifact_store where
  "empty_artifacts = \<lparr> blobs = [], manifests = [], redactions = [] \<rparr>"

definition artifact_id_for_digest :: "string \<Rightarrow> string" where
  "artifact_id_for_digest digest = ''art_'' @ take 32 digest"

definition blob_path :: "string \<Rightarrow> path" where
  "blob_path digest = [take 2 digest, digest]"

definition manifest_path :: "string \<Rightarrow> path" where
  "manifest_path a = [take 2 (removeprefix ''art_'' a), a @ ''.json'']"

definition redaction_path :: "string \<Rightarrow> path" where
  "redaction_path a = [take 2 (removeprefix ''art_'' a), a @ ''.json'']"

section \<open>Operations\<close>

definition artifact_is_redacted :: "artifact_store \<Rightarrow> string \<Rightarrow> bool" where
  "artifact_is_redacted st a = exists_path (redactions st) (redaction_path a)"

definition get_redaction :: "artifact_store \<Rightarrow> string \<Rightarrow> json res" where
  "get_redaction st a =
     (if exists_path (redactions st) (redaction_path a)
      then read_json (redactions st) (redaction_path a) else Inr JNull)"

definition get_manifest :: "artifact_store \<Rightarrow> string \<Rightarrow> json res" where
  "get_manifest st a = read_json (manifests st) (manifest_path a)"

definition artifact_manifest :: "(string \<Rightarrow> string) \<Rightarrow> string \<Rightarrow> string \<Rightarrow> dict" where
  "artifact_manifest sha data media_type =
     [(''artifact_id'', JStr (artifact_id_for_digest (sha data))),
      (''content_hash'', JObj [(''algorithm'', JStr ''sha256''), (''digest'', JStr (sha data))]),
      (''byte_size'', JInt (int (length data))),
      (''media_type'', JStr media_type)]"

definition put_bytes ::
  "(string \<Rightarrow> string) \<Rightarrow> artifact_store \<Rightarrow> string \<Rightarrow> string \<Rightarrow> artifact_store \<times> dict res" where
  "put_bytes sha st data media_type =
     (let digest = sha data;
          a = artifact_id_for_digest digest;
          manifest = artifact_manifest sha data media_type;
          encoded = canonical (JObj manifest)
      in if artifact_is_redacted st a then (st, Inl (Exn ArtifactRedactedError ''artifact ''))
         else (let (bs, fresh_blob) = publish_immutable (blob_path digest) data (blobs st);
                   st1 = st\<lparr>blobs := bs\<rparr>
               in sbind (pure_res st1
                    (if fresh_blob then Inr ()
                     else rbind (read_file bs (blob_path digest)) (\<lambda>old.
                       check (old = data)
                         (Exn ArtifactIntegrityError ''hash collision or corrupted blob for ''))))
                  (\<lambda>st1 _.
                    let (mf, fresh) = publish_immutable (manifest_path a) encoded (manifests st1);
                        st2 = st1\<lparr>manifests := mf\<rparr>
                    in sbind (pure_res st2
                         (if fresh then Inr ()
                          else rbind (read_json mf (manifest_path a)) (\<lambda>existing.
                            check (canonical existing = encoded)
                              (Exn ArtifactIntegrityError ''manifest conflict for ''))))
                       (\<lambda>st2 _. (st2, Inr manifest)))))"

definition manifest_digest :: "json \<Rightarrow> string res" where
  "manifest_digest manifest =
     rbind (index manifest ''content_hash'') (\<lambda>h. rbind (index h ''digest'') key_str)"

definition read_bytes :: "artifact_store \<Rightarrow> string \<Rightarrow> string res" where
  "read_bytes st a =
     (if artifact_is_redacted st a then Inl (Exn ArtifactRedactedError ''artifact '')
      else rbind (get_manifest st a) (\<lambda>manifest.
           rbind (manifest_digest manifest) (\<lambda>digest.
             read_file (blobs st) (blob_path digest))))"

definition verify_artifact :: "(string \<Rightarrow> string) \<Rightarrow> artifact_store \<Rightarrow> string \<Rightarrow> bool res" where
  "verify_artifact sha st a =
     rbind (get_manifest st a) (\<lambda>manifest.
     rbind (read_bytes st a) (\<lambda>data.
     rbind (index manifest ''content_hash'') (\<lambda>h.
     rbind (index h ''digest'') (\<lambda>digest.
     if \<not> py_eq (JStr (sha data)) digest
     then Inl (Exn ArtifactIntegrityError ''artifact verification failed for '')
     else rbind (index manifest ''byte_size'') (\<lambda>size.
       if \<not> py_eq (JInt (int (length data))) size
       then Inl (Exn ArtifactIntegrityError ''artifact verification failed for '')
       else Inr True)))))"

definition opt_str :: "string option \<Rightarrow> json" where
  "opt_str v = (case v of None \<Rightarrow> JNull | Some s \<Rightarrow> JStr s)"

definition redaction_record ::
  "json \<Rightarrow> string \<Rightarrow> string \<Rightarrow> string \<Rightarrow> string \<Rightarrow> string option \<Rightarrow> dict res" where
  "redaction_record manifest a reason authority redacted_at request_ref =
     rbind (index manifest ''content_hash'') (\<lambda>h.
     rbind (index manifest ''byte_size'') (\<lambda>size.
     rbind (index manifest ''media_type'') (\<lambda>mt.
       Inr [(''artifact_id'', JStr a), (''redacted_at'', JStr redacted_at), (''reason'', JStr reason),
            (''authority'', JStr authority), (''request_ref'', opt_str request_ref),
            (''content_hash'', h), (''byte_size'', size), (''media_type'', mt)])))"

definition redact_artifact ::
  "artifact_store \<Rightarrow> string \<Rightarrow> string \<Rightarrow> string \<Rightarrow> string \<Rightarrow> string option \<Rightarrow> artifact_store \<times> json res" where
  "redact_artifact st a reason authority redacted_at request_ref =
     sbind (pure_res st
       (rbind (check (reason \<noteq> [] \<and> authority \<noteq> [] \<and> redacted_at \<noteq> [])
                (Exn ValueError ''redaction requires reason, authority, and redacted_at'')) (\<lambda>_.
        rbind (get_manifest st a) (\<lambda>manifest.
        rbind (redaction_record manifest a reason authority redacted_at request_ref) (\<lambda>record.
          Inr (manifest, record))))))
     (\<lambda>st (manifest, record).
       let encoded = canonical (JObj record);
           (rs, fresh) = publish_immutable (redaction_path a) encoded (redactions st);
           st1 = st\<lparr>redactions := rs\<rparr>
       in sbind (pure_res st1
            (if fresh then Inr (JObj record)
             else rbind (read_json rs (redaction_path a)) (\<lambda>existing.
               if canonical existing \<noteq> encoded
               then Inl (Exn ArtifactIntegrityError ''redaction tombstone conflict for '')
               else Inr existing)))
          (\<lambda>st1 result.
            sbind (pure_res st1 (manifest_digest manifest)) (\<lambda>st1 digest.
              (st1\<lparr>blobs := unlink (blobs st1) (blob_path digest)\<rparr>, Inr result))))"

section \<open>The invariant\<close>

lemma read_json_canonical [simp]:
  "map_of d p = Some (canonical v) \<Longrightarrow> wf_json v \<Longrightarrow> read_json d p = Inr (canon v)"
  by (simp add: read_json_def read_file_def parse_json_def doc.decode_encode)

lemma wf_artifact_manifest [simp]: "wf_json (JObj (artifact_manifest sha data mt))"
  by (simp add: artifact_manifest_def)

lemma canon_artifact_manifest:
  "canon (JObj (artifact_manifest sha data mt)) =
     JObj [(''artifact_id'', JStr (artifact_id_for_digest (sha data))),
       (''byte_size'', JInt (int (length data))),
       (''content_hash'', JObj [(''algorithm'', JStr ''sha256''), (''digest'', JStr (sha data))]),
       (''media_type'', JStr mt)]"
  by (simp add: artifact_manifest_def)

lemma manifest_path_inj [simp]: "manifest_path a = manifest_path b \<longleftrightarrow> a = b"
  by (auto simp: manifest_path_def)

lemma redaction_path_inj [simp]: "redaction_path a = redaction_path b \<longleftrightarrow> a = b"
  by (auto simp: redaction_path_def)

lemma blob_path_inj [simp]: "blob_path a = blob_path b \<longleftrightarrow> a = b"
  by (auto simp: blob_path_def)

text \<open>
  A blob lies under its own digest. A manifest is the canonical manifest of some content at the
  path of its id, and that content is present unless the id has a tombstone. A tombstone stands
  at the path of its id.
\<close>

definition blob_held :: "(string \<Rightarrow> string) \<Rightarrow> artifact_store \<Rightarrow> string \<Rightarrow> bool" where
  "blob_held sha st data \<longleftrightarrow> map_of (blobs st) (blob_path (sha data)) = Some data
     \<or> artifact_is_redacted st (artifact_id_for_digest (sha data))"

definition artifacts_ok :: "(string \<Rightarrow> string) \<Rightarrow> artifact_store \<Rightarrow> bool" where
  "artifacts_ok sha st \<longleftrightarrow>
     (\<forall>p b. map_of (blobs st) p = Some b \<longrightarrow> p = blob_path (sha b))
     \<and> (\<forall>p t. map_of (manifests st) p = Some t \<longrightarrow>
         (\<exists>data mt. t = canonical (JObj (artifact_manifest sha data mt))
            \<and> p = manifest_path (artifact_id_for_digest (sha data)) \<and> blob_held sha st data))"

lemma empty_artifacts_ok [simp]: "artifacts_ok sha empty_artifacts"
  by (simp add: artifacts_ok_def empty_artifacts_def)

lemma get_manifest_ok:
  assumes "artifacts_ok sha st" and "get_manifest st a = Inr m"
  obtains data mt where "m = canon (JObj (artifact_manifest sha data mt))"
    "a = artifact_id_for_digest (sha data)" "blob_held sha st data"
    "map_of (manifests st) (manifest_path a) = Some (canonical (JObj (artifact_manifest sha data mt)))"
proof -
  from assms(2) obtain t where t: "map_of (manifests st) (manifest_path a) = Some t"
    by (auto simp: get_manifest_def read_json_def read_file_def)
  with assms(1) obtain data mt where d: "t = canonical (JObj (artifact_manifest sha data mt))"
    "manifest_path a = manifest_path (artifact_id_for_digest (sha data))" "blob_held sha st data"
    unfolding artifacts_ok_def by blast
  have "m = canon (JObj (artifact_manifest sha data mt))"
    using assms(2) read_json_canonical [OF t [unfolded d(1)] wf_artifact_manifest]
    unfolding get_manifest_def by simp
  with d t show ?thesis by (intro that) simp_all
qed

lemma manifest_digest_canon [simp]:
  "manifest_digest (canon (JObj (artifact_manifest sha data mt))) = Inr (sha data)"
  by (simp only: canon_artifact_manifest) (simp add: manifest_digest_def)

text \<open>What \<open>put_bytes\<close> leaves behind.\<close>

lemma put_bytes_state:
  assumes a: "a = artifact_id_for_digest (sha data)" and live: "\<not> artifact_is_redacted st a"
  shows "\<exists>mf. fst (put_bytes sha st data mt) =
        st\<lparr>blobs := fst (publish_immutable (blob_path (sha data)) data (blobs st)), manifests := mf\<rparr>
      \<and> (mf = manifests st
         \<or> map_of (fst (publish_immutable (blob_path (sha data)) data (blobs st))) (blob_path (sha data)) = Some data
           \<and> mf = fst (publish_immutable (manifest_path a) (canonical (JObj (artifact_manifest sha data mt))) (manifests st)))"
proof -
  obtain bs fb where bs: "publish_immutable (blob_path (sha data)) data (blobs st) = (bs, fb)" by force
  obtain mf fm where mf: "publish_immutable (manifest_path a)
      (canonical (JObj (artifact_manifest sha data mt))) (manifests st) = (mf, fm)" by force
  have held: "fb \<Longrightarrow> map_of bs (blob_path (sha data)) = Some data"
    using bs by (auto simp: publish_immutable_def map_of_update split: if_split_asm)
  show ?thesis
  proof (cases "fb \<or> map_of bs (blob_path (sha data)) = Some data")
    case True
    then have "map_of bs (blob_path (sha data)) = Some data" using held by blast
    then show ?thesis using live True
      by (auto simp: put_bytes_def Let_def bs mf a [symmetric] read_file_def pure_res_def
          intro!: exI [of _ mf] split: sum.splits elim!: sbind.elims)
  next
    case False
    then show ?thesis using live
      by (auto simp: put_bytes_def Let_def bs a [symmetric] read_file_def pure_res_def rbind_Inl_iff of_option_def
          intro!: exI [of _ "manifests st"] split: option.splits)
  qed
qed


datatype artifact_op =
    PutArtifact string string
  | RedactArtifact string string string string "string option"

fun artifact_step :: "(string \<Rightarrow> string) \<Rightarrow> artifact_store \<Rightarrow> artifact_op \<Rightarrow> artifact_store" where
  "artifact_step sha st (PutArtifact data mt) = fst (put_bytes sha st data mt)"
| "artifact_step sha st (RedactArtifact a reason authority at req) =
     fst (redact_artifact st a reason authority at req)"

definition stored_bytes :: "artifact_store \<Rightarrow> string \<Rightarrow> string option" where
  "stored_bytes st a = (case read_bytes st a of Inl _ \<Rightarrow> None | Inr b \<Rightarrow> Some b)"

lemma put_bytes_redacted:
  "artifact_is_redacted st (artifact_id_for_digest (sha data)) \<Longrightarrow>
   put_bytes sha st data mt = (st, Inl (Exn ArtifactRedactedError ''artifact ''))"
  by (simp add: put_bytes_def)

lemma put_bytes_ok:
  assumes ok: "artifacts_ok sha st"
  shows "artifacts_ok sha (fst (put_bytes sha st data mt))"
proof (cases "artifact_is_redacted st (artifact_id_for_digest (sha data))")
  case True
  then show ?thesis using ok by (simp add: put_bytes_redacted)
next
  case False
  let ?p = "blob_path (sha data)" let ?a = "artifact_id_for_digest (sha data)"
  let ?bs = "fst (publish_immutable ?p data (blobs st))"
  let ?tomb = "canonical (JObj (artifact_manifest sha data mt))"
  from put_bytes_state [where sha = sha and data = data and mt = mt, OF refl False] obtain mf
    where st': "fst (put_bytes sha st data mt) = st\<lparr>blobs := ?bs, manifests := mf\<rparr>"
      and mf: "mf = manifests st \<or> map_of ?bs ?p = Some data
          \<and> mf = fst (publish_immutable (manifest_path ?a) ?tomb (manifests st))" by blast
  have held: "blob_held sha (st\<lparr>blobs := ?bs, manifests := mf\<rparr>) d" if "blob_held sha st d" for d
    using that by (auto simp: blob_held_def artifact_is_redacted_def intro: publish_keeps)
  have 1: "p = blob_path (sha b)" if "map_of ?bs p = Some b" for p b
  proof -
    from that have "map_of (blobs st) p = Some b \<or> p = ?p \<and> b = data"
      by (auto simp: map_of_publish split: if_split_asm option.splits)
    then show ?thesis using ok unfolding artifacts_ok_def by blast
  qed
  have 2: "\<exists>d m. t = canonical (JObj (artifact_manifest sha d m))
      \<and> p = manifest_path (artifact_id_for_digest (sha d)) \<and> blob_held sha (st\<lparr>blobs := ?bs, manifests := mf\<rparr>) d"
    if "map_of mf p = Some t" for p t
  proof (cases "map_of (manifests st) p = Some t")
    case True
    then obtain d m where d: "t = canonical (JObj (artifact_manifest sha d m))"
      "p = manifest_path (artifact_id_for_digest (sha d))" "blob_held sha st d"
      using ok unfolding artifacts_ok_def by blast
    show ?thesis by (intro exI [of _ d] exI [of _ m] conjI d(1,2) held d(3))
  next
    case False
    with mf that have bs: "map_of ?bs ?p = Some data"
      and new: "map_of (fst (publish_immutable (manifest_path ?a) ?tomb (manifests st))) p = Some t"
      by auto
    note f = publish_new [OF new False, THEN conjunct2] publish_new [OF new False, THEN conjunct1]
    have "blob_held sha (st\<lparr>blobs := ?bs, manifests := mf\<rparr>) data"
      unfolding blob_held_def by (rule disjI1) (simp add: bs)
    then show ?thesis by (intro exI [of _ data] exI [of _ mt] conjI f)
  qed
  show ?thesis
    unfolding st' artifacts_ok_def
    by (intro conjI allI impI) (rule 1, simp, rule 2, simp)
qed

text \<open>What \<open>redact\<close> leaves behind.\<close>

lemma redact_artifact_cases:
  fixes st a reason authority at req
  defines "out \<equiv> redact_artifact st a reason authority at req"
  obtains (refused) e where "out = (st, Inl e)"
  | (tombstone) m tomb where "get_manifest st a = Inr m"
      "fst out = st\<lparr>redactions := fst (publish_immutable (redaction_path a) tomb (redactions st))\<rparr>"
      "\<not> is_ok (snd out)"
  | (erased) m tomb d where "get_manifest st a = Inr m" "manifest_digest m = Inr d"
      "fst out = st\<lparr>redactions := fst (publish_immutable (redaction_path a) tomb (redactions st)),
         blobs := unlink (blobs st) (blob_path d)\<rparr>"
proof -
  let ?pre = "rbind (check (reason \<noteq> [] \<and> authority \<noteq> [] \<and> at \<noteq> [])
                (Exn ValueError ''redaction requires reason, authority, and redacted_at'')) (\<lambda>_.
        rbind (get_manifest st a) (\<lambda>manifest.
        rbind (redaction_record manifest a reason authority at req) (\<lambda>record.
          Inr (manifest, record))))"
  show ?thesis
  proof (cases ?pre)
    case (Inl e)
    then have "out = (st, Inl e)" unfolding out_def redact_artifact_def Inl by simp
    then show ?thesis by (rule refused)
  next
    case (Inr mr)
    obtain m rc where mr: "mr = (m, rc)" by force
    from Inr mr have m: "get_manifest st a = Inr m" by auto
    let ?tomb = "canonical (JObj rc)"
    obtain rs fresh where rs: "publish_immutable (redaction_path a) ?tomb (redactions st) = (rs, fresh)" by force
    let ?res = "if fresh then Inr (JObj rc)
             else rbind (read_json rs (redaction_path a)) (\<lambda>existing.
               if canonical existing \<noteq> ?tomb
               then Inl (Exn ArtifactIntegrityError ''redaction tombstone conflict for '')
               else Inr existing)"
    have out: "out = sbind (pure_res (st\<lparr>redactions := rs\<rparr>) ?res) (\<lambda>st1 result.
            sbind (pure_res st1 (manifest_digest m)) (\<lambda>st1 digest.
              (st1\<lparr>blobs := unlink (blobs st1) (blob_path digest)\<rparr>, Inr result)))"
      unfolding out_def redact_artifact_def Inr mr by (simp add: rs Let_def)
    have rs': "rs = fst (publish_immutable (redaction_path a) ?tomb (redactions st))" by (simp add: rs)
    show ?thesis
    proof (cases ?res)
      case (Inl e)
      then have "out = (st\<lparr>redactions := rs\<rparr>, Inl e)" unfolding out Inl by simp
      then show ?thesis using m rs' by (intro tombstone) auto
    next
      case (Inr r)
      note out = out [unfolded Inr]
      show ?thesis
      proof (cases "manifest_digest m")
        case (Inl e)
        then have "out = (st\<lparr>redactions := rs\<rparr>, Inl e)" unfolding out Inl by simp
        then show ?thesis using m rs' by (intro tombstone) auto
      next
        case (Inr d)
        then have "out = (st\<lparr>redactions := rs, blobs := unlink (blobs st) (blob_path d)\<rparr>, Inr r)"
          unfolding out Inr by simp
        then show ?thesis using m Inr rs' by (intro erased) auto
      qed
    qed
  qed
qed

lemma published_redaction [simp]:
  "artifact_is_redacted (st\<lparr>redactions := fst (publish_immutable (redaction_path a) tomb (redactions st))\<rparr>) b
   \<longleftrightarrow> artifact_is_redacted st b \<or> b = a"
  "artifact_is_redacted (st\<lparr>redactions := fst (publish_immutable (redaction_path a) tomb (redactions st)), blobs := bs\<rparr>) b
   \<longleftrightarrow> artifact_is_redacted st b \<or> b = a"
  by (auto simp: artifact_is_redacted_def exists_path_def map_of_publish)

lemma artifacts_ok_erase:
  assumes "artifacts_ok sha st" and "\<And>p b. map_of (blobs st') p = Some b \<Longrightarrow> map_of (blobs st) p = Some b"
    and "manifests st' = manifests st" and "\<And>data. blob_held sha st data \<Longrightarrow> blob_held sha st' data"
  shows "artifacts_ok sha st'"
  unfolding artifacts_ok_def assms(3)
  using assms(1,2,4) unfolding artifacts_ok_def by blast

lemma redact_artifact_ok:
  assumes ok: "artifacts_ok sha st"
  shows "artifacts_ok sha (fst (redact_artifact st a reason authority at req))"
proof (cases rule: redact_artifact_cases [of st a reason authority at req])
  case refused
  then show ?thesis using ok by simp
next
  case (tombstone m tomb)
  show ?thesis unfolding tombstone(2)
    by (rule artifacts_ok_erase [OF ok]) (auto simp: blob_held_def)
next
  case (erased m tomb d)
  from get_manifest_ok [OF ok erased(1)] erased(2) obtain data
    where a: "a = artifact_id_for_digest d" "d = sha data"
    by (metis manifest_digest_canon sum.inject(2))
  show ?thesis unfolding erased(3)
    by (rule artifacts_ok_erase [OF ok])
      (auto simp: blob_held_def unlink_def map_of_delete a split: if_split_asm)
qed

lemma artifact_step_ok [inv_intros]: "artifacts_ok sha st \<Longrightarrow> artifacts_ok sha (artifact_step sha st op)"
  by (cases op) (simp_all add: put_bytes_ok redact_artifact_ok)

lemma redacted_step:
  "artifact_is_redacted st a \<Longrightarrow> artifact_is_redacted (artifact_step sha st op) a"
proof (cases op)
  case (PutArtifact data mt)
  assume r: "artifact_is_redacted st a"
  show ?thesis
  proof (cases "artifact_is_redacted st (artifact_id_for_digest (sha data))")
    case False
    from put_bytes_state [where sha = sha and data = data and mt = mt, OF refl False] r PutArtifact
    show ?thesis by (auto simp: artifact_is_redacted_def)
  qed (use r PutArtifact in \<open>simp add: put_bytes_redacted\<close>)
next
  case (RedactArtifact b reason authority at req)
  assume "artifact_is_redacted st a"
  then show ?thesis
    by (cases rule: redact_artifact_cases [of st b reason authority at req])
      (simp_all add: RedactArtifact)
qed

lemma read_bytes_iff:
  assumes ok: "artifacts_ok sha st"
  shows "read_bytes st a = Inr b \<longleftrightarrow> \<not> artifact_is_redacted st a \<and> a = artifact_id_for_digest (sha b)
    \<and> map_of (blobs st) (blob_path (sha b)) = Some b
    \<and> (\<exists>mt. map_of (manifests st) (manifest_path a) = Some (canonical (JObj (artifact_manifest sha b mt))))"
    (is "?l \<longleftrightarrow> ?r")
proof
  assume l: ?l
  then obtain m d where m: "\<not> artifact_is_redacted st a" "get_manifest st a = Inr m"
    "manifest_digest m = Inr d" "map_of (blobs st) (blob_path d) = Some b"
    by (auto simp: read_bytes_def read_file_def split: if_split_asm)
  from get_manifest_ok [OF ok m(2)] obtain data mt
    where f: "m = canon (JObj (artifact_manifest sha data mt))" "a = artifact_id_for_digest (sha data)"
      "blob_held sha st data"
      "map_of (manifests st) (manifest_path a) = Some (canonical (JObj (artifact_manifest sha data mt)))" .
  note bl = m(4)
  from f(1) m(3) have "d = sha data" by (simp del: canon.simps)
  with f(2,3) m(1,4) have "b = data" by (simp add: blob_held_def)
  with f m bl \<open>d = sha data\<close> show ?r by blast
next
  assume r: ?r
  then obtain mt where m: "map_of (manifests st) (manifest_path a) = Some (canonical (JObj (artifact_manifest sha b mt)))"
    by blast
  note g = read_json_canonical [OF m wf_artifact_manifest, folded get_manifest_def]
  have "read_bytes st a = read_file (blobs st) (blob_path (sha b))"
    using conjunct1 [OF r]
    by (simp only: read_bytes_def if_False g rbind.simps manifest_digest_canon simp_thms)
  then show ?l using r by (simp add: read_file_def)
qed

lemma read_bytes_put:
  assumes ok: "artifacts_ok sha st" and put: "put_bytes sha st data mt = (st', Inr m)"
  shows "read_bytes st' (artifact_id_for_digest (sha data)) = Inr data \<and> m = artifact_manifest sha data mt"
proof -
  let ?a = "artifact_id_for_digest (sha data)"
  let ?c = "canonical (JObj (artifact_manifest sha data mt))"
  have live: "\<not> artifact_is_redacted st ?a"
    using put by (auto simp: put_bytes_def Let_def)
  obtain bs fb where bs: "publish_immutable (blob_path (sha data)) data (blobs st) = (bs, fb)" by force
  obtain mf fm where mf: "publish_immutable (manifest_path ?a) ?c (manifests st) = (mf, fm)" by force
  let ?r1 = "if fb then Inr ()
                     else rbind (read_file bs (blob_path (sha data))) (\<lambda>old.
                       check (old = data) (Exn ArtifactIntegrityError ''hash collision or corrupted blob for ''))"
  let ?r2 = "if fm then Inr ()
                          else rbind (read_json mf (manifest_path ?a)) (\<lambda>existing.
                            check (canonical existing = ?c)
                              (Exn ArtifactIntegrityError ''manifest conflict for ''))"
  have eq: "put_bytes sha st data mt =
      sbind (pure_res (st\<lparr>blobs := bs\<rparr>) ?r1) (\<lambda>st1 _.
        let (mf, fm) = publish_immutable (manifest_path ?a) ?c (manifests st1); st2 = st1\<lparr>manifests := mf\<rparr>
        in sbind (pure_res st2 (if fm then Inr () else rbind (read_json mf (manifest_path ?a)) (\<lambda>existing.
                            check (canonical existing = ?c)
                              (Exn ArtifactIntegrityError ''manifest conflict for ''))))
             (\<lambda>st2 _. (st2, Inr (artifact_manifest sha data mt))))"
    using live by (simp add: put_bytes_def Let_def bs)
  from put eq have r1: "?r1 = Inr ()" by (cases ?r1) auto
  from put eq [unfolded r1] have r2: "?r2 = Inr ()" by (cases ?r2) (auto simp: mf Let_def)
  from put eq [unfolded r1] r2 have st': "st' = st\<lparr>blobs := bs, manifests := mf\<rparr>" "m = artifact_manifest sha data mt"
    by (simp_all add: mf Let_def)
  have b: "map_of bs (blob_path (sha data)) = Some data"
    using r1 bs by (auto simp: publish_immutable_def map_of_update read_file_def split: if_split_asm)
  have "\<exists>v. map_of mf (manifest_path ?a) = Some v \<and> (v = ?c \<or> (\<exists>e. parse_json v = Inr e \<and> canonical e = ?c))"
    using r2 mf by (auto simp: publish_immutable_def map_of_update read_json_def read_file_def split: if_split_asm)
  then obtain v where v: "map_of mf (manifest_path ?a) = Some v"
      "v = ?c \<or> (\<exists>e. parse_json v = Inr e \<and> canonical e = ?c)" by blast
  have ok': "artifacts_ok sha st'" using put_bytes_ok [OF ok, of data mt] put by simp
  have "v = ?c"
  proof (cases "v = ?c")
    case False
    with v obtain e where e: "parse_json v = Inr e" "canonical e = ?c" by blast
    then have "get_manifest st' ?a = Inr e"
      using v(1) by (simp add: get_manifest_def read_json_def read_file_def st')
    from get_manifest_ok [OF ok' this] obtain data' mt'
      where "e = canon (JObj (artifact_manifest sha data' mt'))"
        "map_of (manifests st') (manifest_path ?a) = Some (canonical (JObj (artifact_manifest sha data' mt')))" .
    moreover have "map_of (manifests st') (manifest_path ?a) = Some v" using v(1) by (simp add: st')
    ultimately show ?thesis using e(2) by (simp only: doc.encode_norm option.inject)
  qed simp
  then have "read_bytes st' ?a = Inr data"
    using v(1) b live unfolding read_bytes_iff [OF ok'] by (auto simp: st' artifact_is_redacted_def)
  with st' show ?thesis by simp
qed

lemma stored_bytes_Some [simp]: "stored_bytes st a = Some b \<longleftrightarrow> read_bytes st a = Inr b"
  by (simp add: stored_bytes_def split: sum.splits)

lemma read_bytes_step:
  assumes ok: "artifacts_ok sha st" and r: "read_bytes st a = Inr b"
  shows "read_bytes (artifact_step sha st op) a = Inr b \<or> artifact_is_redacted (artifact_step sha st op) a"
proof -
  let ?st = "artifact_step sha st op"
  from r obtain mt where f: "\<not> artifact_is_redacted st a" "a = artifact_id_for_digest (sha b)"
    "map_of (blobs st) (blob_path (sha b)) = Some b"
    "map_of (manifests st) (manifest_path a) = Some (canonical (JObj (artifact_manifest sha b mt)))"
    unfolding read_bytes_iff [OF ok] by blast
  have "artifact_is_redacted ?st a \<or> map_of (blobs ?st) (blob_path (sha b)) = Some b
     \<and> map_of (manifests ?st) (manifest_path a) = Some (canonical (JObj (artifact_manifest sha b mt)))"
  proof (cases op)
    case (PutArtifact data mt')
    show ?thesis
    proof (cases "artifact_is_redacted st (artifact_id_for_digest (sha data))")
      case True
      then show ?thesis using f(3,4) PutArtifact by (simp add: put_bytes_redacted)
    next
      case False
      from put_bytes_state [where sha = sha and data = data and mt = mt', OF refl False]
      obtain mf where "?st = st\<lparr>blobs := fst (publish_immutable (blob_path (sha data)) data (blobs st)), manifests := mf\<rparr>"
        "mf = manifests st \<or> (\<exists>p t. mf = fst (publish_immutable p t (manifests st)))"
        using PutArtifact by auto
      then show ?thesis using publish_keeps [OF f(3)] publish_keeps [OF f(4)] f(4) by auto
    qed
  next
    case (RedactArtifact c reason authority at req)
    show ?thesis
    proof (cases rule: redact_artifact_cases [of st c reason authority at req])
      case refused
      then show ?thesis using f(3,4) RedactArtifact by simp
    next
      case (tombstone m tomb)
      then show ?thesis using f(3,4) RedactArtifact by simp
    next
      case (erased m tomb d)
      have "c = artifact_id_for_digest d"
        using get_manifest_ok [OF ok erased(1)] erased(2) by (metis manifest_digest_canon sum.inject(2))
      then show ?thesis using f(2,3,4) erased(3) RedactArtifact
        by (cases "d = sha b") (auto simp: unlink_def map_of_delete)
    qed
  qed
  then show ?thesis unfolding read_bytes_iff [OF artifact_step_ok [OF ok]] using f(2) by blast
qed

lemma redacted_unreadable: "artifact_is_redacted st a \<Longrightarrow> stored_bytes st a = None"
  by (simp add: stored_bytes_def read_bytes_def)

interpretation artifacts: redactable_store "artifact_step sha" "\<lambda>_. True" "artifacts_ok sha" stored_bytes artifact_is_redacted
  for sha
proof unfold_locales
  fix s op i v
  assume "artifacts_ok sha s" "stored_bytes s i = Some v"
  then show "stored_bytes (artifact_step sha s op) i = Some v \<or> artifact_is_redacted (artifact_step sha s op) i"
    by (simp add: read_bytes_step)
qed (auto intro: artifact_step_ok redacted_step redacted_unreadable)

text \<open>Bytes that \<open>redact\<close> erased stay erased.\<close>

definition erased :: "artifact_store \<Rightarrow> string \<Rightarrow> bool" where
  "erased st digest \<longleftrightarrow> artifact_is_redacted st (artifact_id_for_digest digest)
     \<and> map_of (blobs st) (blob_path digest) = None"

lemma erased_step:
  assumes e: "erased st d"
  shows "erased (artifact_step sha st op) d"
proof -
  have "map_of (blobs (artifact_step sha st op)) (blob_path d) = None"
  proof (cases op)
    case (PutArtifact data mt)
    show ?thesis
    proof (cases "artifact_is_redacted st (artifact_id_for_digest (sha data))")
      case True
      then show ?thesis using e PutArtifact by (simp add: put_bytes_redacted erased_def)
    next
      case False
      then have "sha data \<noteq> d" using e by (auto simp: erased_def)
      with put_bytes_state [where sha = sha and data = data and mt = mt, OF refl False] e PutArtifact
      show ?thesis by (auto simp: erased_def map_of_publish)
    qed
  next
    case (RedactArtifact c reason authority at req)
    then show ?thesis using e
      by (cases rule: redact_artifact_cases [of st c reason authority at req])
        (auto simp: erased_def unlink_def map_of_delete)
  qed
  then show ?thesis using e redacted_step by (auto simp: erased_def)
qed

lemma redact_erases:
  assumes ok: "artifacts_ok sha st" and r: "redact_artifact st a reason authority at req = (st', Inr tomb)"
    and m: "get_manifest st a = Inr m" "manifest_digest m = Inr d"
  shows "erased st' d"
proof (cases rule: redact_artifact_cases [of st a reason authority at req])
  case (erased m' tomb d')
  have "a = artifact_id_for_digest d"
    using get_manifest_ok [OF ok m(1)] m(2) by (metis manifest_digest_canon sum.inject(2))
  with erased m r show ?thesis by (auto simp: erased_def unlink_def map_of_delete)
qed (use r in auto)

lemma verify_read:
  assumes ok: "artifacts_ok sha st" and r: "read_bytes st a = Inr b"
  shows "verify_artifact sha st a = Inr True"
proof -
  from r obtain mt where f: "a = artifact_id_for_digest (sha b)"
    "map_of (manifests st) (manifest_path a) = Some (canonical (JObj (artifact_manifest sha b mt)))"
    unfolding read_bytes_iff [OF ok] by blast
  have g: "get_manifest st a = Inr (canon (JObj (artifact_manifest sha b mt)))"
    unfolding get_manifest_def by (rule read_json_canonical [OF f(2) wf_artifact_manifest])
  show ?thesis unfolding verify_artifact_def g r rbind.simps canon_artifact_manifest by simp
qed

section \<open>Properties\<close>

definition artifact_run :: "(string \<Rightarrow> string) \<Rightarrow> artifact_op list \<Rightarrow> artifact_store" where
  "artifact_run sha ops = foldl (artifact_step sha) empty_artifacts ops"

lemma artifact_run_ok: "artifacts_ok sha (artifact_run sha ops)"
  unfolding artifact_run_def by (rule artifacts.run_inv) (simp_all add: list_all_iff)

definition pad_sha :: "string \<Rightarrow> string" where
  "pad_sha t = take 64 (t @ replicate 64 (CHR ''0''))"

definition demo_ops :: "artifact_op list" where
  "demo_ops = [PutArtifact ''hello'' ''text/plain'', PutArtifact ''world'' ''text/plain'']"

text \<open>C9. Publishing is atomic and leaves no trace of its temporary file: the four file-system steps
  of \<open>publish_immutable\<close>, with a fresh temporary name, have exactly the effect of creating the
  target with the whole content if it does not exist, and of nothing otherwise, and report which.\<close>

theorem publish_is_atomic:
  assumes "p \<noteq> []" and "\<not> exists_path d (temp_path token p)"
  shows "publish_run token p data d = (fst (publish_immutable p data d), Inr (snd (publish_immutable p data d)))"
  using assms by (rule publish_run_atomic)

theorem publish_is_atomic_witness:
  "publish_run ''u1'' [''ab'', ''x.json''] ''data'' [([''ab'', ''y.json''], ''old'')]
   = (fst (publish_immutable [''ab'', ''x.json''] ''data'' [([''ab'', ''y.json''], ''old'')]), Inr True)"
proof -
  have "\<not> exists_path [([''ab'', ''y.json''], ''old'')] (temp_path ''u1'' [''ab'', ''x.json''])"
    by code_simp
  from publish_is_atomic [OF _ this, of "''data''"] show ?thesis by (simp add: exists_path_def)
qed

text \<open>A crash never exposes a partial file: in every state that an interrupted publication can
  leave behind, each path other than the temporary one holds what it held before, or it is the
  target, which did not exist, and holds the whole content.\<close>

lemma publish_crash_safe:
  assumes "p \<noteq> []" and "\<not> exists_path d (temp_path token p)"
    and "d' \<in> set (publish_states token p data d)" and "q \<noteq> temp_path token p"
  shows "map_of d' q = map_of d q \<or> (q = p \<and> map_of d p = None \<and> map_of d' p = Some data)"
  using assms by (rule publish_states_safe)

text \<open>Content-addressed round trip: in any state the store can reach, a successful \<open>put_bytes\<close>
  makes exactly those bytes readable under the id it returns, and they verify.\<close>

lemma artifact_put_then_read:
  assumes "put_bytes sha (artifact_run sha ops) data mt = (st', Inr manifest)"
  shows "read_bytes st' (artifact_id_for_digest (sha data)) = Inr data
    \<and> verify_artifact sha st' (artifact_id_for_digest (sha data)) = Inr True
    \<and> manifest = artifact_manifest sha data mt"
proof -
  have "artifacts_ok sha st'" using put_bytes_ok [OF artifact_run_ok, of sha ops data mt] assms by simp
  then show ?thesis using read_bytes_put [OF artifact_run_ok assms] verify_read by blast
qed

lemma demo_put_runs: "is_ok (snd (put_bytes pad_sha (artifact_run pad_sha demo_ops) ''abc'' ''text/plain''))"
  by code_simp

text \<open>Content never changes: whatever is readable in a reachable state is the content its id
  names, and after any further operations the id still reads the same bytes or is redacted.\<close>

lemma artifact_content_stable:
  assumes "read_bytes (artifact_run sha ops) a = Inr b"
  shows "a = artifact_id_for_digest (sha b)
    \<and> (read_bytes (artifact_run sha (ops @ later)) a = Inr b \<or> artifact_is_redacted (artifact_run sha (ops @ later)) a)"
proof -
  have "a = artifact_id_for_digest (sha b)"
    using assms unfolding read_bytes_iff [OF artifact_run_ok] by blast
  moreover have "stored_bytes (artifact_run sha ops) a = Some b" using assms by simp
  from artifacts.run_lookup [OF _ artifact_run_ok this, of later]
  have "read_bytes (artifact_run sha (ops @ later)) a = Inr b \<or> artifact_is_redacted (artifact_run sha (ops @ later)) a"
    by (simp add: artifact_run_def list_all_iff)
  ultimately show ?thesis by blast
qed

lemma demo_read: "read_bytes (artifact_run pad_sha demo_ops) (artifact_id_for_digest (pad_sha ''hello'')) = Inr ''hello''"
  by code_simp

text \<open>C10. Redaction is permanent: once \<open>redact\<close> has succeeded on an artifact in a reachable state, no
  sequence of further operations makes the artifact readable, restores its bytes to the blob
  directory, or lets bytes with that digest be stored again.\<close>

theorem artifact_redaction_permanent:
  assumes redacted: "redact_artifact (artifact_run sha ops) a reason authority at req = (st, Inr tomb)"
    and manifest: "get_manifest (artifact_run sha ops) a = Inr m" "manifest_digest m = Inr digest"
  shows "read_bytes (foldl (artifact_step sha) st later) a = Inl (Exn ArtifactRedactedError ''artifact '')
    \<and> map_of (blobs (foldl (artifact_step sha) st later)) (blob_path digest) = None
    \<and> (sha data = digest \<longrightarrow>
         snd (put_bytes sha (foldl (artifact_step sha) st later) data mt) = Inl (Exn ArtifactRedactedError ''artifact ''))"
proof -
  have "erased st digest" by (rule redact_erases [OF artifact_run_ok redacted manifest])
  then have e: "erased (foldl (artifact_step sha) st later) digest"
    by (induction later arbitrary: st) (auto intro: erased_step)
  have "a = artifact_id_for_digest digest"
    using get_manifest_ok [OF artifact_run_ok manifest(1)] manifest(2) by (metis manifest_digest_canon sum.inject(2))
  with e show ?thesis by (auto simp: erased_def read_bytes_def put_bytes_redacted)
qed

lemma demo_redact_runs:
  "is_ok (snd (redact_artifact (artifact_run pad_sha demo_ops) (artifact_id_for_digest (pad_sha ''hello''))
     ''privacy'' ''dpo'' ''2026-01-01'' None))"
  "rbind (get_manifest (artifact_run pad_sha demo_ops) (artifact_id_for_digest (pad_sha ''hello''))) manifest_digest
   = Inr (pad_sha ''hello'')"
  by code_simp+

theorem artifact_redaction_permanent_witness:
  "\<exists>st tomb. redact_artifact (artifact_run pad_sha demo_ops) (artifact_id_for_digest (pad_sha ''hello''))
       ''privacy'' ''dpo'' ''2026-01-01'' None = (st, Inr tomb)
     \<and> read_bytes (foldl (artifact_step pad_sha) st [PutArtifact ''hello'' ''text/plain''])
         (artifact_id_for_digest (pad_sha ''hello'')) = Inl (Exn ArtifactRedactedError ''artifact '')"
proof -
  obtain st r where e: "redact_artifact (artifact_run pad_sha demo_ops) (artifact_id_for_digest (pad_sha ''hello''))
     ''privacy'' ''dpo'' ''2026-01-01'' None = (st, r)" by force
  with demo_redact_runs(1) obtain tomb where r: "r = Inr tomb" by (auto simp: is_ok_iff)
  from demo_redact_runs(2) obtain m where m: "get_manifest (artifact_run pad_sha demo_ops)
      (artifact_id_for_digest (pad_sha ''hello'')) = Inr m" "manifest_digest m = Inr (pad_sha ''hello'')"
    by (auto simp del: canon.simps)
  from artifact_redaction_permanent [OF e [unfolded r] m] e r show ?thesis by blast
qed

end
