(* ===== verification/Event_Store.thy ===== *)
theory Event_Store
  imports Event_Contracts Artifact_Store
begin

text \<open>
  Durable identities (\<open>domain/identity.py\<close>) and the immutable event log
  (\<open>adapters/filesystem/event_store.py\<close>). A store is its two directories; what the constructor is
  given, with SHA-256 and the schema validators, is the record \<open>event_config\<close>. The random part of
  \<open>new_id\<close> is an argument.
\<close>

section \<open>Identity\<close>

definition new_id :: "string \<Rightarrow> string \<Rightarrow> string" where
  "new_id prefix uuid_hex = prefix @ ''_'' @ uuid_hex"

definition deterministic_event_id :: "(string \<Rightarrow> string) \<Rightarrow> string \<Rightarrow> string \<Rightarrow> string" where
  "deterministic_event_id sha pack_id idempotency_key =
     ''evt_'' @ take 32 (sha (pack_id @ [CHR 0x00] @ idempotency_key))"

section \<open>State\<close>

record event_config =
  cfg_sha :: "string \<Rightarrow> string"
  cfg_envelope :: "json \<Rightarrow> bool"
  cfg_payload :: "json \<Rightarrow> json \<Rightarrow> bool"
  cfg_endpoints :: "endpoint_type_resolver option"
  cfg_promotions :: "promotion_source_resolver option"

record event_store =
  events :: fs
  tombstones :: fs

definition empty_events :: event_store where
  "empty_events = \<lparr> events = [], tombstones = [] \<rparr>"

definition event_path :: "string \<Rightarrow> path" where
  "event_path i = [take 2 (removeprefix ''evt_'' i), i @ ''.json'']"

definition event_is_redacted :: "event_store \<Rightarrow> string \<Rightarrow> bool" where
  "event_is_redacted st i = exists_path (tombstones st) (event_path i)"

definition get_event_redaction :: "event_store \<Rightarrow> string \<Rightarrow> json res" where
  "get_event_redaction st i =
     (if exists_path (tombstones st) (event_path i) then read_json (tombstones st) (event_path i) else Inr JNull)"

definition iter_redactions :: "event_store \<Rightarrow> json list res" where
  "iter_redactions st = rmap (read_json (tombstones st)) (glob_json (tombstones st))"

section \<open>Operations\<close>

definition prepare_event :: "event_config \<Rightarrow> dict \<Rightarrow> string \<Rightarrow> dict res" where
  "prepare_event cfg event uuid_hex =
     (let pack_id = dget event ''pack_id'';
          idem = dget event ''idempotency_key'';
          supplied = dget event ''event_id''
      in rbind (if truthy pack_id \<and> truthy idem then
             (let expected = deterministic_event_id (cfg_sha cfg) (py_str pack_id) (py_str idem) in
              if truthy supplied \<and> \<not> py_eq supplied (JStr expected)
              then Inl (Exn IdempotencyConflict ''event_id does not match deterministic idempotency identity'')
              else Inr (AList.update ''event_id'' (JStr expected) event))
           else if \<not> truthy supplied
             then Inr (AList.update ''event_id'' (JStr (new_id ''evt'' uuid_hex)) event)
           else Inr event) (\<lambda>candidate.
         rbind (check (cfg_envelope cfg (JObj candidate)) (Exn ValidationError [])) (\<lambda>_. Inr candidate)))"

definition validate_event :: "event_config \<Rightarrow> dict \<Rightarrow> string \<Rightarrow> dict res" where
  "validate_event cfg event uuid_hex =
     rbind (prepare_event cfg event uuid_hex) (\<lambda>candidate.
     rbind (validate_event_for_commit (cfg_payload cfg) candidate (cfg_endpoints cfg) (cfg_promotions cfg)) (\<lambda>_.
       Inr candidate))"

definition store_event :: "event_store \<Rightarrow> dict \<Rightarrow> string \<Rightarrow> event_store \<times> json res" where
  "store_event st candidate i =
     (if event_is_redacted st i then (st, Inl (Exn EventRedactedError ''event ''))
      else (let data = canonical (JObj candidate);
                (evs, fresh) = publish_immutable (event_path i) data (events st)
            in if fresh then (st\<lparr>events := evs\<rparr>, Inr (JObj candidate))
               else pure_res st (rbind (read_json evs (event_path i)) (\<lambda>existing.
                 if canonical existing = data then Inr existing
                 else Inl (Exn IdempotencyConflict ''event '')))))"

definition commit_event :: "event_config \<Rightarrow> event_store \<Rightarrow> dict \<Rightarrow> string \<Rightarrow> event_store \<times> json res" where
  "commit_event cfg st event uuid_hex =
     sbind (pure_res st
       (rbind (validate_event cfg event uuid_hex) (\<lambda>candidate.
        rbind (dindex candidate ''event_id'') (\<lambda>iv.
        rbind (key_str iv) (\<lambda>i. Inr (candidate, i))))))
     (\<lambda>st (candidate, i). store_event st candidate i)"

definition get_event :: "event_store \<Rightarrow> string \<Rightarrow> json res" where
  "get_event st i =
     (if event_is_redacted st i then Inl (Exn EventRedactedError ''event '')
      else read_json (events st) (event_path i))"

definition event_tombstone ::
  "(string \<Rightarrow> string) \<Rightarrow> string \<Rightarrow> json \<Rightarrow> string \<Rightarrow> string \<Rightarrow> string \<Rightarrow> string option \<Rightarrow> dict res" where
  "event_tombstone sha i event reason authority redacted_at request_ref =
     rbind (index event ''pack_id'') (\<lambda>pack_id.
     rbind (index event ''event_type'') (\<lambda>event_type.
     rbind (index event ''recorded_at'') (\<lambda>recorded_at.
       Inr [(''event_id'', JStr i),
            (''pack_id'', pack_id),
            (''event_type'', event_type),
            (''recorded_at'', recorded_at),
            (''canonical_hash'', JObj [(''algorithm'', JStr ''sha256''), (''digest'', JStr (sha (canonical event)))]),
            (''redacted_at'', JStr redacted_at),
            (''reason'', JStr reason),
            (''authority'', JStr authority),
            (''request_ref'', opt_str request_ref)])))"

definition same_redaction :: "json \<Rightarrow> string \<Rightarrow> string \<Rightarrow> string \<Rightarrow> string option \<Rightarrow> bool res" where
  "same_redaction existing reason authority redacted_at request_ref =
     (case existing of
        JObj d \<Rightarrow> Inr (list_all (\<lambda>(k, v). py_eq (dget d k) v)
          [(''reason'', JStr reason), (''authority'', JStr authority), (''redacted_at'', JStr redacted_at),
           (''request_ref'', opt_str request_ref)])
      | _ \<Rightarrow> Inl (Exn AttributeError ''get''))"

definition redact_event ::
  "event_config \<Rightarrow> event_store \<Rightarrow> string \<Rightarrow> string \<Rightarrow> string \<Rightarrow> string \<Rightarrow> string option \<Rightarrow> event_store \<times> json res"
where
  "redact_event cfg st i reason authority redacted_at request_ref =
     (if reason = [] \<or> authority = [] \<or> redacted_at = []
      then (st, Inl (Exn ValueError ''event redaction requires reason, authority, and redacted_at''))
      else if event_is_redacted st i
      then pure_res st
        (rbind (read_json (tombstones st) (event_path i)) (\<lambda>existing.
         rbind (same_redaction existing reason authority redacted_at request_ref) (\<lambda>same.
         if same then Inr existing else Inl (Exn EventRedactionConflict ''event ''))))
      else sbind (pure_res st
             (rbind (read_json (events st) (event_path i)) (\<lambda>event.
                event_tombstone (cfg_sha cfg) i event reason authority redacted_at request_ref)))
           (\<lambda>st tombstone.
              let (ts, fresh) = publish_immutable (event_path i) (canonical (JObj tombstone)) (tombstones st);
                  st1 = st\<lparr>tombstones := ts\<rparr>
              in if \<not> fresh then (st1, Inl (Exn EventRedactionConflict ''could not publish event redaction tombstone for ''))
                 else (st1\<lparr>events := unlink (events st1) (event_path i)\<rparr>, Inr (JObj tombstone))))"

definition iter_events :: "event_store \<Rightarrow> json list res" where
  "iter_events st = rmap (read_json (events st)) (glob_json (events st))"

section \<open>The invariant\<close>

text \<open>
  Every file of the log is the canonical form of an event that was accepted under the store's
  configuration, at the path of its id, and a redacted id has no event file.
\<close>

definition event_file_ok :: "event_config \<Rightarrow> path \<Rightarrow> string \<Rightarrow> bool" where
  "event_file_ok cfg p t \<longleftrightarrow> (\<exists>d i. t = canonical (JObj d) \<and> wf_json (JObj d) \<and> p = event_path i
     \<and> map_of d ''event_id'' = Some (JStr i) \<and> cfg_envelope cfg (JObj d)
     \<and> is_ok (validate_event_for_commit (cfg_payload cfg) d (cfg_endpoints cfg) (cfg_promotions cfg)))"

definition events_ok :: "event_config \<Rightarrow> event_store \<Rightarrow> bool" where
  "events_ok cfg st \<longleftrightarrow> distinct (map fst (events st))
     \<and> (\<forall>p t. map_of (events st) p = Some t \<longrightarrow> event_file_ok cfg p t)
     \<and> (\<forall>i. event_is_redacted st i \<longrightarrow> map_of (events st) (event_path i) = None)"

datatype event_op =
    CommitEvent dict string
  | RedactEvent string string string string "string option"

fun event_step :: "event_config \<Rightarrow> event_store \<Rightarrow> event_op \<Rightarrow> event_store" where
  "event_step cfg st (CommitEvent ev uuid_hex) = fst (commit_event cfg st ev uuid_hex)"
| "event_step cfg st (RedactEvent i reason authority at req) =
     fst (redact_event cfg st i reason authority at req)"

text \<open>A caller's event is a JSON value: its keys are distinct.\<close>

fun event_op_legal :: "event_op \<Rightarrow> bool" where
  "event_op_legal (CommitEvent ev _) = wf_json (JObj ev)"
| "event_op_legal _ = True"

lemma empty_events_ok [simp]: "events_ok cfg empty_events"
  by (simp add: events_ok_def empty_events_def event_is_redacted_def exists_path_def)

lemma event_path_inj [simp]: "event_path i = event_path j \<longleftrightarrow> i = j"
  by (auto simp: event_path_def)

lemma prepare_event_D:
  assumes "prepare_event cfg ev u = Inr c" and "wf_json (JObj ev)"
  shows "wf_json (JObj c) \<and> cfg_envelope cfg (JObj c)"
  using assms wf_update [OF assms(2)]
  by (auto simp: prepare_event_def Let_def simp del: wf_json.simps(3) split: if_split_asm)

lemma commit_event_cases:
  obtains (refused) e where "commit_event cfg st ev u = (st, Inl e)" "validate_event cfg ev u = Inl e \<or>
      (\<exists>c. validate_event cfg ev u = Inr c \<and> (\<nexists>i. map_of c ''event_id'' = Some (JStr i)))"
  | (stored) c i where "validate_event cfg ev u = Inr c" "map_of c ''event_id'' = Some (JStr i)"
      "commit_event cfg st ev u = store_event st c i"
proof (cases "validate_event cfg ev u")
  case (Inl e)
  then show ?thesis by (intro refused) (simp_all add: commit_event_def)
next
  case (Inr c)
  show ?thesis
  proof (cases "\<exists>i. map_of c ''event_id'' = Some (JStr i)")
    case True
    then show ?thesis using Inr by (auto simp: commit_event_def intro: stored)
  next
    case False
    then obtain e where "rbind (dindex c ''event_id'') key_str = Inl e"
      by (cases "rbind (dindex c ''event_id'') key_str") auto
    then have "rbind (dindex c ''event_id'') (\<lambda>iv. rbind (key_str iv) (\<lambda>i. Inr (c, i))) = Inl e"
      by (auto simp: rbind_Inl_iff)
    then have "commit_event cfg st ev u = (st, Inl e)"
      using Inr by (simp add: commit_event_def)
    with False Inr show ?thesis by (intro refused) auto
  qed
qed

lemma validate_event_D:
  assumes "validate_event cfg ev u = Inr c" and "wf_json (JObj ev)"
  shows "wf_json (JObj c)" "cfg_envelope cfg (JObj c)"
    "is_ok (validate_event_for_commit (cfg_payload cfg) c (cfg_endpoints cfg) (cfg_promotions cfg))"
  using assms prepare_event_D by (auto simp: validate_event_def is_ok_iff simp del: wf_json.simps)

section \<open>Steps preserve the invariant\<close>

lemma store_event_cases:
  obtains (erased) "event_is_redacted st i" "store_event st c i = (st, Inl (Exn EventRedactedError ''event ''))"
  | (fresh) "\<not> event_is_redacted st i" "map_of (events st) (event_path i) = None"
      "store_event st c i = (st\<lparr>events := AList.update (event_path i) (canonical (JObj c)) (events st)\<rparr>, Inr (JObj c))"
  | (present) t where "\<not> event_is_redacted st i" "map_of (events st) (event_path i) = Some t"
      "store_event st c i = (st, rbind (read_json (events st) (event_path i)) (\<lambda>existing.
         if canonical existing = canonical (JObj c) then Inr existing else Inl (Exn IdempotencyConflict ''event '')))"
proof (cases "event_is_redacted st i")
  case True
  then show ?thesis by (intro erased) (simp_all add: store_event_def)
next
  case False
  show ?thesis
  proof (cases "map_of (events st) (event_path i)")
    case None
    then show ?thesis using False
      by (intro fresh) (simp_all add: store_event_def publish_immutable_def exists_path_def)
  next
    case (Some t)
    then show ?thesis using False
      by (intro present) (simp_all add: store_event_def publish_immutable_def exists_path_def pure_res_def)
  qed
qed

lemma store_event_ok:
  assumes ok: "events_ok cfg st" and c: "event_file_ok cfg (event_path i) (canonical (JObj c))"
  shows "events_ok cfg (fst (store_event st c i))"
proof (cases rule: store_event_cases [of st i c])
  case erased
  then show ?thesis using ok by simp
next
  case fresh
  let ?st = "st\<lparr>events := AList.update (event_path i) (canonical (JObj c)) (events st)\<rparr>"
  have "event_file_ok cfg p t" if "map_of (events ?st) p = Some t" for p t
    using that ok c by (auto simp: map_of_update events_ok_def split: if_split_asm)
  moreover have "map_of (events ?st) (event_path j) = None" if "event_is_redacted ?st j" for j
    using that ok fresh(1) by (auto simp: map_of_update events_ok_def event_is_redacted_def)
  moreover have "distinct (map fst (events ?st))" using ok by (simp add: events_ok_def)
  ultimately show ?thesis unfolding fresh(3) events_ok_def fst_conv by blast
next
  case present
  then show ?thesis using ok by simp
qed

lemma validated_file_ok:
  assumes "validate_event cfg ev u = Inr c" "wf_json (JObj ev)" "map_of c ''event_id'' = Some (JStr i)"
  shows "event_file_ok cfg (event_path i) (canonical (JObj c))"
  unfolding event_file_ok_def using validate_event_D [OF assms(1,2)] assms(3) by blast

lemma redact_event_cases:
  obtains (unchanged) "fst (redact_event cfg st i reason authority at req) = st"
      "\<And>r. snd (redact_event cfg st i reason authority at req) = Inr r \<Longrightarrow> event_is_redacted st i"
  | (erased) v d where "\<not> event_is_redacted st i" "read_json (events st) (event_path i) = Inr v"
      "event_tombstone (cfg_sha cfg) i v reason authority at req = Inr d"
      "redact_event cfg st i reason authority at req =
         (st\<lparr>tombstones := AList.update (event_path i) (canonical (JObj d)) (tombstones st),
             events := unlink (events st) (event_path i)\<rparr>, Inr (JObj d))"
proof -
  let ?pre = "rbind (read_json (events st) (event_path i)) (\<lambda>event.
                event_tombstone (cfg_sha cfg) i event reason authority at req)"
  consider "reason = [] \<or> authority = [] \<or> at = []" | "event_is_redacted st i"
    | "\<not> (reason = [] \<or> authority = [] \<or> at = [])" "\<not> event_is_redacted st i" by blast
  then show ?thesis
  proof cases
    case 1
    then show ?thesis by (intro unchanged) (simp_all add: redact_event_def)
  next
    case 2
    then show ?thesis by (intro unchanged) (simp_all add: redact_event_def)
  next
    case 3
    show ?thesis
    proof (cases ?pre)
      case (Inl e)
      with 3 have "redact_event cfg st i reason authority at req = (st, Inl e)"
        unfolding redact_event_def by simp
      then show ?thesis by (intro unchanged) simp_all
    next
      case (Inr d)
      then obtain v where "read_json (events st) (event_path i) = Inr v"
        "event_tombstone (cfg_sha cfg) i v reason authority at req = Inr d" by auto
      moreover from 3 Inr have "redact_event cfg st i reason authority at req =
         (st\<lparr>tombstones := AList.update (event_path i) (canonical (JObj d)) (tombstones st),
             events := unlink (events st) (event_path i)\<rparr>, Inr (JObj d))"
        unfolding redact_event_def Inr
        by (simp add: publish_immutable_def event_is_redacted_def)
      ultimately show ?thesis using 3 by (intro erased)
    qed
  qed
qed

lemma redact_event_ok:
  assumes ok: "events_ok cfg st"
  shows "events_ok cfg (fst (redact_event cfg st i reason authority at req))"
proof (cases rule: redact_event_cases [of cfg st i reason authority at req])
  case unchanged
  then show ?thesis using ok by simp
next
  case (erased v d)
  let ?st = "st\<lparr>tombstones := AList.update (event_path i) (canonical (JObj d)) (tombstones st),
             events := unlink (events st) (event_path i)\<rparr>"
  have "event_file_ok cfg p t" if "map_of (events ?st) p = Some t" for p t
    using that ok by (auto simp: unlink_def map_of_delete events_ok_def split: if_split_asm)
  moreover have "map_of (events ?st) (event_path j) = None" if "event_is_redacted ?st j" for j
    using that ok by (auto simp: unlink_def map_of_delete map_of_update events_ok_def event_is_redacted_def
        exists_path_def split: if_split_asm)
  moreover have "distinct (map fst (events ?st))" using ok by (simp add: events_ok_def unlink_def)
  ultimately show ?thesis unfolding erased(4) events_ok_def fst_conv by blast
qed

lemma event_step_ok [inv_intros]:
  assumes "event_op_legal op" "events_ok cfg st"
  shows "events_ok cfg (event_step cfg st op)"
proof (cases op)
  case (CommitEvent ev u)
  show ?thesis
  proof (cases rule: commit_event_cases [of cfg st ev u])
    case refused
    then show ?thesis using assms(2) CommitEvent by simp
  next
    case (stored c i)
    then show ?thesis
      using store_event_ok [OF assms(2) validated_file_ok [OF stored(1) _ stored(2)]] assms(1) CommitEvent by simp
  qed
qed (use assms redact_event_ok in simp)

section \<open>The abstract log\<close>

text \<open>
  What the store promises: a partial map from ids to events and a set of erased ids. Events are
  taken up to the order of their keys.
\<close>

record alog =
  log :: "string \<Rightarrow> json option"
  erased_ids :: "string set"

definition abs_log :: "event_store \<Rightarrow> alog" where
  "abs_log st = \<lparr> log = (\<lambda>i. case get_event st i of Inr v \<Rightarrow> Some v | Inl _ \<Rightarrow> None),
     erased_ids = {i. event_is_redacted st i} \<rparr>"

definition alog_put :: "string \<Rightarrow> json \<Rightarrow> alog \<Rightarrow> alog \<times> json res" where
  "alog_put i v l =
     (if i \<in> erased_ids l then (l, Inl (Exn EventRedactedError ''event ''))
      else (case log l i of
          None \<Rightarrow> (l\<lparr>log := (log l)(i \<mapsto> v)\<rparr>, Inr v)
        | Some w \<Rightarrow> if w = v then (l, Inr v) else (l, Inl (Exn IdempotencyConflict ''event ''))))"

definition alog_erase :: "string \<Rightarrow> alog \<Rightarrow> alog" where
  "alog_erase i l = l\<lparr>log := (log l)(i := None), erased_ids := insert i (erased_ids l)\<rparr>"

lemma event_file_read:
  assumes "events_ok cfg st" "map_of (events st) (event_path i) = Some t"
  obtains d where "t = canonical (JObj d)" "wf_json (JObj d)" "map_of d ''event_id'' = Some (JStr i)"
    "read_json (events st) (event_path i) = Inr (canon (JObj d))" "cfg_envelope cfg (JObj d)"
    "is_ok (validate_event_for_commit (cfg_payload cfg) d (cfg_endpoints cfg) (cfg_promotions cfg))"
proof -
  from assms obtain d j where d: "t = canonical (JObj d)" "wf_json (JObj d)" "event_path i = event_path j"
    "map_of d ''event_id'' = Some (JStr j)" "cfg_envelope cfg (JObj d)"
    "is_ok (validate_event_for_commit (cfg_payload cfg) d (cfg_endpoints cfg) (cfg_promotions cfg))"
    unfolding events_ok_def event_file_ok_def by blast
  show ?thesis
    by (rule that [OF d(1,2) _ read_json_canonical [OF assms(2) [unfolded d(1)] d(2)] d(5,6)])
      (use d in simp)
qed

lemma get_event_present:
  assumes "events_ok cfg st" "map_of (events st) (event_path i) = Some t"
  shows "\<not> event_is_redacted st i" "get_event st i = read_json (events st) (event_path i)"
  using assms by (auto simp: events_ok_def get_event_def)

lemma log_None_iff:
  assumes "events_ok cfg st"
  shows "log (abs_log st) i = None \<longleftrightarrow> map_of (events st) (event_path i) = None"
proof (cases "map_of (events st) (event_path i)")
  case None
  then show ?thesis by (simp add: abs_log_def get_event_def read_json_def read_file_def)
next
  case (Some t)
  from event_file_read [OF assms Some] obtain v where "read_json (events st) (event_path i) = Inr v" by metis
  with get_event_present(2) [OF assms Some] show ?thesis using Some by (simp add: abs_log_def)
qed

lemma store_event_refines:
  assumes ok: "events_ok cfg st" and wf: "wf_json (JObj c)"
  shows "abs_log (fst (store_event st c i)) = fst (alog_put i (canon (JObj c)) (abs_log st))
    \<and> map_sum id canon (snd (store_event st c i)) = snd (alog_put i (canon (JObj c)) (abs_log st))"
proof (cases rule: store_event_cases [of st i c])
  case erased
  then show ?thesis by (simp add: alog_put_def abs_log_def)
next
  case fresh
  let ?st = "st\<lparr>events := AList.update (event_path i) (canonical (JObj c)) (events st)\<rparr>"
  have none: "log (abs_log st) i = None" using log_None_iff [OF ok] fresh(2) by simp
  have "get_event ?st i = Inr (canon (JObj c))"
  proof -
    have "map_of (events ?st) (event_path i) = Some (canonical (JObj c))" by (simp add: map_of_update)
    from read_json_canonical [OF this wf] show ?thesis
      using fresh(1) by (simp add: get_event_def event_is_redacted_def del: canon.simps)
  qed
  moreover have "get_event ?st j = get_event st j" if "j \<noteq> i" for j
    using that by (simp add: get_event_def event_is_redacted_def read_json_def read_file_def map_of_update)
  ultimately have "log (abs_log ?st) = (log (abs_log st))(i \<mapsto> canon (JObj c))"
    by (auto simp: abs_log_def simp del: canon.simps)
  moreover have "erased_ids (abs_log ?st) = erased_ids (abs_log st)"
    by (simp add: abs_log_def event_is_redacted_def)
  moreover have "i \<notin> erased_ids (abs_log st)" using fresh(1) by (simp add: abs_log_def)
  ultimately show ?thesis
    using none by (simp add: fresh(3) alog_put_def del: canon.simps)
next
  case (present t)
  from event_file_read [OF ok present(2)] obtain d
    where d: "t = canonical (JObj d)" "wf_json (JObj d)"
      "read_json (events st) (event_path i) = Inr (canon (JObj d))" by metis
  have "log (abs_log st) i = Some (canon (JObj d))"
    using get_event_present(2) [OF ok present(2)] d(3) by (simp add: abs_log_def del: canon.simps)
  moreover have "i \<notin> erased_ids (abs_log st)" using present(1) by (simp add: abs_log_def)
  moreover have "canonical (canon (JObj d)) = canonical (JObj c) \<longleftrightarrow> canon (JObj d) = canon (JObj c)"
    using doc.encode_eq_iff [OF d(2) wf] by (simp only: doc.encode_norm)
  moreover have "canon (canon (JObj d)) = canon (JObj d)" using d(2) by (rule doc.norm_idem)
  ultimately show ?thesis
    by (simp add: present(3) alog_put_def d(3) del: canon.simps)
qed

lemma redact_event_refines:
  assumes ok: "events_ok cfg st" and e: "snd (redact_event cfg st i reason authority at req) = Inr r"
  shows "abs_log (fst (redact_event cfg st i reason authority at req)) = alog_erase i (abs_log st)"
proof (cases rule: redact_event_cases [of cfg st i reason authority at req])
  case unchanged
  have r: "event_is_redacted st i" by (rule unchanged(2) [OF e])
  then have "log (abs_log st) i = None"
    unfolding log_None_iff [OF ok] using ok by (simp add: events_ok_def)
  with r show ?thesis unfolding unchanged(1) alog_erase_def
    by (auto simp: abs_log_def insert_absorb fun_eq_iff)
next
  case (erased v d)
  let ?st = "st\<lparr>tombstones := AList.update (event_path i) (canonical (JObj d)) (tombstones st),
             events := unlink (events st) (event_path i)\<rparr>"
  have red: "event_is_redacted ?st j \<longleftrightarrow> j = i \<or> event_is_redacted st j" for j
    by (auto simp: event_is_redacted_def exists_path_def map_of_update)
  have "get_event ?st j = get_event st j" if "j \<noteq> i" for j
    unfolding get_event_def red using that by (simp add: read_json_def read_file_def unlink_def map_of_delete)
  moreover have "\<exists>e. get_event ?st i = Inl e" by (simp add: get_event_def red)
  ultimately have "log (abs_log ?st) = (log (abs_log st))(i := None)"
    by (auto simp: abs_log_def fun_eq_iff)
  moreover have "erased_ids (abs_log ?st) = insert i (erased_ids (abs_log st))"
    by (auto simp: abs_log_def red)
  ultimately show ?thesis unfolding erased(4) by (simp add: alog_erase_def)
qed

lemma abs_log_step:
  assumes "event_op_legal op" "events_ok cfg st"
  shows "log (abs_log st) i = Some v \<Longrightarrow> log (abs_log (event_step cfg st op)) i = Some v
      \<or> i \<in> erased_ids (abs_log (event_step cfg st op))"
    and "i \<in> erased_ids (abs_log st) \<Longrightarrow> i \<in> erased_ids (abs_log (event_step cfg st op))"
proof -
  let ?l = "abs_log st" and ?l' = "abs_log (event_step cfg st op)"
  have "?l' = ?l \<or> (\<exists>j w. ?l' = fst (alog_put j w ?l)) \<or> (\<exists>j. ?l' = alog_erase j ?l)"
  proof (cases op)
    case (CommitEvent ev u)
    show ?thesis
    proof (cases rule: commit_event_cases [of cfg st ev u])
      case refused
      then show ?thesis using CommitEvent by simp
    next
      case (stored c j)
      have "wf_json (JObj c)" using validate_event_D(1) [OF stored(1)] assms(1) CommitEvent by simp
      from store_event_refines [OF assms(2) this, of j] stored(3) CommitEvent show ?thesis by auto
    qed
  next
    case (RedactEvent j reason authority at req)
    show ?thesis
    proof (cases "snd (redact_event cfg st j reason authority at req)")
      case (Inl e)
      then have "fst (redact_event cfg st j reason authority at req) = st"
        by (cases rule: redact_event_cases [of cfg st j reason authority at req]) auto
      then show ?thesis using RedactEvent by simp
    next
      case (Inr r)
      from redact_event_refines [OF assms(2) Inr] RedactEvent show ?thesis by auto
    qed
  qed
  then show "log ?l i = Some v \<Longrightarrow> log ?l' i = Some v \<or> i \<in> erased_ids ?l'"
    and "i \<in> erased_ids ?l \<Longrightarrow> i \<in> erased_ids ?l'"
    by (auto simp: alog_put_def alog_erase_def split: if_split_asm option.splits)
qed

definition event_lookup :: "event_store \<Rightarrow> string \<Rightarrow> json option" where
  "event_lookup st i = log (abs_log st) i"

interpretation event_log: redactable_store "event_step cfg" event_op_legal "events_ok cfg" event_lookup
    event_is_redacted for cfg
proof unfold_locales
  fix op s i v
  assume a: "event_op_legal op" "events_ok cfg s"
  show "events_ok cfg (event_step cfg s op)" using a by (rule event_step_ok)
  show "event_lookup s i = Some v \<Longrightarrow> event_lookup (event_step cfg s op) i = Some v
      \<or> event_is_redacted (event_step cfg s op) i"
    using abs_log_step(1) [OF a, of i v] by (auto simp: event_lookup_def abs_log_def)
  show "event_is_redacted s i \<Longrightarrow> event_is_redacted (event_step cfg s op) i"
    using abs_log_step(2) [OF a, of i] by (simp add: abs_log_def)
next
  fix s i
  show "event_is_redacted s i \<Longrightarrow> event_lookup s i = None"
    by (simp add: event_lookup_def abs_log_def get_event_def)
qed

lemma event_lookup_Some [simp]: "event_lookup st i = Some v \<longleftrightarrow> get_event st i = Inr v"
  by (auto simp: event_lookup_def abs_log_def split: sum.splits)

text \<open>A retried commit finds the same identity.\<close>

lemma validate_event_id:
  assumes "validate_event cfg ev u = Inr c" "map_of ev ''pack_id'' = Some (JStr p)" "p \<noteq> []"
    "map_of ev ''idempotency_key'' = Some (JStr k)" "k \<noteq> []"
  shows "c = AList.update ''event_id'' (JStr (deterministic_event_id (cfg_sha cfg) p k)) ev"
  using assms by (auto simp: validate_event_def prepare_event_def Let_def split: if_split_asm)

lemma validate_event_retry:
  assumes "map_of ev ''pack_id'' = Some (JStr p)" "p \<noteq> []"
    "map_of ev ''idempotency_key'' = Some (JStr k)" "k \<noteq> []"
  shows "validate_event cfg ev u = validate_event cfg ev u'"
  using assms by (simp add: validate_event_def prepare_event_def)

lemma commit_event_Inr:
  assumes "commit_event cfg st ev u = (st', Inr v)"
  obtains c i where "validate_event cfg ev u = Inr c" "map_of c ''event_id'' = Some (JStr i)"
    "store_event st c i = (st', Inr v)"
  using assms by (cases rule: commit_event_cases [of cfg st ev u]) auto

lemma stored_then_get:
  assumes ok: "events_ok cfg st" and wf: "wf_json (JObj c)" and s: "store_event st c i = (st', Inr v)"
  shows "get_event st' i = Inr (canon (JObj c)) \<and> canon v = canon (JObj c)"
proof -
  from store_event_refines [OF ok wf, of i] s
  have a: "abs_log st' = fst (alog_put i (canon (JObj c)) (abs_log st))"
    "Inr (canon v) = snd (alog_put i (canon (JObj c)) (abs_log st))"
    by (simp_all del: canon.simps)
  then have "canon v = canon (JObj c)" "log (abs_log st') i = Some (canon (JObj c))"
    by (auto simp: alog_put_def simp del: canon.simps split: if_split_asm option.splits)
  then show ?thesis using event_lookup_Some [of st' i "canon (JObj c)"] by (simp add: event_lookup_def del: canon.simps)
qed

section \<open>Properties\<close>

definition event_run :: "event_config \<Rightarrow> event_op list \<Rightarrow> event_store" where
  "event_run cfg ops = foldl (event_step cfg) empty_events ops"

lemma event_run_ok: "list_all event_op_legal ops \<Longrightarrow> events_ok cfg (event_run cfg ops)"
  unfolding event_run_def by (rule event_log.run_inv) simp_all

lemma event_run_append: "event_run cfg (ops @ later) = foldl (event_step cfg) (event_run cfg ops) later"
  by (simp add: event_run_def)

definition demo_config :: event_config where
  "demo_config = \<lparr> cfg_sha = pad_sha, cfg_envelope = (\<lambda>_. True), cfg_payload = demo_validator,
     cfg_endpoints = Some demo_resolver, cfg_promotions = Some demo_promotions \<rparr>"

definition demo_proposal :: "string \<Rightarrow> string \<Rightarrow> dict" where
  "demo_proposal key claim =
     [(''event_type'', JStr ''claim.proposed''), (''pack_id'', JStr ''pack_project_aaaaaaaa''),
      (''recorded_at'', JStr ''2026-01-01T00:00:00Z''), (''idempotency_key'', JStr key),
      (''subject_refs'', strs [claim]), (''payload'', JObj [(''claim_text'', JStr claim)])]"

definition demo_log :: "event_op list" where
  "demo_log = [CommitEvent (demo_proposal ''k1'' ''c1'') ''u1'', CommitEvent (demo_proposal ''k2'' ''c2'') ''u2'']"

definition demo_id :: "string \<Rightarrow> string" where
  "demo_id key = deterministic_event_id pad_sha ''pack_project_aaaaaaaa'' key"

lemma demo_log_legal: "list_all event_op_legal demo_log" "wf_json (JObj (demo_proposal k c))"
  by (simp_all add: demo_log_def demo_proposal_def)


lemma demo_candidate:
  "validate_event demo_config (demo_proposal ''k3'' ''c3'') ''u3''
   = Inr (AList.update ''event_id'' (JStr (demo_id ''k3'')) (demo_proposal ''k3'' ''c3''))"
  by code_simp

lemma demo_redaction:
  "is_ok (snd (redact_event demo_config (event_run demo_config demo_log) (demo_id ''k1'') ''privacy'' ''dpo''
     ''2026-01-02T00:00:00Z'' None))"
  by code_simp


text \<open>A committed event is read back: after a successful commit in a reachable state, reading the
  event's id gives the accepted candidate, up to the order of keys, and the candidate passed the
  envelope schema and the acceptance registry.\<close>

lemma commit_then_get:
  assumes "list_all event_op_legal ops" and "wf_json (JObj ev)"
    and "commit_event cfg (event_run cfg ops) ev u = (st', Inr v)"
  shows "\<exists>candidate i. validate_event cfg ev u = Inr candidate \<and> map_of candidate ''event_id'' = Some (JStr i)
    \<and> get_event st' i = Inr (canon (JObj candidate)) \<and> canon v = canon (JObj candidate)
    \<and> cfg_envelope cfg (JObj candidate)
    \<and> is_ok (validate_event_for_commit (cfg_payload cfg) candidate (cfg_endpoints cfg) (cfg_promotions cfg))"
proof -
  from assms(3) obtain c i where c: "validate_event cfg ev u = Inr c" "map_of c ''event_id'' = Some (JStr i)"
    "store_event (event_run cfg ops) c i = (st', Inr v)" by (rule commit_event_Inr)
  note d = validate_event_D [OF c(1) assms(2)]
  from stored_then_get [OF event_run_ok [OF assms(1)] d(1) c(3)] c d show ?thesis by blast
qed

text \<open>Commits are idempotent: an event with a pack id and an idempotency key that was committed can
  be committed again, whatever random id part is drawn, with the same result and without changing
  the store; and an event that claims the same pack and key with different content never replaces
  it.\<close>

lemma commit_retry_idempotent:
  assumes "list_all event_op_legal ops" and "wf_json (JObj ev)" and "wf_json (JObj ev2)"
    and "map_of ev ''pack_id'' = Some (JStr p)" and "p \<noteq> []"
    and "map_of ev ''idempotency_key'' = Some (JStr k)" and "k \<noteq> []"
    and "map_of ev2 ''pack_id'' = Some (JStr p)" and "map_of ev2 ''idempotency_key'' = Some (JStr k)"
    and "commit_event cfg (event_run cfg ops) ev u = (st', Inr v)"
  shows "fst (commit_event cfg st' ev u') = st'
      \<and> map_sum id canon (snd (commit_event cfg st' ev u')) = Inr (canon v)
      \<and> fst (commit_event cfg st' ev2 u2) = st'"
proof -
  let ?i = "deterministic_event_id (cfg_sha cfg) p k"
  from assms(10) obtain c i where c: "validate_event cfg ev u = Inr c" "map_of c ''event_id'' = Some (JStr i)"
    "store_event (event_run cfg ops) c i = (st', Inr v)" by (rule commit_event_Inr)
  have i: "i = ?i" using validate_event_id [OF c(1) assms(4-7)] c(2) by (simp add: map_of_update)
  note d = validate_event_D [OF c(1) assms(2)]
  note g = stored_then_get [OF event_run_ok [OF assms(1)] d(1) c(3)]
  have "st' = event_step cfg (event_run cfg ops) (CommitEvent ev u)" using assms(10) by simp
  then have ok: "events_ok cfg st'"
    using event_step_ok [of "CommitEvent ev u"] event_run_ok [OF assms(1)] assms(2) by simp
  have lg: "log (abs_log st') ?i = Some (canon (JObj c))" "?i \<notin> erased_ids (abs_log st')"
    using g i event_lookup_Some [of st' ?i "canon (JObj c)"]
    by (auto simp: event_lookup_def abs_log_def get_event_def simp del: canon.simps)
  have pres: "fst (store_event st' c' ?i) = st'" for c'
  proof (cases rule: store_event_cases [of st' ?i c'])
    case fresh
    then show ?thesis using log_None_iff [OF ok, of ?i] lg(1) by (simp del: canon.simps)
  qed simp_all
  have v': "validate_event cfg ev u' = Inr c" using validate_event_retry [OF assms(4-7)] c(1) by metis
  have "commit_event cfg st' ev u' = store_event st' c ?i"
    by (cases rule: commit_event_cases [of cfg st' ev u']) (use v' c(2) i in auto)
  with pres [of c] store_event_refines [OF ok d(1), of ?i] lg g
  have "fst (commit_event cfg st' ev u') = st'
      \<and> map_sum id canon (snd (commit_event cfg st' ev u')) = Inr (canon v)"
    by (simp add: alog_put_def del: canon.simps)
  moreover have "fst (commit_event cfg st' ev2 u2) = st'"
  proof (cases rule: commit_event_cases [of cfg st' ev2 u2])
    case refused
    then show ?thesis by simp
  next
    case (stored c2 i2)
    from validate_event_id [OF stored(1) assms(8,5,9,7)] stored(2) have "i2 = ?i" by (simp add: map_of_update)
    with stored(3) pres show ?thesis by simp
  qed
  ultimately show ?thesis by blast
qed

text \<open>The log holds accepted events only: whatever a reachable log returns for an id is, up to the
  order of keys, an event with that id which conforms to the envelope schema and which the
  acceptance registry accepted.\<close>

lemma log_holds_accepted_events:
  assumes "list_all event_op_legal ops" and "get_event (event_run cfg ops) i = Inr v"
  shows "\<exists>d. v = canon (JObj d) \<and> map_of d ''event_id'' = Some (JStr i) \<and> cfg_envelope cfg (JObj d)
    \<and> is_ok (validate_event_for_commit (cfg_payload cfg) d (cfg_endpoints cfg) (cfg_promotions cfg))"
proof -
  note ok = event_run_ok [OF assms(1), of cfg]
  from assms(2) obtain t where t: "map_of (events (event_run cfg ops)) (event_path i) = Some t"
    by (auto simp: get_event_def read_json_def read_file_def split: if_split_asm)
  from event_file_read [OF ok t] obtain d where "map_of d ''event_id'' = Some (JStr i)"
    "read_json (events (event_run cfg ops)) (event_path i) = Inr (canon (JObj d))" "cfg_envelope cfg (JObj d)"
    "is_ok (validate_event_for_commit (cfg_payload cfg) d (cfg_endpoints cfg) (cfg_promotions cfg))" by metis
  with assms(2) get_event_present(2) [OF ok t] show ?thesis by (metis sum.inject(2))
qed

lemma demo_get: "is_ok (get_event (event_run demo_config demo_log) (demo_id ''k1''))"
  by code_simp

text \<open>Events are immutable: an event that a reachable log returns for an id is returned unchanged
  after any further commits and redactions, unless the id itself was redacted.\<close>

lemma events_are_immutable:
  assumes "list_all event_op_legal (ops @ later)" and "get_event (event_run cfg ops) i = Inr v"
  shows "get_event (event_run cfg (ops @ later)) i = Inr v \<or> event_is_redacted (event_run cfg (ops @ later)) i"
  using event_log.run_lookup [of later cfg "event_run cfg ops" i v] event_run_ok [of ops cfg] assms
  by (simp add: event_run_append)

text \<open>Redaction of an event is permanent: after a successful redaction no sequence of commits and
  redactions makes the id readable again, its file stays deleted, and committing an event with that
  identity is refused.\<close>

lemma event_redaction_permanent:
  assumes "list_all event_op_legal ops" and "list_all event_op_legal later"
    and "redact_event cfg (event_run cfg ops) i reason authority at req = (st, Inr tomb)"
  shows "get_event (foldl (event_step cfg) st later) i = Inl (Exn EventRedactedError ''event '')
    \<and> map_of (events (foldl (event_step cfg) st later)) (event_path i) = None
    \<and> store_event (foldl (event_step cfg) st later) candidate i
        = (foldl (event_step cfg) st later, Inl (Exn EventRedactedError ''event ''))"
proof -
  note ok = event_run_ok [OF assms(1), of cfg]
  have "st = event_step cfg (event_run cfg ops) (RedactEvent i reason authority at req)" using assms(3) by simp
  then have ok': "events_ok cfg st" using redact_event_ok [OF ok] by simp
  have "i \<in> erased_ids (abs_log st)"
    using redact_event_refines [OF ok, of i reason authority at req tomb] assms(3) by (simp add: alog_erase_def)
  then have r: "event_is_redacted (foldl (event_step cfg) st later) i"
    by (intro event_log.run_gone [OF assms(2) ok']) (simp add: abs_log_def)
  then have "map_of (events (foldl (event_step cfg) st later)) (event_path i) = None"
    using event_log.run_inv [OF assms(2) ok'] by (simp add: events_ok_def)
  with r show ?thesis by (simp add: get_event_def store_event_def)
qed

end
