(* ===== verification/Source_Store.thy ===== *)
theory Source_Store
  imports Event_Store "HOL-Library.Multiset"
begin

text \<open>
  Source snapshots, citations and redaction visibility (\<open>source.py\<close>), source lifecycle events
  (\<open>domain/provenance.py\<close>) and the redaction event (\<open>domain/evidence.py\<close>). A source store is its
  snapshot directory together with the artifact store it writes to. The two JSON schemas and
  SHA-256 are the record \<open>source_config\<close>.
\<close>

section \<open>Canonical text\<close>

text \<open>
  \<open>json.dumps\<close> with its default \<open>ensure_ascii\<close>: every character beyond ASCII is written as the
  \<open>\u\<close> escapes of its UTF-16 code units. Outside string literals the text is ASCII, so it is enough
  to rewrite the UTF-8 sequences of the text.
\<close>

definition hex4 :: "nat \<Rightarrow> string" where
  "hex4 n = [CHR 0x5C, CHR ''u'', hex_digit (n div 4096 mod 16), hex_digit (n div 256 mod 16),
     hex_digit (n div 16 mod 16), hex_digit (n mod 16)]"

definition utf16_escape :: "nat \<Rightarrow> string" where
  "utf16_escape n =
     (if n < 65536 then hex4 n
      else hex4 (55296 + (n - 65536) div 1024) @ hex4 (56320 + (n - 65536) mod 1024))"

fun ascii_escape :: "string \<Rightarrow> string" where
  "ascii_escape [] = []"
| "ascii_escape (c # cs) =
     (let a = of_char c :: nat in
      if a < 128 then c # ascii_escape cs
      else if a < 224 then
        (case cs of c1 # r \<Rightarrow> utf16_escape ((a mod 32) * 64 + of_char c1 mod 64) @ ascii_escape r
         | _ \<Rightarrow> [])
      else if a < 240 then
        (case cs of c1 # c2 # r \<Rightarrow>
           utf16_escape ((a mod 16) * 4096 + (of_char c1 mod 64) * 64 + of_char c2 mod 64) @ ascii_escape r
         | _ \<Rightarrow> [])
      else
        (case cs of c1 # c2 # c3 # r \<Rightarrow>
           utf16_escape ((a mod 8) * 262144 + (of_char c1 mod 64) * 4096 + (of_char c2 mod 64) * 64
             + of_char c3 mod 64) @ ascii_escape r
         | _ \<Rightarrow> []))"

definition ascii_dumps :: "json \<Rightarrow> string" where
  "ascii_dumps v = ascii_escape (dumps v)"

definition stable_id :: "(string \<Rightarrow> string) \<Rightarrow> string \<Rightarrow> string list \<Rightarrow> nat \<Rightarrow> string" where
  "stable_id sha prefix parts n = prefix @ ''_'' @ take n (sha (join [CHR 0x1F] parts))"

section \<open>Snapshots\<close>

record source_config =
  src_sha :: "string \<Rightarrow> string"
  snapshot_schema :: "json \<Rightarrow> bool"
  citation_schema_ok :: "json \<Rightarrow> bool"

record source_store =
  snapshots :: fs
  artifacts_of :: artifact_store

definition empty_sources :: source_store where
  "empty_sources = \<lparr> snapshots = [], artifacts_of = empty_artifacts \<rparr>"

definition normalized_locator :: "dict \<Rightarrow> dict res" where
  "normalized_locator locator =
     (let normalized = map (\<lambda>k. (k, dget locator k)) [''url'', ''identifier'', ''repository_ref''] in
      if list_ex (\<lambda>(k, v). nonblank_str v) normalized then Inr normalized
      else Inl (Exn ValueError ''source snapshot requires a non-empty URL, identifier, or repository_ref''))"

definition source_id_for_locator :: "(string \<Rightarrow> string) \<Rightarrow> dict \<Rightarrow> string res" where
  "source_id_for_locator sha locator =
     rbind (normalized_locator locator) (\<lambda>n. Inr (stable_id sha ''source'' [dumps (JObj n)] 20))"

definition snapshot_path :: "string \<Rightarrow> path" where
  "snapshot_path i = [take 2 (removeprefix ''snap_'' i), i @ ''.json'']"

definition get_snapshot :: "source_store \<Rightarrow> string \<Rightarrow> json res" where
  "get_snapshot st i = read_json (snapshots st) (snapshot_path i)"

record snapshot_request =
  req_data :: string
  req_locator :: dict
  req_retrieved_at :: string
  req_role :: string
  req_quality :: dict
  req_published_at :: "string option"
  req_version :: "dict option"
  req_derivation :: "dict option"
  req_media_type :: string
  req_source_id :: "string option"

definition dict_or_empty :: "dict option \<Rightarrow> dict" where
  "dict_or_empty d = (case d of None \<Rightarrow> [] | Some d \<Rightarrow> d)"

definition check_derivation :: "source_store \<Rightarrow> string \<Rightarrow> dict option \<Rightarrow> unit res" where
  "check_derivation st role derivation =
     (if role \<in> {''derived'', ''reconstructed''} then
        rbind (check (truthy (dget (dict_or_empty derivation) ''parent_snapshot_refs''))
                 (Exn ValueError (role @ '' snapshot requires explicit parent_snapshot_refs''))) (\<lambda>_.
        rbind (py_iter (dget (dict_or_empty derivation) ''parent_snapshot_refs'')) (\<lambda>parents.
          each (\<lambda>p. case p of
              JStr i \<Rightarrow> rbind (get_snapshot st i) (\<lambda>_. Inr ())
            | _ \<Rightarrow> Inl (Exn AttributeError ''removeprefix'')) parents))
      else check (derivation = None)
        (Exn ValueError ''primary/secondary/local snapshots must not claim derivation''))"

definition merged_version :: "dict option \<Rightarrow> dict" where
  "merged_version metadata =
     foldl (\<lambda>d (k, v). AList.update k v d)
       [(''etag'', JNull), (''last_modified'', JNull), (''version_id'', JNull), (''commit_sha'', JNull)]
       (dict_or_empty metadata)"

definition snapshot_record ::
  "(string \<Rightarrow> string) \<Rightarrow> snapshot_request \<Rightarrow> dict \<Rightarrow> string \<Rightarrow> string \<Rightarrow> json \<Rightarrow> json \<Rightarrow> dict \<times> string" where
  "snapshot_record sha r locator source_id digest artifact_id content_hash =
     (let version = merged_version (req_version r);
          i = stable_id sha ''snap'' [source_id, digest, req_retrieved_at r, ascii_dumps (JObj version)] 24
      in ([(''schema_version'', JStr ''fossil.source-snapshot.v1''),
           (''snapshot_id'', JStr i),
           (''source_id'', JStr source_id),
           (''source_role'', JStr (req_role r)),
           (''locator'', JObj locator),
           (''retrieved_at'', JStr (req_retrieved_at r)),
           (''published_at'', opt_str (req_published_at r)),
           (''artifact_id'', artifact_id),
           (''content_hash'', content_hash),
           (''version_metadata'', JObj version),
           (''quality'', JObj (req_quality r)),
           (''derivation'', if dict_or_empty (req_derivation r) = [] then JNull
                            else JObj (dict_or_empty (req_derivation r)))], i))"

definition put_snapshot :: "source_config \<Rightarrow> source_store \<Rightarrow> snapshot_request \<Rightarrow> source_store \<times> json res" where
  "put_snapshot cfg st r =
     sbind (pure_res st (rbind (normalized_locator (req_locator r)) (\<lambda>locator.
                         rbind (check_derivation st (req_role r) (req_derivation r)) (\<lambda>_. Inr locator))))
     (\<lambda>st locator.
        let (arts, put) = put_bytes (src_sha cfg) (artifacts_of st) (req_data r) (req_media_type r);
            st1 = st\<lparr>artifacts_of := arts\<rparr>
        in sbind (pure_res st1
             (rbind put (\<lambda>artifact.
              rbind (manifest_digest (JObj artifact)) (\<lambda>digest.
              rbind (case req_source_id r of
                       Some (c # cs) \<Rightarrow> Inr (c # cs)
                     | _ \<Rightarrow> source_id_for_locator (src_sha cfg) locator) (\<lambda>source_id.
              rbind (dindex artifact ''artifact_id'') (\<lambda>a.
              rbind (dindex artifact ''content_hash'') (\<lambda>h.
              let (snapshot, i) = snapshot_record (src_sha cfg) r locator source_id digest a h in
              rbind (check (snapshot_schema cfg (JObj snapshot)) (Exn ValidationError [])) (\<lambda>_.
                Inr (snapshot, i)))))))))
           (\<lambda>st1 (snapshot, i).
              let encoded = canonical (JObj snapshot);
                  (sn, fresh) = publish_immutable (snapshot_path i) encoded (snapshots st1);
                  st2 = st1\<lparr>snapshots := sn\<rparr>
              in if fresh then (st2, Inr (JObj snapshot))
                 else pure_res st2 (rbind (read_json sn (snapshot_path i)) (\<lambda>existing.
                   if canonical existing \<noteq> encoded then Inl (Exn SourceSnapshotConflict i)
                   else Inr existing))))"

definition iter_snapshots :: "source_store \<Rightarrow> json list res" where
  "iter_snapshots st = rmap (read_json (snapshots st)) (glob_json (snapshots st))"

definition snapshot_versions :: "source_store \<Rightarrow> string \<Rightarrow> json list res" where
  "snapshot_versions st source_id =
     rbind (iter_snapshots st) (\<lambda>all.
     rbind (rmap (\<lambda>s. rbind (index s ''source_id'') (\<lambda>v. Inr (s, py_eq v (JStr source_id)))) all) (\<lambda>marked.
     rbind (rmap (\<lambda>s. rbind (index s ''retrieved_at'') (\<lambda>t. rbind (key_str t) (\<lambda>t.
                     rbind (index s ''snapshot_id'') (\<lambda>i. rbind (key_str i) (\<lambda>i. Inr ([t, i], s))))))
              (map fst (filter snd marked))) (\<lambda>keyed.
       Inr (map snd (sort_key fst keyed)))))"

section \<open>Citations\<close>

definition opt_int :: "int option \<Rightarrow> json" where
  "opt_int v = (case v of None \<Rightarrow> JNull | Some i \<Rightarrow> JInt i)"

definition opt_repr :: "int option \<Rightarrow> string" where
  "opt_repr v = py_str (opt_int v)"

text \<open>\<open>data[a:b]\<close>, negative indices counted from the end.\<close>

definition slice_index :: "string \<Rightarrow> int \<Rightarrow> nat" where
  "slice_index data i = (if i < 0 then nat (int (length data) + i) else nat i)"

definition py_slice :: "string \<Rightarrow> int \<Rightarrow> int \<Rightarrow> string" where
  "py_slice data a b = drop (slice_index data a) (take (slice_index data b) data)"

definition cited_passage :: "string \<Rightarrow> int option \<Rightarrow> int option \<Rightarrow> string option res" where
  "cited_passage data byte_start byte_end =
     (case (byte_start, byte_end) of
        (None, None) \<Rightarrow> Inr None
      | (Some a, Some b) \<Rightarrow>
          if a < 0 \<or> b \<le> a \<or> b > int (length data)
          then Inl (Exn ValueError ''citation span is outside source artifact bounds'')
          else Inr (Some (py_slice data a b))
      | _ \<Rightarrow> Inl (Exn ValueError ''citation byte_start and byte_end must be supplied together''))"

definition create_citation ::
  "source_config \<Rightarrow> source_store \<Rightarrow> string \<Rightarrow> int option \<Rightarrow> int option \<Rightarrow> dict res" where
  "create_citation cfg st snapshot_id byte_start byte_end =
     rbind (get_snapshot st snapshot_id) (\<lambda>snapshot.
     rbind (index snapshot ''artifact_id'') (\<lambda>av.
     rbind (key_str av) (\<lambda>artifact_id.
     rbind (read_bytes (artifacts_of st) artifact_id) (\<lambda>data.
     rbind (cited_passage data byte_start byte_end) (\<lambda>passage.
     let digest = map_option (src_sha cfg) passage;
         citation =
           [(''schema_version'', JStr ''fossil.citation.v1''),
            (''citation_id'', JStr (stable_id (src_sha cfg) ''cite''
               [snapshot_id, artifact_id, opt_repr byte_start, opt_repr byte_end,
                case digest of Some d \<Rightarrow> d | None \<Rightarrow> ''whole-artifact''] 24)),
            (''snapshot_id'', JStr snapshot_id),
            (''artifact_id'', JStr artifact_id),
            (''byte_start'', opt_int byte_start),
            (''byte_end'', opt_int byte_end),
            (''passage_hash'', case digest of None \<Rightarrow> JNull
               | Some d \<Rightarrow> JObj [(''algorithm'', JStr ''sha256''), (''digest'', JStr d)])]
     in rbind (check (citation_schema_ok cfg (JObj citation)) (Exn ValidationError [])) (\<lambda>_.
          Inr citation))))))"

record resolved_citation =
  res_citation :: dict
  res_snapshot :: json
  res_bytes :: string
  res_text :: "string option"

definition decode_text :: "string \<Rightarrow> string option" where
  "decode_text data = (if utf8_valid data then Some data else None)"

definition passage_of :: "string \<Rightarrow> json \<Rightarrow> json \<Rightarrow> string res" where
  "passage_of data start end_value =
     (if start = JNull then Inr data
      else rbind (py_int start) (\<lambda>a. rbind (py_int end_value) (\<lambda>b. Inr (py_slice data a b))))"

definition resolve_citation ::
  "source_config \<Rightarrow> source_store \<Rightarrow> dict \<Rightarrow> string list option \<Rightarrow> resolved_citation res" where
  "resolve_citation cfg st citation allowed_source_roles =
     rbind (check (citation_schema_ok cfg (JObj citation)) (Exn ValidationError [])) (\<lambda>_.
     rbind (dindex citation ''snapshot_id'') (\<lambda>sv.
     rbind (key_str sv) (\<lambda>snapshot_id.
     rbind (get_snapshot st snapshot_id) (\<lambda>snapshot.
     rbind (index snapshot ''artifact_id'') (\<lambda>sa.
     rbind (dindex citation ''artifact_id'') (\<lambda>ca.
     rbind (check (py_eq sa ca)
              (Exn CitationIntegrityError ''citation artifact does not match the immutable source snapshot'')) (\<lambda>_.
     rbind (case allowed_source_roles of
              None \<Rightarrow> Inr ()
            | Some roles \<Rightarrow> rbind (index snapshot ''source_role'') (\<lambda>role. rbind (in_names role roles) (\<lambda>ok.
                check ok (Exn CitationLaunderingError ''source role '')))) (\<lambda>_.
     rbind (key_str ca) (\<lambda>artifact_id.
     rbind (read_bytes (artifacts_of st) artifact_id) (\<lambda>data.
     rbind (dindex citation ''byte_start'') (\<lambda>start.
     rbind (dindex citation ''byte_end'') (\<lambda>end_value.
     rbind (passage_of data start end_value) (\<lambda>passage.
     rbind (dindex citation ''passage_hash'') (\<lambda>ph.
     rbind (if ph = JNull then Inr ()
            else rbind (index ph ''digest'') (\<lambda>d.
              check (py_eq (JStr (src_sha cfg passage)) d)
                (Exn CitationIntegrityError ''citation passage hash does not match source bytes''))) (\<lambda>_.
       Inr \<lparr> res_citation = citation, res_snapshot = snapshot, res_bytes = passage,
             res_text = decode_text passage \<rparr>)))))))))))))))"

definition artifact_for_snapshot :: "source_store \<Rightarrow> string \<Rightarrow> string res" where
  "artifact_for_snapshot st i =
     rbind (get_snapshot st i) (\<lambda>s. rbind (index s ''artifact_id'') (\<lambda>a. Inr (py_str a)))"

definition snapshot_is_redacted :: "source_store \<Rightarrow> string \<Rightarrow> bool res" where
  "snapshot_is_redacted st i =
     rbind (artifact_for_snapshot st i) (\<lambda>a. Inr (artifact_is_redacted (artifacts_of st) a))"

record exported_snapshot =
  exp_snapshot :: json
  exp_content :: "string option"
  exp_redacted :: bool
  exp_redaction :: json

definition export_snapshot :: "source_store \<Rightarrow> string \<Rightarrow> exported_snapshot res" where
  "export_snapshot st i =
     rbind (get_snapshot st i) (\<lambda>snapshot.
     rbind (index snapshot ''artifact_id'') (\<lambda>av.
     rbind (key_str av) (\<lambda>a.
     if artifact_is_redacted (artifacts_of st) a
     then rbind (get_redaction (artifacts_of st) a) (\<lambda>r.
            Inr \<lparr> exp_snapshot = snapshot, exp_content = None, exp_redacted = True, exp_redaction = r \<rparr>)
     else rbind (read_bytes (artifacts_of st) a) (\<lambda>data.
            Inr \<lparr> exp_snapshot = snapshot, exp_content = Some data, exp_redacted = False,
                  exp_redaction = JNull \<rparr>))))"

section \<open>Visibility\<close>

text \<open>\<open>RedactionPolicy.event_visible\<close>: the two loops return at the first redacted reference.\<close>

fun no_redacted_artifact :: "source_store \<Rightarrow> json list \<Rightarrow> bool" where
  "no_redacted_artifact st [] = True"
| "no_redacted_artifact st (a # as) =
     (if artifact_is_redacted (artifacts_of st) (py_str a) then False else no_redacted_artifact st as)"

fun no_redacted_snapshot :: "source_store \<Rightarrow> json list \<Rightarrow> bool res" where
  "no_redacted_snapshot st [] = Inr True"
| "no_redacted_snapshot st (s # ss) =
     (case snapshot_is_redacted st (py_str s) of
        Inr True \<Rightarrow> Inr False
      | Inr False \<Rightarrow> no_redacted_snapshot st ss
      | Inl e \<Rightarrow> if exn_isa (exn_class e) FileNotFoundError then no_redacted_snapshot st ss else Inl e)"

definition event_visible :: "source_store \<Rightarrow> dict \<Rightarrow> bool res" where
  "event_visible st event =
     rbind (py_iter (dget_or event ''evidence_refs'' (JArr []))) (\<lambda>refs.
     if \<not> no_redacted_artifact st refs then Inr False
     else rbind (py_iter (dget_or event ''source_snapshot_refs'' (JArr []))) (\<lambda>snaps.
            no_redacted_snapshot st snaps))"

fun visible_events :: "source_store \<Rightarrow> dict list \<Rightarrow> dict list res" where
  "visible_events st [] = Inr []"
| "visible_events st (e # es) =
     rbind (event_visible st e) (\<lambda>v. rbind (visible_events st es) (\<lambda>vs. Inr (if v then e # vs else vs)))"

definition export_event :: "source_store \<Rightarrow> dict \<Rightarrow> dict option res" where
  "export_event st event = rbind (event_visible st event) (\<lambda>v. Inr (if v then Some event else None))"

section \<open>Source lifecycle\<close>

definition SOURCE_EVENTS :: "(string \<times> string) list" where
  "SOURCE_EVENTS = [(''source.stale'', ''stale''), (''source.retracted'', ''retracted''), (''source.restored'', ''active'')]"

record source_status =
  stat_snapshot :: string
  stat_state :: string
  stat_reason :: json
  stat_event :: string

definition source_sort_key :: "dict \<Rightarrow> (string list \<times> dict) res" where
  "source_sort_key event =
     rbind (dindex event ''recorded_at'') (\<lambda>t. rbind (dindex event ''event_id'') (\<lambda>i.
       Inr ([py_str t, py_str i], event)))"

definition apply_source_event ::
  "(string \<times> source_status) list \<Rightarrow> dict \<Rightarrow> (string \<times> source_status) list res" where
  "apply_source_event statuses event =
     rbind (dindex event ''payload'') (\<lambda>payload.
     rbind (index payload ''snapshot_id'') (\<lambda>sv.
     rbind (dindex event ''event_type'') (\<lambda>kind.
     rbind (of_option (Exn KeyError (py_str kind)) (map_of SOURCE_EVENTS (py_str kind))) (\<lambda>state.
     rbind (get_attr payload ''reason'' JNull) (\<lambda>reason.
     rbind (dindex event ''event_id'') (\<lambda>i.
       Inr (AList.update (py_str sv)
         \<lparr> stat_snapshot = py_str sv, stat_state = state, stat_reason = reason, stat_event = py_str i \<rparr>
         statuses)))))))"

definition is_source_event :: "dict \<Rightarrow> bool res" where
  "is_source_event event = in_names (dget event ''event_type'') (map fst SOURCE_EVENTS)"

definition replay_sources :: "dict list \<Rightarrow> (string \<times> source_status) list res" where
  "replay_sources evs =
     rbind (rmap (\<lambda>e. rbind (is_source_event e) (\<lambda>b. Inr (e, b))) evs) (\<lambda>marked.
     rbind (rmap source_sort_key (map fst (filter snd marked))) (\<lambda>keyed.
       rfold apply_source_event [] (map snd (sort_key fst keyed))))"

definition source_state :: "(string \<times> source_status) list \<Rightarrow> string \<Rightarrow> string" where
  "source_state statuses i = (case map_of statuses i of None \<Rightarrow> ''active'' | Some s \<Rightarrow> stat_state s)"

definition build_source_state_event ::
  "string \<Rightarrow> string \<Rightarrow> string \<Rightarrow> string \<Rightarrow> dict \<Rightarrow> string \<Rightarrow> string \<Rightarrow> string \<Rightarrow> string \<Rightarrow> dict res" where
  "build_source_state_event kind snapshot_id source_id pack_id actor occurred_at recorded_at idempotency_key reason =
     rbind (check (kind \<in> set (map fst SOURCE_EVENTS)) (Exn ValueError ''unsupported source lifecycle event: '')) (\<lambda>_.
       Inr [(''schema_version'', JStr ''dkg.event.v1''),
            (''event_type'', JStr kind),
            (''occurred_at'', JStr occurred_at),
            (''recorded_at'', JStr recorded_at),
            (''pack_id'', JStr pack_id),
            (''actor'', JObj actor),
            (''subject_refs'', strs [snapshot_id, source_id]),
            (''idempotency_key'', JStr idempotency_key),
            (''source_snapshot_refs'', strs [snapshot_id]),
            (''payload'', JObj [(''snapshot_id'', JStr snapshot_id), (''source_id'', JStr source_id),
                                (''reason'', JStr reason)]),
            (''provenance'', JObj [(''method'', JStr ''source_lifecycle'')])])"

definition build_redaction_event ::
  "dict \<Rightarrow> string \<Rightarrow> dict \<Rightarrow> string \<Rightarrow> string \<Rightarrow> string \<Rightarrow> string list \<Rightarrow> dict res" where
  "build_redaction_event tombstone pack_id actor occurred_at recorded_at idempotency_key snapshot_ids =
     rbind (dindex tombstone ''artifact_id'') (\<lambda>a.
     rbind (dindex tombstone ''reason'') (\<lambda>reason.
     rbind (dindex tombstone ''authority'') (\<lambda>authority.
     rbind (dindex tombstone ''redacted_at'') (\<lambda>at.
       Inr [(''schema_version'', JStr ''dkg.event.v1''),
            (''event_type'', JStr ''evidence.redacted''),
            (''occurred_at'', JStr occurred_at),
            (''recorded_at'', JStr recorded_at),
            (''pack_id'', JStr pack_id),
            (''actor'', JObj actor),
            (''subject_refs'', strs (py_str a # snapshot_ids)),
            (''idempotency_key'', JStr idempotency_key),
            (''payload'', JObj
               [(''artifact_id'', a), (''snapshot_ids'', strs snapshot_ids), (''reason'', reason),
                (''authority'', authority), (''request_ref'', dget tombstone ''request_ref''),
                (''redacted_at'', at)]),
            (''provenance'', JObj [(''method'', JStr ''artifact_redaction_tombstone'')])]))))"

section \<open>Citations resolve\<close>

text \<open>
  \<open>cites data a b p\<close>: the passage \<open>p\<close> is the span of \<open>data\<close> from \<open>a\<close> to \<open>b\<close>, or all of \<open>data\<close> when
  no span is given. \<open>role_allowed\<close>: the snapshot has one of the required source roles.
\<close>

definition cites :: "string \<Rightarrow> int option \<Rightarrow> int option \<Rightarrow> string \<Rightarrow> bool" where
  "cites data a b p \<longleftrightarrow> (case (a, b) of
      (Some x, Some y) \<Rightarrow> 0 \<le> x \<and> x < y \<and> y \<le> int (length data) \<and> p = drop (nat x) (take (nat y) data)
    | _ \<Rightarrow> p = data)"

definition role_allowed :: "string list option \<Rightarrow> json \<Rightarrow> bool" where
  "role_allowed roles snapshot \<longleftrightarrow> roles = None
     \<or> (\<exists>rs role. roles = Some rs \<and> index snapshot ''source_role'' = Inr (JStr role) \<and> role \<in> set rs)"

lemma slice_index_nonneg [simp]: "0 \<le> i \<Longrightarrow> slice_index data i = nat i"
  by (simp add: slice_index_def)

lemma cited_passage_Inr:
  assumes "cited_passage data a b = Inr p"
  shows "passage_of data (opt_int a) (opt_int b) = Inr (case p of None \<Rightarrow> data | Some x \<Rightarrow> x)
    \<and> (p = None \<longleftrightarrow> a = None)"
  using assms
  by (auto simp: cited_passage_def passage_of_def opt_int_def py_int_def split: option.splits if_split_asm)

lemma cited_passage_span:
  assumes "cited_passage data a b = Inr (Some p)"
  shows "\<exists>i j. a = Some (int i) \<and> b = Some (int j) \<and> i < j \<and> j \<le> length data \<and> p = drop i (take j data)"
proof -
  from assms obtain x y where xy: "a = Some x" "b = Some y" "0 \<le> x" "x < y" "y \<le> int (length data)"
    "p = py_slice data x y"
    by (auto simp: cited_passage_def split: option.splits if_split_asm)
  then show ?thesis
    by (intro exI [of _ "nat x"] exI [of _ "nat y"]) (auto simp: py_slice_def)
qed

lemma create_citation_D:
  assumes "create_citation cfg st i a b = Inr cit"
  obtains snapshot art data passage where "get_snapshot st i = Inr snapshot"
    "index snapshot ''artifact_id'' = Inr (JStr art)" "read_bytes (artifacts_of st) art = Inr data"
    "cited_passage data a b = Inr passage" "citation_schema_ok cfg (JObj cit)"
    "map_of cit ''snapshot_id'' = Some (JStr i)" "map_of cit ''artifact_id'' = Some (JStr art)"
    "map_of cit ''byte_start'' = Some (opt_int a)" "map_of cit ''byte_end'' = Some (opt_int b)"
    "map_of cit ''passage_hash'' = Some (case passage of None \<Rightarrow> JNull
       | Some p \<Rightarrow> JObj [(''algorithm'', JStr ''sha256''), (''digest'', JStr (src_sha cfg p))])"
proof -
  from assms obtain snapshot av art data passage where f: "get_snapshot st i = Inr snapshot"
    "index snapshot ''artifact_id'' = Inr av" "key_str av = Inr art" "read_bytes (artifacts_of st) art = Inr data"
    "cited_passage data a b = Inr passage"
    unfolding create_citation_def rbind_Inr_iff by blast
  from f(3) have av: "av = JStr art" by simp
  note c = assms [unfolded create_citation_def f rbind.simps Let_def]
  show ?thesis
    by (rule that [OF f(1) f(2) [unfolded av] f(4,5)]) (use c in \<open>auto split: option.splits\<close>)
qed

lemma resolve_created:
  assumes c: "create_citation cfg st i a b = Inr cit"
    and roles: "\<And>s. get_snapshot st i = Inr s \<Longrightarrow> role_allowed roles s"
  shows "\<exists>snapshot art data r. get_snapshot st i = Inr snapshot \<and> index snapshot ''artifact_id'' = Inr (JStr art)
    \<and> read_bytes (artifacts_of st) art = Inr data \<and> resolve_citation cfg st cit roles = Inr r
    \<and> res_snapshot r = snapshot \<and> res_citation r = cit
    \<and> cites data a b (res_bytes r)"
proof -
  from c obtain snapshot art data passage where f: "get_snapshot st i = Inr snapshot"
    "index snapshot ''artifact_id'' = Inr (JStr art)" "read_bytes (artifacts_of st) art = Inr data"
    "cited_passage data a b = Inr passage" "citation_schema_ok cfg (JObj cit)"
    "map_of cit ''snapshot_id'' = Some (JStr i)" "map_of cit ''artifact_id'' = Some (JStr art)"
    "map_of cit ''byte_start'' = Some (opt_int a)" "map_of cit ''byte_end'' = Some (opt_int b)"
    "map_of cit ''passage_hash'' = Some (case passage of None \<Rightarrow> JNull
       | Some p \<Rightarrow> JObj [(''algorithm'', JStr ''sha256''), (''digest'', JStr (src_sha cfg p))])"
    by (rule create_citation_D)
  let ?p = "case passage of None \<Rightarrow> data | Some x \<Rightarrow> x"
  have role: "(case roles of None \<Rightarrow> Inr ()
            | Some roles \<Rightarrow> rbind (index snapshot ''source_role'') (\<lambda>role. rbind (in_names role roles) (\<lambda>ok.
                check ok (Exn CitationLaunderingError ''source role '')))) = Inr ()"
    using roles [OF f(1)] by (auto simp: role_allowed_def)
  have r: "resolve_citation cfg st cit roles = Inr \<lparr> res_citation = cit, res_snapshot = snapshot,
      res_bytes = ?p, res_text = decode_text ?p \<rparr>"
    unfolding resolve_citation_def
    using f(1-3,5-10) role conjunct1 [OF cited_passage_Inr [OF f(4)]]
    by (cases passage) simp_all
  have "cites data a b ?p"
    using f(4) cited_passage_span [of data a b] cited_passage_Inr [OF f(4)]
    by (cases passage) (auto simp: cites_def cited_passage_def split: option.splits if_split_asm)
  then show ?thesis using f r by auto
qed

lemma resolve_citation_D:
  assumes "resolve_citation cfg st cit roles = Inr r"
  shows "\<exists>i snapshot art data start stop hash. map_of cit ''snapshot_id'' = Some (JStr i)
     \<and> get_snapshot st i = Inr snapshot \<and> res_snapshot r = snapshot
     \<and> index snapshot ''artifact_id'' = Inr (JStr art) \<and> map_of cit ''artifact_id'' = Some (JStr art)
     \<and> read_bytes (artifacts_of st) art = Inr data
     \<and> map_of cit ''byte_start'' = Some start \<and> map_of cit ''byte_end'' = Some stop
     \<and> passage_of data start stop = Inr (res_bytes r)
     \<and> map_of cit ''passage_hash'' = Some hash
     \<and> (hash = JNull \<or> index hash ''digest'' = Inr (JStr (src_sha cfg (res_bytes r))))
     \<and> role_allowed roles snapshot"
proof -
  from assms obtain sv i snapshot sa ca art data start stop passage hash where f:
    "dindex cit ''snapshot_id'' = Inr sv" "key_str sv = Inr i" "get_snapshot st i = Inr snapshot"
    "index snapshot ''artifact_id'' = Inr sa" "dindex cit ''artifact_id'' = Inr ca" "py_eq sa ca"
    "(case roles of None \<Rightarrow> Inr ()
            | Some roles \<Rightarrow> rbind (index snapshot ''source_role'') (\<lambda>role. rbind (in_names role roles) (\<lambda>ok.
                check ok (Exn CitationLaunderingError ''source role '')))) = Inr ()"
    "key_str ca = Inr art" "read_bytes (artifacts_of st) art = Inr data"
    "dindex cit ''byte_start'' = Inr start" "dindex cit ''byte_end'' = Inr stop"
    "passage_of data start stop = Inr passage" "dindex cit ''passage_hash'' = Inr hash"
    "(if hash = JNull then Inr ()
            else rbind (index hash ''digest'') (\<lambda>d.
              check (py_eq (JStr (src_sha cfg passage)) d)
                (Exn CitationIntegrityError ''citation passage hash does not match source bytes''))) = Inr ()"
    "\<lparr> res_citation = cit, res_snapshot = snapshot, res_bytes = passage, res_text = decode_text passage \<rparr> = r"
    unfolding resolve_citation_def rbind_Inr_iff check_Inr_iff Inr_inject by (elim exE conjE) (rule that, simp_all)
  from f(6,8) have j: "sa = JStr art" "ca = JStr art" by simp_all
  from f(15) have r: "res_snapshot r = snapshot" "res_bytes r = passage" by auto
  show ?thesis
  proof (intro exI conjI)
    show "map_of cit ''snapshot_id'' = Some (JStr i)" using f(1,2) by simp
    show "get_snapshot st i = Inr snapshot" by (rule f(3))
    show "res_snapshot r = snapshot" by (rule r(1))
    show "index snapshot ''artifact_id'' = Inr (JStr art)" using f(4) j(1) by simp
    show "map_of cit ''artifact_id'' = Some (JStr art)" using f(5) j(2) by simp
    show "read_bytes (artifacts_of st) art = Inr data" by (rule f(9))
    show "map_of cit ''byte_start'' = Some start" using f(10) by simp
    show "map_of cit ''byte_end'' = Some stop" using f(11) by simp
    show "passage_of data start stop = Inr (res_bytes r)" using f(12) r(2) by simp
    show "map_of cit ''passage_hash'' = Some hash" using f(13) by simp
    show "hash = JNull \<or> index hash ''digest'' = Inr (JStr (src_sha cfg (res_bytes r)))"
      using f(14) by (auto simp: r(2) split: if_split_asm)
    show "role_allowed roles snapshot" using f(7) by (auto simp: role_allowed_def split: option.splits)
  qed
qed

section \<open>Visibility\<close>

lemma no_redacted_artifact_iff:
  "no_redacted_artifact st as \<longleftrightarrow> (\<forall>a \<in> set as. \<not> artifact_is_redacted (artifacts_of st) (py_str a))"
  by (induction as) auto

lemma no_redacted_snapshot_True:
  "no_redacted_snapshot st ss = Inr True \<Longrightarrow> s \<in> set ss \<Longrightarrow> snapshot_is_redacted st (py_str s) \<noteq> Inr True"
  by (induction ss) (auto split: sum.splits bool.splits if_split_asm)

lemma event_visible_True:
  assumes "event_visible st e = Inr True"
  shows "\<exists>refs snaps. py_iter (dget_or e ''evidence_refs'' (JArr [])) = Inr refs
     \<and> py_iter (dget_or e ''source_snapshot_refs'' (JArr [])) = Inr snaps
     \<and> (\<forall>a \<in> set refs. \<not> artifact_is_redacted (artifacts_of st) (py_str a))
     \<and> (\<forall>s \<in> set snaps. snapshot_is_redacted st (py_str s) \<noteq> Inr True)"
  using assms no_redacted_snapshot_True
  by (auto simp: event_visible_def no_redacted_artifact_iff split: if_split_asm)

lemma visible_events_iff:
  "visible_events st es = Inr vs \<longleftrightarrow>
     (\<forall>e \<in> set es. is_ok (event_visible st e)) \<and> vs = filter (\<lambda>e. event_visible st e = Inr True) es"
proof (induction es arbitrary: vs)
  case (Cons e es)
  show ?case by (cases "event_visible st e") (auto simp: Cons.IH)
qed auto

section \<open>Source lifecycle\<close>

lemma rmap_perm:
  assumes "mset xs = mset ys" and "rmap f xs = Inr zs"
  shows "\<exists>ws. rmap f ys = Inr ws \<and> mset ws = mset zs"
proof -
  have ok: "\<forall>x \<in> set xs. \<exists>y. f x = Inr y"
  proof
    fix x assume "x \<in> set xs"
    then obtain i where "i < length xs" "xs ! i = x" by (auto simp: in_set_conv_nth)
    with assms(2) show "\<exists>y. f x = Inr y" by (auto simp: rmap_Inr_iff)
  qed
  define g where "g x = (case f x of Inr y \<Rightarrow> y | Inl _ \<Rightarrow> undefined)" for x
  have fg: "f x = Inr (g x)" if "x \<in> set xs" for x using ok that by (auto simp: g_def)
  have "zs = map g xs" using rmap_cong_pure [of xs f g] fg assms(2) by simp
  moreover have "rmap f ys = Inr (map g ys)"
    using fg assms(1) by (intro rmap_cong_pure) (metis mset_eq_setD)
  ultimately show ?thesis using assms(1) by simp
qed

lemma filter_key_singleton:
  "distinct (map f zs) \<Longrightarrow> k \<in> set zs \<Longrightarrow> filter (\<lambda>x. f k = f x) zs = [k]"
proof (induction zs)
  case (Cons z zs)
  show ?case
  proof (cases "k = z")
    case True
    with Cons.prems(1) have "\<forall>x \<in> set zs. f k \<noteq> f x" by auto
    then have "filter (\<lambda>x. f k = f x) zs = []" by (simp add: filter_empty_conv)
    with True show ?thesis by simp
  next
    case False
    with Cons have "k \<in> set zs" by simp
    then have "f k \<noteq> f z" using Cons.prems(1) by (metis distinct.simps(2) image_eqI list.simps(9) set_map)
    with False Cons show ?thesis by simp
  qed
qed simp

lemma sort_key_perm:
  assumes "mset xs = mset ys" and "distinct (map f xs)"
  shows "sort_key f xs = sort_key f ys"
proof -
  have d: "distinct (map f ys)"
    using assms by (metis mset_eq_imp_distinct_iff mset_map)
  have d': "distinct (map f (sort_key f xs))"
    using assms(2) by (metis mset_eq_imp_distinct_iff mset_map mset_sort)
  have "sort_key f ys = sort_key f xs"
  proof (rule properties_for_sort_key)
    show "mset (sort_key f xs) = mset ys" using assms(1) by simp
    show "filter (\<lambda>x. f k = f x) (sort_key f xs) = filter (\<lambda>x. f k = f x) ys" if "k \<in> set (sort_key f xs)" for k
      using filter_key_singleton [OF d' that] filter_key_singleton [OF d, of k] that assms(1)
      by (metis set_mset_mset set_sort)
  qed simp
  then show ?thesis ..
qed

definition event_key :: "dict \<Rightarrow> string list" where
  "event_key e = [py_str (dget e ''recorded_at''), py_str (dget e ''event_id'')]"

lemma rmap_pairs:
  assumes "rmap f xs = Inr ps" and "\<And>x p. f x = Inr p \<Longrightarrow> p = (g x, h x)"
  shows "ps = map (\<lambda>x. (g x, h x)) xs"
  using assms by (induction xs arbitrary: ps) auto

lemma replay_sources_perm:
  assumes m: "mset xs = mset ys" and d: "distinct (map event_key xs)" and r: "replay_sources xs = Inr st"
  shows "replay_sources ys = Inr st"
proof -
  let ?mark = "\<lambda>e. rbind (is_source_event e) (\<lambda>b. Inr (e, b))"
  from r obtain marked keyed where f: "rmap ?mark xs = Inr marked"
    "rmap source_sort_key (map fst (filter snd marked)) = Inr keyed"
    "rfold apply_source_event [] (map snd (sort_key fst keyed)) = Inr st"
    unfolding replay_sources_def rbind_Inr_iff by blast
  from rmap_perm [OF m f(1)] obtain marked' where m1: "rmap ?mark ys = Inr marked'" "mset marked' = mset marked"
    by blast
  have "mset (map fst (filter snd marked)) = mset (map fst (filter snd marked'))" using m1(2) by simp
  from rmap_perm [OF this f(2)] obtain keyed' where m2:
    "rmap source_sort_key (map fst (filter snd marked')) = Inr keyed'" "mset keyed' = mset keyed" by blast
  have k: "keyed = map (\<lambda>e. (event_key e, e)) (map fst (filter snd marked))"
    by (rule rmap_pairs [OF f(2)]) (auto simp: source_sort_key_def event_key_def dget_def)
  have mk: "marked = map (\<lambda>e. (e, is_source_event e = Inr True)) xs"
    by (rule rmap_pairs [OF f(1)]) auto
  have "distinct (map fst keyed)"
  proof -
    have "map fst keyed = map event_key (filter (\<lambda>e. is_source_event e = Inr True) xs)"
      unfolding k mk by (simp add: filter_map comp_def)
    then show ?thesis using d by (simp add: distinct_map_filter)
  qed
  then have "sort_key fst keyed = sort_key fst keyed'" by (rule sort_key_perm [OF m2(2) [symmetric]])
  then show ?thesis unfolding replay_sources_def by (simp only: m1(1) m2(1) f(3) [symmetric] rbind.simps)
qed

section \<open>Properties\<close>

definition demo_source_config :: source_config where
  "demo_source_config = \<lparr> src_sha = pad_sha, snapshot_schema = is_obj, citation_schema_ok = is_obj \<rparr>"

definition demo_snapshot_id :: string where
  "demo_snapshot_id = ''snap_7''"

definition demo_sources :: source_store where
  "demo_sources = \<lparr> snapshots = [(snapshot_path demo_snapshot_id,
       canonical (JObj [(''artifact_id'', JStr (artifact_id_for_digest (pad_sha ''hello world''))),
                        (''source_role'', JStr ''primary'')]))],
     artifacts_of = fst (put_bytes pad_sha empty_artifacts ''hello world'' ''text/plain'') \<rparr>"

text \<open>C12. Citations resolve to what they cite: a citation that \<open>create_citation\<close> returns resolves, in
  the same store and for any set of source roles that admits the snapshot, to the snapshot it was
  made from and to exactly the cited byte span of the artifact, or all of it when no span was
  given; spans are never empty, negative or beyond the end.\<close>

theorem citations_round_trip:
  assumes "create_citation cfg st i a b = Inr cit"
    and "\<And>s. get_snapshot st i = Inr s \<Longrightarrow> role_allowed roles s"
  shows "\<exists>snapshot art data r. get_snapshot st i = Inr snapshot \<and> index snapshot ''artifact_id'' = Inr (JStr art)
    \<and> read_bytes (artifacts_of st) art = Inr data \<and> resolve_citation cfg st cit roles = Inr r
    \<and> res_snapshot r = snapshot \<and> res_citation r = cit \<and> cites data a b (res_bytes r)"
  using assms by (rule resolve_created)

lemma demo_citation: "is_ok (create_citation demo_source_config demo_sources demo_snapshot_id (Some 6) (Some 11))"
  by code_simp

theorem citations_round_trip_witness:
  "\<exists>cit r. create_citation demo_source_config demo_sources demo_snapshot_id (Some 6) (Some 11) = Inr cit
     \<and> resolve_citation demo_source_config demo_sources cit None = Inr r"
proof -
  from demo_citation obtain cit
    where c: "create_citation demo_source_config demo_sources demo_snapshot_id (Some 6) (Some 11) = Inr cit"
    unfolding is_ok_iff by (elim exE)
  have "role_allowed None s" for s by (simp add: role_allowed_def)
  from citations_round_trip [OF c this] c show ?thesis by blast
qed

text \<open>C13. Resolved citations are authentic: whatever resolves names the artifact of its snapshot, its
  bytes come from that artifact, which is not redacted, they hash to the recorded passage hash if
  there is one, and the snapshot has one of the required source roles, so a derived or
  reconstructed source cannot stand in for a primary one.\<close>

theorem citations_are_authentic:
  assumes "resolve_citation cfg st cit roles = Inr r"
  shows "\<exists>i art data start stop hash. map_of cit ''snapshot_id'' = Some (JStr i)
     \<and> get_snapshot st i = Inr (res_snapshot r) \<and> index (res_snapshot r) ''artifact_id'' = Inr (JStr art)
     \<and> map_of cit ''artifact_id'' = Some (JStr art) \<and> \<not> artifact_is_redacted (artifacts_of st) art
     \<and> read_bytes (artifacts_of st) art = Inr data
     \<and> map_of cit ''byte_start'' = Some start \<and> map_of cit ''byte_end'' = Some stop
     \<and> passage_of data start stop = Inr (res_bytes r)
     \<and> map_of cit ''passage_hash'' = Some hash
     \<and> (hash = JNull \<or> index hash ''digest'' = Inr (JStr (src_sha cfg (res_bytes r))))
     \<and> role_allowed roles (res_snapshot r)"
proof -
  have live: "\<not> artifact_is_redacted st a" if "read_bytes st a = Inr d" for st a d
    using that by (auto simp: read_bytes_def split: if_split_asm)
  show ?thesis using resolve_citation_D [OF assms] live by metis
qed

definition demo_cit :: dict where
  "demo_cit = (case create_citation demo_source_config demo_sources demo_snapshot_id (Some 6) (Some 11) of
     Inr c \<Rightarrow> c | _ \<Rightarrow> [])"

lemma demo_resolved: "is_ok (resolve_citation demo_source_config demo_sources demo_cit (Some [''primary'']))"
  by code_simp

theorem citations_are_authentic_witness:
  "\<exists>r. resolve_citation demo_source_config demo_sources demo_cit (Some [''primary'']) = Inr r
     \<and> role_allowed (Some [''primary'']) (res_snapshot r)"
proof -
  from demo_resolved obtain r
    where r: "resolve_citation demo_source_config demo_sources demo_cit (Some [''primary'']) = Inr r"
    unfolding is_ok_iff by (elim exE)
  from citations_are_authentic [OF r] r show ?thesis by blast
qed

text \<open>Exports hide redacted evidence: the events that the redaction policy lets through are, in their
  order, exactly the events it judges visible, and none of them refers to a redacted artifact or
  to a snapshot of one.\<close>

lemma visible_events_exclude_redacted:
  assumes "visible_events st evs = Inr vs"
  shows "vs = filter (\<lambda>e. event_visible st e = Inr True) evs
    \<and> (\<forall>e \<in> set vs. \<exists>refs snaps. py_iter (dget_or e ''evidence_refs'' (JArr [])) = Inr refs
         \<and> py_iter (dget_or e ''source_snapshot_refs'' (JArr [])) = Inr snaps
         \<and> (\<forall>a \<in> set refs. \<not> artifact_is_redacted (artifacts_of st) (py_str a))
         \<and> (\<forall>s \<in> set snaps. snapshot_is_redacted st (py_str s) \<noteq> Inr True))"
  using assms event_visible_True by (auto simp: visible_events_iff)

text \<open>Source status does not depend on the order in which events are read: replaying any
  permutation of events with distinct (recorded_at, event_id) pairs gives the same statuses.\<close>

lemma source_replay_order_independent:
  assumes "mset xs = mset ys" and "distinct (map event_key xs)" and "replay_sources xs = Inr st"
  shows "replay_sources ys = Inr st"
  using assms by (rule replay_sources_perm)

end
