(* ===== verification/Conversation.thy ===== *)
theory Conversation
  imports Source_Store
begin

text \<open>
  Conversation envelopes over immutable source artifacts and the queries over their lineage
  (\<open>conversation.py\<close>). A conversation store is its envelope directory together with the artifact
  store; the two JSON schemas and SHA-256 are the record \<open>conversation_config\<close>. A lineage holds its
  nodes by id and its edges as quadruples of strings.
\<close>

section \<open>The store\<close>

record conversation_config =
  conv_sha :: "string \<Rightarrow> string"
  conv_schema :: "json \<Rightarrow> bool"
  lineage_schema :: "json \<Rightarrow> bool"

record conversation_store =
  envelopes :: fs
  conv_artifacts :: artifact_store

definition conversation_path :: "string \<Rightarrow> path" where
  "conversation_path i = [take 2 (removeprefix ''conv_'' i), i @ ''.json'']"

definition opt_or_empty :: "string option \<Rightarrow> string" where
  "opt_or_empty r = (case r of None \<Rightarrow> [] | Some s \<Rightarrow> s)"

definition add_source ::
  "conversation_config \<Rightarrow> conversation_store \<Rightarrow> string \<Rightarrow> string \<Rightarrow> string \<Rightarrow> string \<Rightarrow> string option
   \<Rightarrow> conversation_store \<times> dict res" where
  "add_source cfg st data status media_type label external_ref =
     (if status \<notin> {''verbatim'', ''reconstructed''}
      then (st, Inl (Exn ValueError ''source evidence_status must be verbatim or reconstructed''))
      else let (arts, put) = put_bytes (conv_sha cfg) (conv_artifacts st) data media_type
           in pure_res (st\<lparr>conv_artifacts := arts\<rparr>)
             (rbind put (\<lambda>manifest.
              rbind (dindex manifest ''artifact_id'') (\<lambda>av.
              rbind (key_str av) (\<lambda>a.
                Inr [(''source_id'', JStr (stable_id (conv_sha cfg) ''src''
                        [a, status, label, opt_or_empty external_ref] 20)),
                     (''artifact_id'', av),
                     (''evidence_status'', JStr status),
                     (''label'', JStr label),
                     (''media_type'', JStr media_type),
                     (''external_ref'', opt_str external_ref)])))))"

text \<open>\<open>data.find(target, cursor)\<close>: the first occurrence at or after the cursor, or \<open>-1\<close>.\<close>

fun find_from :: "string \<Rightarrow> string \<Rightarrow> nat \<Rightarrow> int" where
  "find_from data target pos =
     (if starts_with target data then int pos
      else case data of [] \<Rightarrow> -1 | _ # ds \<Rightarrow> find_from ds target (Suc pos))"

definition find_bytes :: "string \<Rightarrow> string \<Rightarrow> nat \<Rightarrow> int" where
  "find_bytes data target cursor =
     (if length data < cursor then -1 else find_from (drop cursor data) target cursor)"

fun find_occurrence :: "string \<Rightarrow> string \<Rightarrow> nat \<Rightarrow> nat \<Rightarrow> nat res" where
  "find_occurrence data target cursor n =
     (let start = find_bytes data target cursor in
      if start < 0 then Inl (Exn ValueError ''source text not found: '')
      else case n of 0 \<Rightarrow> Inr (nat start)
        | Suc m \<Rightarrow> find_occurrence data target (nat start + length target) m)"

definition span_for_text ::
  "conversation_config \<Rightarrow> conversation_store \<Rightarrow> dict \<Rightarrow> string \<Rightarrow> int \<Rightarrow> string option \<Rightarrow> dict res" where
  "span_for_text cfg st source needle occurrence evidence_status =
     (if occurrence < 0 then Inl (Exn ValueError ''occurrence must be non-negative'')
      else rbind (dindex source ''artifact_id'') (\<lambda>a.
      rbind (read_bytes (conv_artifacts st) (py_str a)) (\<lambda>data.
      rbind (find_occurrence data needle 0 (nat occurrence)) (\<lambda>start.
      rbind (case evidence_status of Some (c # cs) \<Rightarrow> Inr (c # cs)
             | _ \<Rightarrow> rbind (dindex source ''evidence_status'') (\<lambda>s. Inr (py_str s))) (\<lambda>status.
      rbind (dindex source ''source_id'') (\<lambda>sid.
        let stop = start + length needle in
        Inr [(''span_id'', JStr (stable_id (conv_sha cfg) ''span''
                [py_str sid, show_nat start, show_nat stop, status] 20)),
             (''source_id'', sid),
             (''byte_start'', JInt (int start)),
             (''byte_end'', JInt (int stop)),
             (''evidence_status'', JStr status)]))))))"

section \<open>Spans\<close>

text \<open>The items of a list field of an envelope, and \<open>next((x for x in xs if x[k] == v), None)\<close>.\<close>

definition items :: "dict \<Rightarrow> string \<Rightarrow> json list res" where
  "items envelope k = rbind (dindex envelope k) py_iter"

fun find_item :: "string \<Rightarrow> json \<Rightarrow> json list \<Rightarrow> json option res" where
  "find_item k v [] = Inr None"
| "find_item k v (x # xs) = rbind (index x k) (\<lambda>w. if py_eq w v then Inr (Some x) else find_item k v xs)"

definition str_field :: "json \<Rightarrow> string \<Rightarrow> string res" where
  "str_field v k = rbind (index v k) key_str"

definition int_field :: "json \<Rightarrow> string \<Rightarrow> int res" where
  "int_field v k = rbind (index v k) py_int"

definition span_bounds :: "string \<Rightarrow> json \<Rightarrow> (nat \<times> nat) res" where
  "span_bounds data span =
     rbind (int_field span ''byte_start'') (\<lambda>start. rbind (int_field span ''byte_end'') (\<lambda>stop.
     if start < 0 \<or> stop \<le> start \<or> int (length data) < stop
     then Inl (Exn ConversationProvenanceError ''span '')
     else Inr (nat start, nat stop)))"

definition resolve_span_bytes :: "conversation_store \<Rightarrow> dict \<Rightarrow> string \<Rightarrow> string res" where
  "resolve_span_bytes st envelope span_id =
     rbind (items envelope ''spans'') (\<lambda>spans.
     rbind (find_item ''span_id'' (JStr span_id) spans) (\<lambda>found.
     rbind (of_option (Exn KeyError span_id) found) (\<lambda>span.
     rbind (items envelope ''sources'') (\<lambda>sources.
     rbind (index span ''source_id'') (\<lambda>sid.
     rbind (find_item ''source_id'' sid sources) (\<lambda>found.
     rbind (of_option (Exn ConversationProvenanceError ''span '') found) (\<lambda>source.
     rbind (str_field source ''artifact_id'') (\<lambda>a.
     rbind (read_bytes (conv_artifacts st) a) (\<lambda>data.
     rbind (span_bounds data span) (\<lambda>(start, stop).
       Inr (drop start (take stop data))))))))))))"

definition resolve_span_text :: "conversation_store \<Rightarrow> dict \<Rightarrow> string \<Rightarrow> string res" where
  "resolve_span_text st envelope span_id =
     rbind (resolve_span_bytes st envelope span_id) (\<lambda>b.
     if utf8_valid b then Inr b else Inl (Exn ConversationProvenanceError ''span ''))"

section \<open>Provenance\<close>

text \<open>\<open>{x[k]: x for x in xs}\<close>, rejected when two items share a key.\<close>

definition keyed_items :: "string \<Rightarrow> string \<Rightarrow> json list \<Rightarrow> (string \<times> json) list res" where
  "keyed_items k message xs =
     rbind (rmap (\<lambda>x. rbind (str_field x k) (\<lambda>i. Inr (i, x))) xs) (\<lambda>ps.
     rbind (check (distinct (map fst ps)) (Exn ConversationProvenanceError message)) (\<lambda>_. Inr ps))"

definition status_is :: "json \<Rightarrow> string \<Rightarrow> bool res" where
  "status_is v s = rbind (index v ''evidence_status'') (\<lambda>w. Inr (py_eq w (JStr s)))"

definition check_span ::
  "conversation_store \<Rightarrow> dict \<Rightarrow> (string \<times> json) list \<Rightarrow> json \<Rightarrow> unit res" where
  "check_span st envelope sources span =
     rbind (str_field span ''source_id'') (\<lambda>sid.
     rbind (of_option (Exn ConversationProvenanceError ''span '') (map_of sources sid)) (\<lambda>source.
     rbind (status_is source ''reconstructed'') (\<lambda>reconstructed.
     rbind (if reconstructed then status_is span ''verbatim'' else Inr False) (\<lambda>laundered.
     rbind (check (\<not> laundered) (Exn ConversationProvenanceError
        ''a reconstructed source cannot silently yield a verbatim span'')) (\<lambda>_.
     rbind (str_field span ''span_id'') (\<lambda>i.
     rbind (resolve_span_bytes st envelope i) (\<lambda>_. Inr ())))))))"

definition check_parent :: "(string \<times> json) list \<Rightarrow> json \<Rightarrow> unit res" where
  "check_parent messages m =
     rbind (index m ''parent_message_id'') (\<lambda>p.
     if p = JNull then Inr ()
     else rbind (key_str p) (\<lambda>i.
          rbind (of_option (Exn ConversationProvenanceError ''message '') (map_of messages i)) (\<lambda>parent.
          rbind (int_field parent ''sequence'') (\<lambda>a. rbind (int_field m ''sequence'') (\<lambda>b.
            check (a < b) (Exn ConversationProvenanceError ''message parent must occur before the child message''))))))"

definition referenced_spans :: "(string \<times> json) list \<Rightarrow> json \<Rightarrow> (string \<times> json) list res" where
  "referenced_spans spans m =
     rbind (index m ''source_span_refs'') (\<lambda>v. rbind (py_iter v) (\<lambda>refs.
       rmap (\<lambda>r. rbind (key_str r) (\<lambda>i.
         rbind (of_option (Exn ConversationProvenanceError ''message '') (map_of spans i)) (\<lambda>s. Inr (i, s)))) refs))"

definition check_verbatim :: "conversation_store \<Rightarrow> dict \<Rightarrow> (string \<times> json) list \<Rightarrow> json \<Rightarrow> unit res" where
  "check_verbatim st envelope refs m =
     rbind (status_is m ''verbatim'') (\<lambda>verbatim.
     if \<not> verbatim then Inr ()
     else rbind (each (\<lambda>(i, s). rbind (status_is s ''verbatim'') (\<lambda>ok.
            check ok (Exn ConversationProvenanceError
              ''verbatim message cannot depend on reconstructed source spans''))) refs) (\<lambda>_.
          rbind (rmap (\<lambda>(i, s). resolve_span_text st envelope i) refs) (\<lambda>texts.
          rbind (index m ''text'') (\<lambda>text.
            check (py_eq (JStr (concat texts)) text) (Exn ConversationProvenanceError
              ''verbatim message text must exactly equal its immutable source span(s)'')))))"

definition check_message ::
  "conversation_store \<Rightarrow> dict \<Rightarrow> (string \<times> json) list \<Rightarrow> (string \<times> json) list \<Rightarrow> json \<Rightarrow> unit res" where
  "check_message st envelope spans messages m =
     rbind (check_parent messages m) (\<lambda>_.
     rbind (referenced_spans spans m) (\<lambda>refs. check_verbatim st envelope refs m))"

definition check_source_status :: "json \<Rightarrow> json list \<Rightarrow> unit res" where
  "check_source_status source_status messages =
     rbind (rmap (\<lambda>m. index m ''evidence_status'') messages) (\<lambda>statuses.
     rbind (check (\<not> (py_eq source_status (JStr ''verbatim'')
               \<and> \<not> (statuses \<noteq> [] \<and> list_all (\<lambda>s. py_eq s (JStr ''verbatim'')) statuses)))
        (Exn ConversationProvenanceError ''verbatim conversation cannot contain reconstructed messages'')) (\<lambda>_.
       check (\<not> (py_eq source_status (JStr ''reconstructed'')
               \<and> list_ex (\<lambda>s. py_eq s (JStr ''verbatim'')) statuses))
        (Exn ConversationProvenanceError
          ''reconstructed conversation cannot silently contain verbatim messages; use mixed'')))"

definition validate_provenance :: "conversation_config \<Rightarrow> conversation_store \<Rightarrow> dict \<Rightarrow> unit res" where
  "validate_provenance cfg st envelope =
     rbind (items envelope ''sources'') (\<lambda>source_list.
     rbind (keyed_items ''source_id'' ''duplicate source_id'' source_list) (\<lambda>sources.
     rbind (each (\<lambda>(i, s). rbind (str_field s ''artifact_id'') (\<lambda>a.
              rbind (verify_artifact (conv_sha cfg) (conv_artifacts st) a) (\<lambda>_. Inr ()))) sources) (\<lambda>_.
     rbind (items envelope ''spans'') (\<lambda>span_list.
     rbind (keyed_items ''span_id'' ''duplicate span_id'' span_list) (\<lambda>spans.
     rbind (each (\<lambda>(i, s). check_span st envelope sources s) spans) (\<lambda>_.
     rbind (items envelope ''messages'') (\<lambda>message_list.
     rbind (keyed_items ''message_id'' ''duplicate message_id'' message_list) (\<lambda>messages.
     rbind (rmap (\<lambda>m. int_field m ''sequence'') message_list) (\<lambda>sequences.
     rbind (check (distinct sequences)
        (Exn ConversationProvenanceError ''message sequence values must be unique'')) (\<lambda>_.
     rbind (each (check_message st envelope spans messages) message_list) (\<lambda>_.
     rbind (dindex envelope ''source_status'') (\<lambda>source_status.
       check_source_status source_status message_list))))))))))))"

section \<open>Committing\<close>

definition commit_conversation ::
  "conversation_config \<Rightarrow> conversation_store \<Rightarrow> dict \<Rightarrow> conversation_store \<times> json res" where
  "commit_conversation cfg st envelope =
     sbind (pure_res st
       (rbind (check (conv_schema cfg (JObj envelope)) (Exn ValidationError [])) (\<lambda>_.
        rbind (validate_provenance cfg st envelope) (\<lambda>_.
        rbind (dindex envelope ''conversation_id'') key_str))))
     (\<lambda>st i.
        let encoded = canonical (JObj envelope);
            (d, fresh) = publish_immutable (conversation_path i) encoded (envelopes st);
            st' = st\<lparr>envelopes := d\<rparr>
        in if fresh then (st', Inr (JObj envelope))
           else pure_res st' (rbind (read_json d (conversation_path i)) (\<lambda>existing.
             if canonical existing = encoded then Inr existing
             else Inl (Exn ConversationConflict ''conversation ''))))"

definition get_conversation :: "conversation_store \<Rightarrow> string \<Rightarrow> json res" where
  "get_conversation st i = read_json (envelopes st) (conversation_path i)"

definition ordered_messages :: "dict \<Rightarrow> json list res" where
  "ordered_messages envelope =
     rbind (items envelope ''messages'') (\<lambda>ms.
     rbind (rmap (\<lambda>m. rbind (int_field m ''sequence'') (\<lambda>n. Inr (n, m))) ms) (\<lambda>keyed.
       Inr (map snd (sort_key fst keyed))))"

definition build_ingested_event ::
  "dict \<Rightarrow> string \<Rightarrow> string \<Rightarrow> string \<Rightarrow> string \<Rightarrow> dict res" where
  "build_ingested_event envelope pack_id actor_id occurred_at recorded_at =
     rbind (items envelope ''sources'') (\<lambda>sources.
     rbind (rmap (\<lambda>s. index s ''artifact_id'') sources) (\<lambda>artifact_ids.
     rbind (dindex envelope ''conversation_id'') (\<lambda>i.
     rbind (dindex envelope ''source_status'') (\<lambda>status.
     rbind (ordered_messages envelope) (\<lambda>ms.
     rbind (rmap (\<lambda>m. index m ''message_id'') ms) (\<lambda>message_ids.
       Inr [(''schema_version'', JStr ''dkg.event.v1''),
            (''event_type'', JStr ''conversation.ingested''),
            (''occurred_at'', JStr occurred_at),
            (''recorded_at'', JStr recorded_at),
            (''pack_id'', JStr pack_id),
            (''actor'', JObj [(''actor_type'', JStr ''importer''), (''actor_id'', JStr actor_id)]),
            (''subject_refs'', JArr [i]),
            (''evidence_refs'', JArr artifact_ids),
            (''idempotency_key'', JStr (''conversation-ingested:'' @ py_str i)),
            (''payload'', JObj [(''conversation_id'', i), (''source_status'', status),
               (''source_artifact_ids'', JArr artifact_ids), (''message_ids'', JArr message_ids)])]))))))"

section \<open>Lineage\<close>

definition OPPOSITION_RELATIONS :: "string list" where
  "OPPOSITION_RELATIONS = [''challenges'', ''rebuts'']"

definition PATH_RELATIONS :: "string list" where
  "PATH_RELATIONS = [''leads_to'', ''supports'', ''reframes'', ''supersedes'', ''depends_on'']"

record lineage_edge =
  edge_id :: string
  edge_relation :: string
  edge_source :: string
  edge_target :: string

record lineage =
  lin_doc :: dict
  lin_nodes :: "(string \<times> json) list"
  lin_edges :: "lineage_edge list"
  lin_envelope :: dict

definition read_edge :: "json \<Rightarrow> lineage_edge res" where
  "read_edge e =
     rbind (str_field e ''edge_id'') (\<lambda>i. rbind (str_field e ''relation_type'') (\<lambda>k.
     rbind (str_field e ''source_node_id'') (\<lambda>a. rbind (str_field e ''target_node_id'') (\<lambda>b.
       Inr \<lparr> edge_id = i, edge_relation = k, edge_source = a, edge_target = b \<rparr>))))"

definition check_edges :: "(string \<times> json) list \<Rightarrow> lineage_edge list \<Rightarrow> unit res" where
  "check_edges nodes edges =
     rbind (check (distinct (map edge_id edges)) (Exn ConversationProvenanceError ''duplicate lineage edge_id'')) (\<lambda>_.
       each (\<lambda>e. check (map_of nodes (edge_source e) \<noteq> None \<and> map_of nodes (edge_target e) \<noteq> None)
         (Exn ConversationProvenanceError ''lineage edge references missing node'')) edges)"

definition check_node ::
  "conversation_store \<Rightarrow> dict \<Rightarrow> (string \<times> json) list \<Rightarrow> string list \<Rightarrow> json \<Rightarrow> unit res" where
  "check_node st envelope messages span_ids node =
     rbind (index node ''source_message_refs'') (\<lambda>v. rbind (py_iter v) (\<lambda>mrefs.
     rbind (rmap (\<lambda>r. rbind (key_str r) (\<lambda>i.
        of_option (Exn ConversationProvenanceError ''lineage node '') (map_of messages i))) mrefs) (\<lambda>source_messages.
     rbind (index node ''source_span_refs'') (\<lambda>w. rbind (py_iter w) (\<lambda>srefs.
     rbind (each (\<lambda>r. rbind (key_str r) (\<lambda>i.
        rbind (check (i \<in> set span_ids) (Exn ConversationProvenanceError ''lineage node '')) (\<lambda>_.
        rbind (resolve_span_bytes st envelope i) (\<lambda>_. Inr ())))) srefs) (\<lambda>_.
     rbind (status_is node ''verbatim'') (\<lambda>verbatim.
     if \<not> verbatim then Inr ()
     else each (\<lambda>m. rbind (status_is m ''verbatim'') (\<lambda>ok. check ok (Exn ConversationProvenanceError
            ''verbatim-derived lineage node cannot depend on reconstructed messages''))) source_messages)))))))"

definition check_conclusion :: "(string \<times> json) list \<Rightarrow> json \<Rightarrow> unit res" where
  "check_conclusion nodes r =
     rbind (key_str r) (\<lambda>i.
     rbind (of_option (Exn ConversationProvenanceError ''current conclusion references missing node '') (map_of nodes i)) (\<lambda>node.
     rbind (index node ''kind'') (\<lambda>kind. rbind (in_names kind [''conclusion'', ''decision'']) (\<lambda>ok.
     rbind (check ok (Exn ConversationProvenanceError
        ''current conclusion ref must point to a conclusion or decision'')) (\<lambda>_.
     rbind (index node ''position_state'') (\<lambda>state.
       check (py_eq state (JStr ''current'')) (Exn ConversationProvenanceError
         ''current conclusion ref must point to current position state'')))))))"

text \<open>
  The constructor. The source reads the fields of an edge where it uses them; the schema requires
  all of them, so they are read once here.
\<close>

definition make_lineage ::
  "conversation_config \<Rightarrow> conversation_store \<Rightarrow> dict \<Rightarrow> dict \<Rightarrow> lineage res" where
  "make_lineage cfg st doc envelope =
     rbind (check (lineage_schema cfg (JObj doc)) (Exn ValidationError [])) (\<lambda>_.
     rbind (dindex doc ''conversation_id'') (\<lambda>a. rbind (dindex envelope ''conversation_id'') (\<lambda>b.
     rbind (check (py_eq a b) (Exn ConversationProvenanceError
        ''lineage conversation_id does not match conversation envelope'')) (\<lambda>_.
     rbind (items doc ''nodes'') (\<lambda>node_list.
     rbind (keyed_items ''node_id'' ''duplicate lineage node_id'' node_list) (\<lambda>nodes.
     rbind (items doc ''edges'') (\<lambda>edge_list.
     rbind (rmap read_edge edge_list) (\<lambda>edges.
     rbind (items envelope ''messages'') (\<lambda>message_list.
     rbind (rmap (\<lambda>m. rbind (str_field m ''message_id'') (\<lambda>i. Inr (i, m))) message_list) (\<lambda>messages.
     rbind (items envelope ''spans'') (\<lambda>span_list.
     rbind (rmap (\<lambda>s. str_field s ''span_id'') span_list) (\<lambda>span_ids.
     rbind (check_edges nodes edges) (\<lambda>_.
     rbind (each (\<lambda>(i, n). check_node st envelope (rev messages) span_ids n) nodes) (\<lambda>_.
     rbind (items doc ''current_conclusion_refs'') (\<lambda>refs.
     rbind (each (check_conclusion nodes) refs) (\<lambda>_.
       Inr \<lparr> lin_doc = doc, lin_nodes = nodes, lin_edges = edges, lin_envelope = envelope \<rparr>))))))))))))))))"

definition lineage_node :: "lineage \<Rightarrow> string \<Rightarrow> json res" where
  "lineage_node l i = of_option (Exn KeyError i) (map_of (lin_nodes l) i)"

definition current_conclusions :: "lineage \<Rightarrow> json list res" where
  "current_conclusions l =
     rbind (items (lin_doc l) ''current_conclusion_refs'') (\<lambda>refs.
       rmap (\<lambda>r. rbind (key_str r) (lineage_node l)) refs)"

definition historical_nodes :: "lineage \<Rightarrow> json list res" where
  "historical_nodes l =
     rbind (items (lin_doc l) ''nodes'') (\<lambda>ns.
     rbind (rmap (\<lambda>n. rbind (index n ''position_state'') (\<lambda>s. Inr (n, py_eq s (JStr ''historical'')))) ns) (\<lambda>marked.
       Inr (map fst (filter snd marked))))"

section \<open>Search\<close>

type_synonym adjacency = "(string \<times> string list) list"

definition targets :: "adjacency \<Rightarrow> string \<Rightarrow> string list" where
  "targets adj n = (case map_of adj n of None \<Rightarrow> [] | Some ts \<Rightarrow> ts)"

definition build_adjacency :: "lineage_edge list \<Rightarrow> string list \<Rightarrow> adjacency" where
  "build_adjacency edges allowed =
     foldl (\<lambda>adj e. if edge_relation e \<notin> set allowed then adj
              else AList.update (edge_source e) (targets adj (edge_source e) @ [edge_target e]) adj)
       [] (sort_key edge_id edges)"

fun push_targets ::
  "string list \<Rightarrow> string list \<Rightarrow> (string \<times> string list) list \<Rightarrow> string list
   \<Rightarrow> string list \<times> (string \<times> string list) list" where
  "push_targets path visited queue [] = (visited, queue)"
| "push_targets path visited queue (t # ts) =
     (if t \<in> set visited then push_targets path visited queue ts
      else push_targets path (t # visited) (queue @ [(t, path @ [t])]) ts)"

definition unvisited :: "adjacency \<Rightarrow> string list \<Rightarrow> nat" where
  "unvisited adj visited = card (set (concat (map snd adj)) - set visited)"

text \<open>The queue holds the nodes to visit with the path that led to each.\<close>

fun fresh_targets :: "string list \<Rightarrow> string list \<Rightarrow> string list" where
  "fresh_targets visited [] = []"
| "fresh_targets visited (t # ts) =
     (if t \<in> set visited then fresh_targets visited ts else t # fresh_targets (t # visited) ts)"

lemma push_targets_eq:
  "push_targets path visited queue ts =
     (rev (fresh_targets visited ts) @ visited, queue @ map (\<lambda>t. (t, path @ [t])) (fresh_targets visited ts))"
  by (induction path visited queue ts rule: push_targets.induct) simp_all

lemma fresh_targets_set [simp]: "set (fresh_targets visited ts) = set ts - set visited"
  by (induction visited ts rule: fresh_targets.induct) auto

lemma fresh_targets_distinct [simp]: "distinct (fresh_targets visited ts)"
  by (induction visited ts rule: fresh_targets.induct) auto

lemma targets_subset: "set (targets adj n) \<subseteq> set (concat (map snd adj))"
proof (cases "map_of adj n")
  case (Some ts)
  then have "(n, ts) \<in> set adj" by (rule map_of_SomeD)
  then show ?thesis using Some by (force simp: targets_def)
qed (simp add: targets_def)

lemma unvisited_push:
  "unvisited adj (rev (fresh_targets visited (targets adj n)) @ visited) + length (fresh_targets visited (targets adj n))
    = unvisited adj visited"
proof -
  let ?f = "fresh_targets visited (targets adj n)"
  let ?A = "set (concat (map snd adj)) - set visited"
  have sub: "set ?f \<subseteq> ?A" using targets_subset [of adj n] by auto
  have "set (concat (map snd adj)) - set (rev ?f @ visited) = ?A - set ?f" by auto
  then have "unvisited adj (rev ?f @ visited) = card ?A - card (set ?f)"
    using sub by (simp add: unvisited_def card_Diff_subset)
  moreover have "card (set ?f) = length ?f" by (rule distinct_card [OF fresh_targets_distinct])
  moreover have "card (set ?f) \<le> card ?A" using sub by (intro card_mono) auto
  ultimately show ?thesis by (simp add: unvisited_def)
qed

function bfs ::
  "adjacency \<Rightarrow> string \<Rightarrow> string list \<Rightarrow> (string \<times> string list) list \<Rightarrow> string list option" where
  "bfs adj goal visited [] = None"
| "bfs adj goal visited ((n, path) # queue) =
     (if n = goal then Some path
      else case push_targets path visited queue (targets adj n) of
          (visited', queue') \<Rightarrow> bfs adj goal visited' queue')"
  by pat_completeness auto

termination
  apply (relation "measure (\<lambda>(adj, goal, visited, queue). 2 * unvisited adj visited + length queue)")
   apply simp
  subgoal for adj goal visited n path queue
    using unvisited_push [of adj visited n] by (simp add: push_targets_eq)
  done

text \<open>\<open>relation_types or PATH_RELATIONS\<close>: an empty set of types stands for the default.\<close>

definition lineage_path :: "lineage \<Rightarrow> string \<Rightarrow> string \<Rightarrow> string list option \<Rightarrow> json list res" where
  "lineage_path l start goal relation_types =
     (let allowed = (case relation_types of Some (t # ts) \<Rightarrow> t # ts | _ \<Rightarrow> PATH_RELATIONS)
      in case bfs (build_adjacency (lin_edges l) allowed) goal [start] [(start, [start])] of
           None \<Rightarrow> Inr []
         | Some ns \<Rightarrow> rmap (lineage_node l) ns)"

definition opposing_positions :: "lineage \<Rightarrow> string \<Rightarrow> json list res" where
  "opposing_positions l i =
     (let opponents = concat (map (\<lambda>e.
            if edge_relation e \<notin> set OPPOSITION_RELATIONS then []
            else if edge_source e = i then [edge_target e]
            else if edge_target e = i then [edge_source e] else []) (lin_edges l))
      in rmap (lineage_node l) (sort (remdups opponents)))"

definition span_citation :: "conversation_store \<Rightarrow> lineage \<Rightarrow> (string \<times> json) list \<Rightarrow> (string \<times> json) list \<Rightarrow> json \<Rightarrow> json res" where
  "span_citation st l spans sources r =
     rbind (key_str r) (\<lambda>i.
     rbind (of_option (Exn KeyError i) (map_of spans i)) (\<lambda>span.
     rbind (str_field span ''source_id'') (\<lambda>sid.
     rbind (of_option (Exn KeyError sid) (map_of sources sid)) (\<lambda>source.
     rbind (index source ''artifact_id'') (\<lambda>a.
     rbind (index span ''evidence_status'') (\<lambda>s.
     rbind (index span ''byte_start'') (\<lambda>b.
     rbind (index span ''byte_end'') (\<lambda>e.
     rbind (resolve_span_text st (lin_envelope l) i) (\<lambda>text.
       Inr (JObj [(''span_id'', r), (''artifact_id'', a), (''evidence_status'', s), (''byte_start'', b),
                  (''byte_end'', e), (''text'', JStr text)]))))))))))"

definition lineage_citations :: "conversation_store \<Rightarrow> lineage \<Rightarrow> string \<Rightarrow> json list res" where
  "lineage_citations st l i =
     rbind (lineage_node l i) (\<lambda>node.
     rbind (items (lin_envelope l) ''spans'') (\<lambda>span_list.
     rbind (rmap (\<lambda>s. rbind (str_field s ''span_id'') (\<lambda>k. Inr (k, s))) span_list) (\<lambda>spans.
     rbind (items (lin_envelope l) ''sources'') (\<lambda>source_list.
     rbind (rmap (\<lambda>s. rbind (str_field s ''source_id'') (\<lambda>k. Inr (k, s))) source_list) (\<lambda>sources.
     rbind (index node ''source_span_refs'') (\<lambda>v. rbind (py_iter v) (\<lambda>refs.
       rmap (span_citation st l (rev spans) (rev sources)) refs)))))))"

section \<open>The benchmark\<close>

text \<open>
  The source asks for the citations of a set of nodes and stops at the first node without one; the
  set is read in the order of its ids here.
\<close>

fun all_cited :: "conversation_store \<Rightarrow> lineage \<Rightarrow> string list \<Rightarrow> bool res" where
  "all_cited st l [] = Inr True"
| "all_cited st l (i # is) = rbind (lineage_citations st l i) (\<lambda>cs. if cs = [] then Inr False else all_cited st l is)"

definition node_ids :: "json list \<Rightarrow> json list res" where
  "node_ids ns = rmap (\<lambda>n. index n ''node_id'') ns"

definition opposition_results :: "lineage \<Rightarrow> (string \<times> string) list \<Rightarrow> (string \<times> bool) list res" where
  "opposition_results l pairs =
     rbind (rmap (\<lambda>(left, right). rbind (opposing_positions l left) (\<lambda>ns. rbind (node_ids ns) (\<lambda>ids.
              Inr (left @ ''<->'' @ right, list_ex (\<lambda>v. py_eq v (JStr right)) ids)))) pairs) (\<lambda>rs.
       Inr (foldl (\<lambda>d (k, b). AList.update k b d) [] rs))"

definition lineage_benchmark ::
  "conversation_store \<Rightarrow> lineage \<Rightarrow> string list \<Rightarrow> string \<Rightarrow> (string \<times> string) list \<Rightarrow> dict res" where
  "lineage_benchmark st l required_path current_ref pairs =
     (if required_path = [] then Inl (Exn ValueError ''required_path cannot be empty'')
      else rbind (lineage_path l (hd required_path) (last required_path) None) (\<lambda>reconstructed.
      rbind (node_ids reconstructed) (\<lambda>actual.
      rbind (all_cited st l (sort (remdups (required_path @ [current_ref] @ concat (map (\<lambda>(a, b). [a, b]) pairs))))) (\<lambda>cited.
      rbind (current_conclusions l) (\<lambda>cs. rbind (node_ids cs) (\<lambda>conclusions.
      rbind (opposition_results l pairs) (\<lambda>opposing.
      rbind (historical_nodes l) (\<lambda>hs.
        let path_matches = py_eq (JArr actual) (strs required_path);
            current = list_ex (\<lambda>v. py_eq v (JStr current_ref)) conclusions;
            historical = (hs \<noteq> [] \<and> reconstructed \<noteq> [])
        in Inr [(''passed'', JBool (path_matches \<and> cited \<and> current \<and> historical \<and> list_all snd opposing)),
                (''required_path'', strs required_path),
                (''actual_path'', JArr actual),
                (''path_matches'', JBool path_matches),
                (''citations_resolve'', JBool cited),
                (''current_conclusion_queryable'', JBool current),
                (''historical_path_queryable'', JBool historical),
                (''opposing_positions_queryable'', JObj (map (\<lambda>(k, b). (k, JBool b)) opposing))]))))))))"

section \<open>Paths are shortest\<close>

definition edge_in :: "adjacency \<Rightarrow> string \<Rightarrow> string \<Rightarrow> bool" where
  "edge_in adj x y \<longleftrightarrow> y \<in> set (targets adj x)"

fun walk_in :: "adjacency \<Rightarrow> string list \<Rightarrow> bool" where
  "walk_in adj [] = True"
| "walk_in adj [x] = True"
| "walk_in adj (x # y # xs) = (edge_in adj x y \<and> walk_in adj (y # xs))"

lemma walk_in_snoc: "walk_in adj p \<Longrightarrow> p \<noteq> [] \<Longrightarrow> edge_in adj (last p) y \<Longrightarrow> walk_in adj (p @ [y])"
  by (induction adj p rule: walk_in.induct) auto

text \<open>
  The invariant of the search from \<open>s\<close>: \<open>\<delta>\<close> gives the number of steps at which a visited node was
  reached. Queued nodes are visited, their paths are walks from \<open>s\<close> of \<open>\<delta>\<close> steps, and their distances
  ascend by at most one; a visited node that is no longer queued is not the goal, its targets are
  visited at most one step further, and it is no further than the queue.
\<close>

definition bfs_inv ::
  "adjacency \<Rightarrow> string \<Rightarrow> string \<Rightarrow> string list \<Rightarrow> (string \<times> string list) list \<Rightarrow> (string \<Rightarrow> nat) \<Rightarrow> bool" where
  "bfs_inv adj s goal visited queue \<delta> \<longleftrightarrow>
     s \<in> set visited \<and> \<delta> s = 0 \<and> fst ` set queue \<subseteq> set visited
   \<and> (\<forall>(n, p) \<in> set queue. p \<noteq> [] \<and> hd p = s \<and> last p = n \<and> walk_in adj p \<and> length p = Suc (\<delta> n))
   \<and> sorted (map (\<delta> \<circ> fst) queue)
   \<and> (\<forall>q \<in> set queue. \<delta> (fst q) \<le> Suc (\<delta> (fst (hd queue))))
   \<and> (\<forall>x \<in> set visited - fst ` set queue. x \<noteq> goal
        \<and> (\<forall>y. edge_in adj x y \<longrightarrow> y \<in> set visited \<and> \<delta> y \<le> Suc (\<delta> x)))
   \<and> (\<forall>x \<in> set visited - fst ` set queue. \<forall>q \<in> set queue. \<delta> x \<le> \<delta> (fst q))"

lemma walk_in_nth: "walk_in adj w \<Longrightarrow> Suc i < length w \<Longrightarrow> edge_in adj (w ! i) (w ! Suc i)"
proof (induction adj w arbitrary: i rule: walk_in.induct)
  case (3 adj x y xs)
  then show ?case by (cases i) auto
qed simp_all

lemma bfs_inv_D:
  assumes "bfs_inv adj s goal visited queue \<delta>"
  shows "s \<in> set visited" "\<delta> s = 0" "fst ` set queue \<subseteq> set visited"
    and "(n, p) \<in> set queue \<Longrightarrow> p \<noteq> [] \<and> hd p = s \<and> last p = n \<and> walk_in adj p \<and> length p = Suc (\<delta> n)"
    and "sorted (map (\<delta> \<circ> fst) queue)"
    and "q \<in> set queue \<Longrightarrow> \<delta> (fst q) \<le> Suc (\<delta> (fst (hd queue)))"
    and "x \<in> set visited \<Longrightarrow> x \<notin> fst ` set queue \<Longrightarrow> x \<noteq> goal"
    and "x \<in> set visited \<Longrightarrow> x \<notin> fst ` set queue \<Longrightarrow> edge_in adj x y \<Longrightarrow> y \<in> set visited \<and> \<delta> y \<le> Suc (\<delta> x)"
    and "x \<in> set visited \<Longrightarrow> x \<notin> fst ` set queue \<Longrightarrow> q \<in> set queue \<Longrightarrow> \<delta> x \<le> \<delta> (fst q)"
proof -
  note i = assms [unfolded bfs_inv_def]
  show "s \<in> set visited" "\<delta> s = 0" "fst ` set queue \<subseteq> set visited" "sorted (map (\<delta> \<circ> fst) queue)"
    using i by simp_all
  have "\<forall>(n, p) \<in> set queue. p \<noteq> [] \<and> hd p = s \<and> last p = n \<and> walk_in adj p \<and> length p = Suc (\<delta> n)"
    using i by (elim conjE)
  then show "(n, p) \<in> set queue \<Longrightarrow> p \<noteq> [] \<and> hd p = s \<and> last p = n \<and> walk_in adj p \<and> length p = Suc (\<delta> n)"
    by auto
  have "\<forall>q \<in> set queue. \<delta> (fst q) \<le> Suc (\<delta> (fst (hd queue)))" using i by (elim conjE)
  then show "q \<in> set queue \<Longrightarrow> \<delta> (fst q) \<le> Suc (\<delta> (fst (hd queue)))" by (rule bspec)
  have c: "\<forall>x \<in> set visited - fst ` set queue. x \<noteq> goal
        \<and> (\<forall>y. edge_in adj x y \<longrightarrow> y \<in> set visited \<and> \<delta> y \<le> Suc (\<delta> x))" using i by (elim conjE)
  then show "x \<in> set visited \<Longrightarrow> x \<notin> fst ` set queue \<Longrightarrow> x \<noteq> goal" by blast
  from c show "x \<in> set visited \<Longrightarrow> x \<notin> fst ` set queue \<Longrightarrow> edge_in adj x y \<Longrightarrow> y \<in> set visited \<and> \<delta> y \<le> Suc (\<delta> x)"
    by blast
  have "\<forall>x \<in> set visited - fst ` set queue. \<forall>q \<in> set queue. \<delta> x \<le> \<delta> (fst q)" using i by (elim conjE)
  then show "x \<in> set visited \<Longrightarrow> x \<notin> fst ` set queue \<Longrightarrow> q \<in> set queue \<Longrightarrow> \<delta> x \<le> \<delta> (fst q)" by blast
qed

lemma bfs_inv_start: "bfs_inv adj s goal [s] [(s, [s])] (\<lambda>_. 0)"
  by (simp add: bfs_inv_def)

lemma bfs_frontier:
  assumes inv: "bfs_inv adj s goal visited queue \<delta>" and w: "walk_in adj w" "hd w = s"
    and k: "k < length w"
  shows "(\<forall>i \<le> k. w ! i \<in> set visited - fst ` set queue \<and> \<delta> (w ! i) \<le> i)
    \<or> (\<exists>i \<le> k. w ! i \<in> fst ` set queue \<and> \<delta> (w ! i) \<le> i)"
  using k
proof (induction k)
  case 0
  then have "w ! 0 = s" using w(2) by (simp add: hd_conv_nth)
  then show ?case using inv unfolding bfs_inv_def by auto
next
  case (Suc k)
  then consider (stay) "\<forall>i \<le> k. w ! i \<in> set visited - fst ` set queue \<and> \<delta> (w ! i) \<le> i"
    | (left) "\<exists>i \<le> k. w ! i \<in> fst ` set queue \<and> \<delta> (w ! i) \<le> i" by auto
  then show ?case
  proof cases
    case left
    then show ?thesis by (meson le_SucI)
  next
    case stay
    have "edge_in adj (w ! k) (w ! Suc k)" by (rule walk_in_nth [OF w(1) Suc.prems])
    moreover have "w ! k \<in> set visited - fst ` set queue" "\<delta> (w ! k) \<le> k" using stay by auto
    ultimately have v: "w ! Suc k \<in> set visited" "\<delta> (w ! Suc k) \<le> Suc k"
      using bfs_inv_D(8) [OF inv, of "w ! k" "w ! Suc k"] by simp_all
    show ?thesis
    proof (cases "w ! Suc k \<in> fst ` set queue")
      case True
      then show ?thesis using v(2) by blast
    next
      case False
      then show ?thesis using v stay by (simp add: le_Suc_eq)
    qed
  qed
qed

lemma bfs_inv_exhausted:
  assumes "bfs_inv adj s goal visited [] \<delta>" and "walk_in adj w" "w \<noteq> []" "hd w = s"
  shows "last w \<noteq> goal"
proof -
  have "length w - 1 < length w" using assms(3) by simp
  from bfs_frontier [OF assms(1,2,4) this] have "last w \<in> set visited"
    by (auto simp: last_conv_nth [OF assms(3)])
  then show ?thesis using assms(1) by (auto simp: bfs_inv_def)
qed

lemma bfs_inv_found:
  assumes inv: "bfs_inv adj s goal visited ((goal, path) # queue) \<delta>"
    and w: "walk_in adj w" "w \<noteq> []" "hd w = s" "last w = goal"
  shows "length path \<le> length w"
proof -
  have "length w - 1 < length w" using w(2) by simp
  moreover have "w ! (length w - 1) = goal" using last_conv_nth [OF w(2)] w(4) by simp
  ultimately obtain i where i: "i \<le> length w - 1" "w ! i \<in> fst ` set ((goal, path) # queue)" "\<delta> (w ! i) \<le> i"
    using bfs_frontier [OF inv w(1,3), of "length w - 1"] by auto
  have "\<delta> goal \<le> \<delta> (w ! i)" using bfs_inv_D(5) [OF inv] i(2) by auto
  moreover have "length path = Suc (\<delta> goal)" using bfs_inv_D(4) [OF inv, of goal path] by simp
  ultimately show ?thesis using i(1,3) w(2) by (cases w) auto
qed

lemma bfs_inv_step:
  assumes inv: "bfs_inv adj s goal visited ((n, path) # queue) \<delta>" and n: "n \<noteq> goal"
    and ts: "ts = fresh_targets visited (targets adj n)"
  shows "bfs_inv adj s goal (rev ts @ visited) (queue @ map (\<lambda>t. (t, path @ [t])) ts)
    (\<lambda>x. if x \<in> set ts then Suc (\<delta> n) else \<delta> x)"
proof -
  let ?\<delta> = "\<lambda>x. if x \<in> set ts then Suc (\<delta> n) else \<delta> x"
  let ?q = "queue @ map (\<lambda>t. (t, path @ [t])) ts"
  have new: "x \<notin> set visited" if "x \<in> set ts" for x using that ts by simp
  have old: "?\<delta> x = \<delta> x" if "x \<in> set visited" for x using new that by auto
  have sv: "s \<in> set visited" "\<delta> s = 0" and qv: "fst ` set queue \<subseteq> set visited" "n \<in> set visited"
    using bfs_inv_D(1-3) [OF inv] by simp_all
  have path: "path \<noteq> []" "hd path = s" "last path = n" "walk_in adj path" "length path = Suc (\<delta> n)"
    using bfs_inv_D(4) [OF inv, of n path] by simp_all
  have paths: "\<forall>(m, p) \<in> set ?q. p \<noteq> [] \<and> hd p = s \<and> last p = m \<and> walk_in adj p \<and> length p = Suc (?\<delta> m)"
  proof -
    have "walk_in adj (path @ [t])" if "t \<in> set ts" for t
      using that path ts by (intro walk_in_snoc) (auto simp: edge_in_def)
    then have "\<forall>(m, p) \<in> set (map (\<lambda>t. (t, path @ [t])) ts). p \<noteq> [] \<and> hd p = s \<and> last p = m \<and> walk_in adj p \<and> length p = Suc (?\<delta> m)"
      using path by auto
    moreover have "p \<noteq> [] \<and> hd p = s \<and> last p = m \<and> walk_in adj p \<and> length p = Suc (?\<delta> m)"
      if mp: "(m, p) \<in> set queue" for m p
    proof -
      have "m \<in> fst ` set queue" using mp by force
      then have "?\<delta> m = \<delta> m" using old qv(1) by blast
      then show ?thesis using bfs_inv_D(4) [OF inv, of m p] mp by simp
    qed
    ultimately show ?thesis by auto
  qed
  have near: "\<delta> n \<le> \<delta> (fst q) \<and> \<delta> (fst q) \<le> Suc (\<delta> n)" if "q \<in> set queue" for q
    using bfs_inv_D(5,6) [OF inv] that by auto
  have qd: "?\<delta> (fst q) = \<delta> (fst q)" if "q \<in> set queue" for q using that qv(1) old by (intro old) auto
  have dq: "\<delta> n \<le> ?\<delta> (fst q) \<and> ?\<delta> (fst q) \<le> Suc (\<delta> n)" if "q \<in> set ?q" for q
  proof (cases "q \<in> set queue")
    case True
    then show ?thesis using near qd by simp
  next
    case False
    then have "fst q \<in> set ts" using that by auto
    then show ?thesis by simp
  qed
  have "sorted (map (?\<delta> \<circ> fst) queue)"
    using bfs_inv_D(5) [OF inv] qd by (simp cong: map_cong)
  moreover have "\<forall>x \<in> set (map (?\<delta> \<circ> fst) queue). x \<le> Suc (\<delta> n)" using near qd by auto
  moreover have "map (?\<delta> \<circ> fst) (map (\<lambda>t. (t, path @ [t])) ts) = replicate (length ts) (Suc (\<delta> n))"
    by (simp add: map_replicate_const [symmetric] cong: map_cong)
  ultimately have sorted: "sorted (map (?\<delta> \<circ> fst) ?q)" by (auto simp: sorted_append)
  have spread: "\<forall>q \<in> set ?q. ?\<delta> (fst q) \<le> Suc (?\<delta> (fst (hd ?q)))"
  proof
    fix q assume q: "q \<in> set ?q"
    then have "hd ?q \<in> set ?q" by (intro hd_in_set) auto
    from dq [OF this] dq [OF q] show "?\<delta> (fst q) \<le> Suc (?\<delta> (fst (hd ?q)))" by linarith
  qed
  have rest: "x = n \<or> x \<in> set visited - fst ` set ((n, path) # queue)"
    if "x \<in> set (rev ts @ visited) - fst ` set ?q" for x
  proof -
    have "fst ` set ?q = fst ` set queue \<union> set ts" by (simp add: image_Un image_image)
    then show ?thesis using that by auto
  qed
  have rv: "x \<in> set visited" if "x \<in> set (rev ts @ visited) - fst ` set ?q" for x using rest [OF that] qv(2) by auto
  have done_n: "y \<in> set (rev ts @ visited) \<and> ?\<delta> y \<le> Suc (\<delta> n)" if "edge_in adj n y" for y
  proof (cases "y \<in> set ts")
    case True
    then show ?thesis by simp
  next
    case False
    then have y: "y \<in> set visited" using that ts by (simp add: edge_in_def)
    have "\<delta> y \<le> Suc (\<delta> n)"
    proof (cases "y \<in> fst ` set ((n, path) # queue)")
      case True
      then show ?thesis using near by auto
    next
      case False
      then have "\<delta> y \<le> \<delta> n" using bfs_inv_D(9) [OF inv y, of "(n, path)"] by simp
      then show ?thesis by simp
    qed
    then show ?thesis using False y by simp
  qed
  have closed: "\<forall>x \<in> set (rev ts @ visited) - fst ` set ?q. x \<noteq> goal
      \<and> (\<forall>y. edge_in adj x y \<longrightarrow> y \<in> set (rev ts @ visited) \<and> ?\<delta> y \<le> Suc (?\<delta> x))"
  proof
    fix x assume x: "x \<in> set (rev ts @ visited) - fst ` set ?q"
    from rest [OF x] show "x \<noteq> goal
      \<and> (\<forall>y. edge_in adj x y \<longrightarrow> y \<in> set (rev ts @ visited) \<and> ?\<delta> y \<le> Suc (?\<delta> x))"
    proof
      assume x: "x = n"
      have "?\<delta> n = \<delta> n" by (rule old [OF qv(2)])
      then show ?thesis using done_n n unfolding x by presburger
    next
      assume p: "x \<in> set visited - fst ` set ((n, path) # queue)"
      then have "x \<noteq> goal \<and> (\<forall>y. edge_in adj x y \<longrightarrow> y \<in> set visited \<and> \<delta> y \<le> Suc (\<delta> x))"
        using bfs_inv_D(7,8) [OF inv] by blast
      then show ?thesis using old p by auto
    qed
  qed
  have below: "\<forall>x \<in> set (rev ts @ visited) - fst ` set ?q. \<forall>q \<in> set ?q. ?\<delta> x \<le> ?\<delta> (fst q)"
  proof (intro ballI)
    fix x q assume x: "x \<in> set (rev ts @ visited) - fst ` set ?q" and q: "q \<in> set ?q"
    have "\<delta> x \<le> \<delta> n" using rest [OF x] bfs_inv_D(9) [OF inv, of x "(n, path)"] by auto
    then show "?\<delta> x \<le> ?\<delta> (fst q)" using dq [OF q] old [OF rv [OF x]] by linarith
  qed
  show ?thesis unfolding bfs_inv_def
    using sv old qv paths sorted spread closed below by (intro conjI) auto
qed

lemma bfs_correct:
  assumes "bfs_inv adj s goal visited queue \<delta>"
  shows "case bfs adj goal visited queue of
      Some p \<Rightarrow> walk_in adj p \<and> p \<noteq> [] \<and> hd p = s \<and> last p = goal
        \<and> (\<forall>w. walk_in adj w \<and> w \<noteq> [] \<and> hd w = s \<and> last w = goal \<longrightarrow> length p \<le> length w)
    | None \<Rightarrow> \<not> (\<exists>w. walk_in adj w \<and> w \<noteq> [] \<and> hd w = s \<and> last w = goal)"
  using assms
proof (induction adj goal visited queue arbitrary: \<delta> rule: bfs.induct)
  case (1 adj goal visited)
  have "\<not> (\<exists>w. walk_in adj w \<and> w \<noteq> [] \<and> hd w = s \<and> last w = goal)"
    using bfs_inv_exhausted [OF 1] by blast
  then show ?case by simp
next
  case (2 adj goal visited n path queue)
  show ?case
  proof (cases "n = goal")
    case True
    have "walk_in adj path \<and> path \<noteq> [] \<and> hd path = s \<and> last path = goal"
      using "2.prems" True by (auto simp: bfs_inv_def)
    moreover have "length path \<le> length w" if "walk_in adj w" "w \<noteq> []" "hd w = s" "last w = goal" for w
      using bfs_inv_found "2.prems" True that by blast
    ultimately show ?thesis using True by simp
  next
    case False
    let ?ts = "fresh_targets visited (targets adj n)"
    from "2.IH" [OF False push_targets_eq [symmetric] bfs_inv_step [OF "2.prems" False refl]]
    show ?thesis using False by (simp only: bfs.simps push_targets_eq prod.case if_False)
  qed
qed

section \<open>Provenance of verbatim messages\<close>

lemma keyed_items_D:
  assumes "keyed_items k message xs = Inr ps"
  shows "distinct (map fst ps)" "map snd ps = xs" "(i, x) \<in> set ps \<Longrightarrow> str_field x k = Inr i"
proof -
  from assms have r: "rmap (\<lambda>x. rbind (str_field x k) (\<lambda>i. Inr (i, x))) xs = Inr ps"
    and d: "distinct (map fst ps)" unfolding keyed_items_def by auto
  show "distinct (map fst ps)" by (rule d)
  from r show "map snd ps = xs" by (induction xs arbitrary: ps) auto
  show "str_field x k = Inr i" if "(i, x) \<in> set ps" using rmap_Inr_set [OF r] that by auto
qed

lemma find_item_keyed:
  assumes "rmap (\<lambda>x. rbind (str_field x k) (\<lambda>i. Inr (i, x))) xs = Inr ps"
  shows "find_item k (JStr i) xs = Inr (map_of ps i)"
  using assms
proof (induction xs arbitrary: ps)
  case (Cons x xs)
  then obtain j qs where j: "str_field x k = Inr j" "ps = (j, x) # qs"
    "rmap (\<lambda>x. rbind (str_field x k) (\<lambda>i. Inr (i, x))) xs = Inr qs" by auto
  then have "index x k = Inr (JStr j)" by (auto simp: str_field_def)
  then show ?case using j Cons.IH [OF j(3)] by auto
qed simp

lemma find_item_map: "keyed_items k message xs = Inr ps \<Longrightarrow> find_item k (JStr i) xs = Inr (map_of ps i)"
  by (rule find_item_keyed) (auto simp: keyed_items_def)

lemma validate_provenance_D:
  assumes "validate_provenance cfg st envelope = Inr u"
  obtains source_list sources span_list spans message_list messages where
    "items envelope ''sources'' = Inr source_list" "keyed_items ''source_id'' ''duplicate source_id'' source_list = Inr sources"
    "\<forall>(i, s) \<in> set sources. \<exists>a. str_field s ''artifact_id'' = Inr a
       \<and> is_ok (verify_artifact (conv_sha cfg) (conv_artifacts st) a)"
    "items envelope ''spans'' = Inr span_list" "keyed_items ''span_id'' ''duplicate span_id'' span_list = Inr spans"
    "\<forall>(i, s) \<in> set spans. check_span st envelope sources s = Inr ()"
    "items envelope ''messages'' = Inr message_list"
    "keyed_items ''message_id'' ''duplicate message_id'' message_list = Inr messages"
    "\<forall>m \<in> set message_list. check_message st envelope spans messages m = Inr ()"
proof -
  note v = assms [unfolded validate_provenance_def rbind_Inr_iff]
  from v obtain source_list sources span_list spans message_list messages where
    p: "items envelope ''sources'' = Inr source_list" "keyed_items ''source_id'' ''duplicate source_id'' source_list = Inr sources"
    "each (\<lambda>(i, s). rbind (str_field s ''artifact_id'') (\<lambda>a.
              rbind (verify_artifact (conv_sha cfg) (conv_artifacts st) a) (\<lambda>_. Inr ()))) sources = Inr ()"
    "items envelope ''spans'' = Inr span_list" "keyed_items ''span_id'' ''duplicate span_id'' span_list = Inr spans"
    "each (\<lambda>(i, s). check_span st envelope sources s) spans = Inr ()"
    "items envelope ''messages'' = Inr message_list"
    "keyed_items ''message_id'' ''duplicate message_id'' message_list = Inr messages"
    "each (check_message st envelope spans messages) message_list = Inr ()"
    by (elim exE conjE) (rule that, simp_all)
  have "\<forall>(i, s) \<in> set sources. \<exists>a. str_field s ''artifact_id'' = Inr a
       \<and> is_ok (verify_artifact (conv_sha cfg) (conv_artifacts st) a)"
    using p(3) by (fastforce simp: is_ok_iff)
  moreover have "\<forall>(i, s) \<in> set spans. check_span st envelope sources s = Inr ()" using p(6) by auto
  moreover have "\<forall>m \<in> set message_list. check_message st envelope spans messages m = Inr ()" using p(9) by simp
  ultimately show ?thesis using p that by blast
qed

lemma verify_artifact_never_False: "verify_artifact sha st a = Inr b \<Longrightarrow> b"
  unfolding verify_artifact_def by (simp add: rbind_Inr_iff split: if_split_asm)

lemma verify_artifact_True: "is_ok (verify_artifact sha st a) \<longleftrightarrow> verify_artifact sha st a = Inr True"
proof
  assume "is_ok (verify_artifact sha st a)"
  then obtain b where "verify_artifact sha st a = Inr b" by (rule is_okE)
  with verify_artifact_never_False [OF this] show "verify_artifact sha st a = Inr True" by (cases b) simp_all
qed (auto simp: is_ok_iff)

lemma check_span_D:
  assumes "check_span st envelope sources span = Inr u"
  obtains sid source where "str_field span ''source_id'' = Inr sid" "map_of sources sid = Some source"
    "status_is source ''reconstructed'' = Inr False \<or> status_is span ''verbatim'' = Inr False"
proof -
  from assms obtain sid source r l where "str_field span ''source_id'' = Inr sid" "map_of sources sid = Some source"
    "status_is source ''reconstructed'' = Inr r" "(if r then status_is span ''verbatim'' else Inr False) = Inr l" "\<not> l"
    unfolding check_span_def rbind_Inr_iff of_option_Inr_iff check_Inr_iff by blast
  then show ?thesis by (intro that) (auto split: if_split_asm)
qed

text \<open>
  \<open>verbatim_passage\<close>: the span \<open>i\<close> is verbatim, its source is not reconstructed, the source's artifact
  passes verification, and the passage is the span's non-empty byte range of that artifact.
\<close>

definition verbatim_passage ::
  "conversation_config \<Rightarrow> conversation_store \<Rightarrow> (string \<times> json) list \<Rightarrow> (string \<times> json) list \<Rightarrow> string \<Rightarrow> string \<Rightarrow> bool" where
  "verbatim_passage cfg st sources spans i passage \<longleftrightarrow>
     (\<exists>span sid source a data start stop. map_of spans i = Some span \<and> status_is span ''verbatim'' = Inr True
        \<and> str_field span ''source_id'' = Inr sid \<and> map_of sources sid = Some source
        \<and> status_is source ''reconstructed'' = Inr False \<and> str_field source ''artifact_id'' = Inr a
        \<and> verify_artifact (conv_sha cfg) (conv_artifacts st) a = Inr True \<and> read_bytes (conv_artifacts st) a = Inr data
        \<and> start < stop \<and> stop \<le> length data \<and> passage = drop start (take stop data) \<and> utf8_valid passage)"

lemma span_bounds_Inr: "span_bounds data span = Inr (start, stop) \<Longrightarrow> start < stop \<and> stop \<le> length data"
  by (auto simp: span_bounds_def split: if_split_asm)

lemma resolved_passage:
  assumes sources: "items envelope ''sources'' = Inr source_list"
      "keyed_items ''source_id'' ''duplicate source_id'' source_list = Inr sources"
    and verified: "\<forall>(i, s) \<in> set sources. \<exists>a. str_field s ''artifact_id'' = Inr a
       \<and> is_ok (verify_artifact (conv_sha cfg) (conv_artifacts st) a)"
    and spans: "items envelope ''spans'' = Inr span_list" "keyed_items ''span_id'' ''duplicate span_id'' span_list = Inr spans"
    and checked: "\<forall>(i, s) \<in> set spans. check_span st envelope sources s = Inr ()"
    and span: "map_of spans i = Some span" "status_is span ''verbatim'' = Inr True"
    and found: "resolve_span_text st envelope i = Inr passage"
  shows "verbatim_passage cfg st sources spans i passage"
proof -
  have "(i, span) \<in> set spans" using span(1) by (rule map_of_SomeD)
  then have "check_span st envelope sources span = Inr ()" using checked by auto
  then obtain sid source where s: "str_field span ''source_id'' = Inr sid" "map_of sources sid = Some source"
    "status_is source ''reconstructed'' = Inr False" using span(2) by (auto elim: check_span_D)
  from map_of_SomeD [OF s(2)] verified obtain a where a: "str_field source ''artifact_id'' = Inr a"
    "verify_artifact (conv_sha cfg) (conv_artifacts st) a = Inr True" using verify_artifact_True by fastforce
  from found have b: "resolve_span_bytes st envelope i = Inr passage" "utf8_valid passage"
    by (auto simp: resolve_span_text_def split: if_split_asm)
  have sid: "index span ''source_id'' = Inr (JStr sid)" using s(1) by (auto simp: str_field_def)
  from b(1) obtain data start stop where "read_bytes (conv_artifacts st) a = Inr data"
    "span_bounds data span = Inr (start, stop)" "passage = drop start (take stop data)"
    unfolding resolve_span_bytes_def spans(1) sources(1) rbind.simps find_item_map [OF spans(2)]
      span(1) of_option_Some sid find_item_map [OF sources(2)] s(2) a(1) rbind_Inr_iff by auto
  then show ?thesis unfolding verbatim_passage_def using span s a b(2) span_bounds_Inr by blast
qed

lemma referenced_spans_D:
  assumes "referenced_spans spans m = Inr refs"
  shows "\<exists>v. index m ''source_span_refs'' = Inr v \<and> py_iter v = Inr (map (JStr \<circ> fst) refs)"
    and "(i, s) \<in> set refs \<Longrightarrow> map_of spans i = Some s"
proof -
  from assms obtain v vs where v: "index m ''source_span_refs'' = Inr v" "py_iter v = Inr vs"
    "rmap (\<lambda>r. rbind (key_str r) (\<lambda>i.
         rbind (of_option (Exn ConversationProvenanceError ''message '') (map_of spans i)) (\<lambda>s. Inr (i, s)))) vs = Inr refs"
    unfolding referenced_spans_def rbind_Inr_iff by blast
  from v(3) have "vs = map (JStr \<circ> fst) refs" by (induction vs arbitrary: refs) auto
  with v show "\<exists>v. index m ''source_span_refs'' = Inr v \<and> py_iter v = Inr (map (JStr \<circ> fst) refs)" by blast
  show "(i, s) \<in> set refs \<Longrightarrow> map_of spans i = Some s" using rmap_Inr_set [OF v(3)] by auto
qed

lemma verbatim_message:
  assumes "validate_provenance cfg st envelope = Inr u"
    and "items envelope ''messages'' = Inr ms" "m \<in> set ms" "status_is m ''verbatim'' = Inr True"
  shows "\<exists>source_list sources span_list spans v ids texts.
      items envelope ''sources'' = Inr source_list \<and> keyed_items ''source_id'' ''duplicate source_id'' source_list = Inr sources
    \<and> items envelope ''spans'' = Inr span_list \<and> keyed_items ''span_id'' ''duplicate span_id'' span_list = Inr spans
    \<and> index m ''source_span_refs'' = Inr v \<and> py_iter v = Inr (map JStr ids)
    \<and> list_all2 (verbatim_passage cfg st sources spans) ids texts \<and> index m ''text'' = Inr (JStr (concat texts))"
proof -
  from assms(1) obtain source_list sources span_list spans message_list messages where
    p: "items envelope ''sources'' = Inr source_list" "keyed_items ''source_id'' ''duplicate source_id'' source_list = Inr sources"
    "\<forall>(i, s) \<in> set sources. \<exists>a. str_field s ''artifact_id'' = Inr a
       \<and> is_ok (verify_artifact (conv_sha cfg) (conv_artifacts st) a)"
    "items envelope ''spans'' = Inr span_list" "keyed_items ''span_id'' ''duplicate span_id'' span_list = Inr spans"
    "\<forall>(i, s) \<in> set spans. check_span st envelope sources s = Inr ()"
    "items envelope ''messages'' = Inr message_list"
    "\<forall>m \<in> set message_list. check_message st envelope spans messages m = Inr ()"
    by (rule validate_provenance_D)
  have "check_message st envelope spans messages m = Inr ()" using p(7,8) assms(2,3) by simp
  then obtain refs where refs: "referenced_spans spans m = Inr refs" "check_verbatim st envelope refs m = Inr ()"
    unfolding check_message_def rbind_Inr_iff by blast
  from refs(2) assms(4) obtain texts where t:
    "each (\<lambda>(i, s). rbind (status_is s ''verbatim'') (\<lambda>ok. check ok (Exn ConversationProvenanceError
              ''verbatim message cannot depend on reconstructed source spans''))) refs = Inr ()"
    "rmap (\<lambda>(i, s). resolve_span_text st envelope i) refs = Inr texts"
    "index m ''text'' = Inr (JStr (concat texts))"
    unfolding check_verbatim_def by auto
  note r = referenced_spans_D [OF refs(1)]
  have "verbatim_passage cfg st sources spans (fst (refs ! k)) (texts ! k)" if k: "k < length refs" for k
  proof -
    obtain i s where eq: "refs ! k = (i, s)" by force
    then have "(i, s) \<in> set refs" using nth_mem [OF k] by simp
    then have "map_of spans i = Some s" "status_is s ''verbatim'' = Inr True" using r(2) t(1) by fastforce+
    moreover have "resolve_span_text st envelope i = Inr (texts ! k)"
      using t(2) k eq unfolding rmap_Inr_iff by (metis (mono_tags, lifting) case_prod_conv)
    ultimately show ?thesis using resolved_passage [OF p(1-6)] eq by simp
  qed
  moreover have "length texts = length refs" using t(2) by (simp add: rmap_Inr_iff)
  ultimately have "list_all2 (verbatim_passage cfg st sources spans) (map fst refs) texts"
    by (simp add: list_all2_conv_all_nth)
  moreover obtain v where "index m ''source_span_refs'' = Inr v" "py_iter v = Inr (map JStr (map fst refs))"
    using r(1) by auto
  ultimately show ?thesis using p t(3) by blast
qed

section \<open>Threads\<close>

lemma check_parent_D:
  assumes "check_parent messages m = Inr u" and "index m ''parent_message_id'' = Inr (JStr i)"
  shows "\<exists>parent a b. map_of messages i = Some parent \<and> int_field parent ''sequence'' = Inr a
    \<and> int_field m ''sequence'' = Inr b \<and> a < b"
  using assms by (auto simp: check_parent_def)

text \<open>\<open>reply_to\<close>: the pairs of a message and the message it names as its parent.\<close>

definition reply_to :: "json list \<Rightarrow> (string \<times> string) set" where
  "reply_to ms = {(i, p). \<exists>m \<in> set ms. str_field m ''message_id'' = Inr i
     \<and> index m ''parent_message_id'' = Inr (JStr p)}"

lemma keyed_items_map_of:
  assumes "keyed_items k message xs = Inr ps" and "x \<in> set xs" "str_field x k = Inr i"
  shows "map_of ps i = Some x"
proof -
  note d = keyed_items_D [OF assms(1)]
  from assms(2) d(2) obtain j where j: "(j, x) \<in> set ps" by (metis (no_types) list.set_map imageE prod.collapse)
  then have "str_field x k = Inr j" by (rule d(3))
  with assms(3) j d(1) show ?thesis by simp
qed

lemma replies_descend:
  assumes "keyed_items ''message_id'' message ms = Inr messages"
    and "\<forall>m \<in> set ms. check_parent messages m = Inr ()" and "(i, p) \<in> reply_to ms"
  shows "\<exists>m parent a b. map_of messages i = Some m \<and> map_of messages p = Some parent
    \<and> int_field parent ''sequence'' = Inr a \<and> int_field m ''sequence'' = Inr b \<and> a < b"
proof -
  from assms(3) obtain m where m: "m \<in> set ms" "str_field m ''message_id'' = Inr i"
    "index m ''parent_message_id'' = Inr (JStr p)" by (auto simp: reply_to_def)
  have "map_of messages i = Some m" by (rule keyed_items_map_of [OF assms(1) m(1,2)])
  then show ?thesis using check_parent_D [of messages m "()" p] assms(2) m(1,3) by blast
qed

lemma descending_acyclic:
  assumes "\<And>x y. (x, y) \<in> r \<Longrightarrow> f y < (f x :: int)"
  shows "acyclic r"
proof -
  have "f y < f x" if "(x, y) \<in> r\<^sup>+" for x y
    using that assms by (induction rule: trancl_induct) (auto intro: less_trans)
  then show ?thesis by (auto simp: acyclic_def)
qed

lemma replies_acyclic:
  assumes "keyed_items ''message_id'' message ms = Inr messages" and "\<forall>m \<in> set ms. check_parent messages m = Inr ()"
  shows "acyclic (reply_to ms)"
proof (rule descending_acyclic)
  let ?seq = "\<lambda>i. case map_of messages i of None \<Rightarrow> 0
    | Some m \<Rightarrow> (case int_field m ''sequence'' of Inl _ \<Rightarrow> 0 | Inr n \<Rightarrow> n)"
  show "?seq p < ?seq i" if "(i, p) \<in> reply_to ms" for i p
    using replies_descend [OF assms that] by (elim exE conjE) simp
qed

section \<open>Lineage paths\<close>

definition lineage_step :: "lineage_edge list \<Rightarrow> string list \<Rightarrow> string \<Rightarrow> string \<Rightarrow> bool" where
  "lineage_step edges allowed x y \<longleftrightarrow>
     (\<exists>e \<in> set edges. edge_relation e \<in> set allowed \<and> edge_source e = x \<and> edge_target e = y)"

lemma edge_in_update: "edge_in (AList.update s (targets adj s @ [t]) adj) x y \<longleftrightarrow> edge_in adj x y \<or> (x = s \<and> y = t)"
proof -
  have "map_of (AList.update s (targets adj s @ [t]) adj) x = (if x = s then Some (targets adj s @ [t]) else map_of adj x)"
    by (simp add: update_conv)
  then have "targets (AList.update s (targets adj s @ [t]) adj) x = (if x = s then targets adj s @ [t] else targets adj x)"
    unfolding targets_def by (simp only: option.case if_distrib [where f = "case_option [] (\<lambda>ts. ts)"])
  then show ?thesis unfolding edge_in_def
    by (cases "x = s") (simp_all only: if_True if_False set_append list.set Un_iff insert_iff empty_iff simp_thms)
qed

lemma edge_in_build:
  "edge_in (foldl (\<lambda>adj e. if edge_relation e \<notin> set allowed then adj
      else AList.update (edge_source e) (targets adj (edge_source e) @ [edge_target e]) adj) adj edges) x y
    \<longleftrightarrow> edge_in adj x y \<or> lineage_step edges allowed x y"
  by (induction edges arbitrary: adj) (auto simp: edge_in_update lineage_step_def)

lemma edge_in_adjacency: "edge_in (build_adjacency edges allowed) x y \<longleftrightarrow> lineage_step edges allowed x y"
  unfolding build_adjacency_def edge_in_build by (simp add: lineage_step_def edge_in_def targets_def)

text \<open>\<open>lineage_walk\<close>: the ids form a walk from \<open>start\<close> to \<open>goal\<close> along edges of the allowed relations.\<close>

definition lineage_walk :: "lineage \<Rightarrow> string list \<Rightarrow> string \<Rightarrow> string \<Rightarrow> string list \<Rightarrow> bool" where
  "lineage_walk l allowed start goal w \<longleftrightarrow> w \<noteq> [] \<and> hd w = start \<and> last w = goal
     \<and> (\<forall>i. Suc i < length w \<longrightarrow> lineage_step (lin_edges l) allowed (w ! i) (w ! Suc i))"

lemma walk_in_iff: "walk_in adj w \<longleftrightarrow> (\<forall>i. Suc i < length w \<longrightarrow> edge_in adj (w ! i) (w ! Suc i))"
proof (induction adj w rule: walk_in.induct)
  case (3 adj x y xs)
  have "(\<forall>i. Suc i < length (x # y # xs) \<longrightarrow> edge_in adj ((x # y # xs) ! i) ((x # y # xs) ! Suc i))
      \<longleftrightarrow> edge_in adj x y \<and> (\<forall>i. Suc i < length (y # xs) \<longrightarrow> edge_in adj ((y # xs) ! i) ((y # xs) ! Suc i))"
    (is "?l \<longleftrightarrow> ?r")
  proof
    assume l: ?l
    from l [rule_format, of 0] l [rule_format, of "Suc i" for i] show ?r by simp
  next
    assume r: ?r
    show ?l
    proof (intro allI impI)
      fix i assume "Suc i < length (x # y # xs)"
      then show "edge_in adj ((x # y # xs) ! i) ((x # y # xs) ! Suc i)" using r by (cases i) simp_all
    qed
  qed
  then show ?case unfolding walk_in.simps 3 by blast
qed simp_all

lemma lineage_walk_iff:
  "lineage_walk l allowed start goal w \<longleftrightarrow>
    walk_in (build_adjacency (lin_edges l) allowed) w \<and> w \<noteq> [] \<and> hd w = start \<and> last w = goal"
  unfolding lineage_walk_def walk_in_iff edge_in_adjacency by auto

definition allowed_relations :: "string list option \<Rightarrow> string list" where
  "allowed_relations ts = (if ts = None \<or> ts = Some [] then PATH_RELATIONS else the ts)"

lemma search_correct:
  "case bfs (build_adjacency (lin_edges l) allowed) goal [start] [(start, [start])] of
      None \<Rightarrow> \<nexists>w. lineage_walk l allowed start goal w
    | Some p \<Rightarrow> lineage_walk l allowed start goal p \<and> (\<forall>w. lineage_walk l allowed start goal w \<longrightarrow> length p \<le> length w)"
  unfolding lineage_walk_iff
  using bfs_correct [OF bfs_inv_start [where adj = "build_adjacency (lin_edges l) allowed" and s = start and goal = goal]]
  by (cases "bfs (build_adjacency (lin_edges l) allowed) goal [start] [(start, [start])]") (simp_all del: bfs.simps)

lemma make_lineage_edges:
  assumes "make_lineage cfg st doc envelope = Inr l" and "e \<in> set (lin_edges l)"
  shows "map_of (lin_nodes l) (edge_source e) \<noteq> None \<and> map_of (lin_nodes l) (edge_target e) \<noteq> None"
proof -
  from assms(1) have "check_edges (lin_nodes l) (lin_edges l) = Inr ()"
    unfolding make_lineage_def by (auto simp del: each_Inr_iff)
  then show ?thesis using assms(2) unfolding check_edges_def by simp
qed

lemma walk_nodes_known:
  assumes "make_lineage cfg st doc envelope = Inr l" and "map_of (lin_nodes l) start \<noteq> None"
    and "lineage_walk l allowed start goal w" and "i < length w"
  shows "map_of (lin_nodes l) (w ! i) \<noteq> None"
proof (cases i)
  case 0
  have "w ! 0 = start" using assms(3) by (auto simp: lineage_walk_def hd_conv_nth)
  then show ?thesis using 0 assms(2) by simp
next
  case (Suc j)
  then have "lineage_step (lin_edges l) allowed (w ! j) (w ! i)" using assms(3,4) by (simp add: lineage_walk_def)
  then obtain e where "e \<in> set (lin_edges l)" "edge_target e = w ! i" by (auto simp: lineage_step_def)
  then show ?thesis using make_lineage_edges [OF assms(1)] by metis
qed

lemma walk_nodes:
  assumes "make_lineage cfg st doc envelope = Inr l" and "map_of (lin_nodes l) start \<noteq> None"
    and "lineage_walk l allowed start goal w"
  shows "\<exists>ns. rmap (lineage_node l) w = Inr ns"
proof -
  have "is_ok (lineage_node l x)" if x: "x \<in> set w" for x
  proof -
    obtain i where "i < length w" "x = w ! i" using x by (auto simp: in_set_conv_nth)
    then show ?thesis using walk_nodes_known [OF assms] by (auto simp: lineage_node_def is_ok_iff)
  qed
  then have "is_ok (rmap (lineage_node l) w)" by (induction w) (auto simp: is_ok_iff)
  then show ?thesis by (simp add: is_ok_iff)
qed

lemma lineage_path_search:
  "lineage_path l start goal ts = (case bfs (build_adjacency (lin_edges l) (allowed_relations ts)) goal [start] [(start, [start])]
     of None \<Rightarrow> Inr [] | Some p \<Rightarrow> rmap (lineage_node l) p)"
  by (auto simp: lineage_path_def allowed_relations_def split: option.splits list.splits)

section \<open>Properties\<close>

lemma commit_validated:
  assumes "commit_conversation cfg st envelope = (st', Inr v)"
  shows "validate_provenance cfg st envelope = Inr ()"
  using assms unfolding commit_conversation_def by (auto elim!: sbind_InrE)

definition demo_conv :: conversation_config where
  "demo_conv = \<lparr> conv_sha = pad_sha, conv_schema = is_obj, lineage_schema = is_obj \<rparr>"

definition demo_conv_store :: conversation_store where
  "demo_conv_store = \<lparr> envelopes = [], conv_artifacts = fst (put_bytes pad_sha empty_artifacts ''hello world'' ''t'') \<rparr>"

definition demo_message :: "string \<Rightarrow> int \<Rightarrow> json \<Rightarrow> string \<Rightarrow> json list \<Rightarrow> json" where
  "demo_message i n parent status refs = JObj [(''message_id'', JStr i), (''sequence'', JInt n),
     (''parent_message_id'', parent), (''evidence_status'', JStr status), (''text'', JStr ''world''),
     (''source_span_refs'', JArr refs)]"

definition demo_envelope :: dict where
  "demo_envelope =
     [(''conversation_id'', JStr ''conv_1''), (''source_status'', JStr ''mixed''),
      (''sources'', JArr [JObj [(''source_id'', JStr ''s''), (''evidence_status'', JStr ''verbatim''),
         (''artifact_id'', JStr (artifact_id_for_digest (pad_sha ''hello world'')))]]),
      (''spans'', JArr [JObj [(''span_id'', JStr ''p''), (''source_id'', JStr ''s''), (''byte_start'', JInt 6),
         (''byte_end'', JInt 11), (''evidence_status'', JStr ''verbatim'')]]),
      (''messages'', JArr [demo_message ''m1'' 1 JNull ''verbatim'' [JStr ''p''],
         demo_message ''m2'' 2 (JStr ''m1'') ''reconstructed'' []])]"

lemma demo_conversation_ok: "is_ok (snd (commit_conversation demo_conv demo_conv_store demo_envelope))"
  by code_simp

lemma demo_committed:
  obtains st v where "commit_conversation demo_conv demo_conv_store demo_envelope = (st, Inr v)"
  using demo_conversation_ok by (cases "commit_conversation demo_conv demo_conv_store demo_envelope") (auto simp: is_ok_iff)



text \<open>Threads cannot be circular: in every conversation that \<open>commit\<close> accepts, each message that
  names a parent names a message of the conversation that precedes it in sequence, so following
  parents from any message ends.\<close>

lemma conversation_threads_acyclic:
  assumes "commit_conversation cfg st envelope = (st', Inr v)" and "items envelope ''messages'' = Inr ms"
  shows "acyclic (reply_to ms) \<and> (\<forall>(i, p) \<in> reply_to ms. \<exists>parent \<in> set ms. str_field parent ''message_id'' = Inr p)"
proof -
  from commit_validated [OF assms(1)] obtain messages spans where
    k: "keyed_items ''message_id'' ''duplicate message_id'' ms = Inr messages"
    and c: "\<forall>m \<in> set ms. check_message st envelope spans messages m = Inr ()"
    by (rule validate_provenance_D) (use assms(2) in simp)
  from c have p: "\<forall>m \<in> set ms. check_parent messages m = Inr ()" by (auto simp: check_message_def)
  have "\<exists>parent \<in> set ms. str_field parent ''message_id'' = Inr q" if "(i, q) \<in> reply_to ms" for i q
  proof -
    from replies_descend [OF k p that] obtain parent where "map_of messages q = Some parent" by blast
    then have m: "(q, parent) \<in> set messages" by (rule map_of_SomeD)
    then have "parent \<in> set (map snd messages)" by force
    then show ?thesis using keyed_items_D(2,3) [OF k] m by auto
  qed
  then show ?thesis using replies_acyclic [OF k p] by blast
qed

definition demo_node :: "string \<Rightarrow> json" where
  "demo_node i = JObj [(''node_id'', JStr i), (''source_message_refs'', JArr []), (''source_span_refs'', JArr [JStr ''p'']),
     (''evidence_status'', JStr ''reconstructed''), (''kind'', JStr ''conclusion''), (''position_state'', JStr ''current'')]"

definition demo_edge :: "string \<Rightarrow> string \<Rightarrow> string \<Rightarrow> string \<Rightarrow> json" where
  "demo_edge i k a b = JObj [(''edge_id'', JStr i), (''relation_type'', JStr k), (''source_node_id'', JStr a),
     (''target_node_id'', JStr b)]"

definition demo_lineage_doc :: dict where
  "demo_lineage_doc = [(''conversation_id'', JStr ''conv_1''), (''nodes'', JArr (map demo_node [''a'', ''b'', ''c''])),
     (''edges'', JArr [demo_edge ''e1'' ''leads_to'' ''a'' ''b'', demo_edge ''e2'' ''supports'' ''b'' ''c'',
        demo_edge ''e3'' ''rebuts'' ''a'' ''c'']),
     (''current_conclusion_refs'', JArr [JStr ''c''])]"

lemma demo_lineage_ok: "is_ok (make_lineage demo_conv demo_conv_store demo_lineage_doc demo_envelope)"
  by code_simp

definition demo_lineage :: lineage where
  "demo_lineage = (case make_lineage demo_conv demo_conv_store demo_lineage_doc demo_envelope of Inr l \<Rightarrow> l
     | Inl _ \<Rightarrow> \<lparr> lin_doc = [], lin_nodes = [], lin_edges = [], lin_envelope = [] \<rparr>)"

lemma demo_lineage: "make_lineage demo_conv demo_conv_store demo_lineage_doc demo_envelope = Inr demo_lineage"
  using demo_lineage_ok unfolding demo_lineage_def by (auto simp: is_ok_iff)

text \<open>C20. Lineage paths are shortest and complete: on any lineage the constructor accepts and from any
  of its nodes, \<open>path\<close> returns the nodes of a walk from start to end along edges of the allowed
  relations, with as few nodes as any such walk has; it returns no nodes exactly when there is no
  such walk. The search always ends without an error, also on cyclic lineages.\<close>

theorem lineage_path_shortest:
  assumes "make_lineage cfg st doc envelope = Inr l" and "lineage_node l start = Inr n"
  shows "if \<exists>w. lineage_walk l (allowed_relations ts) start goal w
    then \<exists>ids ns. lineage_path l start goal ts = Inr ns \<and> rmap (lineage_node l) ids = Inr ns
       \<and> lineage_walk l (allowed_relations ts) start goal ids
       \<and> (\<forall>w. lineage_walk l (allowed_relations ts) start goal w \<longrightarrow> length ids \<le> length w)
    else lineage_path l start goal ts = Inr []"
proof (cases "bfs (build_adjacency (lin_edges l) (allowed_relations ts)) goal [start] [(start, [start])]")
  case None
  then show ?thesis using search_correct [where l = l and allowed = "allowed_relations ts" and goal = goal and start = start]
    by (simp add: lineage_path_search del: bfs.simps)
next
  case (Some p)
  then have p: "lineage_walk l (allowed_relations ts) start goal p"
      "\<forall>w. lineage_walk l (allowed_relations ts) start goal w \<longrightarrow> length p \<le> length w"
    using search_correct [where l = l and allowed = "allowed_relations ts" and goal = goal and start = start] by (simp_all del: bfs.simps)
  have "map_of (lin_nodes l) start \<noteq> None" using assms(2) by (auto simp: lineage_node_def)
  from walk_nodes [OF assms(1) this p(1)] obtain ns where "rmap (lineage_node l) p = Inr ns" by blast
  then show ?thesis using Some p by (auto simp: lineage_path_search simp del: bfs.simps)
qed

lemma demo_lineage_start: "is_ok (lineage_node demo_lineage ''a'')"
  by code_simp

lemma demo_lineage_walk: "lineage_walk demo_lineage (allowed_relations None) ''a'' ''c'' [''a'', ''b'', ''c'']"
  unfolding lineage_walk_iff by code_simp

theorem lineage_path_shortest_witness:
  "\<exists>ids ns. lineage_path demo_lineage ''a'' ''c'' None = Inr ns \<and> rmap (lineage_node demo_lineage) ids = Inr ns
     \<and> length ids \<le> 3"
proof -
  from demo_lineage_start obtain n where "lineage_node demo_lineage ''a'' = Inr n" by (rule is_okE)
  from lineage_path_shortest [OF demo_lineage this, of None "''c''"] demo_lineage_walk obtain ids ns
    where p: "lineage_path demo_lineage ''a'' ''c'' None = Inr ns" "rmap (lineage_node demo_lineage) ids = Inr ns"
    and w: "\<forall>w. lineage_walk demo_lineage (allowed_relations None) ''a'' ''c'' w \<longrightarrow> length ids \<le> length w"
    by (auto split: if_split_asm)
  from w demo_lineage_walk have "length ids \<le> length [''a'', ''b'', ''c'']" by blast
  with p show ?thesis by auto
qed

end
