(* ===== verification/Clock.thy ===== *)
theory Clock
  imports Json
begin

text \<open>
  \<open>datetime.fromisoformat\<close> of Python 3.11 on the calendar formats of ISO 8601, extended
  (\<open>2026-01-31T10:00:00.5+02:00\<close>) and basic (\<open>20260131T100000Z\<close>), and the microseconds of a moment
  since the year 1. ISO week dates (\<open>2026-W05\<close>) are not read: they raise \<open>ValueError\<close> here.
\<close>

section \<open>Calendar\<close>

record datetime =
  dt_year :: int
  dt_month :: int
  dt_day :: int
  dt_hour :: int
  dt_minute :: int
  dt_second :: int
  dt_micro :: int
  dt_offset :: "int option"

definition leap_year :: "int \<Rightarrow> bool" where
  "leap_year y \<longleftrightarrow> y mod 4 = 0 \<and> (y mod 100 \<noteq> 0 \<or> y mod 400 = 0)"

definition days_in_month :: "int \<Rightarrow> int \<Rightarrow> int" where
  "days_in_month y m =
     (if m = 2 then (if leap_year y then 29 else 28) else if m \<in> {4, 6, 9, 11} then 30 else 31)"

definition days_before_year :: "int \<Rightarrow> int" where
  "days_before_year y = (let z = y - 1 in z * 365 + z div 4 - z div 100 + z div 400)"

definition days_before_month :: "int \<Rightarrow> int \<Rightarrow> int" where
  "days_before_month y m = sum_list (map (days_in_month y) [1..m - 1])"

definition valid_datetime :: "datetime \<Rightarrow> bool" where
  "valid_datetime d \<longleftrightarrow> 1 \<le> dt_year d \<and> dt_year d \<le> 9999 \<and> 1 \<le> dt_month d \<and> dt_month d \<le> 12
     \<and> 1 \<le> dt_day d \<and> dt_day d \<le> days_in_month (dt_year d) (dt_month d)
     \<and> 0 \<le> dt_hour d \<and> dt_hour d < 24 \<and> 0 \<le> dt_minute d \<and> dt_minute d < 60 \<and> 0 \<le> dt_second d \<and> dt_second d < 60 \<and> 0 \<le> dt_micro d \<and> dt_micro d < 1000000
     \<and> (case dt_offset d of None \<Rightarrow> True | Some off \<Rightarrow> \<bar>off\<bar> < 86400000000)"

text \<open>The moment as microseconds of UTC since the first day of the year 1; \<open>None\<close> is the offset of a naive time.\<close>

definition utc_micros :: "datetime \<Rightarrow> int" where
  "utc_micros d =
     ((((days_before_year (dt_year d) + days_before_month (dt_year d) (dt_month d) + (dt_day d - 1)) * 24
        + dt_hour d) * 60 + dt_minute d) * 60 + dt_second d) * 1000000 + dt_micro d
     - (case dt_offset d of None \<Rightarrow> 0 | Some off \<Rightarrow> off)"

section \<open>Reading a time\<close>

definition bad_iso :: "'a res" where
  "bad_iso = Inl (Exn ValueError ''Invalid isoformat string: '')"

definition read_digits :: "string \<Rightarrow> int" where
  "read_digits s = foldl (\<lambda>n c. 10 * n + (of_char c - 48)) 0 s"

definition digits_of :: "nat \<Rightarrow> string \<Rightarrow> (int \<times> string) res" where
  "digits_of n s =
     (if length s < n \<or> \<not> list_all is_digit (take n s) then bad_iso
      else Inr (read_digits (take n s), drop n s))"

definition fraction_micros :: "string \<Rightarrow> int res" where
  "fraction_micros s =
     (case s of [] \<Rightarrow> Inr 0
      | c # ds \<Rightarrow>
        if c \<notin> {CHR ''.'', CHR '',''} \<or> ds = [] \<or> \<not> list_all is_digit ds then bad_iso
        else Inr (read_digits (take 6 ds) * 10 ^ (6 - length (take 6 ds))))"

definition clock_fields :: "string \<Rightarrow> (int \<times> int \<times> int \<times> int) res" where
  "clock_fields s =
     rbind (digits_of 2 s) (\<lambda>(h, r).
     if r = [] then Inr (h, 0, 0, 0)
     else let sep = (hd r = CHR '':''); next_field = (\<lambda>r. if sep then drop 1 r else r) in
       rbind (digits_of 2 (next_field r)) (\<lambda>(m, r).
       if r = [] then Inr (h, m, 0, 0)
       else if sep \<and> hd r \<noteq> CHR '':'' then bad_iso
       else rbind (digits_of 2 (next_field r)) (\<lambda>(s, r).
         rbind (fraction_micros r) (\<lambda>us. Inr (h, m, s, us)))))"

definition tz_offset :: "char \<Rightarrow> string \<Rightarrow> int res" where
  "tz_offset sign s =
     (if length s \<in> {0, 1, 3} then bad_iso
      else rbind (clock_fields s) (\<lambda>(h, m, sec, us).
        let off = ((h * 60 + m) * 60 + sec) * 1000000 + us
        in Inr (if sign = CHR ''-'' then - off else off)))"

text \<open>The zone starts at the first \<open>-\<close>, else at the first \<open>+\<close>, else at the first \<open>Z\<close>.\<close>

definition zone_split :: "string \<Rightarrow> string \<times> string" where
  "zone_split s =
     (let z = (if CHR ''-'' \<in> set s then CHR ''-'' else if CHR ''+'' \<in> set s then CHR ''+'' else CHR ''Z'')
      in (takeWhile (\<lambda>c. c \<noteq> z) s, dropWhile (\<lambda>c. c \<noteq> z) s))"

definition clock_time :: "string \<Rightarrow> ((int \<times> int \<times> int \<times> int) \<times> int option) res" where
  "clock_time s =
     (case zone_split s of (t, zone) \<Rightarrow>
        rbind (clock_fields t) (\<lambda>fields.
        case zone of [] \<Rightarrow> Inr (fields, None)
        | c # rest \<Rightarrow>
          if c = CHR ''Z'' \<and> rest = [] then Inr (fields, Some 0)
          else rbind (tz_offset c rest) (\<lambda>off. Inr (fields, Some off))))"

definition calendar_date :: "string \<Rightarrow> ((int \<times> int \<times> int) \<times> string) res" where
  "calendar_date s =
     rbind (digits_of 4 s) (\<lambda>(y, r).
     let sep = (r \<noteq> [] \<and> hd r = CHR ''-'') in
     rbind (digits_of 2 (if sep then drop 1 r else r)) (\<lambda>(m, r).
     if sep \<and> (r = [] \<or> hd r \<noteq> CHR ''-'') then bad_iso
     else rbind (digits_of 2 (if sep then drop 1 r else r)) (\<lambda>(d, r). Inr ((y, m, d), r))))"

definition fromisoformat :: "string \<Rightarrow> datetime res" where
  "fromisoformat text =
     rbind (calendar_date text) (\<lambda>((y, m, d), r).
     rbind (if drop 1 r = [] then Inr ((0, 0, 0, 0), None) else clock_time (drop 1 r)) (\<lambda>((h, mi, s, us), off).
     let t = \<lparr> dt_year = y, dt_month = m, dt_day = d, dt_hour = h, dt_minute = mi, dt_second = s,
               dt_micro = us, dt_offset = off \<rparr>
     in if valid_datetime t then Inr t else bad_iso))"

text \<open>\<open>value.replace("Z", "+00:00")\<close>.\<close>

fun replace_z :: "string \<Rightarrow> string" where
  "replace_z [] = []"
| "replace_z (c # cs) = (if c = CHR ''Z'' then ''+00:00'' @ replace_z cs else c # replace_z cs)"

definition parse_instant :: "string \<Rightarrow> datetime res" where
  "parse_instant text = fromisoformat (replace_z text)"

lemma fromisoformat_valid: "fromisoformat text = Inr d \<Longrightarrow> valid_datetime d"
  by (auto simp: fromisoformat_def bad_iso_def Let_def split: if_split_asm)

lemma parse_instant_valid: "parse_instant text = Inr d \<Longrightarrow> valid_datetime d"
  unfolding parse_instant_def by (rule fromisoformat_valid)

lemma replace_z_id: "CHR ''Z'' \<notin> set s \<Longrightarrow> replace_z s = s"
  by (induction s) auto

end
