(* ===== verification/Projection.thy ===== *)
theory Projection
  imports Event_Store Clock
begin

text \<open>
  The materialized projection of the event log: the ledger of a build (\<open>projection/ledger.py\<close>), the
  Graphiti adapter (\<open>projection/graphiti.py\<close>), the worker's cycle (\<open>runtime/projector.py\<close>), the null
  projection and the receipt. The graph client, the visibility policy, the clock and the random
  attempt ids are the record \<open>projection_env\<close>; the state that an adapter changes is its ledger and
  the client's graph, a type parameter. The time of day and the random ids are read from the
  environment at a counter.
\<close>

section \<open>The ledger of a build\<close>

record ledger =
  ledger_build :: "string option"
  applied_files :: fs
  failure_files :: fs
  redaction_files :: fs

definition empty_ledger :: "string option \<Rightarrow> ledger" where
  "empty_ledger b = \<lparr> ledger_build = b, applied_files = [], failure_files = [], redaction_files = [] \<rparr>"

definition is_applied :: "ledger \<Rightarrow> string \<Rightarrow> bool" where
  "is_applied l i = exists_path (applied_files l) (event_path i)"

definition get_applied :: "ledger \<Rightarrow> string \<Rightarrow> json res" where
  "get_applied l i =
     (if exists_path (applied_files l) (event_path i) then read_json (applied_files l) (event_path i) else Inr JNull)"

definition iter_applied :: "ledger \<Rightarrow> json list res" where
  "iter_applied l = rmap (read_json (applied_files l)) (glob_json (applied_files l))"

definition is_purged :: "ledger \<Rightarrow> string \<Rightarrow> bool" where
  "is_purged l i = exists_path (redaction_files l) (event_path i)"

definition get_purge :: "ledger \<Rightarrow> string \<Rightarrow> json res" where
  "get_purge l i =
     (if exists_path (redaction_files l) (event_path i) then read_json (redaction_files l) (event_path i)
      else Inr JNull)"

text \<open>\<open>{**head, **record}\<close> with the build id added when the ledger has one.\<close>

definition ledger_payload :: "ledger \<Rightarrow> dict \<Rightarrow> dict \<Rightarrow> dict" where
  "ledger_payload l head extra =
     (let payload = foldl (\<lambda>d (k, v). AList.update k v d) head extra
      in case ledger_build l of None \<Rightarrow> payload
         | Some b \<Rightarrow> AList.update ''projection_build_id'' (JStr b) payload)"

definition record_applied :: "ledger \<Rightarrow> string \<Rightarrow> dict \<Rightarrow> ledger \<times> json res" where
  "record_applied l i extra =
     (let payload = ledger_payload l [(''event_id'', JStr i), (''status'', JStr ''applied'')] extra;
          (d, fresh) = publish_immutable (event_path i) (canonical (JObj payload)) (applied_files l);
          l' = l\<lparr>applied_files := d\<rparr>
      in if fresh then (l', Inr (JObj payload)) else (l', read_json d (event_path i)))"

definition record_failure :: "string \<Rightarrow> string \<Rightarrow> ledger \<Rightarrow> string \<Rightarrow> dict \<Rightarrow> ledger" where
  "record_failure attempt now l i extra =
     (let payload = ledger_payload l
            [(''event_id'', JStr i), (''status'', JStr ''failed''), (''recorded_at'', JStr now)] extra
      in l\<lparr>failure_files := fst (publish_immutable [i, attempt @ ''.json''] (canonical (JObj payload)) (failure_files l))\<rparr>)"

definition record_redaction :: "string \<Rightarrow> ledger \<Rightarrow> string \<Rightarrow> dict \<Rightarrow> ledger \<times> json res" where
  "record_redaction now l i extra =
     (let payload = ledger_payload l
            [(''event_id'', JStr i), (''status'', JStr ''redacted''), (''recorded_at'', JStr now)] extra;
          (d, fresh) = publish_immutable (event_path i) (canonical (JObj payload)) (redaction_files l);
          l' = l\<lparr>redaction_files := d\<rparr>
      in if fresh then (l', Inr (JObj payload)) else (l', read_json d (event_path i)))"

section \<open>Receipts and replay order\<close>

record receipt =
  rc_projection :: string
  rc_version :: string
  rc_event :: string
  rc_status :: string
  rc_detail :: "string option"

definition canonical_event_order :: "dict \<Rightarrow> string list res" where
  "canonical_event_order event =
     rbind (dindex event ''recorded_at'') (\<lambda>t. rbind (dindex event ''event_id'') (\<lambda>i. Inr [py_str t, py_str i]))"

definition ordered_events :: "dict list \<Rightarrow> dict list res" where
  "ordered_events evs =
     rbind (rmap (\<lambda>e. rbind (canonical_event_order e) (\<lambda>k. Inr (k, e))) evs) (\<lambda>keyed.
       Inr (map snd (sort_key fst keyed)))"

section \<open>The adapter\<close>

text \<open>\<open>json.dumps(event, sort_keys=True, ensure_ascii=False)\<close>, with the default separators.\<close>

fun enc_spaced :: "json \<Rightarrow> string"
and enc_spaced_elems :: "json list \<Rightarrow> string"
and enc_spaced_members :: "(string \<times> json) list \<Rightarrow> string" where
  "enc_spaced (JArr []) = ''[]''"
| "enc_spaced (JArr (v # vs)) = CHR ''['' # enc_spaced v @ enc_spaced_elems vs"
| "enc_spaced (JObj []) = ''{}''"
| "enc_spaced (JObj ((k, v) # ps)) = CHR ''{'' # enc_str k @ '': '' @ enc_spaced v @ enc_spaced_members ps"
| "enc_spaced v = enc v"
| "enc_spaced_elems [] = '']''"
| "enc_spaced_elems (v # vs) = '', '' @ enc_spaced v @ enc_spaced_elems vs"
| "enc_spaced_members [] = ''}''"
| "enc_spaced_members ((k, v) # ps) = '', '' @ enc_str k @ '': '' @ enc_spaced v @ enc_spaced_members ps"

record episode =
  ep_name :: string
  ep_body :: string
  ep_description :: string
  ep_time :: datetime
  ep_group :: json

record 'g projection_env =
  build_manifest :: dict
  visibility :: "(dict \<Rightarrow> bool res) option"
  add_episode :: "'g \<Rightarrow> episode \<Rightarrow> 'g \<times> string option res"
  remove_episode :: "'g \<Rightarrow> string \<Rightarrow> 'g \<times> unit res"
  error_type :: "exn \<Rightarrow> string"
  uuid_at :: "nat \<Rightarrow> string"
  now_at :: "nat \<Rightarrow> string"

record 'g projection =
  proj_ledger :: ledger
  graph :: 'g
  ticks :: nat

definition GRAPHITI_NAME :: string where
  "GRAPHITI_NAME = ''graphiti-neo4j''"

definition graphiti_receipt :: "string \<Rightarrow> string \<Rightarrow> string option \<Rightarrow> receipt" where
  "graphiti_receipt i status detail =
     \<lparr> rc_projection = GRAPHITI_NAME, rc_version = ''1'', rc_event = i, rc_status = status, rc_detail = detail \<rparr>"

definition proj_visible :: "'g projection_env \<Rightarrow> dict \<Rightarrow> bool res" where
  "proj_visible env event = (case visibility env of None \<Rightarrow> Inr True | Some policy \<Rightarrow> policy event)"

definition note_failure :: "'g projection_env \<Rightarrow> 'g projection \<Rightarrow> string \<Rightarrow> dict \<Rightarrow> 'g projection" where
  "note_failure env w i extra =
     w\<lparr>proj_ledger := record_failure (uuid_at env (ticks w)) (now_at env (ticks w)) (proj_ledger w) i
         ([(''projection'', JStr GRAPHITI_NAME), (''projection_version'', JStr ''1'')] @ extra
          @ [(''build_manifest'', JObj (build_manifest env))]),
       ticks := Suc (ticks w)\<rparr>"

definition note_redaction ::
  "'g projection_env \<Rightarrow> 'g projection \<Rightarrow> string \<Rightarrow> dict \<Rightarrow> 'g projection \<times> json res" where
  "note_redaction env w i extra =
     (let (l, r) = record_redaction (now_at env (ticks w)) (proj_ledger w) i
            ([(''projection'', JStr GRAPHITI_NAME), (''projection_version'', JStr ''1'')] @ extra
             @ [(''build_manifest'', JObj (build_manifest env))])
      in (w\<lparr>proj_ledger := l, ticks := Suc (ticks w)\<rparr>, r))"

definition remove_event ::
  "'g projection_env \<Rightarrow> 'g projection \<Rightarrow> string \<Rightarrow> string \<Rightarrow> 'g projection \<times> receipt res" where
  "remove_event env w i reason =
     (if is_purged (proj_ledger w) i
      then (w, Inr (graphiti_receipt i ''skipped'' (Some ''projection already redacted'')))
      else sbind (pure_res w (get_applied (proj_ledger w) i)) (\<lambda>w applied.
        if applied = JNull then
          sbind (note_redaction env w i [(''reason'', JStr reason), (''episode_uuid'', JNull)]) (\<lambda>w _.
            (w, Inr (graphiti_receipt i ''redacted'' (Some ''event was not materialized in this projection build''))))
        else sbind (pure_res w (get_attr applied ''episode_uuid'' JNull)) (\<lambda>w episode_uuid.
             sbind (pure_res w (get_attr applied ''group_id'' JNull)) (\<lambda>w gid.
        if \<not> truthy episode_uuid then
          (let detail = ''episode UUID unavailable in applied record; redaction-aware rebuild required''
           in (note_failure env w i [(''group_id'', gid), (''error_type'', JStr ''RedactionRebuildRequired''),
                 (''error'', JStr detail)],
               Inr (graphiti_receipt i ''failed'' (Some detail))))
        else
          (let (g, removed) = remove_episode env (graph w) (py_str episode_uuid); w' = w\<lparr>graph := g\<rparr>
           in case removed of
             Inl e \<Rightarrow>
               (note_failure env w' i [(''group_id'', gid), (''episode_uuid'', JStr (py_str episode_uuid)),
                   (''error_type'', JStr (error_type env e)), (''error'', JStr (exn_msg e))],
                Inr (graphiti_receipt i ''failed'' (Some (exn_msg e))))
           | Inr _ \<Rightarrow>
               sbind (note_redaction env w' i [(''group_id'', gid), (''episode_uuid'', JStr (py_str episode_uuid)),
                   (''reason'', JStr reason)]) (\<lambda>w _.
                 (w, Inr (graphiti_receipt i ''redacted'' (Some ''Graphiti episode removed'')))))))))"

definition visibility_reason :: string where
  "visibility_reason = ''source/evidence redaction visibility policy''"

text \<open>The body of the \<open>try\<close>: what it raises is recorded as a failure.\<close>

definition materialize ::
  "'g projection_env \<Rightarrow> 'g projection \<Rightarrow> string \<Rightarrow> dict \<Rightarrow> json \<Rightarrow> 'g projection \<times> string option res" where
  "materialize env w i event gid =
     sbind (pure_res w (rbind (dindex event ''occurred_at'') (\<lambda>t. case t of
              JStr s \<Rightarrow> parse_instant s
            | _ \<Rightarrow> Inl (Exn AttributeError ''replace'')))) (\<lambda>w time.
       let (g, r) = add_episode env (graph w)
             \<lparr> ep_name = ''dkg-event:'' @ i, ep_body = enc_spaced (canon (JObj event)),
               ep_description = ''DKG durable knowledge event'', ep_time = time, ep_group = gid \<rparr>
       in (w\<lparr>graph := g\<rparr>, r))"

definition materialized ::
  "'g projection_env \<Rightarrow> 'g projection \<Rightarrow> string \<Rightarrow> json \<Rightarrow> string option \<Rightarrow> 'g projection \<times> receipt res" where
  "materialized env w i gid uuid =
     (let extra = [(''projection'', JStr GRAPHITI_NAME), (''projection_version'', JStr ''1''),
            (''group_id'', gid), (''episode_name'', JStr (''dkg-event:'' @ i)),
            (''build_manifest'', JObj (build_manifest env))]
            @ (case uuid of None \<Rightarrow> [] | Some u \<Rightarrow> [(''episode_uuid'', JStr u)]);
          (l, r) = record_applied (proj_ledger w) i extra
      in sbind (w\<lparr>proj_ledger := l\<rparr>, r) (\<lambda>w _. (w, Inr (graphiti_receipt i ''applied'' None))))"

definition apply_visible ::
  "'g projection_env \<Rightarrow> 'g projection \<Rightarrow> string \<Rightarrow> dict \<Rightarrow> json \<Rightarrow> 'g projection \<times> receipt res" where
  "apply_visible env w i event gid =
     (if is_applied (proj_ledger w) i
      then (w, Inr (graphiti_receipt i ''skipped'' (Some ''already applied'')))
      else case materialize env w i event gid of (w', r) \<Rightarrow> (case r of
          Inl e \<Rightarrow>
            (note_failure env w' i [(''group_id'', gid), (''error_type'', JStr (error_type env e)),
               (''error'', JStr (exn_msg e))],
             Inr (graphiti_receipt i ''failed'' (Some (exn_msg e))))
        | Inr uuid \<Rightarrow> materialized env w' i gid uuid))"

definition apply_hidden ::
  "'g projection_env \<Rightarrow> 'g projection \<Rightarrow> string \<Rightarrow> json \<Rightarrow> 'g projection \<times> receipt res" where
  "apply_hidden env w i gid =
     (if is_applied (proj_ledger w) i then remove_event env w i visibility_reason
      else sbind (note_redaction env w i
             [(''group_id'', gid), (''reason'', JStr visibility_reason), (''episode_uuid'', JNull)]) (\<lambda>w _.
          (w, Inr (graphiti_receipt i ''redacted'' (Some ''event excluded by redaction visibility policy'')))))"

definition project_event ::
  "'g projection_env \<Rightarrow> 'g projection \<Rightarrow> dict \<Rightarrow> 'g projection \<times> receipt res" where
  "project_event env w event =
     sbind (pure_res w (rbind (dindex event ''event_id'') (\<lambda>iv. rbind (dindex event ''pack_id'') (\<lambda>gid.
              rbind (key_str iv) (\<lambda>i. Inr (i, gid)))))) (\<lambda>w (i, gid).
       if is_purged (proj_ledger w) i
       then (w, Inr (graphiti_receipt i ''skipped'' (Some ''projection redacted'')))
       else sbind (pure_res w (proj_visible env event)) (\<lambda>w visible.
         if visible then apply_visible env w i event gid else apply_hidden env w i gid))"

text \<open>A loop that collects receipts.\<close>

fun receipts_of :: "('w \<Rightarrow> 'e \<Rightarrow> 'w \<times> receipt list res) \<Rightarrow> 'w \<Rightarrow> 'e list \<Rightarrow> 'w \<times> receipt list res" where
  "receipts_of f w [] = (w, Inr [])"
| "receipts_of f w (e # es) =
     sbind (f w e) (\<lambda>w rs. sbind (receipts_of f w es) (\<lambda>w rss. (w, Inr (rs @ rss))))"

definition one_receipt :: "'w \<times> receipt res \<Rightarrow> 'w \<times> receipt list res" where
  "one_receipt m = sbind m (\<lambda>w r. (w, Inr [r]))"

definition purge_tombstone ::
  "'g projection_env \<Rightarrow> 'g projection \<Rightarrow> json \<Rightarrow> 'g projection \<times> receipt list res" where
  "purge_tombstone env w tombstone =
     sbind (pure_res w (index tombstone ''event_id'')) (\<lambda>w iv.
       if is_purged (proj_ledger w) (py_str iv) then (w, Inr [])
       else one_receipt (remove_event env w (py_str iv) ''durable event redaction tombstone''))"

definition purge_event_redactions ::
  "'g projection_env \<Rightarrow> event_store \<Rightarrow> 'g projection \<Rightarrow> 'g projection \<times> receipt list res" where
  "purge_event_redactions env es w =
     sbind (pure_res w (iter_redactions es)) (\<lambda>w ts. receipts_of (purge_tombstone env) w ts)"

text \<open>The events directory as the adapter reads it: every file of the store, in replay order.\<close>

definition stored_events :: "event_store \<Rightarrow> dict list res" where
  "stored_events es = rbind (iter_events es) (\<lambda>vs. rbind (rmap as_dict vs) ordered_events)"

definition rebuild_projection ::
  "'g projection_env \<Rightarrow> event_store \<Rightarrow> 'g projection \<Rightarrow> 'g projection \<times> receipt list res" where
  "rebuild_projection env es w =
     sbind (pure_res w (stored_events es)) (\<lambda>w evs.
       receipts_of (\<lambda>w e. one_receipt (project_event env w e)) w evs)"

definition purge_hidden :: "'g projection_env \<Rightarrow> 'g projection \<Rightarrow> dict \<Rightarrow> 'g projection \<times> receipt list res" where
  "purge_hidden env w event =
     sbind (pure_res w (rbind (dindex event ''event_id'') (\<lambda>iv. rbind (proj_visible env event) (\<lambda>visible.
              if visible then Inr None else rbind (key_str iv) (\<lambda>i. Inr (Some i)))))) (\<lambda>w hidden.
       case hidden of None \<Rightarrow> (w, Inr [])
       | Some i \<Rightarrow> if is_applied (proj_ledger w) i \<and> \<not> is_purged (proj_ledger w) i
           then one_receipt (remove_event env w i visibility_reason) else (w, Inr []))"

definition purge_redacted ::
  "'g projection_env \<Rightarrow> event_store \<Rightarrow> 'g projection \<Rightarrow> 'g projection \<times> receipt list res" where
  "purge_redacted env es w =
     (if visibility env = None then (w, Inr [])
      else sbind (pure_res w (stored_events es)) (\<lambda>w evs. receipts_of (purge_hidden env) w evs))"

section \<open>The worker's cycle\<close>

record projector_cycle =
  scanned :: nat
  receipts :: "receipt list"

definition status_count :: "string \<Rightarrow> projector_cycle \<Rightarrow> nat" where
  "status_count s c = length (filter (\<lambda>r. rc_status r = s) (receipts c))"

fun scan_events ::
  "'g projection_env \<Rightarrow> 'g projection \<Rightarrow> dict list \<Rightarrow> 'g projection \<times> (nat \<times> receipt list) res" where
  "scan_events env w [] = (w, Inr (0, []))"
| "scan_events env w (e # es) =
     sbind (pure_res w (dindex e ''event_id'')) (\<lambda>w iv. let i = py_str iv in
     sbind (if is_purged (proj_ledger w) i then (w, Inr (graphiti_receipt i ''skipped'' (Some ''projection redacted'')))
            else if is_applied (proj_ledger w) i
            then (w, Inr (graphiti_receipt i ''skipped'' (Some ''already applied'')))
            else project_event env w e) (\<lambda>w r.
     if rc_status r = ''failed'' then (w, Inr (1, [r]))
     else sbind (scan_events env w es) (\<lambda>w (n, rs). (w, Inr (Suc n, r # rs)))))"

definition run_once ::
  "'g projection_env \<Rightarrow> event_store \<Rightarrow> 'g projection \<Rightarrow> 'g projection \<times> projector_cycle res" where
  "run_once env es w =
     sbind (purge_event_redactions env es w) (\<lambda>w purged.
       if \<exists>r \<in> set purged. rc_status r = ''failed''
       then (w, Inr \<lparr> scanned = 0, receipts = purged \<rparr>)
       else sbind (pure_res w (stored_events es)) (\<lambda>w evs.
            sbind (scan_events env w evs) (\<lambda>w (n, rs).
              (w, Inr \<lparr> scanned = n, receipts = purged @ rs \<rparr>))))"

section \<open>The null projection\<close>

definition null_apply :: "dict \<Rightarrow> receipt res" where
  "null_apply event =
     rbind (dindex event ''event_id'') (\<lambda>iv. rbind (key_str iv) (\<lambda>i.
       Inr \<lparr> rc_projection = ''null'', rc_version = ''1'', rc_event = i, rc_status = ''applied'', rc_detail = None \<rparr>))"

definition null_rebuild :: "event_store \<Rightarrow> receipt list res" where
  "null_rebuild es = rbind (iter_events es) (\<lambda>vs. rmap (\<lambda>v. rbind (as_dict v) null_apply) vs)"

section \<open>What every adapter operation keeps\<close>

definition settled :: "ledger \<Rightarrow> string \<Rightarrow> bool" where
  "settled l i \<longleftrightarrow> is_applied l i \<or> is_purged l i"

lemma exists_publish [simp]: "exists_path (fst (publish_immutable p data d)) q \<longleftrightarrow> q = p \<or> exists_path d q"
  by (auto simp: publish_immutable_def exists_path_def)

lemma record_applied_ledger:
  "is_applied (fst (record_applied l i extra)) j \<longleftrightarrow> j = i \<or> is_applied l j"
  "is_purged (fst (record_applied l i extra)) j \<longleftrightarrow> is_purged l j"
  by (auto simp: record_applied_def is_applied_def is_purged_def Let_def split: prod.splits)
    (metis exists_publish event_path_inj fst_conv)+

lemma record_redaction_ledger:
  "is_applied (fst (record_redaction now l i extra)) j \<longleftrightarrow> is_applied l j"
  "is_purged (fst (record_redaction now l i extra)) j \<longleftrightarrow> j = i \<or> is_purged l j"
  by (auto simp: record_redaction_def is_applied_def is_purged_def Let_def split: prod.splits)
    (metis exists_publish event_path_inj fst_conv)+

lemma record_failure_ledger [simp]:
  "is_applied (record_failure attempt now l i extra) j \<longleftrightarrow> is_applied l j"
  "is_purged (record_failure attempt now l i extra) j \<longleftrightarrow> is_purged l j"
  by (simp_all add: record_failure_def is_applied_def is_purged_def Let_def)

lemma note_failure_world [simp]:
  "is_applied (proj_ledger (note_failure env w i extra)) j \<longleftrightarrow> is_applied (proj_ledger w) j"
  "is_purged (proj_ledger (note_failure env w i extra)) j \<longleftrightarrow> is_purged (proj_ledger w) j"
  "graph (note_failure env w i extra) = graph w"
  by (simp_all add: note_failure_def)

lemma note_redaction_world [simp]:
  "is_applied (proj_ledger (fst (note_redaction env w i extra))) j \<longleftrightarrow> is_applied (proj_ledger w) j"
  "is_purged (proj_ledger (fst (note_redaction env w i extra))) j \<longleftrightarrow> j = i \<or> is_purged (proj_ledger w) j"
  "graph (fst (note_redaction env w i extra)) = graph w"
  using record_redaction_ledger [of "now_at env (ticks w)" "proj_ledger w" i]
  by (auto simp: note_redaction_def Let_def split: prod.splits) (metis fst_conv)+

lemma note_redaction_fresh:
  "\<not> is_purged (proj_ledger w) i \<Longrightarrow> is_ok (snd (note_redaction env w i extra))"
  by (auto simp: note_redaction_def record_redaction_def is_purged_def publish_immutable_def Let_def)

lemma materialize_world:
  "proj_ledger (fst (materialize env w i event gid)) = proj_ledger w"
  unfolding materialize_def pure_res_def
  by (cases "rbind (dindex event ''occurred_at'') (\<lambda>t. case t of JStr s \<Rightarrow> parse_instant s
        | _ \<Rightarrow> Inl (Exn AttributeError ''replace''))") (simp_all only: sbind.simps fst_conv,
      simp add: Let_def split: prod.split)

lemma materialized_world:
  "is_applied (proj_ledger (fst (materialized env w i gid uuid))) j \<longleftrightarrow> j = i \<or> is_applied (proj_ledger w) j"
  "is_purged (proj_ledger (fst (materialized env w i gid uuid))) j \<longleftrightarrow> is_purged (proj_ledger w) j"
  "graph (fst (materialized env w i gid uuid)) = graph w"
  by (auto simp: materialized_def Let_def record_applied_ledger split: prod.splits)
    (metis record_applied_ledger fst_conv)+

lemma materialized_fresh:
  assumes "\<not> is_applied (proj_ledger w) i"
  shows "snd (materialized env w i gid uuid) = Inr (graphiti_receipt i ''applied'' None)"
  using assms by (auto simp: materialized_def record_applied_def is_applied_def publish_immutable_def Let_def)

text \<open>
  A predicate on the adapter's state that the three ways to change it preserve is preserved by
  every operation.
\<close>

locale adapter_monitor =
  fixes env :: "'g projection_env"
    and P :: "'g projection \<Rightarrow> bool"
  assumes apply_step: "P w \<Longrightarrow> \<not> is_purged (proj_ledger w) i \<Longrightarrow> P (fst (apply_visible env w i event gid))"
    and redact_step: "P w \<Longrightarrow> P (fst (note_redaction env w i extra))"
    and remove_step: "P w \<Longrightarrow> P (fst (remove_event env w i reason))"
begin

lemma seq: "P (fst m) \<Longrightarrow> (\<And>x. snd m = Inr x \<Longrightarrow> P (fst (f (fst m) x))) \<Longrightarrow> P (fst (sbind m f))"
  by (rule fst_sbind_invariant)

lemma hidden_step: "P w \<Longrightarrow> P (fst (apply_hidden env w i gid))"
  unfolding apply_hidden_def by (auto intro: remove_step redact_step)

lemma project_step: "P w \<Longrightarrow> P (fst (project_event env w event))"
  unfolding project_event_def
  by (auto simp: proj_visible_def intro!: seq apply_step hidden_step)

lemma receipts_step:
  assumes "\<And>w e. P w \<Longrightarrow> P (fst (f w e))"
  shows "P w \<Longrightarrow> P (fst (receipts_of f w es))"
  using assms by (induction es arbitrary: w) (auto intro!: seq)

lemma tombstones_step: "P w \<Longrightarrow> P (fst (receipts_of (purge_tombstone env) w ts))"
  by (auto simp: purge_tombstone_def one_receipt_def intro!: seq receipts_step remove_step)

lemma purge_step: "P w \<Longrightarrow> P (fst (purge_event_redactions env es w))"
  unfolding purge_event_redactions_def by (auto intro!: seq tombstones_step)

lemma rebuild_step: "P w \<Longrightarrow> P (fst (rebuild_projection env es w))"
  unfolding rebuild_projection_def
  by (auto simp: one_receipt_def intro!: seq receipts_step project_step)

lemma purge_redacted_step: "P w \<Longrightarrow> P (fst (purge_redacted env es w))"
  unfolding purge_redacted_def purge_hidden_def
  by (auto simp: one_receipt_def intro!: seq receipts_step remove_step split: option.split)

lemma scan_step: "P w \<Longrightarrow> P (fst (scan_events env w es))"
proof (induction es arbitrary: w)
  case Nil
  then show ?case by simp
next
  case (Cons e es)
  show ?case
    using Cons.prems by (auto simp: Let_def split: prod.split intro!: seq project_step Cons.IH)
qed

lemma run_once_step: "P w \<Longrightarrow> P (fst (run_once env es w))"
  unfolding run_once_def
  by (auto intro!: seq purge_step scan_step split: prod.split)

end

datatype projection_op =
    ProjectEvent dict
  | RemoveEvent string string
  | RunOnce event_store
  | RebuildProjection event_store
  | PurgeRedacted event_store
  | PurgeEventRedactions event_store

fun projection_step :: "'g projection_env \<Rightarrow> 'g projection \<Rightarrow> projection_op \<Rightarrow> 'g projection" where
  "projection_step env w (ProjectEvent e) = fst (project_event env w e)"
| "projection_step env w (RemoveEvent i reason) = fst (remove_event env w i reason)"
| "projection_step env w (RunOnce es) = fst (run_once env es w)"
| "projection_step env w (RebuildProjection es) = fst (rebuild_projection env es w)"
| "projection_step env w (PurgeRedacted es) = fst (purge_redacted env es w)"
| "projection_step env w (PurgeEventRedactions es) = fst (purge_event_redactions env es w)"

context adapter_monitor
begin

lemma step: "P w \<Longrightarrow> P (projection_step env w op)"
  by (cases op) (auto intro: project_step remove_step run_once_step rebuild_step purge_redacted_step purge_step)

lemma run: "P w \<Longrightarrow> P (foldl (projection_step env) w ops)"
  by (induction ops arbitrary: w) (auto intro: step)

end

lemma apply_visible_world:
  "is_applied (proj_ledger w) j \<Longrightarrow> is_applied (proj_ledger (fst (apply_visible env w i event gid))) j"
  "is_applied (proj_ledger (fst (apply_visible env w i event gid))) j \<Longrightarrow> j = i \<or> is_applied (proj_ledger w) j"
  "is_purged (proj_ledger (fst (apply_visible env w i event gid))) j \<longleftrightarrow> is_purged (proj_ledger w) j"
  using materialize_world [of env w i event gid]
  by (auto simp: apply_visible_def materialized_world split: prod.splits sum.splits if_split_asm)

lemma remove_event_cases:
  obtains (Skipped) "remove_event env w i reason = (w, Inr (graphiti_receipt i ''skipped'' (Some ''projection already redacted'')))"
      "is_purged (proj_ledger w) i"
  | (Raised) e where "remove_event env w i reason = (w, Inl e)"
  | (Failed) g extra d where "g = graph w \<or> (\<exists>u. g = fst (remove_episode env (graph w) u))"
      "remove_event env w i reason
       = (note_failure env (w\<lparr>graph := g\<rparr>) i extra, Inr (graphiti_receipt i ''failed'' d))"
  | (Purged) g extra d where "g = graph w \<or> (\<exists>u. g = fst (remove_episode env (graph w) u))" "\<not> is_purged (proj_ledger w) i"
      "remove_event env w i reason = sbind (note_redaction env (w\<lparr>graph := g\<rparr>) i extra)
         (\<lambda>w _. (w, Inr (graphiti_receipt i ''redacted'' d)))"
proof (cases "is_purged (proj_ledger w) i")
  case True
  then show ?thesis by (intro Skipped) (auto simp: remove_event_def)
next
  case False
  have self: "w = w\<lparr>graph := graph w\<rparr>" by simp
  show ?thesis
  proof (cases "get_applied (proj_ledger w) i")
    case (Inl e)
    then show ?thesis by (intro Raised) (auto simp: remove_event_def False)
  next
    case (Inr applied)
    show ?thesis
    proof (cases "applied = JNull")
      case True
      with Inr False self show ?thesis by (intro Purged [of "graph w"]) (auto simp: remove_event_def)
    next
      case nn: False
      show ?thesis
      proof (cases "get_attr applied ''episode_uuid'' JNull")
        case (Inl e)
        with Inr nn False show ?thesis by (intro Raised) (auto simp: remove_event_def)
      next
        case u: (Inr u)
        then obtain gid where gid: "get_attr applied ''group_id'' JNull = Inr gid"
          by (auto simp: get_attr_def split: json.splits)
        show ?thesis
        proof (cases "truthy u")
          case False
          with Inr nn \<open>\<not> is_purged _ _\<close> u gid self show ?thesis
            by (intro Failed [of "graph w"]) (auto simp: remove_event_def Let_def)
        next
          case True
          obtain g r where r: "remove_episode env (graph w) (py_str u) = (g, r)" by force
          show ?thesis
          proof (cases r)
            case (Inl e)
            with Inr nn \<open>\<not> is_purged _ _\<close> u gid r True show ?thesis
              by (intro Failed [of g]) (auto simp: remove_event_def Let_def intro!: exI [of _ "py_str u"])
          next
            case (Inr x)
            with \<open>get_applied _ _ = _\<close> nn \<open>\<not> is_purged _ _\<close> u gid r True show ?thesis
              by (intro Purged [of g]) (auto simp: remove_event_def Let_def intro!: exI [of _ "py_str u"])
          qed
        qed
      qed
    qed
  qed
qed

lemma remove_event_world:
  "is_applied (proj_ledger (fst (remove_event env w i reason))) j \<longleftrightarrow> is_applied (proj_ledger w) j"
  "is_purged (proj_ledger w) j \<Longrightarrow> is_purged (proj_ledger (fst (remove_event env w i reason))) j"
  by (cases rule: remove_event_cases [of env w i reason]; simp)+

interpretation applied_stays: adapter_monitor env "\<lambda>w. is_applied (proj_ledger w) i" for env i
  by unfold_locales (auto simp: remove_event_world intro: apply_visible_world)

interpretation purged_stays: adapter_monitor env "\<lambda>w. is_purged (proj_ledger w) i" for env i
  by unfold_locales (auto simp: apply_visible_world intro: remove_event_world)

section \<open>At most one episode per event\<close>

text \<open>The same environment with a log of the names of the episodes that the client accepted.\<close>

definition recording :: "'g projection_env \<Rightarrow> ('g \<times> string list) projection_env" where
  "recording env = \<lparr> build_manifest = build_manifest env, visibility = visibility env,
     add_episode = (\<lambda>(g, names) e. case add_episode env g e of
         (g', Inr u) \<Rightarrow> ((g', names @ [ep_name e]), Inr u) | (g', Inl x) \<Rightarrow> ((g', names), Inl x)),
     remove_episode = (\<lambda>(g, names) u. case remove_episode env g u of (g', r) \<Rightarrow> ((g', names), r)),
     error_type = error_type env, uuid_at = uuid_at env, now_at = now_at env \<rparr>"

definition names_ok :: "('g \<times> string list) projection \<Rightarrow> bool" where
  "names_ok w \<longleftrightarrow> distinct (snd (graph w))
     \<and> (\<forall>n \<in> set (snd (graph w)). \<exists>i. n = ''dkg-event:'' @ i \<and> is_applied (proj_ledger w) i)"

lemma materialize_names:
  assumes "materialize (recording env) w i event gid = (w', r)"
  shows "snd (graph w') = (case r of Inr _ \<Rightarrow> snd (graph w) @ [''dkg-event:'' @ i] | Inl _ \<Rightarrow> snd (graph w))"
  using assms
  unfolding materialize_def pure_res_def
  by (cases "rbind (dindex event ''occurred_at'') (\<lambda>t. case t of JStr s \<Rightarrow> parse_instant s
        | _ \<Rightarrow> Inl (Exn AttributeError ''replace''))"; cases "graph w")
    (auto simp only: sbind.simps, auto simp: recording_def split: prod.splits sum.splits)

lemma names_ok_apply:
  assumes "names_ok w"
  shows "names_ok (fst (apply_visible (recording env) w i event gid))"
proof (cases "is_applied (proj_ledger w) i")
  case True
  then show ?thesis using assms by (simp add: apply_visible_def)
next
  case False
  obtain w' r where m: "materialize (recording env) w i event gid = (w', r)" by force
  have l: "proj_ledger w' = proj_ledger w" using materialize_world [of "recording env" w i event gid] m by simp
  show ?thesis
  proof (cases r)
    case (Inl e)
    then show ?thesis using assms materialize_names [OF m] m False l
      by (simp add: apply_visible_def names_ok_def)
  next
    case (Inr u)
    have "''dkg-event:'' @ i \<notin> set (snd (graph w))" using assms False by (auto simp: names_ok_def)
    then show ?thesis using assms materialize_names [OF m] m False l Inr
      by (auto simp: apply_visible_def names_ok_def materialized_world)
  qed
qed

lemma note_redaction_names: "names_ok w \<Longrightarrow> names_ok (fst (note_redaction env w i extra))"
  by (simp add: names_ok_def)

lemma recording_remove: "snd (fst (remove_episode (recording env) gn u)) = snd gn"
  by (cases gn; cases "remove_episode env (fst gn) u") (simp add: recording_def)

lemma remove_names:
  assumes "names_ok w"
  shows "names_ok (fst (remove_event (recording env) w i reason))"
proof -
  have keep: "snd g = snd (graph w)"
    if "g = graph w \<or> (\<exists>u. g = fst (remove_episode (recording env) (graph w) u))" for g
    using that by (auto simp: recording_remove)
  have "snd (graph (fst (remove_event (recording env) w i reason))) = snd (graph w)"
  proof (cases rule: remove_event_cases [of "recording env" w i reason])
    case (Failed g extra d)
    then show ?thesis using keep [OF Failed(1)] by (simp del: disj_not1)
  next
    case (Purged g extra d)
    then show ?thesis using keep [OF Purged(1)] by simp
  qed simp_all
  then show ?thesis using assms by (auto simp: names_ok_def remove_event_world)
qed

interpretation names: adapter_monitor "recording env" names_ok for env
  by unfold_locales (auto intro: names_ok_apply note_redaction_names remove_names)

section \<open>Cycles\<close>

definition event_key_of :: "dict \<Rightarrow> string" where
  "event_key_of e = py_str (dget e ''event_id'')"

lemma apply_visible_settles:
  assumes "apply_visible env w i event gid = (w', Inr r)" and "rc_status r \<noteq> ''failed''"
  shows "is_applied (proj_ledger w') i"
proof (cases "is_applied (proj_ledger w) i")
  case True
  then show ?thesis using assms by (auto simp: apply_visible_def)
next
  case False
  obtain w1 m where m: "materialize env w i event gid = (w1, m)" by force
  then show ?thesis using assms False materialized_world(1) [of env w1 i gid]
    by (cases m) (auto simp: apply_visible_def graphiti_receipt_def, metis fst_conv)
qed

lemma remove_event_purges:
  assumes "remove_event env w i reason = (w', Inr r)" and "rc_status r \<noteq> ''failed''"
  shows "is_purged (proj_ledger w') i"
proof (cases rule: remove_event_cases [of env w i reason])
  case (Purged g extra d)
  with assms(1) obtain x where "note_redaction env (w\<lparr>graph := g\<rparr>) i extra = (w', Inr x)"
    by (auto elim: sbind_ret_InrE)
  then show ?thesis using note_redaction_world(2) [of env "w\<lparr>graph := g\<rparr>" i extra i] by simp
next
  case (Failed g extra d)
  then show ?thesis using assms by (auto simp: graphiti_receipt_def)
qed (use assms in simp_all)

lemma apply_hidden_settles:
  assumes "apply_hidden env w i gid = (w', Inr r)" and "rc_status r \<noteq> ''failed''"
  shows "is_purged (proj_ledger w') i"
proof (cases "is_applied (proj_ledger w) i")
  case True
  then show ?thesis using assms remove_event_purges by (auto simp: apply_hidden_def)
next
  case False
  with assms(1) obtain x extra where "note_redaction env w i extra = (w', Inr x)"
    by (auto simp: apply_hidden_def elim: sbind_ret_InrE)
  then show ?thesis using note_redaction_world(2) [of env w i extra i] by simp
qed

lemma project_event_settles:
  assumes "project_event env w e = (w', Inr r)" and "rc_status r \<noteq> ''failed''"
  shows "settled (proj_ledger w') (event_key_of e)"
  using assms(1) unfolding project_event_def
proof (elim sbind_InrE)
  fix w1 p assume p: "pure_res w (rbind (dindex e ''event_id'') (\<lambda>iv. rbind (dindex e ''pack_id'') (\<lambda>gid.
      rbind (key_str iv) (\<lambda>i. Inr (i, gid))))) = (w1, Inr p)"
    and run: "(case p of (i, gid) \<Rightarrow> if is_purged (proj_ledger w1) i
       then (w1, Inr (graphiti_receipt i ''skipped'' (Some ''projection redacted'')))
       else sbind (pure_res w1 (proj_visible env e)) (\<lambda>w visible.
         if visible then apply_visible env w i e gid else apply_hidden env w i gid)) = (w', Inr r)"
  obtain i gid where i: "p = (i, gid)" "map_of e ''event_id'' = Some (JStr i)"
    using p by auto
  then have k: "event_key_of e = i" by (simp add: event_key_of_def)
  show ?thesis
  proof (cases "is_purged (proj_ledger w1) i")
    case True
    then show ?thesis using run k i by (simp add: settled_def)
  next
    case False
    with run i have "sbind (pure_res w1 (proj_visible env e)) (\<lambda>w visible.
         if visible then apply_visible env w i e gid else apply_hidden env w i gid) = (w', Inr r)" by simp
    then show ?thesis
    proof (rule sbind_InrE)
      fix w2 v
      assume "(if v then apply_visible env w2 i e gid else apply_hidden env w2 i gid) = (w', Inr r)"
      then have "is_applied (proj_ledger w') i \<or> is_purged (proj_ledger w') i"
        using apply_visible_settles [of env w2 i e gid] apply_hidden_settles [of env w2 i gid] assms(2)
        by (cases v) simp_all
      then show ?thesis by (simp add: settled_def k)
    qed
  qed
qed

lemma settled_step:
  "settled (proj_ledger w) i \<Longrightarrow> settled (proj_ledger (fst (scan_events env w es))) i"
  unfolding settled_def using applied_stays.scan_step purged_stays.scan_step by blast

lemma project_event_applies_own:
  assumes "is_applied (proj_ledger (fst (project_event env w e))) j" and "\<not> is_applied (proj_ledger w) j"
  shows "map_of e ''event_id'' = Some (JStr j)"
proof (rule ccontr)
  assume n: "map_of e ''event_id'' \<noteq> Some (JStr j)"
  have "\<not> is_applied (proj_ledger (fst (project_event env w e))) j"
    unfolding project_event_def
  proof (rule fst_sbind_invariant [where P = "\<lambda>w. \<not> is_applied (proj_ledger w) j"])
    show "\<not> is_applied (proj_ledger (fst (pure_res w (rbind (dindex e ''event_id'') (\<lambda>iv.
      rbind (dindex e ''pack_id'') (\<lambda>gid. rbind (key_str iv) (\<lambda>i. Inr (i, gid)))))))) j"
      using assms(2) by simp
  next
    fix p assume "snd (pure_res w (rbind (dindex e ''event_id'') (\<lambda>iv.
      rbind (dindex e ''pack_id'') (\<lambda>gid. rbind (key_str iv) (\<lambda>i. Inr (i, gid)))))) = Inr p"
    then obtain i gid where p: "p = (i, gid)" "i \<noteq> j" using n by auto
    have "\<not> is_applied (proj_ledger (fst (apply_visible env w i e gid))) j"
      using apply_visible_world(2) p(2) assms(2) by blast
    moreover have "\<not> is_applied (proj_ledger (fst (apply_hidden env w i gid))) j"
      using assms(2) by (simp add: apply_hidden_def remove_event_world)
    ultimately show "\<not> is_applied (proj_ledger (fst (case p of (i, gid) \<Rightarrow>
        if is_purged (proj_ledger (fst (pure_res w (rbind (dindex e ''event_id'') (\<lambda>iv.
            rbind (dindex e ''pack_id'') (\<lambda>gid. rbind (key_str iv) (\<lambda>i. Inr (i, gid)))))))) i
        then (fst (pure_res w (rbind (dindex e ''event_id'') (\<lambda>iv.
            rbind (dindex e ''pack_id'') (\<lambda>gid. rbind (key_str iv) (\<lambda>i. Inr (i, gid)))))),
          Inr (graphiti_receipt i ''skipped'' (Some ''projection redacted'')))
        else sbind (pure_res (fst (pure_res w (rbind (dindex e ''event_id'') (\<lambda>iv.
            rbind (dindex e ''pack_id'') (\<lambda>gid. rbind (key_str iv) (\<lambda>i. Inr (i, gid))))))) (proj_visible env e))
          (\<lambda>w visible. if visible then apply_visible env w i e gid else apply_hidden env w i gid)))) j"
      using assms(2) p(1) by (cases "proj_visible env e") auto
  qed
  then show False using assms(1) by blast
qed

text \<open>
  One scan: an event is newly applied only among the \<open>n\<close> scanned ones, and all of those before the
  last are applied or purged; without a failed receipt all events are scanned and settled.
\<close>

definition scan_frontier :: "ledger \<Rightarrow> ledger \<Rightarrow> dict list \<Rightarrow> nat \<Rightarrow> receipt list \<Rightarrow> bool" where
  "scan_frontier l l' es n rs \<longleftrightarrow> n = length rs \<and> n \<le> length es
     \<and> (\<forall>i. is_applied l' i \<longrightarrow> is_applied l i \<or> i \<in> event_key_of ` set (take n es))
     \<and> (\<forall>e \<in> set (take (n - 1) es). settled l' (event_key_of e))
     \<and> (\<forall>r \<in> set (butlast rs). rc_status r \<noteq> ''failed'')
     \<and> ((\<forall>r \<in> set rs. rc_status r \<noteq> ''failed'') \<longrightarrow> n = length es \<and> (\<forall>e \<in> set es. settled l' (event_key_of e)))"

lemma scan_frontier_Nil: "scan_frontier l l [] 0 []"
  by (simp add: scan_frontier_def)

lemma scan_frontier_stop:
  assumes "\<And>i. is_applied l' i \<Longrightarrow> is_applied l i \<or> i = event_key_of e" and "rc_status r = ''failed''"
  shows "scan_frontier l l' (e # es) 1 [r]"
  using assms by (auto simp: scan_frontier_def)

lemma scan_frontier_Cons:
  assumes "\<And>i. is_applied l1 i \<Longrightarrow> is_applied l i \<or> i = event_key_of e" and "rc_status r \<noteq> ''failed''"
    and "settled l' (event_key_of e)" and "scan_frontier l1 l' es n rs"
  shows "scan_frontier l l' (e # es) (Suc n) (r # rs)"
proof -
  note f = assms(4) [unfolded scan_frontier_def]
  have "\<forall>x \<in> set (take n (e # es)). settled l' (event_key_of x)"
  proof
    fix x assume x: "x \<in> set (take n (e # es))"
    then obtain m where n: "n = Suc m" by (cases n) auto
    with x have "x = e \<or> x \<in> set (take (n - 1) es)" by auto
    then show "settled l' (event_key_of x)" using f assms(3) by blast
  qed
  moreover have "\<forall>i. is_applied l' i \<longrightarrow> is_applied l i \<or> i \<in> event_key_of ` set (take (Suc n) (e # es))"
    using f assms(1) by auto
  moreover have "\<forall>x \<in> set (butlast (r # rs)). rc_status x \<noteq> ''failed''" using f assms(2) by auto
  moreover have "(\<forall>x \<in> set (r # rs). rc_status x \<noteq> ''failed'')
      \<longrightarrow> Suc n = length (e # es) \<and> (\<forall>x \<in> set (e # es). settled l' (event_key_of x))"
    using f assms(3) by auto
  moreover have "Suc n = length (r # rs) \<and> Suc n \<le> length (e # es)" using f by auto
  ultimately show ?thesis unfolding scan_frontier_def diff_Suc_1 by blast
qed

lemma scan_events_frontier:
  assumes "scan_events env w es = (w', Inr (n, rs))"
  shows "scan_frontier (proj_ledger w) (proj_ledger w') es n rs"
  using assms
proof (induction es arbitrary: w n rs)
  case Nil
  then show ?case by (simp add: scan_frontier_Nil)
next
  case (Cons e es)
  let ?i = "event_key_of e"
  from Cons.prems obtain iv w1 r where iv: "map_of e ''event_id'' = Some iv"
    and s: "(if is_purged (proj_ledger w) (py_str iv)
        then (w, Inr (graphiti_receipt (py_str iv) ''skipped'' (Some ''projection redacted'')))
        else if is_applied (proj_ledger w) (py_str iv)
        then (w, Inr (graphiti_receipt (py_str iv) ''skipped'' (Some ''already applied'')))
        else project_event env w e) = (w1, Inr r)"
    and k: "(if rc_status r = ''failed'' then (w1, Inr (1, [r]))
       else sbind (scan_events env w1 es) (\<lambda>w (n, rs). (w, Inr (Suc n, r # rs)))) = (w', Inr (n, rs))"
    unfolding scan_events.simps by (elim sbind_InrE) (auto simp: Let_def elim!: sbind_InrE)
  have i: "?i = py_str iv" using iv by (simp add: event_key_of_def)
  have own: "is_applied (proj_ledger w) j \<or> j = ?i" if a: "is_applied (proj_ledger w1) j" for j
  proof (rule ccontr)
    assume n: "\<not> (is_applied (proj_ledger w) j \<or> j = ?i)"
    with s a have "project_event env w e = (w1, Inr r)" by (auto split: if_split_asm)
    with project_event_applies_own [of env w e j] a n iv show False by (auto simp: i)
  qed
  show ?case
  proof (cases "rc_status r = ''failed''")
    case True
    with k have "w1 = w'" "n = 1" "rs = [r]" by auto
    then show ?thesis using scan_frontier_stop [OF own True] by simp
  next
    case False
    have st: "settled (proj_ledger w1) ?i"
      using s project_event_settles [of env w e w1 r] False by (auto simp: i settled_def split: if_split_asm)
    from k False have "sbind (scan_events env w1 es) (\<lambda>w (n, rs). (w, Inr (Suc n, r # rs))) = (w', Inr (n, rs))"
      by simp
    then obtain w2 m rs' where m: "scan_events env w1 es = (w2, Inr (m, rs'))"
      "w2 = w'" "n = Suc m" "rs = r # rs'" by (auto elim!: sbind_InrE)
    have "settled (proj_ledger w') ?i" using settled_step [OF st, of env es] m by simp
    then show ?thesis
      using scan_frontier_Cons [OF own False _ Cons.IH [OF m(1) [unfolded m(2)]]] m(3,4) by simp
  qed
qed


section \<open>Complete cycles\<close>

lemma purge_events_applied:
  "is_applied (proj_ledger (fst (purge_event_redactions env es w))) i \<longleftrightarrow> is_applied (proj_ledger w) i"
proof -
  have r: "is_applied (proj_ledger (fst (receipts_of (purge_tombstone env) w ts))) i \<longleftrightarrow> is_applied (proj_ledger w) i"
    for ts and w :: "'a projection"
  proof (induction ts arbitrary: w)
    case Nil
    then show ?case by simp
  next
    case (Cons t ts)
    have "is_applied (proj_ledger (fst (purge_tombstone env w t))) i \<longleftrightarrow> is_applied (proj_ledger w) i"
      unfolding purge_tombstone_def pure_res_def one_receipt_def
      by (cases "index t ''event_id''") (auto simp: remove_event_world split: if_splits)
    then show ?case using Cons.IH
      by (cases "purge_tombstone env w t"; cases "snd (purge_tombstone env w t)") auto
  qed
  show ?thesis unfolding purge_event_redactions_def pure_res_def
    by (cases "iter_redactions es") (auto simp: r)
qed

lemma purge_tombstone_purges:
  assumes "purge_tombstone env w t = (w', Inr rs)" and "\<forall>r \<in> set rs. rc_status r \<noteq> ''failed''"
  shows "\<exists>iv. index t ''event_id'' = Inr iv \<and> is_purged (proj_ledger w') (py_str iv)"
  using assms unfolding purge_tombstone_def one_receipt_def
  by (auto elim!: sbind_InrE sbind_ret_InrE split: if_split_asm) (use remove_event_purges in blast)

lemma purge_all_purges:
  assumes "receipts_of (purge_tombstone env) w ts = (w', Inr rs)" and "\<forall>r \<in> set rs. rc_status r \<noteq> ''failed''"
  shows "\<forall>t \<in> set ts. \<exists>iv. index t ''event_id'' = Inr iv \<and> is_purged (proj_ledger w') (py_str iv)"
  using assms
proof (induction ts arbitrary: w rs)
  case Nil
  then show ?case by simp
next
  case (Cons t ts)
  from Cons.prems(1) obtain w1 r1 rs1 where s: "purge_tombstone env w t = (w1, Inr r1)"
    "receipts_of (purge_tombstone env) w1 ts = (w', Inr rs1)" "rs = r1 @ rs1"
    by (auto elim!: sbind_InrE sbind_ret_InrE)
  from purge_tombstone_purges [OF s(1)] Cons.prems(2) s(3) obtain iv where
    iv: "index t ''event_id'' = Inr iv" "is_purged (proj_ledger w1) (py_str iv)" by auto
  have "is_purged (proj_ledger w') (py_str iv)"
    using purged_stays.tombstones_step [OF iv(2), of env ts] s(2) by simp
  then show ?case using Cons.IH [OF s(2)] Cons.prems(2) s(3) iv(1) by auto
qed

text \<open>
  \<open>client_works\<close>: the graph client accepts every episode. \<open>projectable\<close>: the event has what the adapter
  reads of it, and the visibility policy judges it. \<open>purgeable\<close>: the tombstone's event is purged, or
  was never materialized in this build, so that nothing is left to remove from the graph.
\<close>

definition client_works :: "'g projection_env \<Rightarrow> bool" where
  "client_works env \<longleftrightarrow> (\<forall>g e. is_ok (snd (add_episode env g e)))"

definition projectable :: "'g projection_env \<Rightarrow> dict \<Rightarrow> bool" where
  "projectable env e \<longleftrightarrow> (\<exists>i. map_of e ''event_id'' = Some (JStr i)) \<and> map_of e ''pack_id'' \<noteq> None
     \<and> (\<exists>t. map_of e ''occurred_at'' = Some (JStr t) \<and> is_ok (parse_instant t)) \<and> is_ok (proj_visible env e)"

definition purgeable :: "ledger \<Rightarrow> json \<Rightarrow> bool" where
  "purgeable l t \<longleftrightarrow> (\<exists>i. index t ''event_id'' = Inr (JStr i) \<and> (is_purged l i \<or> \<not> is_applied l i))"

definition no_failure :: "receipt list \<Rightarrow> bool" where
  "no_failure rs \<longleftrightarrow> (\<forall>r \<in> set rs. rc_status r \<noteq> ''failed'')"

lemma no_failure_simps [simp]: "no_failure []" "no_failure (r # rs) \<longleftrightarrow> rc_status r \<noteq> ''failed'' \<and> no_failure rs"
  "no_failure (rs @ rs') \<longleftrightarrow> no_failure rs \<and> no_failure rs'"
  by (auto simp: no_failure_def)

lemma receipt_status [simp]: "rc_status (graphiti_receipt i s d) = s"
  by (simp add: graphiti_receipt_def)

lemma note_redaction_ok:
  assumes "\<not> is_purged (proj_ledger w) i"
  obtains w' v where "note_redaction env w i extra = (w', Inr v)"
  using note_redaction_fresh [OF assms, of env extra] by (cases "note_redaction env w i extra") (auto elim: is_okE)

lemma materialize_works:
  assumes "client_works env" and "map_of e ''occurred_at'' = Some (JStr t)" and "is_ok (parse_instant t)"
  obtains w' u where "materialize env w i e gid = (w', Inr u)"
proof -
  from assms(3) obtain d where d: "parse_instant t = Inr d" by (rule is_okE)
  let ?ep = "\<lparr> ep_name = ''dkg-event:'' @ i, ep_body = enc_spaced (canon (JObj e)),
       ep_description = ''DKG durable knowledge event'', ep_time = d, ep_group = gid \<rparr>"
  from assms(1) obtain u where "snd (add_episode env (graph w) ?ep) = Inr u"
    unfolding client_works_def by (blast elim: is_okE)
  then obtain g where "add_episode env (graph w) ?ep = (g, Inr u)"
    by (cases "add_episode env (graph w) ?ep") auto
  with d assms(2) that show ?thesis by (simp add: materialize_def)
qed

lemma project_event_progress:
  assumes "client_works env" and e: "projectable env e"
    and "\<not> is_purged (proj_ledger w) (event_key_of e)" and "\<not> is_applied (proj_ledger w) (event_key_of e)"
  obtains w' r where "project_event env w e = (w', Inr r)" "rc_status r \<noteq> ''failed''"
proof -
  from e obtain i gid t v where p: "map_of e ''event_id'' = Some (JStr i)" "map_of e ''pack_id'' = Some gid"
    "map_of e ''occurred_at'' = Some (JStr t)" "is_ok (parse_instant t)" "proj_visible env e = Inr v"
    by (auto simp: projectable_def elim: is_okE)
  have k: "event_key_of e = i" using p(1) by (simp add: event_key_of_def)
  note q = assms(3,4) [unfolded k]
  show ?thesis
  proof (cases v)
    case True
    obtain w1 u where m: "materialize env w i e gid = (w1, Inr u)"
      using materialize_works [OF assms(1) p(3,4)] by blast
    then have "\<not> is_applied (proj_ledger w1) i" using materialize_world [of env w i e gid] q(2) by simp
    from materialized_fresh [OF this, of env gid u] m p q True that show ?thesis
      by (cases "materialized env w1 i gid u") (auto simp: project_event_def apply_visible_def)
  next
    case False
    obtain w1 x where "note_redaction env w i [(''group_id'', gid), (''reason'', JStr visibility_reason),
        (''episode_uuid'', JNull)] = (w1, Inr x)" using note_redaction_ok [OF q(1)] by blast
    with p q False that show ?thesis by (simp add: project_event_def apply_hidden_def)
  qed
qed

lemma scan_progress:
  assumes "client_works env" and "\<forall>e \<in> set es. projectable env e"
  obtains w' n rs where "scan_events env w es = (w', Inr (n, rs))" "no_failure rs"
  using assms(2)
proof (induction es arbitrary: w thesis)
  case Nil
  then show ?case by simp
next
  case (Cons e es)
  let ?i = "event_key_of e"
  from Cons.prems(2) obtain i where i: "map_of e ''event_id'' = Some (JStr i)" "?i = i"
    by (auto simp: projectable_def event_key_of_def)
  obtain w1 r where s: "(if is_purged (proj_ledger w) i
        then (w, Inr (graphiti_receipt i ''skipped'' (Some ''projection redacted'')))
        else if is_applied (proj_ledger w) i
        then (w, Inr (graphiti_receipt i ''skipped'' (Some ''already applied'')))
        else project_event env w e) = (w1, Inr r)" "rc_status r \<noteq> ''failed''"
  proof (cases "is_purged (proj_ledger w) i \<or> is_applied (proj_ledger w) i")
    case True
    then show ?thesis by (cases "is_purged (proj_ledger w) i") (auto intro: that)
  next
    case False
    then show ?thesis
      using project_event_progress [OF assms(1), of e w] Cons.prems(2) i(2) that by auto
  qed
  obtain w2 n rs where rest: "scan_events env w1 es = (w2, Inr (n, rs))" "no_failure rs"
    using Cons.IH [of w1] Cons.prems(2) by auto
  show ?case
    by (rule Cons.prems(1) [of w2 "Suc n" "r # rs"]) (simp only: scan_events.simps i(1) dindex_Some sbind_pure_Inr Let_def py_str.simps s(1) sbind.simps,
      simp_all add: s(2) rest)
qed

lemma purge_progress:
  assumes "\<forall>t \<in> set ts. purgeable (proj_ledger w) t"
  obtains w' rs where "receipts_of (purge_tombstone env) w ts = (w', Inr rs)" "no_failure rs"
  using assms
proof (induction ts arbitrary: w thesis)
  case Nil
  then show ?case by simp
next
  case (Cons t ts)
  from Cons.prems(2) obtain i where i: "index t ''event_id'' = Inr (JStr i)"
    "is_purged (proj_ledger w) i \<or> \<not> is_applied (proj_ledger w) i" by (auto simp: purgeable_def)
  obtain w1 r1 where s: "purge_tombstone env w t = (w1, Inr r1)" "no_failure r1"
    "\<And>j. is_applied (proj_ledger w1) j \<longleftrightarrow> is_applied (proj_ledger w) j"
    "\<And>j. is_purged (proj_ledger w) j \<Longrightarrow> is_purged (proj_ledger w1) j"
  proof (cases "is_purged (proj_ledger w) i")
    case True
    then show ?thesis by (intro that [of w "[]"]) (auto simp: purge_tombstone_def i(1))
  next
    case False
    with i(2) have "get_applied (proj_ledger w) i = Inr JNull" by (simp add: get_applied_def is_applied_def)
    moreover obtain w1 x where n: "note_redaction env w i
        [(''reason'', JStr ''durable event redaction tombstone''), (''episode_uuid'', JNull)] = (w1, Inr x)"
      using note_redaction_ok [OF False] by blast
    ultimately have "purge_tombstone env w t = (w1, Inr [graphiti_receipt i ''redacted''
        (Some ''event was not materialized in this projection build'')])"
      using False by (simp add: purge_tombstone_def i(1) one_receipt_def remove_event_def)
    then show ?thesis
      using that note_redaction_world(1,2) [of env w i
        "[(''reason'', JStr ''durable event redaction tombstone''), (''episode_uuid'', JNull)]"] n by simp
  qed
  have "\<forall>t \<in> set ts. purgeable (proj_ledger w1) t"
    using Cons.prems(2) s(3,4) by (auto simp: purgeable_def)
  then obtain w2 rs where "receipts_of (purge_tombstone env) w1 ts = (w2, Inr rs)" "no_failure rs"
    using Cons.IH [of w1] by blast
  with Cons.prems(1) s show ?case by simp
qed

lemma run_once_cases:
  assumes "run_once env es w = (w', Inr c)"
  obtains (Blocked) purged ts where "iter_redactions es = Inr ts"
      "receipts_of (purge_tombstone env) w ts = (w', Inr purged)" "\<not> no_failure purged" "scanned c = 0" "receipts c = purged"
  | (Scanned) purged ts evs w1 n rs where "iter_redactions es = Inr ts"
      "receipts_of (purge_tombstone env) w ts = (w1, Inr purged)" "no_failure purged"
      "stored_events es = Inr evs" "scan_events env w1 evs = (w', Inr (n, rs))"
      "scanned c = n" "receipts c = purged @ rs"
proof -
  from assms obtain w1 purged where p: "purge_event_redactions env es w = (w1, Inr purged)"
    "(if \<exists>r \<in> set purged. rc_status r = ''failed'' then (w1, Inr \<lparr> scanned = 0, receipts = purged \<rparr>)
      else sbind (pure_res w1 (stored_events es)) (\<lambda>w evs. sbind (scan_events env w evs) (\<lambda>w (n, rs).
              (w, Inr \<lparr> scanned = n, receipts = purged @ rs \<rparr>)))) = (w', Inr c)"
    unfolding run_once_def by (rule sbind_InrE)
  from p(1) obtain ts where ts: "iter_redactions es = Inr ts"
    "receipts_of (purge_tombstone env) w ts = (w1, Inr purged)"
    unfolding purge_event_redactions_def by (auto elim!: sbind_InrE)
  show ?thesis
  proof (cases "no_failure purged")
    case False
    with p(2) ts show ?thesis by (intro Blocked) (auto simp: no_failure_def)
  next
    case True
    with p(2) have "sbind (pure_res w1 (stored_events es)) (\<lambda>w evs. sbind (scan_events env w evs) (\<lambda>w (n, rs).
              (w, Inr \<lparr> scanned = n, receipts = purged @ rs \<rparr>))) = (w', Inr c)"
      by (auto simp: no_failure_def split: if_split_asm)
    with ts True show ?thesis by (auto elim!: sbind_InrE intro: Scanned)
  qed
qed

lemma scan_settled:
  assumes "\<forall>e \<in> set es. map_of e ''event_id'' \<noteq> None \<and> settled (proj_ledger w) (event_key_of e)"
  shows "\<exists>rs. scan_events env w es = (w, Inr (length es, rs)) \<and> (\<forall>r \<in> set rs. rc_status r = ''skipped'')"
  using assms
proof (induction es)
  case Nil
  then show ?case by simp
next
  case (Cons e es)
  then obtain iv where "map_of e ''event_id'' = Some iv" "settled (proj_ledger w) (py_str iv)"
    by (auto simp: event_key_of_def)
  with Cons show ?case by (auto simp: settled_def Let_def)
qed

lemma purge_settled:
  assumes "\<forall>t \<in> set ts. \<exists>iv. index t ''event_id'' = Inr iv \<and> is_purged (proj_ledger w) (py_str iv)"
  shows "receipts_of (purge_tombstone env) w ts = (w, Inr [])"
  using assms by (induction ts) (auto simp: purge_tombstone_def)

lemma stored_events_id:
  assumes "stored_events es = Inr evs" and "e \<in> set evs"
  shows "map_of e ''event_id'' \<noteq> None"
proof -
  from assms(1) obtain ds keyed where k: "rmap (\<lambda>e. rbind (canonical_event_order e) (\<lambda>k. Inr (k, e))) ds = Inr keyed"
    "evs = map snd (sort_key fst keyed)"
    by (auto simp: stored_events_def ordered_events_def)
  from assms(2) k(2) obtain p where "(p, e) \<in> set keyed" by auto
  with rmap_Inr_set [OF k(1)] show ?thesis by (auto simp: canonical_event_order_def)
qed

lemma cycle_completes:
  assumes "client_works env" and es: "stored_events es = Inr evs" "iter_redactions es = Inr ts"
    and "\<forall>e \<in> set evs. projectable env e" and "\<forall>t \<in> set ts. purgeable (proj_ledger w) t"
  shows "\<exists>w' c. run_once env es w = (w', Inr c) \<and> no_failure (receipts c)"
proof -
  obtain w1 purged where p: "receipts_of (purge_tombstone env) w ts = (w1, Inr purged)" "no_failure purged"
    using purge_progress [OF assms(5)] by blast
  obtain w2 n rs where s: "scan_events env w1 evs = (w2, Inr (n, rs))" "no_failure rs"
    using scan_progress [OF assms(1,4), of w1] by blast
  have "\<not> (\<exists>r \<in> set purged. rc_status r = ''failed'')" using p(2) by (simp add: no_failure_def)
  then show ?thesis using p s es by (simp add: run_once_def purge_event_redactions_def)
qed

lemma complete_cycle_settles:
  assumes "run_once env es w = (w', Inr c)" and "no_failure (receipts c)"
  obtains evs ts where "stored_events es = Inr evs" "iter_redactions es = Inr ts" "scanned c = length evs"
    "\<forall>e \<in> set evs. settled (proj_ledger w') (event_key_of e)"
    "\<forall>t \<in> set ts. \<exists>iv. index t ''event_id'' = Inr iv \<and> is_purged (proj_ledger w') (py_str iv)"
  using assms(1)
proof (cases rule: run_once_cases)
  case (Blocked purged ts)
  with assms(2) show ?thesis by simp
next
  case (Scanned purged ts evs w1 n rs)
  have f: "scan_frontier (proj_ledger w1) (proj_ledger w') evs n rs" using Scanned(5) by (rule scan_events_frontier)
  have "\<forall>r \<in> set rs. rc_status r \<noteq> ''failed''" using assms(2) Scanned(7) by (auto simp: no_failure_def)
  with f have e: "n = length evs" "\<forall>e \<in> set evs. settled (proj_ledger w') (event_key_of e)"
    unfolding scan_frontier_def by blast+
  have "is_purged (proj_ledger w') i" if "is_purged (proj_ledger w1) i" for i
    using purged_stays.scan_step [OF that, of env evs] Scanned(5) by simp
  with purge_all_purges [OF Scanned(2)] Scanned(3)
  have "\<forall>t \<in> set ts. \<exists>iv. index t ''event_id'' = Inr iv \<and> is_purged (proj_ledger w') (py_str iv)"
    by (auto simp: no_failure_def)
  then show ?thesis using that Scanned(1,4,6) e by blast
qed

lemma settled_cycle_idle:
  assumes "stored_events es = Inr evs" "iter_redactions es = Inr ts"
    and "\<forall>e \<in> set evs. settled (proj_ledger w) (event_key_of e)"
    and "\<forall>t \<in> set ts. \<exists>iv. index t ''event_id'' = Inr iv \<and> is_purged (proj_ledger w) (py_str iv)"
  shows "\<exists>c. run_once env es w = (w, Inr c) \<and> (\<forall>r \<in> set (receipts c). rc_status r = ''skipped'')"
proof -
  have "\<forall>e \<in> set evs. map_of e ''event_id'' \<noteq> None \<and> settled (proj_ledger w) (event_key_of e)"
    using assms(3) stored_events_id [OF assms(1)] by blast
  from scan_settled [OF this, of env] purge_settled [OF assms(4), of env] assms(1,2) show ?thesis
    by (auto simp: run_once_def purge_event_redactions_def)
qed

section \<open>Properties\<close>

definition fresh_projection :: "'g \<Rightarrow> string option \<Rightarrow> ('g \<times> string list) projection" where
  "fresh_projection g b = \<lparr> proj_ledger = empty_ledger b, graph = (g, []), ticks = 0 \<rparr>"

text \<open>C14. No event is materialized twice in a build: whatever sequence of adapter operations and worker
  cycles runs from a fresh ledger, against any graph client, event stores and visibility policy,
  the names of the episodes that the client accepted are distinct and each belongs to an event
  that the ledger records as applied.\<close>

theorem episodes_are_unique:
  "distinct (snd (graph (foldl (projection_step (recording env)) (fresh_projection g b) ops)))
   \<and> set (snd (graph (foldl (projection_step (recording env)) (fresh_projection g b) ops)))
     \<subseteq> {''dkg-event:'' @ i | i.
          is_applied (proj_ledger (foldl (projection_step (recording env)) (fresh_projection g b) ops)) i}"
proof -
  have "names_ok (fresh_projection g b)" by (simp add: names_ok_def fresh_projection_def)
  from names.run [OF this, of env ops] show ?thesis unfolding names_ok_def by blast
qed

text \<open>A failed event stops the cycle: after a worker cycle an event is newly applied only if it is
  among the scanned ones, in replay order; every event scanned before the last is applied or
  purged, and only the last receipt of a scan can be a failure, so that no event is materialized
  past an earlier one that failed. A cycle without a failed receipt has scanned all events.\<close>

lemma failed_event_stops_cycle:
  assumes "run_once env es w = (w', Inr c)" and "stored_events es = Inr evs"
  shows "scanned c \<le> length evs
    \<and> {i. is_applied (proj_ledger w') i} \<subseteq> {i. is_applied (proj_ledger w) i} \<union> event_key_of ` set (take (scanned c) evs)
    \<and> event_key_of ` set (take (scanned c - 1) evs) \<subseteq> {i. settled (proj_ledger w') i}
    \<and> (scanned c = length evs \<and> event_key_of ` set evs \<subseteq> {i. settled (proj_ledger w') i}
       \<or> \<not> no_failure (receipts c))"
  using assms(1)
proof (cases rule: run_once_cases)
  case (Blocked purged ts)
  have "is_applied (proj_ledger w') i \<longleftrightarrow> is_applied (proj_ledger w) i" for i
    using purge_events_applied [of env es w i] Blocked(1,2) by (simp add: purge_event_redactions_def)
  then show ?thesis using Blocked by auto
next
  case (Scanned purged ts evs' w1 n rs)
  have a: "is_applied (proj_ledger w1) i \<longleftrightarrow> is_applied (proj_ledger w) i" for i
    using purge_events_applied [of env es w i] Scanned(1,2) by (simp add: purge_event_redactions_def)
  have f: "scan_frontier (proj_ledger w1) (proj_ledger w') evs n rs"
    using scan_events_frontier [OF Scanned(5)] Scanned(4) assms(2) by simp
  note g = f [unfolded scan_frontier_def a]
  have "no_failure rs \<longrightarrow> n = length evs \<and> event_key_of ` set evs \<subseteq> {i. settled (proj_ledger w') i}"
    using g unfolding no_failure_def by blast
  moreover have "no_failure (receipts c) \<longleftrightarrow> no_failure rs" using Scanned(3,7) by simp
  moreover have "{i. is_applied (proj_ledger w') i}
      \<subseteq> {i. is_applied (proj_ledger w) i} \<union> event_key_of ` set (take n evs)" using g by blast
  moreover have "event_key_of ` set (take (n - 1) evs) \<subseteq> {i. settled (proj_ledger w') i}" using g by blast
  moreover have "n \<le> length evs" using g by blast
  ultimately show ?thesis unfolding Scanned(6) by blast
qed

definition demo_projection_env :: "unit projection_env" where
  "demo_projection_env = \<lparr> build_manifest = [], visibility = None,
     add_episode = (\<lambda>g e. if ep_name e = ''dkg-event:evt_b'' then (g, Inl (Exn ExternalError ''down'')) else (g, Inr (Some ''u''))),
     remove_episode = (\<lambda>g u. (g, Inr ())), error_type = (\<lambda>_. ''RuntimeError''), uuid_at = show_nat, now_at = show_nat \<rparr>"

definition demo_stored :: "string \<Rightarrow> string \<Rightarrow> path \<times> string" where
  "demo_stored i t = (event_path i, canonical (JObj [(''event_id'', JStr i), (''pack_id'', JStr ''p''),
     (''recorded_at'', JStr t), (''occurred_at'', JStr ''2026-01-01'')]))"

definition demo_event_store :: event_store where
  "demo_event_store = \<lparr> events = [demo_stored ''evt_b'' ''2''], tombstones = [] \<rparr>"

definition demo_world :: "unit projection" where
  "demo_world = \<lparr> proj_ledger = empty_ledger None, graph = (), ticks = 0 \<rparr>"

definition demo_failing_event :: dict where
  "demo_failing_event = [(''event_id'', JStr ''evt_b''), (''occurred_at'', JStr ''2026-01-01''), (''pack_id'', JStr ''p''),
     (''recorded_at'', JStr ''2'')]"

lemma demo_parts:
  "stored_events demo_event_store = Inr [demo_failing_event]"
  "iter_redactions demo_event_store = Inr []"
  "is_ok (snd (scan_events demo_projection_env demo_world [demo_failing_event]))"
  by code_simp+

lemma demo_cycle: "is_ok (snd (run_once demo_projection_env demo_event_store demo_world))"
proof -
  obtain w' n rs where "scan_events demo_projection_env demo_world [demo_failing_event] = (w', Inr (n, rs))"
    using demo_parts(3) by (cases "scan_events demo_projection_env demo_world [demo_failing_event]") (auto elim: is_okE)
  then show ?thesis by (simp add: run_once_def purge_event_redactions_def demo_parts(1,2) del: scan_events.simps)
qed


definition demo_working_env :: "unit projection_env" where
  "demo_working_env = demo_projection_env\<lparr>add_episode := (\<lambda>g e. (g, Inr (Some ''u'')))\<rparr>"

lemma demo_working: "client_works demo_working_env"
  by (simp add: client_works_def demo_working_env_def demo_projection_env_def)

definition demo_one_event :: dict where
  "demo_one_event = [(''event_id'', JStr ''evt_a''), (''occurred_at'', JStr ''2026-01-01''), (''pack_id'', JStr ''p''),
     (''recorded_at'', JStr ''1'')]"

lemma demo_one_stored:
  "stored_events \<lparr> events = [demo_stored ''evt_a'' ''1''], tombstones = [] \<rparr> = Inr [demo_one_event]"
  "is_ok (parse_instant ''2026-01-01'')"
  by code_simp+


end
