(* ===== verification/Migration.thy ===== *)
theory Migration
  imports Source_Store Lifecycle Projection
begin

text \<open>
  Guarded migration between projection builds (\<open>projection/migration.py\<close>): the semantic snapshot of a
  log, the comparison of two snapshots, the append-only ledger of switches and the harness that
  rebuilds, compares and switches. A snapshot holds no identifier of the graph database; the digest
  function, the time of day and the random part of a switch id are arguments.
\<close>

section \<open>Semantic snapshots\<close>

record semantic_snapshot =
  event_ids :: "json list"
  pack_event_ids :: "(string \<times> string list) list"
  namespace_subject_refs :: "(string \<times> string list) list"
  provenance_by_event :: "(string \<times> string) list"
  claim_states :: "(string \<times> string) list"
  relation_rows :: "(string \<times> string \<times> json \<times> json \<times> string) list"
  event_type_counts :: "(string \<times> nat) list"

text \<open>The tables that the loop over the ordered events fills.\<close>

record tables =
  tab_packs :: "(string \<times> string list) list"
  tab_subjects :: "(string \<times> string list) list"
  tab_types :: "(string \<times> nat) list"
  tab_provenance :: "(string \<times> string) list"

definition lookup_or :: "'v \<Rightarrow> (string \<times> 'v) list \<Rightarrow> string \<Rightarrow> 'v" where
  "lookup_or d t k = (case map_of t k of None \<Rightarrow> d | Some v \<Rightarrow> v)"

definition provenance_text :: "dict \<Rightarrow> string" where
  "provenance_text event = dumps (JObj
     [(''actor'', dget event ''actor''),
      (''caused_by_event_ids'', dget_or event ''caused_by_event_ids'' (JArr [])),
      (''evidence_refs'', dget_or event ''evidence_refs'' (JArr [])),
      (''source_snapshot_refs'', dget_or event ''source_snapshot_refs'' (JArr [])),
      (''provenance'', dget_or event ''provenance'' (JObj []))])"

definition tabulate_event :: "tables \<Rightarrow> dict \<Rightarrow> tables res" where
  "tabulate_event t event =
     rbind (dindex event ''event_id'') (\<lambda>iv.
     rbind (dindex event ''pack_id'') (\<lambda>pv.
     rbind (py_iter (dget_or event ''subject_refs'' (JArr []))) (\<lambda>refs.
     rbind (dindex event ''event_type'') (\<lambda>kv.
     let i = py_str iv; p = py_str pv; k = py_str kv in
     Inr \<lparr> tab_packs = AList.update p (lookup_or [] (tab_packs t) p @ [i]) (tab_packs t),
           tab_subjects = AList.update p (lookup_or [] (tab_subjects t) p @ map py_str refs) (tab_subjects t),
           tab_types = AList.update k (lookup_or 0 (tab_types t) k + 1) (tab_types t),
           tab_provenance = tab_provenance t @ [(i, provenance_text event)] \<rparr>))))"

definition relation_row :: "string \<times> relation_record \<Rightarrow> string \<times> string \<times> json \<times> json \<times> string" where
  "relation_row p = (case p of (i, r) \<Rightarrow> (i, relation_type r, source_ref r, target_ref r, rel_state r))"

definition snapshot_of_events :: "dict list \<Rightarrow> semantic_snapshot res" where
  "snapshot_of_events evs =
     rbind (ordered_events evs) (\<lambda>ordered.
     rbind (replay ordered) (\<lambda>state.
     rbind (rfold tabulate_event \<lparr> tab_packs = [], tab_subjects = [], tab_types = [], tab_provenance = [] \<rparr> ordered) (\<lambda>t.
     rbind (rmap (\<lambda>e. dindex e ''event_id'') ordered) (\<lambda>ids.
       Inr \<lparr> event_ids = ids,
             pack_event_ids = sort_key fst (tab_packs t),
             namespace_subject_refs = map (\<lambda>(p, refs). (p, sort (remdups refs))) (sort_key fst (tab_subjects t)),
             provenance_by_event = sort_key (\<lambda>(i, s). [i, s]) (tab_provenance t),
             claim_states = sort_key fst (claims state),
             relation_rows = map relation_row (sort_key fst (relations state)),
             event_type_counts = sort_key fst (tab_types t) \<rparr>))))"

text \<open>\<open>asdict\<close> as the JSON value that is hashed: tuples are arrays.\<close>

definition snapshot_json :: "semantic_snapshot \<Rightarrow> json" where
  "snapshot_json s = JObj
     [(''event_ids'', JArr (event_ids s)),
      (''pack_event_ids'', JArr (map (\<lambda>(p, is). JArr [JStr p, strs is]) (pack_event_ids s))),
      (''namespace_subject_refs'', JArr (map (\<lambda>(p, rs). JArr [JStr p, strs rs]) (namespace_subject_refs s))),
      (''provenance_by_event'', JArr (map (\<lambda>(i, t). strs [i, t]) (provenance_by_event s))),
      (''claim_states'', JArr (map (\<lambda>(c, t). strs [c, t]) (claim_states s))),
      (''relation_states'',
         JArr (map (\<lambda>(i, k, a, b, t). JArr [JStr i, JStr k, a, b, JStr t]) (relation_rows s))),
      (''event_type_counts'', JArr (map (\<lambda>(k, n). JArr [JStr k, JInt (int n)]) (event_type_counts s)))]"

definition snapshot_digest :: "(string \<Rightarrow> string) \<Rightarrow> semantic_snapshot \<Rightarrow> string" where
  "snapshot_digest sha s = sha (dumps (snapshot_json s))"

section \<open>Comparison\<close>

record comparison_report =
  rep_current_slot :: "string option"
  rep_candidate_slot :: string
  rep_expected_digest :: string
  rep_candidate_digest :: string
  rep_current_digest :: "string option"
  rep_mismatches :: "string list"
  rep_benchmarks :: "(string \<times> bool) list"

definition report_passed :: "comparison_report \<Rightarrow> bool" where
  "report_passed r \<longleftrightarrow> rep_mismatches r = [] \<and> list_all snd (rep_benchmarks r)"

definition relation_row_eq ::
  "string \<times> string \<times> json \<times> json \<times> string \<Rightarrow> string \<times> string \<times> json \<times> json \<times> string \<Rightarrow> bool" where
  "relation_row_eq x y = (case (x, y) of ((i, k, a, b, s), (i', k', a', b', s')) \<Rightarrow>
     i = i' \<and> k = k' \<and> py_eq a a' \<and> py_eq b b' \<and> s = s')"

definition field_agreement :: "semantic_snapshot \<Rightarrow> semantic_snapshot \<Rightarrow> (string \<times> bool) list" where
  "field_agreement x y =
     [(''event_ids'', list_all2 py_eq (event_ids x) (event_ids y)),
      (''pack_event_ids'', pack_event_ids x = pack_event_ids y),
      (''namespace_subject_refs'', namespace_subject_refs x = namespace_subject_refs y),
      (''provenance_by_event'', provenance_by_event x = provenance_by_event y),
      (''claim_states'', claim_states x = claim_states y),
      (''relation_states'', list_all2 relation_row_eq (relation_rows x) (relation_rows y)),
      (''event_type_counts'', event_type_counts x = event_type_counts y)]"

definition compare_snapshots ::
  "(string \<Rightarrow> string) \<Rightarrow> semantic_snapshot \<Rightarrow> semantic_snapshot \<Rightarrow> string \<Rightarrow> semantic_snapshot option
   \<Rightarrow> string option \<Rightarrow> (string \<times> bool) list option \<Rightarrow> comparison_report" where
  "compare_snapshots sha expected candidate slot current current_slot benchmarks =
     \<lparr> rep_current_slot = current_slot, rep_candidate_slot = slot,
       rep_expected_digest = snapshot_digest sha expected,
       rep_candidate_digest = snapshot_digest sha candidate,
       rep_current_digest = map_option (snapshot_digest sha) current,
       rep_mismatches = map fst (filter (\<lambda>(f, same). \<not> same) (field_agreement expected candidate)),
       rep_benchmarks = sort_key fst (case benchmarks of None \<Rightarrow> [] | Some b \<Rightarrow> b) \<rparr>"

section \<open>The switch ledger\<close>

definition switch_path :: "string \<Rightarrow> string \<Rightarrow> path" where
  "switch_path timestamp switch_id =
     [map (\<lambda>c. if c = CHR '':'' then CHR ''_'' else c) timestamp @ ''-'' @ switch_id @ ''.json'']"

definition switch_files :: "fs \<Rightarrow> path list" where
  "switch_files d = filter (\<lambda>p. length p = 1 \<and> ends_with ''.json'' (last p)) (map fst d)"

definition switch_key :: "json \<Rightarrow> string list res" where
  "switch_key r = rbind (index r ''switched_at'') (\<lambda>t. rbind (key_str t) (\<lambda>t.
     rbind (index r ''switch_id'') (\<lambda>i. rbind (key_str i) (\<lambda>i. Inr [t, i]))))"

definition iter_switches :: "fs \<Rightarrow> json list res" where
  "iter_switches d =
     rbind (rmap (read_json d) (switch_files d)) (\<lambda>rs.
     rbind (rmap (\<lambda>r. rbind (switch_key r) (\<lambda>k. Inr (k, r))) rs) (\<lambda>keyed.
       Inr (map snd (sort_key fst keyed))))"

definition active_slot :: "fs \<Rightarrow> json res" where
  "active_slot d = rbind (iter_switches d) (\<lambda>rs. if rs = [] then Inr JNull else index (last rs) ''to_slot'')"

definition switch_payload ::
  "string \<Rightarrow> string \<Rightarrow> string option \<Rightarrow> string \<Rightarrow> comparison_report \<Rightarrow> dict \<Rightarrow> dict" where
  "switch_payload switch_id timestamp from_slot to_slot report manifest =
     [(''switch_id'', JStr switch_id),
      (''switched_at'', JStr timestamp),
      (''from_slot'', opt_str from_slot),
      (''to_slot'', JStr to_slot),
      (''expected_semantic_digest'', JStr (rep_expected_digest report)),
      (''candidate_semantic_digest'', JStr (rep_candidate_digest report)),
      (''mismatches'', strs (rep_mismatches report)),
      (''benchmark_results'', JObj (map (\<lambda>(k, b). (k, JBool b)) (rep_benchmarks report))),
      (''build_manifest'', JObj manifest)]"

definition record_switch ::
  "fs \<Rightarrow> string option \<Rightarrow> string \<Rightarrow> comparison_report \<Rightarrow> dict \<Rightarrow> string option \<Rightarrow> string \<Rightarrow> string \<Rightarrow> fs \<times> dict res" where
  "record_switch d from_slot to_slot report manifest switched_at now uuid =
     sbind (pure_res d
       (rbind (check (report_passed report)
                (Exn ValueError ''candidate projection cannot become active before checks pass'')) (\<lambda>_.
        rbind (check (rep_candidate_slot report = to_slot)
                (Exn ValueError ''comparison candidate slot does not match switch target'')) (\<lambda>_.
        rbind (active_slot d) (\<lambda>active.
          check (active = JNull \<or> py_eq (opt_str from_slot) active) (Exn ValueError ''switch source ''))))))
     (\<lambda>d _.
       let timestamp = (case switched_at of Some (c # cs) \<Rightarrow> c # cs | _ \<Rightarrow> now);
           switch_id = ''switch_'' @ uuid;
           payload = switch_payload switch_id timestamp from_slot to_slot report manifest;
           (d', fresh) = publish_immutable (switch_path timestamp switch_id) (canonical (JObj payload)) d
       in if fresh then (d', Inr payload)
          else (d', Inl (Exn RuntimeError ''projection switch record already exists: '')))"

section \<open>The harness\<close>

definition destructive_rebuild ::
  "('w \<Rightarrow> 'w \<times> unit res) \<Rightarrow> ('w \<Rightarrow> 'w \<times> receipt list res) \<Rightarrow> 'w \<Rightarrow> 'w \<times> receipt list res" where
  "destructive_rebuild destroy rebuild w =
     sbind (destroy w) (\<lambda>w _. sbind (rebuild w) (\<lambda>w rs.
       if \<exists>r \<in> set rs. rc_status r = ''failed''
       then (w, Inl (Exn RuntimeError ''projection rebuild contained '')) else (w, Inr rs)))"

definition compare_and_switch ::
  "(string \<Rightarrow> string) \<Rightarrow> fs \<Rightarrow> semantic_snapshot \<Rightarrow> semantic_snapshot \<Rightarrow> string \<Rightarrow> dict \<Rightarrow> semantic_snapshot option
   \<Rightarrow> string option \<Rightarrow> (string \<times> bool) list option \<Rightarrow> string option \<Rightarrow> string \<Rightarrow> string
   \<Rightarrow> fs \<times> (comparison_report \<times> dict) res" where
  "compare_and_switch sha d expected candidate slot manifest current current_slot benchmarks switched_at now uuid =
     (let report = compare_snapshots sha expected candidate slot current current_slot benchmarks in
      if \<not> report_passed report
      then (d, Inl (Exn ValueError ''candidate projection failed migration checks: ''))
      else sbind (record_switch d current_slot slot report manifest switched_at now uuid) (\<lambda>d switch.
             (d, Inr (report, switch))))"

section \<open>Replay order\<close>

lemma ordered_events_perm:
  assumes m: "mset xs = mset ys" and d: "distinct (map event_key xs)" and r: "ordered_events xs = Inr es"
  shows "ordered_events ys = Inr es"
proof -
  let ?mark = "\<lambda>e. rbind (canonical_event_order e) (\<lambda>k. Inr (k, e))"
  from r obtain keyed where k: "rmap ?mark xs = Inr keyed" "es = map snd (sort_key fst keyed)"
    by (auto simp: ordered_events_def)
  from rmap_perm [OF m k(1)] obtain keyed' where k': "rmap ?mark ys = Inr keyed'" "mset keyed' = mset keyed" by blast
  have "keyed = map (\<lambda>e. (event_key e, e)) xs"
    by (rule rmap_pairs [OF k(1)]) (auto simp: canonical_event_order_def event_key_def dget_def)
  then have "distinct (map fst keyed)" using d by (simp add: comp_def)
  then have "sort_key fst keyed = sort_key fst keyed'" by (rule sort_key_perm [OF k'(2) [symmetric]])
  with k(2) k'(1) show ?thesis by (simp add: ordered_events_def)
qed

lemma snapshot_perm:
  assumes "mset xs = mset ys" "distinct (map event_key xs)" "snapshot_of_events xs = Inr s"
  shows "snapshot_of_events ys = Inr s"
proof -
  from assms(3) obtain es where es: "ordered_events xs = Inr es" unfolding snapshot_of_events_def rbind_Inr_iff by blast
  have "ordered_events ys = ordered_events xs" using ordered_events_perm [OF assms(1,2) es] es by simp
  then show ?thesis using assms(3) by (simp only: snapshot_of_events_def)
qed

section \<open>Switching\<close>

lemma insort_key_last: "f y \<le> f x \<Longrightarrow> insort_key f y (zs @ [x]) = insort_key f y zs @ [x]"
  by (induction zs) auto

lemma sort_key_snoc: "\<forall>y \<in> set xs. f y \<le> f x \<Longrightarrow> sort_key f (xs @ [x]) = sort_key f xs @ [x]"
  by (induction xs) (auto simp: insort_key_last)

lemma rmap_snoc: "rmap f xs = Inr ys \<Longrightarrow> f x = Inr y \<Longrightarrow> rmap f (xs @ [x]) = Inr (ys @ [y])"
  by (induction xs arbitrary: ys) auto

lemma rmap_eq: "(\<And>x. x \<in> set xs \<Longrightarrow> f x = g x) \<Longrightarrow> rmap f xs = rmap g xs"
  by (induction xs) auto

lemma switch_file: "switch_path t i = [n] \<Longrightarrow> ends_with ''.json'' n"
  by (auto simp: switch_path_def ends_with_iff)

lemma iter_switches_snoc:
  assumes old: "iter_switches d = Inr rs" and new: "map_of d p = None" "p = switch_path t i"
    and read: "parse_json data = Inr r" "switch_key r = Inr k"
    and later: "\<forall>r' \<in> set rs. \<forall>k'. switch_key r' = Inr k' \<longrightarrow> k' \<le> k"
  shows "iter_switches (d @ [(p, data)]) = Inr (rs @ [r])"
proof -
  let ?mark = "\<lambda>r. rbind (switch_key r) (\<lambda>k. Inr (k, r))"
  let ?d = "d @ [(p, data)]"
  from old obtain files keyed where f: "rmap (read_json d) (switch_files d) = Inr files"
    "rmap ?mark files = Inr keyed" "rs = map snd (sort_key fst keyed)" by (auto simp: iter_switches_def)
  have "rmap (read_json ?d) (switch_files d) = rmap (read_json d) (switch_files d)"
  proof (rule rmap_eq)
    fix q assume "q \<in> set (switch_files d)"
    then obtain x where "map_of d q = Some x" by (auto simp: switch_files_def map_of_eq_None_iff dest: weak_map_of_SomeI)
    then show "read_json ?d q = read_json d q" by (simp add: read_json_def read_file_def map_add_def)
  qed
  moreover have "switch_files ?d = switch_files d @ [p]"
    by (simp add: switch_files_def new(2)) (simp add: switch_path_def ends_with_iff)
  moreover have "read_json ?d p = Inr r" using new(1) read(1) by (simp add: read_json_def read_file_def map_add_def)
  ultimately have "rmap (read_json ?d) (switch_files ?d) = Inr (files @ [r])" using f(1) by (simp add: rmap_snoc)
  moreover have "rmap ?mark (files @ [r]) = Inr (keyed @ [(k, r)])" using f(2) read(2) by (simp add: rmap_snoc)
  moreover have "\<forall>y \<in> set keyed. fst y \<le> fst (k, r)"
  proof
    fix y assume y: "y \<in> set keyed"
    then have "switch_key (snd y) = Inr (fst y)" using rmap_Inr_set [OF f(2)] by auto
    moreover have "snd y \<in> set rs" using y f(3) by auto
    ultimately show "fst y \<le> fst (k, r)" using later by simp
  qed
  then have "sort_key fst (keyed @ [(k, r)]) = sort_key fst keyed @ [(k, r)]" by (rule sort_key_snoc)
  ultimately show ?thesis using f(3) by (simp add: iter_switches_def)
qed

lemma record_switch_D:
  assumes "record_switch d from_slot to_slot report manifest (Some at) now uuid = (d', Inr payload)" and "at \<noteq> []"
  shows "report_passed report \<and> rep_candidate_slot report = to_slot
    \<and> (\<exists>active. active_slot d = Inr active \<and> (active = JNull \<or> py_eq (opt_str from_slot) active))
    \<and> payload = switch_payload (''switch_'' @ uuid) at from_slot to_slot report manifest
    \<and> map_of d (switch_path at (''switch_'' @ uuid)) = None
    \<and> d' = d @ [(switch_path at (''switch_'' @ uuid), canonical (JObj payload))]"
proof -
  obtain c cs where at: "at = c # cs" using assms(2) by (cases at) auto
  from assms(1) show ?thesis unfolding record_switch_def
    by (elim sbind_InrE) (auto simp: at Let_def publish_immutable_def exists_path_def update_fresh split: if_split_asm)
qed

lemma field_agreement_iff:
  "map fst (filter (\<lambda>(f, same). \<not> same) (field_agreement x y)) = [] \<longleftrightarrow> list_all snd (field_agreement x y)"
  by (auto simp: filter_empty_conv list_all_iff)

lemma canon_payload_fields:
  assumes "wf_json (JObj d)"
  shows "index (canon (JObj d)) k = map_sum id canon (dindex d k)"
proof -
  obtain c where c: "canon (JObj d) = JObj c" by simp
  have "distinct (map fst d)" using assms by simp
  from map_of_canon [OF this c, of k] show ?thesis
    unfolding c index_JObj by (cases "map_of d k") (simp_all add: dindex_def)
qed

definition newest :: "string \<Rightarrow> json list \<Rightarrow> bool" where
  "newest at rs \<longleftrightarrow> (\<forall>r \<in> set rs. \<forall>t. index r ''switched_at'' = Inr (JStr t) \<longrightarrow> t < at)"

lemma newest_key: "newest at rs \<Longrightarrow> r \<in> set rs \<Longrightarrow> switch_key r = Inr k \<Longrightarrow> k \<le> [at, i]"
  by (auto simp: newest_def switch_key_def)

lemma wf_switch_payload:
  assumes "wf_json (JObj manifest)" and "distinct (map fst (rep_benchmarks report))"
  shows "wf_json (JObj (switch_payload i at from_slot to_slot report manifest))"
proof -
  have "wf_json (JObj (map (\<lambda>(k, b). (k, JBool b)) (rep_benchmarks report)))"
    using assms(2) by (auto simp: comp_def case_prod_unfold)
  then show ?thesis using assms(1)
    by (simp add: switch_payload_def opt_str_def del: wf_json.simps(3) split: option.split)
      (simp add: wf_json.simps(3) [of "_ # _"] del: wf_json.simps(3))
qed

lemma switch_appends:
  assumes "record_switch d from_slot to_slot report manifest (Some at) now uuid = (d', Inr payload)"
    and "at \<noteq> []" and wf: "wf_json (JObj payload)" and old: "iter_switches d = Inr rs" and "newest at rs"
  shows "iter_switches d' = Inr (rs @ [canon (JObj payload)]) \<and> active_slot d' = Inr (JStr to_slot)"
proof -
  let ?i = "''switch_'' @ uuid"
  note D = record_switch_D [OF assms(1,2)]
  have p: "map_of payload ''switched_at'' = Some (JStr at)" "map_of payload ''switch_id'' = Some (JStr ?i)"
    "map_of payload ''to_slot'' = Some (JStr to_slot)"
    using D by (auto simp: switch_payload_def)
  note f = canon_payload_fields [OF wf]
  have "iter_switches (d @ [(switch_path at ?i, canonical (JObj payload))]) = Inr (rs @ [canon (JObj payload)])"
  proof (rule iter_switches_snoc [OF old])
    show "map_of d (switch_path at ?i) = None" using D by blast
    show "switch_path at ?i = switch_path at ?i" ..
    show "parse_json (canonical (JObj payload)) = Inr (canon (JObj payload))"
      using wf by (simp add: parse_json_def doc.decode_encode del: canon.simps(2))
    show "switch_key (canon (JObj payload)) = Inr [at, ?i]"
      by (simp add: switch_key_def f p del: canon.simps(2) index_Inr_iff rbind_Inr_iff)
    show "\<forall>r' \<in> set rs. \<forall>k'. switch_key r' = Inr k' \<longrightarrow> k' \<le> [at, ?i]" using newest_key [OF assms(5)] by blast
  qed
  then have i: "iter_switches d' = Inr (rs @ [canon (JObj payload)])" using D by simp
  then have "active_slot d' = index (canon (JObj payload)) ''to_slot''" by (simp add: active_slot_def del: canon.simps(2))
  then show ?thesis using i f p(3) by (simp del: canon.simps(2))
qed

lemma compare_and_switch_D:
  assumes "compare_and_switch sha d expected candidate slot manifest current current_slot benchmarks (Some at) now uuid
    = (d', Inr (report, switch))"
  shows "report = compare_snapshots sha expected candidate slot current current_slot benchmarks"
    and "report_passed report"
    and "record_switch d current_slot slot report manifest (Some at) now uuid = (d', Inr switch)"
  using assms unfolding compare_and_switch_def Let_def
  by (auto elim!: sbind_InrE split: if_split_asm)

section \<open>Properties\<close>

text \<open>The semantic snapshot of a log does not depend on the order in which the events were read:
  any permutation of events with distinct (recorded_at, event_id) pairs has the same snapshot, so
  that a rebuilt projection can be compared with the log whatever the directory order.\<close>

lemma snapshot_order_independent:
  assumes "mset xs = mset ys" and "distinct (map event_key xs)" and "snapshot_of_events xs = Inr s"
  shows "snapshot_of_events ys = Inr s \<and> snapshot_digest sha s = sha (dumps (snapshot_json s))"
  using snapshot_perm [OF assms] by (simp add: snapshot_digest_def)

definition demo_claim_event :: "string \<Rightarrow> string \<Rightarrow> dict" where
  "demo_claim_event i t = [(''event_id'', JStr i), (''event_type'', JStr ''claim.proposed''), (''pack_id'', JStr ''p''),
     (''recorded_at'', JStr t), (''subject_refs'', strs [''claim_'' @ i]), (''payload'', JObj [])]"

lemma demo_snapshot_facts:
  "is_ok (snapshot_of_events [demo_claim_event ''a'' ''1'', demo_claim_event ''b'' ''2''])"
  "distinct (map event_key [demo_claim_event ''a'' ''1'', demo_claim_event ''b'' ''2''])"
  by code_simp+


definition demo_semantics :: semantic_snapshot where
  "demo_semantics = \<lparr> event_ids = [], pack_event_ids = [], namespace_subject_refs = [], provenance_by_event = [],
     claim_states = [], relation_rows = [], event_type_counts = [] \<rparr>"

lemma demo_switch:
  "is_ok (snd (compare_and_switch id [] demo_semantics demo_semantics ''green'' [] None (Some ''blue'')
     (Some [(''recall'', True)]) (Some ''2026'') ''now'' ''u''))"
  "iter_switches [] = Inr []"
  by code_simp+


text \<open>A rejected switch changes nothing: when the comparison fails, the target is not the compared
  slot, the active slot is another one or the record exists already, an exception is raised and
  the ledger of switches is as before.\<close>

lemma rejected_switch_changes_nothing:
  assumes "compare_and_switch sha d expected candidate slot manifest current current_slot benchmarks switched_at now uuid
      = (d', Inl e)"
  shows "d' = d \<and> (exn_class e = ValueError \<or> report_passed (compare_snapshots sha expected candidate slot current current_slot benchmarks))"
proof (cases "report_passed (compare_snapshots sha expected candidate slot current current_slot benchmarks)")
  case False
  then show ?thesis using assms by (auto simp: compare_and_switch_def Let_def)
next
  case True
  obtain d1 r where s: "record_switch d current_slot slot
      (compare_snapshots sha expected candidate slot current current_slot benchmarks) manifest switched_at now uuid = (d1, r)"
    by force
  with True assms have "r = Inl e" "d1 = d'" by (cases r; simp add: compare_and_switch_def Let_def)+
  with s have "d' = d" unfolding record_switch_def pure_res_def
    by (cases "rbind (check (report_passed (compare_snapshots sha expected candidate slot current current_slot benchmarks))
                (Exn ValueError ''candidate projection cannot become active before checks pass'')) (\<lambda>_.
        rbind (check (rep_candidate_slot (compare_snapshots sha expected candidate slot current current_slot benchmarks) = slot)
                (Exn ValueError ''comparison candidate slot does not match switch target'')) (\<lambda>_.
        rbind (active_slot d) (\<lambda>active.
          check (active = JNull \<or> py_eq (opt_str current_slot) active) (Exn ValueError ''switch source ''))))")
      (auto simp only: sbind.simps prod.inject, auto simp: Let_def publish_immutable_def split: if_split_asm)
  then show ?thesis using True by blast
qed

lemma demo_rejection:
  "compare_and_switch id [] demo_semantics demo_semantics ''green'' [] None None (Some [(''recall'', False)]) None ''now'' ''u''
   = ([], Inl (Exn ValueError ''candidate projection failed migration checks: ''))"
  by code_simp

end
