(* ===== verification/S3_Store.thy ===== *)
theory S3_Store
  imports Event_Store
begin

text \<open>
  The S3-compatible stores (\<open>adapters/s3/storage.py\<close>). The storage service is a parameter: the
  record \<open>s3_client\<close> of the four object operations and the listing, over a state \<open>'c\<close> of the service.
  An error of the client is its provider code, if it has one. Every operation of the backend, the
  artifact store and the event store is written over that client; enumeration follows the
  continuation tokens for as long as the service returns them, so it is a partial function whose
  value \<open>None\<close> is not returning.
\<close>

section \<open>The client and the object backend\<close>

type_synonym s3_error = "string option"

record s3_page =
  page_keys :: "string list"
  page_truncated :: bool
  page_token :: "string option"

record 'c s3_client =
  s3_get :: "'c \<Rightarrow> string \<Rightarrow> string \<Rightarrow> s3_error + string"
  s3_head :: "'c \<Rightarrow> string \<Rightarrow> string \<Rightarrow> s3_error + unit"
  s3_put :: "'c \<Rightarrow> string \<Rightarrow> string \<Rightarrow> string \<Rightarrow> 'c \<times> (s3_error + unit)"
  s3_delete :: "'c \<Rightarrow> string \<Rightarrow> string \<Rightarrow> 'c \<times> (s3_error + unit)"
  s3_list :: "'c \<Rightarrow> string \<Rightarrow> string \<Rightarrow> string option \<Rightarrow> s3_error + s3_page"

record 'c s3_backend =
  s3_bucket :: string
  s3_prefix :: string
  s3_client :: "'c s3_client"

definition S3_NOT_FOUND :: "string list" where
  "S3_NOT_FOUND = [''404'', ''NoSuchKey'', ''NotFound'', ''NoSuchObject'']"

definition S3_PRECONDITION :: "string list" where
  "S3_PRECONDITION = [''412'', ''PreconditionFailed'', ''ConditionalRequestConflict'']"

definition code_in :: "s3_error \<Rightarrow> string list \<Rightarrow> bool" where
  "code_in e codes = (case e of None \<Rightarrow> False | Some c \<Rightarrow> c \<in> set codes)"

definition lstrip_slash :: "string \<Rightarrow> string" where
  "lstrip_slash s = dropWhile (\<lambda>c. c = CHR ''/'') s"

definition strip_slash :: "string \<Rightarrow> string" where
  "strip_slash s = rev (lstrip_slash (rev (lstrip_slash s)))"

definition make_backend :: "string \<Rightarrow> string \<Rightarrow> 'c s3_client \<Rightarrow> 'c s3_backend res" where
  "make_backend bucket prefix client =
     rbind (check (bucket \<noteq> [] \<and> strip bucket \<noteq> []) (Exn ValueError ''S3 bucket is required'')) (\<lambda>_.
       Inr \<lparr> s3_bucket = bucket, s3_prefix = strip_slash prefix, s3_client = client \<rparr>)"

definition s3_key :: "'c s3_backend \<Rightarrow> string \<Rightarrow> string" where
  "s3_key b relative =
     (let r = lstrip_slash relative in if s3_prefix b = [] then r else s3_prefix b @ ''/'' @ r)"

definition s3_read :: "'c s3_backend \<Rightarrow> 'c \<Rightarrow> string \<Rightarrow> string res" where
  "s3_read b c relative =
     (case s3_get (s3_client b) c (s3_bucket b) (s3_key b relative) of
        Inr body \<Rightarrow> Inr body
      | Inl e \<Rightarrow> if code_in e S3_NOT_FOUND then Inl (Exn FileNotFoundError (s3_key b relative))
                else Inl (Exn RemoteStoreUnavailable ''durable object read failed for ''))"

definition s3_exists :: "'c s3_backend \<Rightarrow> 'c \<Rightarrow> string \<Rightarrow> bool res" where
  "s3_exists b c relative =
     (case s3_head (s3_client b) c (s3_bucket b) (s3_key b relative) of
        Inr _ \<Rightarrow> Inr True
      | Inl e \<Rightarrow> if code_in e S3_NOT_FOUND then Inr False
                else Inl (Exn RemoteStoreUnavailable ''durable object existence check failed for ''))"

definition put_immutable :: "'c s3_backend \<Rightarrow> 'c \<Rightarrow> string \<Rightarrow> string \<Rightarrow> 'c \<times> bool res" where
  "put_immutable b c relative data =
     (case s3_put (s3_client b) c (s3_bucket b) (s3_key b relative) data of
        (c', Inr _) \<Rightarrow> (c', Inr True)
      | (c', Inl e) \<Rightarrow>
          if \<not> code_in e S3_PRECONDITION
          then (c', Inl (Exn RemoteStoreUnavailable ''durable object write failed for ''))
          else pure_res c' (rbind (s3_read b c' relative) (\<lambda>existing.
            if existing = data then Inr False
            else Inl (Exn RemoteObjectConflict ''stable object key already exists with different content: ''))))"

definition s3_remove :: "'c s3_backend \<Rightarrow> 'c \<Rightarrow> string \<Rightarrow> 'c \<times> unit res" where
  "s3_remove b c relative =
     (case s3_delete (s3_client b) c (s3_bucket b) (s3_key b relative) of
        (c', Inr _) \<Rightarrow> (c', Inr ())
      | (c', Inl _) \<Rightarrow> (c', Inl (Exn RemoteStoreUnavailable ''durable object delete failed for '')))"

definition page_relative :: "'c s3_backend \<Rightarrow> s3_page \<Rightarrow> string list" where
  "page_relative b page =
     (if s3_prefix b = [] then page_keys page
      else let p = s3_prefix b @ ''/''
           in map (drop (length p)) (filter (starts_with p) (page_keys page)))"

partial_function (option) iter_pages ::
  "'c s3_backend \<Rightarrow> 'c \<Rightarrow> string \<Rightarrow> string option \<Rightarrow> string list \<Rightarrow> string list res option" where
  "iter_pages b c full_prefix token keys =
     (case s3_list (s3_client b) c (s3_bucket b) full_prefix token of
        Inl _ \<Rightarrow> Some (Inl (Exn RemoteStoreUnavailable ''durable object enumeration failed for ''))
      | Inr page \<Rightarrow>
          if \<not> page_truncated page then Some (Inr (keys @ page_relative b page))
          else case page_token page of
              Some (t # ts) \<Rightarrow> iter_pages b c full_prefix (Some (t # ts)) (keys @ page_relative b page)
            | _ \<Rightarrow> Some (Inl (Exn RemoteStoreUnavailable
                     ''durable object enumeration truncated without continuation token: '')))"

definition iter_keys :: "'c s3_backend \<Rightarrow> 'c \<Rightarrow> string \<Rightarrow> string list res option" where
  "iter_keys b c relative_prefix = iter_pages b c (s3_key b relative_prefix) None []"

section \<open>Artifacts\<close>

definition s3_blob_key :: "string \<Rightarrow> string" where
  "s3_blob_key digest = ''canonical/artifacts/blobs/sha256/'' @ take 2 digest @ ''/'' @ digest"

definition s3_manifest_key :: "string \<Rightarrow> string" where
  "s3_manifest_key a = ''canonical/artifacts/manifests/'' @ take 2 (removeprefix ''art_'' a) @ ''/'' @ a @ ''.json''"

definition s3_artifact_redaction_key :: "string \<Rightarrow> string" where
  "s3_artifact_redaction_key a =
     ''canonical/redactions/artifacts/'' @ take 2 (removeprefix ''art_'' a) @ ''/'' @ a @ ''.json''"

text \<open>\<open>except RemoteObjectConflict: raise e\<close>.\<close>

definition on_conflict :: "exn \<Rightarrow> 'w \<times> 'a res \<Rightarrow> 'w \<times> 'a res" where
  "on_conflict e m = (case m of
      (w, Inl x) \<Rightarrow> (w, Inl (if exn_class x = RemoteObjectConflict then e else x)) | _ \<Rightarrow> m)"

definition parse_object :: "exn \<Rightarrow> string \<Rightarrow> json res" where
  "parse_object e text = (case loads text of Some v \<Rightarrow> Inr v | None \<Rightarrow> Inl e)"

definition s3_artifact_redacted :: "'c s3_backend \<Rightarrow> 'c \<Rightarrow> string \<Rightarrow> bool res" where
  "s3_artifact_redacted b c a = s3_exists b c (s3_artifact_redaction_key a)"

definition s3_get_manifest :: "'c s3_backend \<Rightarrow> 'c \<Rightarrow> string \<Rightarrow> json res" where
  "s3_get_manifest b c a =
     rbind (s3_read b c (s3_manifest_key a)) (parse_object (Exn ArtifactIntegrityError ''invalid manifest for ''))"

definition s3_get_artifact_redaction :: "'c s3_backend \<Rightarrow> 'c \<Rightarrow> string \<Rightarrow> json res" where
  "s3_get_artifact_redaction b c a =
     rbind (s3_exists b c (s3_artifact_redaction_key a)) (\<lambda>present.
     if \<not> present then Inr JNull
     else rbind (s3_read b c (s3_artifact_redaction_key a))
            (parse_object (Exn ArtifactIntegrityError ''invalid redaction tombstone for '')))"

definition s3_put_bytes ::
  "(string \<Rightarrow> string) \<Rightarrow> 'c s3_backend \<Rightarrow> 'c \<Rightarrow> string \<Rightarrow> string \<Rightarrow> 'c \<times> dict res" where
  "s3_put_bytes sha b c data media_type =
     (let digest = sha data; a = artifact_id_for_digest digest; manifest = artifact_manifest sha data media_type in
      sbind (pure_res c (s3_artifact_redacted b c a)) (\<lambda>c redacted.
      if redacted then (c, Inl (Exn ArtifactRedactedError ''artifact ''))
      else sbind (on_conflict (Exn ArtifactIntegrityError ''hash collision or corrupted blob for '')
             (put_immutable b c (s3_blob_key digest) data)) (\<lambda>c _.
           sbind (on_conflict (Exn ArtifactIntegrityError ''manifest conflict for '')
             (put_immutable b c (s3_manifest_key a) (canonical (JObj manifest)))) (\<lambda>c _.
             (c, Inr manifest)))))"

definition s3_read_bytes :: "'c s3_backend \<Rightarrow> 'c \<Rightarrow> string \<Rightarrow> string res" where
  "s3_read_bytes b c a =
     rbind (s3_artifact_redacted b c a) (\<lambda>redacted.
     if redacted then Inl (Exn ArtifactRedactedError ''artifact '')
     else rbind (s3_get_manifest b c a) (\<lambda>manifest.
          rbind (manifest_digest manifest) (\<lambda>digest. s3_read b c (s3_blob_key digest))))"

definition s3_verify :: "(string \<Rightarrow> string) \<Rightarrow> 'c s3_backend \<Rightarrow> 'c \<Rightarrow> string \<Rightarrow> bool res" where
  "s3_verify sha b c a =
     rbind (s3_get_manifest b c a) (\<lambda>manifest.
     rbind (s3_read_bytes b c a) (\<lambda>data.
     rbind (index manifest ''content_hash'') (\<lambda>h.
     rbind (index h ''digest'') (\<lambda>digest.
     if \<not> py_eq (JStr (sha data)) digest then Inl (Exn ArtifactIntegrityError ''artifact verification failed for '')
     else rbind (index manifest ''byte_size'') (\<lambda>size.
       if \<not> py_eq (JInt (int (length data))) size
       then Inl (Exn ArtifactIntegrityError ''artifact verification failed for '') else Inr True)))))"

definition s3_redact_artifact ::
  "'c s3_backend \<Rightarrow> 'c \<Rightarrow> string \<Rightarrow> string \<Rightarrow> string \<Rightarrow> string \<Rightarrow> string option \<Rightarrow> 'c \<times> dict res" where
  "s3_redact_artifact b c a reason authority redacted_at request_ref =
     (if reason = [] \<or> authority = [] \<or> redacted_at = []
      then (c, Inl (Exn ValueError ''redaction requires reason, authority, and redacted_at''))
      else sbind (pure_res c (rbind (s3_get_manifest b c a) (\<lambda>manifest.
             rbind (index manifest ''content_hash'') (\<lambda>h.
             rbind (index manifest ''byte_size'') (\<lambda>size.
             rbind (index manifest ''media_type'') (\<lambda>mt.
               Inr (manifest,
                 [(''artifact_id'', JStr a), (''redacted_at'', JStr redacted_at), (''reason'', JStr reason),
                  (''authority'', JStr authority), (''request_ref'', opt_str request_ref),
                  (''content_hash'', h), (''byte_size'', size), (''media_type'', mt)])))))))
           (\<lambda>c (manifest, fields).
             sbind (on_conflict (Exn ArtifactIntegrityError ''redaction tombstone conflict for '')
               (put_immutable b c (s3_artifact_redaction_key a) (canonical (JObj fields)))) (\<lambda>c _.
             sbind (pure_res c (manifest_digest manifest)) (\<lambda>c digest.
             sbind (s3_remove b c (s3_blob_key digest)) (\<lambda>c _. (c, Inr fields))))))"

section \<open>Events\<close>

definition s3_event_key :: "string \<Rightarrow> string" where
  "s3_event_key i = ''canonical/events/'' @ take 2 (removeprefix ''evt_'' i) @ ''/'' @ i @ ''.json''"

definition s3_event_redaction_key :: "string \<Rightarrow> string" where
  "s3_event_redaction_key i =
     ''canonical/redactions/events/'' @ take 2 (removeprefix ''evt_'' i) @ ''/'' @ i @ ''.json''"

definition s3_event_redacted :: "'c s3_backend \<Rightarrow> 'c \<Rightarrow> string \<Rightarrow> bool res" where
  "s3_event_redacted b c i = s3_exists b c (s3_event_redaction_key i)"

definition s3_read_event_json :: "'c s3_backend \<Rightarrow> 'c \<Rightarrow> string \<Rightarrow> json res" where
  "s3_read_event_json b c k = rbind (s3_read b c k) parse_json"

definition s3_get_event_redaction :: "'c s3_backend \<Rightarrow> 'c \<Rightarrow> string \<Rightarrow> json res" where
  "s3_get_event_redaction b c i =
     rbind (s3_exists b c (s3_event_redaction_key i)) (\<lambda>present.
     if \<not> present then Inr JNull else s3_read_event_json b c (s3_event_redaction_key i))"

definition s3_iter_json :: "'c s3_backend \<Rightarrow> 'c \<Rightarrow> string \<Rightarrow> json list res option" where
  "s3_iter_json b c prefix =
     map_option (\<lambda>keys. rbind keys (\<lambda>ks. rmap (s3_read_event_json b c) (sort (filter (ends_with ''.json'') ks))))
       (iter_keys b c prefix)"

definition s3_iter_redactions :: "'c s3_backend \<Rightarrow> 'c \<Rightarrow> json list res option" where
  "s3_iter_redactions b c = s3_iter_json b c ''canonical/redactions/events/''"

definition s3_iter_events :: "'c s3_backend \<Rightarrow> 'c \<Rightarrow> json list res option" where
  "s3_iter_events b c = s3_iter_json b c ''canonical/events/''"

text \<open>\<open>prepare\<close> and \<open>validate\<close> are those of the local store.\<close>

definition s3_commit_event ::
  "event_config \<Rightarrow> 'c s3_backend \<Rightarrow> 'c \<Rightarrow> dict \<Rightarrow> string \<Rightarrow> 'c \<times> json res" where
  "s3_commit_event cfg b c event uuid_hex =
     sbind (pure_res c
       (rbind (validate_event cfg event uuid_hex) (\<lambda>candidate.
        rbind (dindex candidate ''event_id'') (\<lambda>iv.
        rbind (key_str iv) (\<lambda>i.
        rbind (s3_event_redacted b c i) (\<lambda>redacted.
        if redacted then Inl (Exn EventRedactedError ''event '') else Inr (candidate, i)))))))
     (\<lambda>c (candidate, i).
       sbind (on_conflict (Exn IdempotencyConflict ''event '')
         (put_immutable b c (s3_event_key i) (canonical (JObj candidate)))) (\<lambda>c _. (c, Inr (JObj candidate))))"

definition s3_get_event :: "'c s3_backend \<Rightarrow> 'c \<Rightarrow> string \<Rightarrow> json res" where
  "s3_get_event b c i =
     rbind (s3_event_redacted b c i) (\<lambda>redacted.
     if redacted then Inl (Exn EventRedactedError ''event '') else s3_read_event_json b c (s3_event_key i))"

definition s3_redact_event ::
  "event_config \<Rightarrow> 'c s3_backend \<Rightarrow> 'c \<Rightarrow> string \<Rightarrow> string \<Rightarrow> string \<Rightarrow> string \<Rightarrow> string option \<Rightarrow> 'c \<times> json res"
where
  "s3_redact_event cfg b c i reason authority redacted_at request_ref =
     (if reason = [] \<or> authority = [] \<or> redacted_at = []
      then (c, Inl (Exn ValueError ''event redaction requires reason, authority, and redacted_at''))
      else sbind (pure_res c (s3_get_event_redaction b c i)) (\<lambda>c existing.
        if existing \<noteq> JNull
        then pure_res c (rbind (same_redaction existing reason authority redacted_at request_ref) (\<lambda>same.
               if same then Inr existing else Inl (Exn EventRedactionConflict ''event '')))
        else sbind (pure_res c (rbind (s3_get_event b c i) (\<lambda>event.
               event_tombstone (cfg_sha cfg) i event reason authority redacted_at request_ref))) (\<lambda>c tombstone.
             sbind (on_conflict (Exn EventRedactionConflict ''could not publish event redaction tombstone for '')
               (put_immutable b c (s3_event_redaction_key i) (canonical (JObj tombstone)))) (\<lambda>c _.
             sbind (s3_remove b c (s3_event_key i)) (\<lambda>c _. (c, Inr (JObj tombstone)))))))"

section \<open>What the service promises\<close>

type_synonym content = "string \<Rightarrow> string \<Rightarrow> string option"

definition set_object :: "content \<Rightarrow> string \<Rightarrow> string \<Rightarrow> string option \<Rightarrow> content" where
  "set_object m bucket k v = (\<lambda>bu k'. if bu = bucket \<and> k' = k then v else m bu k')"

definition plain_key :: "string \<Rightarrow> bool" where
  "plain_key r \<longleftrightarrow> lstrip_slash r = r"

lemma s3_key_inj: "plain_key r \<Longrightarrow> plain_key r' \<Longrightarrow> s3_key b r = s3_key b r' \<longleftrightarrow> r = r'"
  by (simp add: s3_key_def plain_key_def Let_def)

lemma plain_keys [simp]:
  "plain_key (s3_blob_key d)" "plain_key (s3_manifest_key a)" "plain_key (s3_artifact_redaction_key a)"
  "plain_key (s3_event_key i)" "plain_key (s3_event_redaction_key i)"
  by (simp_all add: plain_key_def lstrip_slash_def s3_blob_key_def s3_manifest_key_def
      s3_artifact_redaction_key_def s3_event_key_def s3_event_redaction_key_def)

text \<open>The objects of a backend by their relative keys.\<close>

definition s3_view :: "'c s3_backend \<Rightarrow> ('c \<Rightarrow> content) \<Rightarrow> 'c \<Rightarrow> string \<Rightarrow> string option" where
  "s3_view b objects c r = (if plain_key r then objects c (s3_bucket b) (s3_key b r) else None)"

text \<open>A map that only gained the object \<open>v\<close> at \<open>k\<close>, if anything; one that only lost the object at \<open>k\<close>.\<close>

definition gained :: "(string \<Rightarrow> string option) \<Rightarrow> string \<Rightarrow> string \<Rightarrow> (string \<Rightarrow> string option) \<Rightarrow> bool" where
  "gained m k v m' \<longleftrightarrow> m' = m \<or> m k = None \<and> m' = m(k \<mapsto> v)"

definition lost :: "(string \<Rightarrow> string option) \<Rightarrow> string \<Rightarrow> (string \<Rightarrow> string option) \<Rightarrow> bool" where
  "lost m k m' \<longleftrightarrow> m' = m \<or> m' = m(k := None)"

lemma gained_keeps: "gained m k v m' \<Longrightarrow> m j = Some t \<Longrightarrow> m' j = Some t"
  by (auto simp: gained_def)

lemma gained_new: "gained m k v m' \<Longrightarrow> m' j = Some t \<Longrightarrow> m j = Some t \<or> j = k \<and> t = v"
  by (auto simp: gained_def split: if_split_asm)

lemma lost_new: "lost m k m' \<Longrightarrow> m' j = Some t \<Longrightarrow> m j = Some t"
  by (auto simp: lost_def split: if_split_asm)

lemma lost_keeps: "lost m k m' \<Longrightarrow> j \<noteq> k \<Longrightarrow> m' j = m j"
  by (auto simp: lost_def)

text \<open>
  The documented behaviour of a strongly consistent object store, \<open>objects\<close> being its content by
  bucket and key. Reads answer from the content; a conditional write that succeeds created the
  object, one that fails either had no effect or its reply was lost; a deletion removes the object
  or fails, with or without having removed it.
\<close>

locale s3_service =
  fixes b :: "'c s3_backend" and objects :: "'c \<Rightarrow> content"
  assumes get_law: "s3_get (s3_client b) c bu k = Inr body \<Longrightarrow> objects c bu k = Some body"
    and get_missing_law: "s3_get (s3_client b) c bu k = Inl e \<Longrightarrow> code_in e S3_NOT_FOUND \<Longrightarrow> objects c bu k = None"
    and head_law: "s3_head (s3_client b) c bu k = Inr u \<Longrightarrow> objects c bu k \<noteq> None"
    and head_missing_law: "s3_head (s3_client b) c bu k = Inl e \<Longrightarrow> code_in e S3_NOT_FOUND \<Longrightarrow> objects c bu k = None"
    and put_law: "s3_put (s3_client b) c bu k v = (c', Inr u)
      \<Longrightarrow> objects c bu k = None \<and> objects c' = set_object (objects c) bu k (Some v)"
    and put_error_law: "s3_put (s3_client b) c bu k v = (c', Inl e)
      \<Longrightarrow> objects c' = objects c \<or> objects c bu k = None \<and> objects c' = set_object (objects c) bu k (Some v)"
    and delete_law: "s3_delete (s3_client b) c bu k = (c', Inr u) \<Longrightarrow> objects c' = set_object (objects c) bu k None"
    and delete_error_law: "s3_delete (s3_client b) c bu k = (c', Inl e)
      \<Longrightarrow> objects c' = objects c \<or> objects c' = set_object (objects c) bu k None"
begin

lemma put_lost_law:
  assumes "s3_put (s3_client b) c bu k v = (c', x)"
  shows "objects c' = objects c \<or> objects c bu k = None \<and> objects c' = set_object (objects c) bu k (Some v)"
  using assms put_law put_error_law by (cases x) simp_all

lemma delete_lost_law:
  assumes "s3_delete (s3_client b) c bu k = (c', x)"
  shows "objects c' = objects c \<or> objects c' = set_object (objects c) bu k None"
  using assms delete_law delete_error_law by (cases x) simp_all

abbreviation view :: "'c \<Rightarrow> string \<Rightarrow> string option" where
  "view \<equiv> s3_view b objects"

lemma view_set:
  assumes "plain_key r" and "objects c' = set_object (objects c) (s3_bucket b) (s3_key b r) v"
  shows "view c' = (view c)(r := v)"
  using assms by (auto simp: s3_view_def set_object_def s3_key_inj fun_eq_iff)

lemma view_same: "objects c' = objects c \<Longrightarrow> view c' = view c"
  by (simp add: s3_view_def fun_eq_iff)

lemma read_Inr: "plain_key r \<Longrightarrow> s3_read b c r = Inr t \<Longrightarrow> view c r = Some t"
  by (auto simp: s3_read_def s3_view_def split: sum.splits if_split_asm dest: get_law)

lemma exists_Inr: "plain_key r \<Longrightarrow> s3_exists b c r = Inr p \<Longrightarrow> p \<longleftrightarrow> view c r \<noteq> None"
proof (cases "s3_head (s3_client b) c (s3_bucket b) (s3_key b r)")
  case (Inl e)
  moreover assume "plain_key r" "s3_exists b c r = Inr p"
  ultimately have "\<not> p" "objects c (s3_bucket b) (s3_key b r) = None"
    using head_missing_law by (auto simp: s3_exists_def split: if_split_asm)
  then show ?thesis by (simp add: s3_view_def)
next
  case (Inr u)
  moreover assume "plain_key r" "s3_exists b c r = Inr p"
  ultimately show ?thesis using head_law [OF Inr] by (simp add: s3_exists_def s3_view_def)
qed

lemma put_gained:
  assumes r: "plain_key r"
  shows "gained (view c) r t (view (fst (put_immutable b c r t)))"
proof -
  obtain c' x where p: "s3_put (s3_client b) c (s3_bucket b) (s3_key b r) t = (c', x)" by force
  have f: "fst (put_immutable b c r t) = c'" by (cases x) (simp_all add: put_immutable_def p)
  have "objects c' = objects c \<or> objects c (s3_bucket b) (s3_key b r) = None
      \<and> objects c' = set_object (objects c) (s3_bucket b) (s3_key b r) (Some t)"
    using put_lost_law [OF p] .
  then show ?thesis
  proof
    assume "objects c' = objects c"
    then have "view c' = view c" by (rule view_same)
    then show ?thesis by (simp add: f gained_def)
  next
    assume a: "objects c (s3_bucket b) (s3_key b r) = None
      \<and> objects c' = set_object (objects c) (s3_bucket b) (s3_key b r) (Some t)"
    then have "view c r = None" by (simp add: s3_view_def)
    with view_set [OF r] a show ?thesis by (simp add: f gained_def)
  qed
qed

lemma put_Inr:
  assumes r: "plain_key r" and "put_immutable b c r t = (c', Inr fresh)"
  shows "view c' r = Some t"
proof -
  obtain c1 x where p: "s3_put (s3_client b) c (s3_bucket b) (s3_key b r) t = (c1, x)" by force
  show ?thesis
  proof (cases x)
    case (Inr u)
    with p put_law have "objects c1 = set_object (objects c) (s3_bucket b) (s3_key b r) (Some t)" by simp
    moreover have "c' = c1" using assms(2) p Inr by (simp add: put_immutable_def)
    ultimately show ?thesis using view_set [OF r] by simp
  next
    case (Inl e)
    with assms(2) p have "s3_read b c' r = Inr t"
      by (auto simp: put_immutable_def pure_res_def split: if_split_asm)
    then show ?thesis by (rule read_Inr [OF r])
  qed
qed

lemma remove_lost:
  assumes r: "plain_key r"
  shows "lost (view c) r (view (fst (s3_remove b c r)))"
proof -
  obtain c' x where p: "s3_delete (s3_client b) c (s3_bucket b) (s3_key b r) = (c', x)" by force
  have f: "fst (s3_remove b c r) = c'" by (cases x) (simp_all add: s3_remove_def p)
  have "objects c' = objects c \<or> objects c' = set_object (objects c) (s3_bucket b) (s3_key b r) None"
    using delete_lost_law [OF p] .
  then show ?thesis using view_set [OF r] view_same unfolding f lost_def by blast
qed

lemma remove_Inr:
  assumes r: "plain_key r" and "s3_remove b c r = (c', Inr u)"
  shows "view c' r = None"
proof -
  obtain c1 x where p: "s3_delete (s3_client b) c (s3_bucket b) (s3_key b r) = (c1, x)" by force
  then obtain v where "x = Inr v" "c1 = c'" using assms(2) by (cases x) (auto simp: s3_remove_def)
  then have "objects c' = set_object (objects c) (s3_bucket b) (s3_key b r) None"
    using delete_law p by blast
  then show ?thesis using r by (simp add: s3_view_def set_object_def)
qed

end

lemma on_conflict_simps [simp]:
  "fst (on_conflict e m) = fst m" "on_conflict e m = (w, Inr x) \<longleftrightarrow> m = (w, Inr x)"
  by (auto simp: on_conflict_def split: prod.splits sum.splits)

lemma snd_on_conflict [simp]: "snd (on_conflict e m) = Inr x \<longleftrightarrow> snd m = Inr x"
  by (cases m; cases "snd m") (auto simp: on_conflict_def)

section \<open>Artifacts on the service\<close>

definition wide :: "string \<Rightarrow> bool" where
  "wide s \<longleftrightarrow> 2 \<le> length s"

definition wide_id :: "string \<Rightarrow> bool" where
  "wide_id a \<longleftrightarrow> wide (removeprefix ''art_'' a)"

lemma artifact_id_wide [simp]: "wide d \<Longrightarrow> wide_id (artifact_id_for_digest d)"
  by (simp add: wide_id_def wide_def artifact_id_for_digest_def removeprefix_def starts_with_def)

lemma artifact_keys_inj:
  "wide_id a \<Longrightarrow> wide_id a' \<Longrightarrow> s3_manifest_key a = s3_manifest_key a' \<longleftrightarrow> a = a'"
  "wide_id a \<Longrightarrow> wide_id a' \<Longrightarrow> s3_artifact_redaction_key a = s3_artifact_redaction_key a' \<longleftrightarrow> a = a'"
  "wide d \<Longrightarrow> wide d' \<Longrightarrow> s3_blob_key d = s3_blob_key d' \<longleftrightarrow> d = d'"
  by (auto simp: s3_manifest_key_def s3_artifact_redaction_key_def s3_blob_key_def wide_id_def wide_def
      append_eq_append_conv)

lemma artifact_keys_apart [simp]:
  "s3_manifest_key a \<noteq> s3_blob_key d" "s3_blob_key d \<noteq> s3_manifest_key a"
  "s3_artifact_redaction_key a \<noteq> s3_blob_key d" "s3_blob_key d \<noteq> s3_artifact_redaction_key a"
  "s3_artifact_redaction_key a \<noteq> s3_manifest_key a'" "s3_manifest_key a' \<noteq> s3_artifact_redaction_key a"
  by (simp_all add: s3_manifest_key_def s3_artifact_redaction_key_def s3_blob_key_def)

definition digest_in :: "string \<Rightarrow> string res" where
  "digest_in t = rbind (parse_object (Exn ArtifactIntegrityError ''invalid manifest for '') t) manifest_digest"

definition s3_gone :: "(string \<Rightarrow> string option) \<Rightarrow> string \<Rightarrow> bool" where
  "s3_gone m a \<longleftrightarrow> wide_id a \<and> m (s3_artifact_redaction_key a) \<noteq> None"

definition s3_content :: "(string \<Rightarrow> string option) \<Rightarrow> string \<Rightarrow> string option" where
  "s3_content m a = (if \<not> wide_id a \<or> m (s3_artifact_redaction_key a) \<noteq> None then None
     else case m (s3_manifest_key a) of None \<Rightarrow> None
       | Some t \<Rightarrow> (case digest_in t of Inl _ \<Rightarrow> None | Inr d \<Rightarrow> m (s3_blob_key d)))"

definition s3_artifacts_ok :: "(string \<Rightarrow> string) \<Rightarrow> (string \<Rightarrow> string option) \<Rightarrow> bool" where
  "s3_artifacts_ok sha m \<longleftrightarrow>
     (\<forall>a t. wide_id a \<longrightarrow> m (s3_manifest_key a) = Some t
        \<longrightarrow> (\<exists>data mt. t = canonical (JObj (artifact_manifest sha data mt)) \<and> a = artifact_id_for_digest (sha data)))
   \<and> (\<forall>d t. wide d \<longrightarrow> m (s3_blob_key d) = Some t \<longrightarrow> d = sha t)"

lemma digest_in_manifest [simp]: "digest_in (canonical (JObj (artifact_manifest sha data mt))) = Inr (sha data)"
  unfolding digest_in_def parse_object_def doc.decode_encode [OF wf_artifact_manifest] by (simp del: canon.simps(2))

lemma manifest_object:
  assumes "s3_artifacts_ok sha m" "wide_id a" "m (s3_manifest_key a) = Some t"
  shows "\<exists>d. digest_in t = Inr d \<and> a = artifact_id_for_digest d \<and> (\<exists>data. d = sha data)"
proof -
  from assms obtain data mt where "t = canonical (JObj (artifact_manifest sha data mt))"
    "a = artifact_id_for_digest (sha data)" unfolding s3_artifacts_ok_def by blast
  then show ?thesis by auto
qed

lemma s3_content_Some:
  assumes "s3_content m a = Some x"
  obtains t d where "wide_id a" "m (s3_artifact_redaction_key a) = None" "m (s3_manifest_key a) = Some t"
    "digest_in t = Inr d" "m (s3_blob_key d) = Some x"
  using assms unfolding s3_content_def by (auto split: if_split_asm option.split_asm sum.split_asm)

lemma s3_contentI:
  "wide_id a \<Longrightarrow> m (s3_artifact_redaction_key a) = None \<Longrightarrow> m (s3_manifest_key a) = Some t
   \<Longrightarrow> digest_in t = Inr d \<Longrightarrow> m (s3_blob_key d) = Some x \<Longrightarrow> s3_content m a = Some x"
  by (simp add: s3_content_def)

lemma content_gained:
  assumes "gained m k v m'" "s3_content m a = Some x"
  shows "s3_content m' a = Some x \<or> s3_gone m' a"
proof -
  from assms(2) obtain t d where c: "wide_id a" "m (s3_artifact_redaction_key a) = None"
    "m (s3_manifest_key a) = Some t" "digest_in t = Inr d" "m (s3_blob_key d) = Some x" by (rule s3_content_Some)
  have "m' (s3_manifest_key a) = Some t" "m' (s3_blob_key d) = Some x" using gained_keeps [OF assms(1)] c by blast+
  then show ?thesis using c by (cases "m' (s3_artifact_redaction_key a)") (auto simp: s3_gone_def intro: s3_contentI)
qed

lemma gone_gained: "gained m k v m' \<Longrightarrow> s3_gone m a \<Longrightarrow> s3_gone m' a"
  by (auto simp: s3_gone_def dest: gained_keeps)

lemma gone_lost: "lost m (s3_blob_key d) m' \<Longrightarrow> s3_gone m a \<Longrightarrow> s3_gone m' a"
  by (auto simp: s3_gone_def lost_keeps)

lemma content_lost:
  assumes "s3_artifacts_ok sha m" "lost m (s3_blob_key d) m'" "s3_gone m (artifact_id_for_digest d)"
    "wide d" "\<And>x. wide (sha x)" "s3_content m a = Some x"
  shows "s3_content m' a = Some x"
proof -
  from assms(6) obtain t e where c: "wide_id a" "m (s3_artifact_redaction_key a) = None"
    "m (s3_manifest_key a) = Some t" "digest_in t = Inr e" "m (s3_blob_key e) = Some x" by (rule s3_content_Some)
  from manifest_object [OF assms(1) c(1,3)] c(4) obtain data where e: "a = artifact_id_for_digest e" "e = sha data"
    by auto
  have "e \<noteq> d" using c(2) assms(3) e(1) by (auto simp: s3_gone_def)
  then have "s3_blob_key e \<noteq> s3_blob_key d" using artifact_keys_inj(3) assms(4,5) e(2) by auto
  then have "m' (s3_blob_key e) = Some x" using c(5) lost_keeps [OF assms(2)] by metis
  moreover have "m' (s3_artifact_redaction_key a) = None" "m' (s3_manifest_key a) = Some t"
    using c(2,3) lost_keeps [OF assms(2)] artifact_keys_apart by metis+
  ultimately show ?thesis using c(1,4) by (intro s3_contentI)
qed

lemma ok_gained_blob:
  assumes "s3_artifacts_ok sha m" "gained m (s3_blob_key (sha data)) data m'" "\<And>x. wide (sha x)"
  shows "s3_artifacts_ok sha m'"
  unfolding s3_artifacts_ok_def
proof (intro conjI allI impI)
  fix a t assume a: "wide_id a" "m' (s3_manifest_key a) = Some t"
  with gained_new [OF assms(2)] have "m (s3_manifest_key a) = Some t" by fastforce
  with a(1) assms(1) show "\<exists>data mt. t = canonical (JObj (artifact_manifest sha data mt)) \<and> a = artifact_id_for_digest (sha data)"
    unfolding s3_artifacts_ok_def by blast
next
  fix d t assume d: "wide d" "m' (s3_blob_key d) = Some t"
  with gained_new [OF assms(2)] artifact_keys_inj(3) [OF d(1) assms(3)]
  have "m (s3_blob_key d) = Some t \<or> d = sha t" by auto
  with d(1) assms(1) show "d = sha t" unfolding s3_artifacts_ok_def by blast
qed

lemma ok_gained_manifest:
  assumes "s3_artifacts_ok sha m"
    and "gained m (s3_manifest_key (artifact_id_for_digest (sha data))) (canonical (JObj (artifact_manifest sha data mt))) m'"
    and "\<And>x. wide (sha x)"
  shows "s3_artifacts_ok sha m'"
  unfolding s3_artifacts_ok_def
proof (intro conjI allI impI)
  fix a t assume a: "wide_id a" "m' (s3_manifest_key a) = Some t"
  with gained_new [OF assms(2)] artifact_keys_inj(1) [OF a(1) artifact_id_wide [OF assms(3)]]
  have "m (s3_manifest_key a) = Some t \<or> a = artifact_id_for_digest (sha data)
      \<and> t = canonical (JObj (artifact_manifest sha data mt))" by blast
  with a(1) assms(1) show "\<exists>data mt. t = canonical (JObj (artifact_manifest sha data mt)) \<and> a = artifact_id_for_digest (sha data)"
    unfolding s3_artifacts_ok_def by blast
next
  fix d t assume d: "wide d" "m' (s3_blob_key d) = Some t"
  with gained_new [OF assms(2)] have "m (s3_blob_key d) = Some t" by fastforce
  with d(1) assms(1) show "d = sha t" unfolding s3_artifacts_ok_def by blast
qed

lemma ok_gained_tombstone:
  assumes "s3_artifacts_ok sha m" "gained m (s3_artifact_redaction_key a) t m'"
  shows "s3_artifacts_ok sha m'"
proof -
  have "m' (s3_manifest_key x) = m (s3_manifest_key x)" "m' (s3_blob_key d) = m (s3_blob_key d)" for x d
    using assms(2) by (auto simp: gained_def)
  then show ?thesis using assms(1) by (simp add: s3_artifacts_ok_def)
qed

lemma ok_lost:
  assumes "s3_artifacts_ok sha m" "lost m (s3_blob_key d) m'"
  shows "s3_artifacts_ok sha m'"
proof -
  have "m' (s3_manifest_key x) = m (s3_manifest_key x)" "m' (s3_blob_key e) = Some t \<Longrightarrow> m (s3_blob_key e) = Some t" for x e t
    using assms(2) lost_keeps lost_new by fastforce+
  then show ?thesis using assms(1) unfolding s3_artifacts_ok_def by metis
qed

lemma on_conflict_Inr [simp]: "on_conflict e (w, Inr x) = (w, Inr x)"
  by (simp add: on_conflict_def)

datatype s3_artifact_op =
    S3Put string string
  | S3Redact string string string string "string option"

fun s3_op_legal :: "s3_artifact_op \<Rightarrow> bool" where
  "s3_op_legal (S3Put _ _) = True"
| "s3_op_legal (S3Redact a _ _ _ _) = wide_id a"

fun s3_artifact_step :: "(string \<Rightarrow> string) \<Rightarrow> 'c s3_backend \<Rightarrow> 'c \<Rightarrow> s3_artifact_op \<Rightarrow> 'c" where
  "s3_artifact_step sha b c (S3Put data mt) = fst (s3_put_bytes sha b c data mt)"
| "s3_artifact_step sha b c (S3Redact a reason authority at req) = fst (s3_redact_artifact b c a reason authority at req)"

text \<open>The shape of a put: the service gained the blob, then, if that succeeded, the manifest.\<close>

locale s3_artifacts = s3_service b objects for b :: "'c s3_backend" and objects +
  fixes sha :: "string \<Rightarrow> string"
  assumes sha_wide: "wide (sha t)"
begin

lemma put_shape:
  "view (fst (s3_put_bytes sha b c data mt)) = view c
   \<or> (\<exists>m. gained (view c) (s3_blob_key (sha data)) data m \<and>
        (view (fst (s3_put_bytes sha b c data mt)) = m
         \<or> gained m (s3_manifest_key (artifact_id_for_digest (sha data))) (canonical (JObj (artifact_manifest sha data mt)))
             (view (fst (s3_put_bytes sha b c data mt)))))"
proof (cases "s3_artifact_redacted b c (artifact_id_for_digest (sha data)) = Inr False")
  case False
  then have "fst (s3_put_bytes sha b c data mt) = c"
    by (cases "s3_artifact_redacted b c (artifact_id_for_digest (sha data))") (auto simp: s3_put_bytes_def Let_def)
  then show ?thesis by simp
next
  case True
  let ?p = "on_conflict (Exn ArtifactIntegrityError ''hash collision or corrupted blob for '')
             (put_immutable b c (s3_blob_key (sha data)) data)"
  let ?q = "\<lambda>c. on_conflict (Exn ArtifactIntegrityError ''manifest conflict for '')
             (put_immutable b c (s3_manifest_key (artifact_id_for_digest (sha data))) (canonical (JObj (artifact_manifest sha data mt))))"
  have e: "fst (s3_put_bytes sha b c data mt) = fst (sbind ?p (\<lambda>c _. sbind (?q c) (\<lambda>c _. (c, Inr (artifact_manifest sha data mt)))))"
    using True by (simp add: s3_put_bytes_def Let_def)
  have g: "gained (view c) (s3_blob_key (sha data)) data (view (fst ?p))" using put_gained by simp
  show ?thesis
  proof (cases "snd ?p")
    case (Inl x)
    then have "fst (s3_put_bytes sha b c data mt) = fst ?p" unfolding e by (cases ?p) simp
    with g show ?thesis by auto
  next
    case (Inr x)
    then have "fst (s3_put_bytes sha b c data mt) = fst (?q (fst ?p))" unfolding e by (cases ?p) simp
    moreover have "gained (view (fst ?p)) (s3_manifest_key (artifact_id_for_digest (sha data)))
        (canonical (JObj (artifact_manifest sha data mt))) (view (fst (?q (fst ?p))))" using put_gained by simp
    ultimately show ?thesis using g by (intro disjI2 exI [of _ "view (fst ?p)"]) simp
  qed
qed

lemma put_preserves:
  assumes "P (view c)"
    and "\<And>m m'. P m \<Longrightarrow> gained m (s3_blob_key (sha data)) data m' \<Longrightarrow> P m'"
    and "\<And>m m'. P m \<Longrightarrow> gained m (s3_manifest_key (artifact_id_for_digest (sha data)))
        (canonical (JObj (artifact_manifest sha data mt))) m' \<Longrightarrow> P m'"
  shows "P (view (fst (s3_put_bytes sha b c data mt)))"
  using put_shape [of c data mt]
proof (elim disjE exE conjE)
  assume "view (fst (s3_put_bytes sha b c data mt)) = view c"
  then show ?thesis using assms(1) by simp
next
  fix m assume m: "gained (view c) (s3_blob_key (sha data)) data m"
  then have "P m" by (rule assms(2) [OF assms(1)])
  then show "view (fst (s3_put_bytes sha b c data mt)) = m \<Longrightarrow> ?thesis" by simp
  from \<open>P m\<close> show "gained m (s3_manifest_key (artifact_id_for_digest (sha data)))
      (canonical (JObj (artifact_manifest sha data mt))) (view (fst (s3_put_bytes sha b c data mt))) \<Longrightarrow> ?thesis"
    by (rule assms(3))
qed

lemma put_ok: "s3_artifacts_ok sha (view c) \<Longrightarrow> s3_artifacts_ok sha (view (fst (s3_put_bytes sha b c data mt)))"
  by (erule put_preserves [where P = "s3_artifacts_ok sha"])
    (erule (1) ok_gained_blob [OF _ _ sha_wide], erule (1) ok_gained_manifest [OF _ _ sha_wide])

lemma put_gone: "s3_gone (view c) a \<Longrightarrow> s3_gone (view (fst (s3_put_bytes sha b c data mt))) a"
  by (erule put_preserves [where P = "\<lambda>m. s3_gone m a"]) (blast intro: gone_gained)+

lemma put_content:
  assumes "s3_content (view c) a = Some x"
  shows "s3_content (view (fst (s3_put_bytes sha b c data mt))) a = Some x
    \<or> s3_gone (view (fst (s3_put_bytes sha b c data mt))) a"
  by (rule put_preserves [where P = "\<lambda>m. s3_content m a = Some x \<or> s3_gone m a"])
    (use assms content_gained gone_gained in blast)+

text \<open>The shape of a redaction: the tombstone was gained, then, if it is there, the blob was lost.\<close>

lemma redact_shape:
  assumes ok: "s3_artifacts_ok sha (view c)" and a: "wide_id a"
  shows "view (fst (s3_redact_artifact b c a reason authority at req)) = view c
   \<or> (\<exists>m t. gained (view c) (s3_artifact_redaction_key a) t m
        \<and> (view (fst (s3_redact_artifact b c a reason authority at req)) = m
          \<or> (\<exists>data. a = artifact_id_for_digest (sha data) \<and> s3_gone m a
               \<and> lost m (s3_blob_key (sha data)) (view (fst (s3_redact_artifact b c a reason authority at req))))))"
    (is "?none \<or> ?some")
proof (cases "s3_redact_artifact b c a reason authority at req = (c, snd (s3_redact_artifact b c a reason authority at req))")
  case True
  then have "fst (s3_redact_artifact b c a reason authority at req) = c" by (metis fst_conv)
  then show ?thesis by simp
next
  case False
  let ?fields = "\<lambda>h size mt. [(''artifact_id'', JStr a), (''redacted_at'', JStr at), (''reason'', JStr reason),
      (''authority'', JStr authority), (''request_ref'', opt_str req),
      (''content_hash'', h), (''byte_size'', size), (''media_type'', mt)]"
  let ?g = "rbind (s3_get_manifest b c a) (\<lambda>manifest.
             rbind (index manifest ''content_hash'') (\<lambda>h.
             rbind (index manifest ''byte_size'') (\<lambda>size.
             rbind (index manifest ''media_type'') (\<lambda>mt. Inr (manifest, ?fields h size mt)))))"
  have args: "\<not> (reason = [] \<or> authority = [] \<or> at = [])"
    using False by (auto simp: s3_redact_artifact_def)
  obtain p where p: "?g = Inr p"
    using False args by (cases ?g) (simp_all add: s3_redact_artifact_def del: rbind_Inr_iff)
  then obtain manifest h size mt where m: "s3_get_manifest b c a = Inr manifest"
    and p': "p = (manifest, ?fields h size mt)" unfolding rbind_Inr_iff by blast
  note g = p [unfolded p']
  let ?t = "canonical (JObj (?fields h size mt))"
  let ?p = "on_conflict (Exn ArtifactIntegrityError ''redaction tombstone conflict for '')
      (put_immutable b c (s3_artifact_redaction_key a) ?t)"
  from m obtain raw where raw: "s3_read b c (s3_manifest_key a) = Inr raw"
    "manifest_digest manifest = digest_in raw"
    by (auto simp: s3_get_manifest_def digest_in_def)
  have "view c (s3_manifest_key a) = Some raw" using read_Inr raw(1) by simp
  with manifest_object [OF ok a] raw(2) obtain data where d: "manifest_digest manifest = Inr (sha data)"
    "a = artifact_id_for_digest (sha data)" by metis
  have e: "fst (s3_redact_artifact b c a reason authority at req)
      = fst (sbind ?p (\<lambda>c _. sbind (s3_remove b c (s3_blob_key (sha data))) (\<lambda>c _. (c, Inr (?fields h size mt)))))"
    using args g d(1) by (simp add: s3_redact_artifact_def del: rbind_Inr_iff)
  have gn: "gained (view c) (s3_artifact_redaction_key a) ?t (view (fst ?p))" using put_gained by simp
  have ?some
  proof (cases "snd ?p")
    case (Inl x)
    then have "fst (s3_redact_artifact b c a reason authority at req) = fst ?p" unfolding e by (cases ?p) simp
    with gn show ?thesis by (intro exI [of _ "view (fst ?p)"] exI [of _ ?t]) simp
  next
    case (Inr x)
    then have r: "fst (s3_redact_artifact b c a reason authority at req) = fst (s3_remove b (fst ?p) (s3_blob_key (sha data)))"
      unfolding e by (cases ?p) simp
    have "view (fst ?p) (s3_artifact_redaction_key a) = Some ?t"
    proof (rule put_Inr)
      show "put_immutable b c (s3_artifact_redaction_key a) ?t = (fst ?p, Inr x)"
        using Inr by (simp add: prod_eq_iff)
    qed simp
    then have "s3_gone (view (fst ?p)) a" using a by (simp add: s3_gone_def)
    moreover have "lost (view (fst ?p)) (s3_blob_key (sha data)) (view (fst (s3_remove b (fst ?p) (s3_blob_key (sha data)))))"
      by (rule remove_lost) simp
    ultimately show ?thesis unfolding r using gn d(2)
      by (intro exI [of _ "view (fst ?p)"] exI [of _ ?t] conjI disjI2 exI [of _ data])
  qed
  then show ?thesis ..
qed

lemma redact_ok:
  assumes "s3_artifacts_ok sha (view c)" and "wide_id a"
  shows "s3_artifacts_ok sha (view (fst (s3_redact_artifact b c a reason authority at req)))"
  using redact_shape [OF assms, of reason authority at req]
proof (elim disjE exE conjE)
  fix m t assume g: "gained (view c) (s3_artifact_redaction_key a) t m"
  note ok = ok_gained_tombstone [OF assms(1) g]
  from ok show "view (fst (s3_redact_artifact b c a reason authority at req)) = m \<Longrightarrow> ?thesis" by simp
  from ok show "lost m (s3_blob_key (sha data)) (view (fst (s3_redact_artifact b c a reason authority at req))) \<Longrightarrow> ?thesis"
    for data by (rule ok_lost)
qed (use assms(1) in simp)

lemma redact_gone:
  assumes "s3_artifacts_ok sha (view c)" and "wide_id a" and i: "s3_gone (view c) i"
  shows "s3_gone (view (fst (s3_redact_artifact b c a reason authority at req))) i"
  using redact_shape [OF assms(1,2), of reason authority at req]
proof (elim disjE exE conjE)
  fix m t assume g: "gained (view c) (s3_artifact_redaction_key a) t m"
  note gone = gone_gained [OF g i]
  from gone show "view (fst (s3_redact_artifact b c a reason authority at req)) = m \<Longrightarrow> ?thesis" by simp
  from gone show "lost m (s3_blob_key (sha data)) (view (fst (s3_redact_artifact b c a reason authority at req))) \<Longrightarrow> ?thesis"
    for data by (rule gone_lost [rotated])
qed (use i in simp)

lemma redact_content:
  assumes ok: "s3_artifacts_ok sha (view c)" and a: "wide_id a" and x: "s3_content (view c) i = Some x"
  shows "s3_content (view (fst (s3_redact_artifact b c a reason authority at req))) i = Some x
    \<or> s3_gone (view (fst (s3_redact_artifact b c a reason authority at req))) i"
  using redact_shape [OF ok a, of reason authority at req]
proof (elim disjE exE conjE)
  fix m t data assume s: "gained (view c) (s3_artifact_redaction_key a) t m" "a = artifact_id_for_digest (sha data)"
    "s3_gone m a" "lost m (s3_blob_key (sha data)) (view (fst (s3_redact_artifact b c a reason authority at req)))"
  have "s3_content m i = Some x \<or> s3_gone m i" by (rule content_gained [OF s(1) x])
  then show ?thesis
    using content_lost [OF ok_gained_tombstone [OF ok s(1)] s(4) s(3) [unfolded s(2)] sha_wide sha_wide]
      gone_lost [OF s(4)] by blast
next
  fix m t assume s: "gained (view c) (s3_artifact_redaction_key a) t m"
    "view (fst (s3_redact_artifact b c a reason authority at req)) = m"
  show ?thesis unfolding s(2) by (rule content_gained [OF s(1) x])
qed (use x in simp)

end

sublocale s3_artifacts \<subseteq> remote: redactable_store "s3_artifact_step sha b" s3_op_legal
  "\<lambda>c. s3_artifacts_ok sha (view c)" "\<lambda>c. s3_content (view c)" "\<lambda>c. s3_gone (view c)"
proof unfold_locales
  fix op c i v
  assume l: "s3_op_legal op" and ok: "s3_artifacts_ok sha (view c)"
  show "s3_artifacts_ok sha (view (s3_artifact_step sha b c op))"
    using l ok put_ok redact_ok by (cases op) simp_all
  show "s3_gone (view c) i \<Longrightarrow> s3_gone (view (s3_artifact_step sha b c op)) i"
    using l ok put_gone redact_gone by (cases op) simp_all
  show "s3_content (view c) i = Some v \<Longrightarrow> s3_content (s3_view b objects (s3_artifact_step sha b c op)) i = Some v
      \<or> s3_gone (view (s3_artifact_step sha b c op)) i"
    using l ok put_content redact_content by (cases op) simp_all
next
  fix c i
  show "s3_gone (view c) i \<Longrightarrow> s3_content (view c) i = None" by (auto simp: s3_gone_def s3_content_def)
qed

section \<open>The client double of the test suite\<close>

text \<open>
  \<open>FakeS3Client\<close> of \<open>tests/test_s3_storage_adapter.py\<close>: a dictionary of objects with two switches that
  make reads or writes time out. A timeout carries no provider code. The laws of the service hold
  of it for every setting of the switches.
\<close>

record fake_s3 =
  fake_objects :: "((string \<times> string) \<times> string) list"
  fail_put :: bool
  fail_get :: bool

definition fake_client :: "fake_s3 s3_client" where
  "fake_client =
     \<lparr> s3_get = (\<lambda>c bucket key. if fail_get c then Inl None
          else case map_of (fake_objects c) (bucket, key) of None \<Rightarrow> Inl (Some ''NoSuchKey'') | Some body \<Rightarrow> Inr body),
       s3_head = (\<lambda>c bucket key. if map_of (fake_objects c) (bucket, key) = None then Inl (Some ''404'') else Inr ()),
       s3_put = (\<lambda>c bucket key body. if fail_put c then (c, Inl None)
          else if map_of (fake_objects c) (bucket, key) \<noteq> None then (c, Inl (Some ''PreconditionFailed''))
          else (c\<lparr>fake_objects := AList.update (bucket, key) body (fake_objects c)\<rparr>, Inr ())),
       s3_delete = (\<lambda>c bucket key. (c\<lparr>fake_objects := AList.delete (bucket, key) (fake_objects c)\<rparr>, Inr ())),
       s3_list = (\<lambda>c bucket prefix token. Inr
          \<lparr> page_keys = sort (map snd (filter (\<lambda>(bu, k). bu = bucket \<and> starts_with prefix k) (map fst (fake_objects c)))),
            page_truncated = False, page_token = None \<rparr>) \<rparr>"

definition fake_content :: "fake_s3 \<Rightarrow> content" where
  "fake_content c bucket key = map_of (fake_objects c) (bucket, key)"

definition fake_backend :: "string \<Rightarrow> string \<Rightarrow> fake_s3 s3_backend" where
  "fake_backend bucket prefix = \<lparr> s3_bucket = bucket, s3_prefix = prefix, s3_client = fake_client \<rparr>"

interpretation fake: s3_service "fake_backend bucket prefix" fake_content for bucket prefix
  by unfold_locales
    (auto simp: fake_backend_def fake_client_def fake_content_def code_in_def set_object_def fun_eq_iff
      split: if_split_asm option.split_asm)

definition wide_sha :: "string \<Rightarrow> string" where
  "wide_sha t = take 64 (t @ replicate 64 (CHR ''0''))"

interpretation fake_artifacts: s3_artifacts "fake_backend bucket prefix" fake_content wide_sha for bucket prefix
  by unfold_locales (simp add: wide_def wide_sha_def)

section \<open>Reading through the client\<close>

context s3_artifacts
begin

lemmas never_rewrites = remote.run_never_rewrites

lemmas gone_forever = remote.run_gone

lemma read_content:
  assumes "s3_read_bytes b c a = Inr x" and "wide_id a"
  shows "s3_content (view c) a = Some x"
proof -
  from assms(1) obtain manifest d where r: "s3_artifact_redacted b c a = Inr False"
    "s3_get_manifest b c a = Inr manifest" "manifest_digest manifest = Inr d" "s3_read b c (s3_blob_key d) = Inr x"
    unfolding s3_read_bytes_def rbind_Inr_iff by (auto split: if_split_asm)
  from r(2) obtain raw where m: "s3_read b c (s3_manifest_key a) = Inr raw" "digest_in raw = Inr d"
    using r(3) by (auto simp: s3_get_manifest_def digest_in_def)
  have "view c (s3_artifact_redaction_key a) = None"
    using exists_Inr [OF plain_keys(3), of c a False] r(1) by (auto simp: s3_artifact_redacted_def)
  then show ?thesis
    using assms(2) read_Inr [OF plain_keys(2) m(1)] read_Inr [OF plain_keys(1) r(4)] m(2) by (blast intro: s3_contentI)
qed

lemma content_hash:
  assumes "s3_artifacts_ok sha (view c)" and "s3_content (view c) a = Some x"
  shows "a = artifact_id_for_digest (sha x)"
proof -
  from assms(2) obtain t d where k: "wide_id a" "view c (s3_manifest_key a) = Some t" "digest_in t = Inr d"
    "view c (s3_blob_key d) = Some x" by (rule s3_content_Some)
  from manifest_object [OF assms(1) k(1,2)] k(3) obtain data where "a = artifact_id_for_digest d" "d = sha data" by auto
  moreover have "d = sha x"
    using assms(1) k(4) sha_wide [of data] \<open>d = sha data\<close> unfolding s3_artifacts_ok_def by blast
  ultimately show ?thesis by simp
qed

lemma redacted_tombstone:
  assumes "s3_artifacts_ok sha (view c)" "wide_id a" "s3_redact_artifact b c a reason authority at req = (c', Inr r)"
  shows "s3_gone (view c') a"
proof -
  from assms(3) obtain manifest fields c1 fresh c2 digest where
    p: "put_immutable b c (s3_artifact_redaction_key a) (canonical (JObj fields)) = (c1, Inr fresh)"
    and d: "s3_remove b c1 (s3_blob_key digest) = (c', Inr ())"
    unfolding s3_redact_artifact_def
    by (auto elim!: sbind_InrE split: if_split_asm prod.splits)
  from put_Inr [OF plain_keys(3) p] assms(2) have "s3_gone (view c1) a" by (simp add: s3_gone_def)
  then have "s3_gone (view (fst (s3_remove b c1 (s3_blob_key digest)))) a"
    by (rule gone_lost [OF remove_lost [OF plain_keys(1)]])
  with d show ?thesis by simp
qed

lemma put_gone_fails:
  assumes "s3_gone (view c) (artifact_id_for_digest (sha data))"
  shows "s3_put_bytes sha b c data mt \<noteq> (c', Inr m)"
proof
  assume "s3_put_bytes sha b c data mt = (c', Inr m)"
  then have "s3_artifact_redacted b c (artifact_id_for_digest (sha data)) = Inr False"
    unfolding s3_put_bytes_def Let_def by (auto elim!: sbind_InrE split: if_split_asm)
  then show False using assms exists_Inr [OF plain_keys(3)]
    by (auto simp: s3_artifact_redacted_def s3_gone_def)
qed

end

section \<open>Enumeration\<close>

text \<open>The keys on the pages that follow from a continuation token, up to the page that is not truncated.\<close>

inductive page_chain :: "'c s3_backend \<Rightarrow> 'c \<Rightarrow> string \<Rightarrow> string option \<Rightarrow> string list \<Rightarrow> bool" for b c p where
  last_page: "s3_list (s3_client b) c (s3_bucket b) p tk = Inr page \<Longrightarrow> \<not> page_truncated page
    \<Longrightarrow> page_chain b c p tk (page_relative b page)"
| next_page: "s3_list (s3_client b) c (s3_bucket b) p tk = Inr page \<Longrightarrow> page_truncated page
    \<Longrightarrow> page_token page = Some (t # ts) \<Longrightarrow> page_chain b c p (Some (t # ts)) ks
    \<Longrightarrow> page_chain b c p tk (page_relative b page @ ks)"

inductive_cases page_chainE: "page_chain b c p tk ks"

lemma iter_pages_chain:
  assumes "\<And>tk page t. s3_list (s3_client b) c (s3_bucket b) p tk = Inr page \<Longrightarrow> page_truncated page
      \<Longrightarrow> page_token page = Some t \<Longrightarrow> rank (Some t) < (rank tk :: nat)"
  shows "\<exists>r. iter_pages b c p tk keys = Some r
    \<and> (\<forall>ks. r = Inr ks \<longleftrightarrow> (\<exists>ks'. ks = keys @ ks' \<and> page_chain b c p tk ks'))"
proof (induction "rank tk" arbitrary: tk keys rule: less_induct)
  case less
  show ?case
  proof (cases "s3_list (s3_client b) c (s3_bucket b) p tk")
    case (Inl e)
    then show ?thesis by (auto simp: iter_pages.simps [of b c p tk] elim: page_chainE)
  next
    case (Inr page)
    consider (last) "\<not> page_truncated page" | (bad) "page_truncated page" "\<nexists>t ts. page_token page = Some (t # ts)"
      | (more) t ts where "page_truncated page" "page_token page = Some (t # ts)" by blast
    then show ?thesis
    proof cases
      case last
      then show ?thesis using Inr
        by (auto simp: iter_pages.simps [of b c p tk] elim: page_chainE intro: last_page)
    next
      case bad
      then have "iter_pages b c p tk keys = Some (Inl (Exn RemoteStoreUnavailable
          ''durable object enumeration truncated without continuation token: ''))"
        using Inr by (cases "page_token page"; cases "the (page_token page)") (auto simp: iter_pages.simps [of b c p tk])
      then show ?thesis using Inr bad by (auto elim: page_chainE)
    next
      case more
      from less [OF assms [OF Inr more], of "keys @ page_relative b page"] obtain r where
        r: "iter_pages b c p (Some (t # ts)) (keys @ page_relative b page) = Some r"
        "\<forall>ks. r = Inr ks \<longleftrightarrow> (\<exists>ks'. ks = (keys @ page_relative b page) @ ks' \<and> page_chain b c p (Some (t # ts)) ks')"
        by blast
      have chain: "page_chain b c p tk ks' \<longleftrightarrow> (\<exists>k. ks' = page_relative b page @ k \<and> page_chain b c p (Some (t # ts)) k)" for ks'
        using Inr more by (auto elim: page_chainE intro: next_page)
      have "iter_pages b c p tk keys = Some r" using Inr more r(1) by (simp add: iter_pages.simps [of b c p tk])
      moreover have "\<forall>ks. r = Inr ks \<longleftrightarrow> (\<exists>ks'. ks = keys @ ks' \<and> page_chain b c p tk ks')"
        unfolding r(2) [rule_format] chain by auto
      ultimately show ?thesis by blast
    qed
  qed
qed

section \<open>Events on the service\<close>

context s3_service
begin

lemma committed_object:
  assumes "s3_commit_event cfg b c ev u = (c', Inr v)"
  obtains candidate i where "validate_event cfg ev u = Inr candidate" "map_of candidate ''event_id'' = Some (JStr i)"
    "v = JObj candidate" "view c' (s3_event_key i) = Some (canonical (JObj candidate))"
    "gained (view c) (s3_event_key i) (canonical (JObj candidate)) (view c')"
    "view c (s3_event_redaction_key i) = None"
proof -
  from assms obtain candidate i fresh where m: "validate_event cfg ev u = Inr candidate"
    "map_of candidate ''event_id'' = Some (JStr i)" "s3_event_redacted b c i = Inr False" "v = JObj candidate"
    and p: "put_immutable b c (s3_event_key i) (canonical (JObj candidate)) = (c', Inr fresh)"
    unfolding s3_commit_event_def
    by (auto elim!: sbind_InrE split: if_split_asm)
  have "gained (view c) (s3_event_key i) (canonical (JObj candidate)) (view c')"
    using put_gained [OF plain_keys(4), of c i "canonical (JObj candidate)"] p by simp
  moreover have "view c (s3_event_redaction_key i) = None"
    using exists_Inr [OF plain_keys(5), of c i False] m(3) by (simp add: s3_event_redacted_def)
  ultimately show ?thesis using that m put_Inr [OF plain_keys(4) p] by blast
qed

lemma read_event_object:
  assumes "s3_get_event b c i = Inr v"
  shows "\<exists>t. view c (s3_event_key i) = Some t \<and> parse_json t = Inr v"
  using assms read_Inr [OF plain_keys(4)] unfolding s3_get_event_def s3_read_event_json_def
  by (auto split: if_split_asm)

end

section \<open>Properties\<close>

text \<open>Remote artifacts are immutable and authentic under faults: against any service with the promised
  behaviour, whatever requests fail and whatever replies are lost during any sequence of puts and
  redactions, a content that was read is the one its id names, and if the id can still be read
  later it has the same content.\<close>

lemma remote_artifacts_immutable:
  assumes "s3_artifacts b objects sha" and "s3_artifacts_ok sha (s3_view b objects c)" and "wide_id a"
    and "s3_read_bytes b c a = Inr x" and "list_all s3_op_legal ops"
    and "s3_read_bytes b (foldl (s3_artifact_step sha b) c ops) a = Inr y"
  shows "y = x \<and> a = artifact_id_for_digest (sha x)"
proof -
  note before = s3_artifacts.read_content [OF assms(1,4,3)]
  note after = s3_artifacts.read_content [OF assms(1,6,3)]
  from s3_artifacts.never_rewrites [OF assms(1,5,2) before after]
    s3_artifacts.content_hash [OF assms(1,2) before] show ?thesis by blast
qed

definition demo_s3 :: "fake_s3 s3_backend" where
  "demo_s3 = fake_backend ''bucket'' ''fossil''"

definition demo_service :: fake_s3 where
  "demo_service = fst (s3_put_bytes wide_sha demo_s3 \<lparr> fake_objects = [], fail_put = False, fail_get = False \<rparr> ''hello'' ''text/plain'')"

lemma demo_s3_service: "s3_artifacts demo_s3 fake_content wide_sha" "s3_service demo_s3 fake_content"
  unfolding demo_s3_def using fake_artifacts.s3_artifacts_axioms fake.s3_service_axioms by blast+

lemma demo_empty_ok: "s3_artifacts_ok sha (s3_view b fake_content \<lparr> fake_objects = [], fail_put = p, fail_get = g \<rparr>)"
  by (simp add: s3_artifacts_ok_def s3_view_def fake_content_def)

lemma demo_service_ok: "s3_artifacts_ok wide_sha (s3_view demo_s3 fake_content demo_service)"
  unfolding demo_service_def by (rule s3_artifacts.put_ok [OF demo_s3_service(1) demo_empty_ok])

definition demo_artifact :: string where
  "demo_artifact = artifact_id_for_digest (wide_sha ''hello'')"

lemma demo_s3_reads:
  "s3_read_bytes demo_s3 demo_service demo_artifact = Inr ''hello''"
  "s3_read_bytes demo_s3 (foldl (s3_artifact_step wide_sha demo_s3) demo_service [S3Put ''abc'' ''text/plain'']) demo_artifact = Inr ''hello''"
  "wide_id demo_artifact" "list_all s3_op_legal [S3Put ''abc'' ''text/plain'']"
  by code_simp+

text \<open>C17. Remote redaction is permanent: after a redaction that returned, the artifact is unreadable and
  its content cannot be stored again, whatever puts and redactions follow and whatever requests
  fail.\<close>

theorem remote_redaction_permanent:
  assumes "s3_artifacts b objects sha" and "s3_artifacts_ok sha (s3_view b objects c)" and "wide_id a"
    and "s3_redact_artifact b c a reason authority at req = (c', Inr tombstone)" and "list_all s3_op_legal ops"
  shows "s3_read_bytes b (foldl (s3_artifact_step sha b) c' ops) a \<noteq> Inr x
    \<and> (a = artifact_id_for_digest (sha data)
        \<longrightarrow> snd (s3_put_bytes sha b (foldl (s3_artifact_step sha b) c' ops) data mt) \<noteq> Inr m)"
proof -
  have ok: "s3_artifacts_ok sha (s3_view b objects c')"
    using s3_artifacts.redact_ok [OF assms(1-3), of reason authority at req] assms(4) by simp
  have gone: "s3_gone (s3_view b objects (foldl (s3_artifact_step sha b) c' ops)) a"
    by (rule s3_artifacts.gone_forever [OF assms(1,5) ok s3_artifacts.redacted_tombstone [OF assms(1-4)]])
  then have "s3_content (s3_view b objects (foldl (s3_artifact_step sha b) c' ops)) a = None"
    by (auto simp: s3_gone_def s3_content_def)
  then have "s3_read_bytes b (foldl (s3_artifact_step sha b) c' ops) a \<noteq> Inr x"
    using s3_artifacts.read_content [OF assms(1) _ assms(3)] by fastforce
  moreover have "snd (s3_put_bytes sha b (foldl (s3_artifact_step sha b) c' ops) data mt) \<noteq> Inr m"
    if "a = artifact_id_for_digest (sha data)"
    using s3_artifacts.put_gone_fails [OF assms(1) gone [unfolded that], of mt _ m] by (metis prod.collapse)
  ultimately show ?thesis by blast
qed

lemma demo_s3_redaction:
  "is_ok (snd (s3_redact_artifact demo_s3 demo_service demo_artifact ''privacy'' ''dpo'' ''2026'' None))"
  by code_simp

theorem remote_redaction_permanent_witness:
  "\<exists>c'. fst (s3_redact_artifact demo_s3 demo_service demo_artifact ''privacy'' ''dpo'' ''2026'' None) = c'
     \<and> s3_read_bytes demo_s3 c' demo_artifact \<noteq> Inr ''hello''"
proof -
  from demo_s3_redaction obtain r where
    "snd (s3_redact_artifact demo_s3 demo_service demo_artifact ''privacy'' ''dpo'' ''2026'' None) = Inr r" by (rule is_okE)
  then obtain c' where e: "s3_redact_artifact demo_s3 demo_service demo_artifact ''privacy'' ''dpo'' ''2026'' None = (c', Inr r)"
    by (cases "s3_redact_artifact demo_s3 demo_service demo_artifact ''privacy'' ''dpo'' ''2026'' None") simp
  have "list_all s3_op_legal []" by simp
  from remote_redaction_permanent [OF demo_s3_service(1) demo_service_ok demo_s3_reads(3) e this] e show ?thesis by simp
qed

text \<open>A remote commit that returned has stored the accepted event: the object of the event is the
  canonical form of a candidate that passed the acceptance boundary, nothing else changed, an
  event that was there before was this one, and reading it back gives the event itself.\<close>

lemma remote_commit_stores_event:
  assumes "s3_service b objects" and "wf_json (JObj ev)" and "s3_commit_event cfg b c ev u = (c', Inr v)"
  shows "\<exists>candidate i. validate_event cfg ev u = Inr candidate \<and> map_of candidate ''event_id'' = Some (JStr i)
    \<and> is_ok (validate_event_for_commit (cfg_payload cfg) candidate (cfg_endpoints cfg) (cfg_promotions cfg))
    \<and> s3_view b objects c' = (s3_view b objects c)(s3_event_key i \<mapsto> canonical (JObj candidate))
    \<and> s3_view b objects c (s3_event_key i) \<in> {None, Some (canonical (JObj candidate))}
    \<and> (s3_get_event b c' i = Inr w \<longrightarrow> w = canon (JObj candidate))"
proof -
  from assms(3) obtain candidate i where c: "validate_event cfg ev u = Inr candidate"
    "map_of candidate ''event_id'' = Some (JStr i)"
    "s3_view b objects c' (s3_event_key i) = Some (canonical (JObj candidate))"
    "gained (s3_view b objects c) (s3_event_key i) (canonical (JObj candidate)) (s3_view b objects c')"
    by (rule s3_service.committed_object [OF assms(1)])
  note d = validate_event_D [OF c(1) assms(2)]
  have g: "s3_view b objects c' = (s3_view b objects c)(s3_event_key i \<mapsto> canonical (JObj candidate))
      \<and> s3_view b objects c (s3_event_key i) \<in> {None, Some (canonical (JObj candidate))}"
    using c(3,4) by (auto simp: gained_def fun_upd_idem)
  have "w = canon (JObj candidate)" if "s3_get_event b c' i = Inr w"
    using s3_service.read_event_object [OF assms(1) that] c(3) doc.decode_encode [OF d(1)]
    by (auto simp: parse_json_def simp del: canon.simps(2))
  with c(1,2) d(3) g show ?thesis by blast
qed

lemma demo_s3_commit: "is_ok (snd (s3_commit_event demo_config demo_s3 demo_service (demo_proposal ''k3'' ''c3'') ''u3''))"
  by code_simp



end
