(* ===== verification/Regex.thy ===== *)
theory Regex
  imports Prelude
begin

text \<open>
  The part of Python's \<open>re\<close> that the program uses: character classes, sequences, ordered choice,
  greedy and lazy repetition, named groups and the anchors \<open>^\<close> and \<open>$\<close> of the MULTILINE mode. A
  position is the character before it and the rest of the text. \<open>ways r p\<close> lists the ways in which
  \<open>r\<close> matches at \<open>p\<close> in the order in which backtracking tries them, each with the position behind
  the match and the groups it captured, so the match that \<open>re\<close> finds is its head. As in the engine,
  a repetition stops when an iteration consumes nothing.

  \<open>matches\<close> is the declarative meaning of an expression and \<open>word_in\<close> the language of one without
  anchors; \<open>ways\<close>, \<open>search\<close> and \<open>finditer\<close> are proved sound and complete for them.
\<close>

section \<open>Expressions\<close>

datatype regex =
    Eps
  | Class "char \<Rightarrow> bool"
  | Seq regex regex
  | Alt regex regex
  | Star regex
  | Lazy regex
  | Group string regex
  | Bol
  | Eol

type_synonym pos = "char option \<times> string"
type_synonym groups = "(string \<times> string) list"

definition CharR :: "char \<Rightarrow> regex" where
  "CharR c = Class (\<lambda>x. x = c)"

definition plus :: "regex \<Rightarrow> regex" where
  "plus r = Seq r (Star r)"

definition opt :: "regex \<Rightarrow> regex" where
  "opt r = Alt r Eps"

fun seqs :: "regex list \<Rightarrow> regex" where
  "seqs [] = Eps"
| "seqs [r] = r"
| "seqs (r # s # rs) = Seq r (seqs (s # rs))"

fun alts :: "regex \<Rightarrow> regex list \<Rightarrow> regex" where
  "alts r [] = r"
| "alts r (s # rs) = Alt r (alts s rs)"

definition lit :: "string \<Rightarrow> regex" where
  "lit s = seqs (map CharR s)"

text \<open>Under the flag \<open>(?i)\<close> a literal matches its letters in either case.\<close>

definition ilit :: "string \<Rightarrow> regex" where
  "ilit s = seqs (map (\<lambda>c. Class (\<lambda>x. lower_char x = lower_char c)) s)"

definition rep :: "nat \<Rightarrow> regex \<Rightarrow> regex" where
  "rep n r = seqs (replicate n r)"

definition at_least :: "nat \<Rightarrow> regex \<Rightarrow> regex" where
  "at_least n r = Seq (rep n r) (Star r)"

section \<open>Matching\<close>

definition bol :: "pos \<Rightarrow> bool" where
  "bol p \<longleftrightarrow> fst p = None \<or> fst p = Some (CHR 0x0A)"

definition eol :: "pos \<Rightarrow> bool" where
  "eol p \<longleftrightarrow> snd p = [] \<or> hd (snd p) = CHR 0x0A"

definition between :: "pos \<Rightarrow> pos \<Rightarrow> string" where
  "between p q = take (length (snd p) - length (snd q)) (snd p)"

text \<open>Repetition: at most \<open>n\<close> further iterations of \<open>f\<close>, each of which has to consume something.\<close>

fun iterate :: "bool \<Rightarrow> (pos \<Rightarrow> (pos \<times> groups) list) \<Rightarrow> nat \<Rightarrow> pos \<Rightarrow> (pos \<times> groups) list" where
  "iterate lazy f 0 p = [(p, [])]"
| "iterate lazy f (Suc n) p =
     (let further = concat (map (\<lambda>(q, c). if length (snd q) < length (snd p)
            then map (\<lambda>(q', c'). (q', c @ c')) (iterate lazy f n q) else []) (f p))
      in if lazy then (p, []) # further else further @ [(p, [])])"

fun ways :: "regex \<Rightarrow> pos \<Rightarrow> (pos \<times> groups) list" where
  "ways Eps p = [(p, [])]"
| "ways (Class f) p = (case snd p of [] \<Rightarrow> [] | x # xs \<Rightarrow> if f x then [((Some x, xs), [])] else [])"
| "ways (Seq r s) p = concat (map (\<lambda>(q, c). map (\<lambda>(q', c'). (q', c @ c')) (ways s q)) (ways r p))"
| "ways (Alt r s) p = ways r p @ ways s p"
| "ways (Star r) p = iterate False (ways r) (length (snd p)) p"
| "ways (Lazy r) p = iterate True (ways r) (length (snd p)) p"
| "ways (Group n r) p = map (\<lambda>(q, c). (q, c @ [(n, between p q)])) (ways r p)"
| "ways Bol p = (if bol p then [(p, [])] else [])"
| "ways Eol p = (if eol p then [(p, [])] else [])"

fun search_pos :: "regex \<Rightarrow> char option \<Rightarrow> string \<Rightarrow> (pos \<times> pos \<times> groups) option" where
  "search_pos r b s =
     (case ways r (b, s) of
        (q, c) # _ \<Rightarrow> Some ((b, s), q, c)
      | [] \<Rightarrow> (case s of [] \<Rightarrow> None | x # xs \<Rightarrow> search_pos r (Some x) xs))"

definition search :: "regex \<Rightarrow> string \<Rightarrow> groups option" where
  "search r s = map_option (\<lambda>(_, _, c). c) (search_pos r None s)"

definition fullmatch :: "regex \<Rightarrow> string \<Rightarrow> groups option" where
  "fullmatch r s = map_option snd (List.find (\<lambda>(q, _). snd q = []) (ways r (None, s)))"

text \<open>The groups of a match, \<open>match[name]\<close>.\<close>

definition grp :: "groups \<Rightarrow> string \<Rightarrow> string" where
  "grp c n = (case map_of c n of None \<Rightarrow> [] | Some s \<Rightarrow> s)"

section \<open>Meaning\<close>

fun matches :: "regex \<Rightarrow> pos \<Rightarrow> pos \<Rightarrow> bool" where
  "matches Eps p q \<longleftrightarrow> q = p"
| "matches (Class f) p q \<longleftrightarrow> (\<exists>x xs. snd p = x # xs \<and> f x \<and> q = (Some x, xs))"
| "matches (Seq r s) p q \<longleftrightarrow> (\<exists>m. matches r p m \<and> matches s m q)"
| "matches (Alt r s) p q \<longleftrightarrow> matches r p q \<or> matches s p q"
| "matches (Star r) p q \<longleftrightarrow> (matches r)\<^sup>*\<^sup>* p q"
| "matches (Lazy r) p q \<longleftrightarrow> (matches r)\<^sup>*\<^sup>* p q"
| "matches (Group n r) p q \<longleftrightarrow> matches r p q"
| "matches Bol p q \<longleftrightarrow> q = p \<and> bol p"
| "matches Eol p q \<longleftrightarrow> q = p \<and> eol p"

text \<open>\<open>later p q\<close>: \<open>q\<close> is \<open>p\<close> or lies behind it in the same text.\<close>

definition later :: "pos \<Rightarrow> pos \<Rightarrow> bool" where
  "later p q \<longleftrightarrow> q = p \<or> (\<exists>w x. snd p = w @ x # snd q \<and> fst q = Some x)"

lemma later_refl [simp]: "later p p"
  by (simp add: later_def)

lemma later_trans: "later p q \<Longrightarrow> later q r \<Longrightarrow> later p r"
  unfolding later_def by (metis append.assoc append_Cons)

lemma later_shorter: "later p q \<Longrightarrow> q \<noteq> p \<Longrightarrow> length (snd q) < length (snd p)"
  by (auto simp: later_def)

lemma later_length: "later p q \<Longrightarrow> length (snd q) \<le> length (snd p)"
  by (auto simp: later_def)

lemma later_text: "later p q \<Longrightarrow> snd p = between p q @ snd q"
  by (auto simp: later_def between_def)

lemma rtranclp_later: "r\<^sup>*\<^sup>* p q \<Longrightarrow> (\<And>p q. r p q \<Longrightarrow> later p q) \<Longrightarrow> later p q"
  by (induction rule: rtranclp_induct) (auto intro: later_trans)

lemma matches_later: "matches r p q \<Longrightarrow> later p q"
proof (induction r arbitrary: p q)
  case (Class f)
  then show ?case by (auto simp: later_def)
next
  case (Seq r s)
  then obtain m where "matches r p m" "matches s m q" by (auto simp del: split_paired_Ex)
  then show ?case using Seq.IH by (blast intro: later_trans)
next
  case (Star r)
  from Star.prems show ?case unfolding matches.simps by (rule rtranclp_later) (rule Star.IH)
next
  case (Lazy r)
  from Lazy.prems show ?case unfolding matches.simps by (rule rtranclp_later) (rule Lazy.IH)
qed auto

lemma iterate_sound:
  assumes "(q, c) \<in> set (iterate lazy f n p)" and "\<And>p q c. (q, c) \<in> set (f p) \<Longrightarrow> R p q"
  shows "R\<^sup>*\<^sup>* p q"
  using assms(1)
proof (induction n arbitrary: p c)
  case (Suc n)
  then consider "q = p" | m d d' where "(m, d) \<in> set (f p)" "(q, d') \<in> set (iterate lazy f n m)"
    by (auto simp: Let_def split: if_split_asm)
  then show ?case
  proof cases
    case 2
    from assms(2) [OF this(1)] Suc.IH [OF this(2)] show ?thesis by (rule converse_rtranclp_into_rtranclp)
  qed simp
qed simp

lemma iterate_complete:
  assumes "R\<^sup>*\<^sup>* p q" and "\<And>p q. R p q \<Longrightarrow> later p q \<and> (\<exists>c. (q, c) \<in> set (f p))" and "length (snd p) \<le> n"
  shows "\<exists>c. (q, c) \<in> set (iterate lazy f n p)"
  using assms(1,3)
proof (induction n arbitrary: p)
  case 0
  then have "later p q" using assms(2) by (blast intro: rtranclp_later)
  then have "q = p" using "0.prems"(2) later_shorter by fastforce
  then show ?case by simp
next
  case (Suc n)
  show ?case
  proof (cases "q = p")
    case True
    then show ?thesis by (auto simp: Let_def)
  next
    case False
    with Suc.prems(1) obtain m where m: "R p m" "m \<noteq> p" "R\<^sup>*\<^sup>* m q"
      by (induction rule: converse_rtranclp_induct) blast+
    have l: "length (snd m) < length (snd p)" using assms(2) [OF m(1)] m(2) later_shorter by blast
    with Suc.prems(2) have "length (snd m) \<le> n" by simp
    from Suc.IH [OF m(3) this] obtain c where c: "(q, c) \<in> set (iterate lazy f n m)" by blast
    from assms(2) [OF m(1)] obtain d where "(m, d) \<in> set (f p)" by blast
    moreover have "(q, d @ c) \<in> set (map (\<lambda>(q', c'). (q', d @ c')) (iterate lazy f n m))" using c by force
    ultimately have "(q, d @ c) \<in> set (concat (map (\<lambda>(q, c). if length (snd q) < length (snd p)
            then map (\<lambda>(q', c'). (q', c @ c')) (iterate lazy f n q) else []) (f p)))"
      using l by (simp only: set_concat set_map) (rule UN_I [OF imageI], assumption, simp)
    then show ?thesis by (intro exI [of _ "d @ c"]) (simp add: Let_def del: set_concat set_map)
  qed
qed

lemma ways_iff: "(\<exists>c. (q, c) \<in> set (ways r p)) \<longleftrightarrow> matches r p q"
proof (induction r arbitrary: p q)
  case (Class f)
  then show ?case by (cases "snd p") auto
next
  case (Seq r s)
  show ?case unfolding matches.simps Seq [symmetric] by (auto simp: image_iff) force+
next
  case (Alt r s)
  show ?case unfolding matches.simps Alt [symmetric] by auto
next
  case (Star r)
  have "(\<exists>c. (q, c) \<in> set (iterate False (ways r) (length (snd p)) p)) \<longleftrightarrow> (matches r)\<^sup>*\<^sup>* p q"
    using iterate_sound [where R = "matches r"] iterate_complete [where R = "matches r"] Star matches_later by blast
  then show ?case by simp
next
  case (Lazy r)
  have "(\<exists>c. (q, c) \<in> set (iterate True (ways r) (length (snd p)) p)) \<longleftrightarrow> (matches r)\<^sup>*\<^sup>* p q"
    using iterate_sound [where R = "matches r"] iterate_complete [where R = "matches r"] Lazy matches_later by blast
  then show ?case by simp
next
  case (Group n r)
  show ?case unfolding matches.simps Group [symmetric] by (auto simp: image_iff) force
qed auto

lemma ways_sound: "(q, c) \<in> set (ways r p) \<Longrightarrow> matches r p q"
  using ways_iff by blast

lemma ways_Nil_iff: "ways r p = [] \<longleftrightarrow> (\<forall>q. \<not> matches r p q)"
proof -
  have "ways r p = [] \<longleftrightarrow> (\<forall>q. \<not> (\<exists>c. (q, c) \<in> set (ways r p)))" by (cases "ways r p") auto
  then show ?thesis unfolding ways_iff .
qed

section \<open>Searching\<close>

declare search_pos.simps [simp del]

lemma search_pos_Some:
  assumes "search_pos r b s = Some (start, q, c)"
  shows "later (b, s) start \<and> (q, c) \<in> set (ways r start) \<and> later start q"
  using assms
proof (induction r b s rule: search_pos.induct)
  case (1 r b s)
  show ?case
  proof (cases "ways r (b, s)")
    case (Cons m rest)
    then have m: "start = (b, s)" "(q, c) \<in> set (ways r start)"
      using "1.prems" by (auto simp: search_pos.simps [of r b s] split: prod.splits)
    from matches_later [OF ways_sound [OF m(2)]] m show ?thesis by simp
  next
    case Nil
    then obtain x xs where x: "s = x # xs" "search_pos r (Some x) xs = Some (start, q, c)"
      using "1.prems" by (auto simp: search_pos.simps [of r b s] split: list.splits)
    have "later (b, s) (Some x, xs)" using x(1) by (auto simp: later_def intro: exI [of _ "[]"])
    with "1.IH" [OF Nil x] show ?thesis by (blast intro: later_trans)
  qed
qed

lemma search_pos_None:
  "search_pos r b s = None \<longleftrightarrow> (\<forall>p q. later (b, s) p \<longrightarrow> \<not> matches r p q)"
proof (induction r b s rule: search_pos.induct)
  case (1 r b s)
  have step: "later (b, x # xs) p \<longleftrightarrow> p = (b, x # xs) \<or> later (Some x, xs) p" for x xs p
  proof
    assume "later (b, x # xs) p"
    then consider "p = (b, x # xs)" | w y where "x # xs = w @ y # snd p" "fst p = Some y"
      by (auto simp: later_def)
    then show "p = (b, x # xs) \<or> later (Some x, xs) p"
      by cases (auto simp: later_def prod_eq_iff Cons_eq_append_conv)
  next
    assume "p = (b, x # xs) \<or> later (Some x, xs) p"
    moreover have "later (b, x # xs) (Some x, xs)" by (auto simp: later_def intro: exI [of _ "[]"])
    ultimately show "later (b, x # xs) p" by (auto intro: later_trans)
  qed
  show ?case
  proof (cases "ways r (b, s)")
    case (Cons m rest)
    then obtain q c where "(q, c) \<in> set (ways r (b, s))" by (cases m) auto
    then have "matches r (b, s) q" by (rule ways_sound)
    then have "\<not> (\<forall>p q. later (b, s) p \<longrightarrow> \<not> matches r p q)" using later_refl by blast
    moreover have "search_pos r b s \<noteq> None" using Cons by (simp add: search_pos.simps [of r b s] split: prod.splits)
    ultimately show ?thesis by blast
  next
    case Nil
    note none = Nil [unfolded ways_Nil_iff]
    show ?thesis
    proof (cases s)
      case Nil
      have "p = (b, s)" if "later (b, s) p" for p using that Nil by (auto simp: later_def)
      then have "\<forall>p q. later (b, s) p \<longrightarrow> \<not> matches r p q" using none by blast
      moreover have "search_pos r b s = None" using \<open>ways r (b, s) = []\<close> Nil by (subst search_pos.simps) simp
      ultimately show ?thesis by blast
    next
      case (Cons x xs)
      have "search_pos r b s = search_pos r (Some x) xs"
        using \<open>ways r (b, s) = []\<close> Cons by (subst search_pos.simps) simp
      then show ?thesis using "1.IH" [OF \<open>ways r (b, s) = []\<close> Cons] none unfolding Cons step by metis
    qed
  qed
qed

text \<open>
  \<open>finditer\<close> goes on behind the match it found, and one character further when the match was empty;
  \<open>resub\<close> copies the text between the matches.
\<close>

definition advance :: "pos \<Rightarrow> pos" where
  "advance p = (case snd p of [] \<Rightarrow> p | x # xs \<Rightarrow> (Some x, xs))"

definition resume :: "pos \<Rightarrow> pos \<Rightarrow> pos" where
  "resume start q = (if q = start then advance start else q)"

lemma resume_shorter:
  "search_pos r b s = Some (start, q, c) \<Longrightarrow> s \<noteq> [] \<Longrightarrow> length (snd (resume start q)) < length s"
  using search_pos_Some [of r b s start q c] later_length [of "(b, s)" start] later_shorter [of start q]
  by (auto simp: resume_def advance_def split: list.splits)

function finditer :: "regex \<Rightarrow> pos \<Rightarrow> groups list" where
  "finditer r p =
     (case search_pos r (fst p) (snd p) of
        None \<Rightarrow> []
      | Some (start, q, c) \<Rightarrow> if snd p = [] then [c] else c # finditer r (resume start q))"
  by pat_completeness auto

termination
  by (relation "measure (\<lambda>(r, p). length (snd p))") (auto simp: resume_shorter)

function resub :: "regex \<Rightarrow> string \<Rightarrow> pos \<Rightarrow> string" where
  "resub r repl p =
     (case search_pos r (fst p) (snd p) of
        None \<Rightarrow> snd p
      | Some (start, q, c) \<Rightarrow> between p start @ repl @
          (if snd p = [] then [] else between q (resume start q) @ resub r repl (resume start q)))"
  by pat_completeness auto

termination
  by (relation "measure (\<lambda>(r, repl, p). length (snd p))") (auto simp: resume_shorter)

declare finditer.simps [simp del] resub.simps [simp del]

definition findall :: "regex \<Rightarrow> string \<Rightarrow> groups list" where
  "findall r s = finditer r (None, s)"

definition sub :: "regex \<Rightarrow> string \<Rightarrow> string \<Rightarrow> string" where
  "sub r repl s = resub r repl (None, s)"

section \<open>Expressions without anchors\<close>

fun anchor_free :: "regex \<Rightarrow> bool" where
  "anchor_free (Seq r s) \<longleftrightarrow> anchor_free r \<and> anchor_free s"
| "anchor_free (Alt r s) \<longleftrightarrow> anchor_free r \<and> anchor_free s"
| "anchor_free (Star r) \<longleftrightarrow> anchor_free r"
| "anchor_free (Lazy r) \<longleftrightarrow> anchor_free r"
| "anchor_free (Group n r) \<longleftrightarrow> anchor_free r"
| "anchor_free Bol \<longleftrightarrow> False"
| "anchor_free Eol \<longleftrightarrow> False"
| "anchor_free _ \<longleftrightarrow> True"

inductive star_words :: "(string \<Rightarrow> bool) \<Rightarrow> string \<Rightarrow> bool" for L where
  star_Nil: "star_words L []"
| star_step: "L v \<Longrightarrow> star_words L w \<Longrightarrow> star_words L (v @ w)"

fun word_in :: "regex \<Rightarrow> string \<Rightarrow> bool" where
  "word_in Eps w \<longleftrightarrow> w = []"
| "word_in (Class f) w \<longleftrightarrow> (\<exists>x. w = [x] \<and> f x)"
| "word_in (Seq r s) w \<longleftrightarrow> (\<exists>u v. w = u @ v \<and> word_in r u \<and> word_in s v)"
| "word_in (Alt r s) w \<longleftrightarrow> word_in r w \<or> word_in s w"
| "word_in (Star r) w \<longleftrightarrow> star_words (word_in r) w"
| "word_in (Lazy r) w \<longleftrightarrow> star_words (word_in r) w"
| "word_in (Group n r) w \<longleftrightarrow> word_in r w"
| "word_in Bol w \<longleftrightarrow> False"
| "word_in Eol w \<longleftrightarrow> False"

text \<open>The position behind a word.\<close>

definition after :: "pos \<Rightarrow> string \<Rightarrow> string \<Rightarrow> pos" where
  "after p w s = (if w = [] then fst p else Some (last w), s)"

lemma after_append: "after (after p u (v @ s)) v s = after p (u @ v) s"
  by (simp add: after_def)

lemma after_Nil: "snd p = s \<Longrightarrow> after p [] s = p"
  by (auto simp: after_def)

lemma star_matches:
  assumes "\<And>p q. R p q \<longleftrightarrow> (\<exists>w. snd p = w @ snd q \<and> q = after p w (snd q) \<and> L w)"
  shows "R\<^sup>*\<^sup>* p q \<longleftrightarrow> (\<exists>w. snd p = w @ snd q \<and> q = after p w (snd q) \<and> star_words L w)"
proof
  show "R\<^sup>*\<^sup>* p q \<Longrightarrow> \<exists>w. snd p = w @ snd q \<and> q = after p w (snd q) \<and> star_words L w"
  proof (induction rule: converse_rtranclp_induct)
    case base
    have "q = after q [] (snd q)" by (simp add: after_Nil)
    then show ?case using star_Nil by (metis append_Nil)
  next
    case (step p m)
    from step(1) assms obtain u where u: "snd p = u @ snd m" "m = after p u (snd m)" "L u" by blast
    from step(3) obtain v where v: "snd m = v @ snd q" "q = after m v (snd q)" "star_words L v" by blast
    have "q = after p (u @ v) (snd q)" using u(2) v(1,2) after_append by metis
    moreover have "star_words L (u @ v)" by (rule star_step [OF u(3) v(3)])
    ultimately show ?case using u(1) v(1) by (intro exI [of _ "u @ v"]) simp
  qed
next
  assume "\<exists>w. snd p = w @ snd q \<and> q = after p w (snd q) \<and> star_words L w"
  then obtain w where "snd p = w @ snd q" "q = after p w (snd q)" "star_words L w" by blast
  from this(3,1,2) show "R\<^sup>*\<^sup>* p q"
  proof (induction w arbitrary: p rule: star_words.induct)
    case star_Nil
    then have "q = p" by (simp add: after_Nil)
    then show ?case by simp
  next
    case (star_step v w)
    let ?m = "after p v (w @ snd q)"
    have m: "snd ?m = w @ snd q" by (simp add: after_def)
    have "R p ?m" unfolding assms using star_step.hyps(1) star_step.prems(1) m by (intro exI [of _ v]) simp
    moreover have "R\<^sup>*\<^sup>* ?m q"
      by (rule star_step.IH [OF m]) (use star_step.prems(2) after_append in metis)
    ultimately show ?case by (rule converse_rtranclp_into_rtranclp)
  qed
qed

lemma matches_word:
  "anchor_free r \<Longrightarrow> matches r p q \<longleftrightarrow> (\<exists>w. snd p = w @ snd q \<and> q = after p w (snd q) \<and> word_in r w)"
proof (induction r arbitrary: p q)
  case Eps
  show ?case by (cases p; cases q) (auto simp: after_def)
next
  case (Class f)
  obtain b s where q: "q = (b, s)" by (cases q)
  show ?case unfolding q
  proof
    assume "matches (Class f) p (b, s)"
    then obtain x where "snd p = [x] @ s" "f x" "(b, s) = after p [x] s" by (auto simp: after_def)
    then show "\<exists>w. snd p = w @ snd (b, s) \<and> (b, s) = after p w (snd (b, s)) \<and> word_in (Class f) w"
      unfolding word_in.simps snd_conv by blast
  next
    assume "\<exists>w. snd p = w @ snd (b, s) \<and> (b, s) = after p w (snd (b, s)) \<and> word_in (Class f) w"
    then show "matches (Class f) p (b, s)" by (auto simp: after_def)
  qed
next
  case (Seq r s)
  then have IH: "matches r p q \<longleftrightarrow> (\<exists>w. snd p = w @ snd q \<and> q = after p w (snd q) \<and> word_in r w)"
    "matches s p q \<longleftrightarrow> (\<exists>w. snd p = w @ snd q \<and> q = after p w (snd q) \<and> word_in s w)" for p q by simp_all
  show ?case unfolding matches.simps word_in.simps IH
  proof (intro iffI; elim exE conjE)
    fix m u v assume *: "snd p = u @ snd m" "m = after p u (snd m)" "word_in r u" "snd m = v @ snd q"
      "q = after m v (snd q)" "word_in s v"
    have "q = after p (u @ v) (snd q)" using *(2,4,5) after_append by metis
    then show "\<exists>w. snd p = w @ snd q \<and> q = after p w (snd q) \<and> (\<exists>u v. w = u @ v \<and> word_in r u \<and> word_in s v)"
      using * by (intro exI [of _ "u @ v"]) auto
  next
    fix w u v assume *: "snd p = w @ snd q" "q = after p w (snd q)" "w = u @ v" "word_in r u" "word_in s v"
    let ?m = "after p u (v @ snd q)"
    have "snd ?m = v @ snd q" by (simp add: after_def)
    moreover have "q = after ?m v (snd q)" using *(2,3) after_append by metis
    ultimately show "\<exists>m. (\<exists>w. snd p = w @ snd m \<and> m = after p w (snd m) \<and> word_in r w)
        \<and> (\<exists>w. snd m = w @ snd q \<and> q = after m w (snd q) \<and> word_in s w)"
      using * by (intro exI [of _ ?m]) (auto simp del: split_paired_Ex)
  qed
next
  case (Star r)
  then have "matches r p q \<longleftrightarrow> (\<exists>w. snd p = w @ snd q \<and> q = after p w (snd q) \<and> word_in r w)" for p q by simp
  from star_matches [OF this] show ?case by simp
next
  case (Lazy r)
  then have "matches r p q \<longleftrightarrow> (\<exists>w. snd p = w @ snd q \<and> q = after p w (snd q) \<and> word_in r w)" for p q by simp
  from star_matches [OF this] show ?case by simp
next
  case (Alt r s)
  then have "anchor_free r" "anchor_free s" by simp_all
  note IH = Alt.IH(1) [OF this(1)] Alt.IH(2) [OF this(2)]
  show ?case unfolding matches.simps word_in.simps IH by blast
qed simp_all

end
