(* ===== verification/Work_Orders.thy ===== *)
theory Work_Orders
  imports Ontology Clock Regex
begin

text \<open>
  The trusted-local dispatcher (\<open>trusted_local_runner.py\<close>): the claim ledger read from the comments
  of the coordination issue, the authorization of a work order, and the execution of one attempt in
  a worktree of its own. Moments are microseconds of UTC (\<open>Clock.utc_micros\<close>), and a
  \<open>WorkOrderError\<close> carries its code where another exception carries its message.

  The machine is a parameter: the record \<open>host\<close> gives, over a state \<open>'w\<close>, the clock, the process
  launcher and the few file operations; the JSON schema of work orders is an argument that lists
  the violations of a value.
\<close>

section \<open>Ledger and policy\<close>

definition work_error :: "string \<Rightarrow> 'a res" where
  "work_error code = Inl (Exn WorkOrderError code)"

definition SECRETLESS_ACCESS_CLASS :: string where
  "SECRETLESS_ACCESS_CLASS = ''CLOUD_SECRETLESS''"

definition TERMINAL_STATUSES :: "string list" where
  "TERMINAL_STATUSES = [''PASS'', ''FAILED'', ''BLOCKED'']"

record claim =
  claim_task :: string
  claim_agent :: string
  claim_lease :: int
  claim_released :: bool

record dispatch_ledger =
  claims :: "(string \<times> claim) list"
  cancelled_ids :: "string list"
  terminal_ids :: "string list"
  latest_generation :: "(string \<times> int) list"
  available :: bool

record dispatch_policy =
  repo_allowlist :: "string list"
  task_allowlist :: "string list"
  local_agent :: string
  trusted_refs :: "string list"
  allowed_roles :: "string list"

definition active_for :: "claim \<Rightarrow> int \<Rightarrow> bool" where
  "active_for c now \<longleftrightarrow> \<not> claim_released c \<and> claim_lease c > now"

section \<open>The claim ledger\<close>

definition space :: regex where
  "space = Class is_space"

definition nonspace :: regex where
  "nonspace = Class (\<lambda>c. \<not> is_space c)"

definition CLAIM_LINE :: regex where
  "CLAIM_LINE = seqs [Bol, lit ''CLAIM'', plus space, lit ''task='', Group ''task'' (plus nonspace)]"

definition AGENT_LINE :: regex where
  "AGENT_LINE = seqs [Bol, lit ''agent='', Group ''agent'' (plus nonspace)]"

definition LEASE_LINE :: regex where
  "LEASE_LINE = seqs [Bol, lit ''lease_until='', Group ''lease'' (plus nonspace)]"

definition RENEW_LINE :: regex where
  "RENEW_LINE = seqs [Bol, lit ''RENEW'', plus space, lit ''task='', Group ''task'' (plus nonspace), plus space,
     lit ''agent='', Group ''agent'' (plus nonspace), Lazy (Class (\<lambda>_. True)),
     lit ''lease_until='', Group ''lease'' (plus nonspace)]"

definition RELEASE_LINE :: regex where
  "RELEASE_LINE = seqs [Bol, lit ''RELEASE'', plus space, lit ''task='', Group ''task'' (plus nonspace), plus space,
     lit ''agent='', Group ''agent'' (plus nonspace)]"

text \<open>
  \<open>parsed.astimezone(UTC)\<close> of a time that is not UTC already: \<open>OverflowError\<close> when the moment leaves
  the years 1 to 9999.
\<close>

definition MAX_MICROS :: int where
  "MAX_MICROS = days_before_year 10000 * 86400000000"

definition as_utc :: "datetime \<Rightarrow> int \<Rightarrow> int res" where
  "as_utc d offset =
     (let t = utc_micros (d\<lparr>dt_offset := Some offset\<rparr>) in
      if 0 \<le> t \<and> t < MAX_MICROS then Inr t else Inl (Exn OverflowError ''date value out of range''))"

definition parse_deadline :: "string \<Rightarrow> int res" where
  "parse_deadline v =
     (case parse_instant v of
        Inl _ \<Rightarrow> work_error ''MALFORMED''
      | Inr d \<Rightarrow> (case dt_offset d of None \<Rightarrow> work_error ''MALFORMED'' | Some off \<Rightarrow> as_utc d off))"

text \<open>
  The claims seen so far, in order, each with the mark that a later comment released it. A release or
  a renewal concerns the last claim of its task and agent that is not released.
\<close>

type_synonym candidates = "(claim \<times> bool) list"

fun update_first :: "('a \<Rightarrow> bool) \<Rightarrow> ('a \<Rightarrow> 'a) \<Rightarrow> 'a list \<Rightarrow> 'a list" where
  "update_first P f [] = []"
| "update_first P f (x # xs) = (if P x then f x # xs else x # update_first P f xs)"

definition update_last :: "('a \<Rightarrow> bool) \<Rightarrow> ('a \<Rightarrow> 'a) \<Rightarrow> 'a list \<Rightarrow> 'a list" where
  "update_last P f xs = rev (update_first P f (rev xs))"

definition held_by :: "groups \<Rightarrow> claim \<times> bool \<Rightarrow> bool" where
  "held_by g x \<longleftrightarrow> \<not> snd x \<and> claim_task (fst x) = grp g ''task'' \<and> claim_agent (fst x) = grp g ''agent''"

definition release_claim :: "candidates \<Rightarrow> groups \<Rightarrow> candidates" where
  "release_claim cs g = update_last (held_by g) (\<lambda>(c, _). (c, True)) cs"

definition renew_claim :: "candidates \<Rightarrow> groups \<Rightarrow> candidates res" where
  "renew_claim cs g =
     (case parse_deadline (grp g ''lease'') of
        Inl e \<Rightarrow> if exn_class e = WorkOrderError then Inr cs else Inl e
      | Inr lease \<Rightarrow> Inr (update_last (held_by g) (\<lambda>(c, r). (c\<lparr>claim_lease := lease\<rparr>, r)) cs))"

definition add_claim :: "candidates \<Rightarrow> string \<Rightarrow> candidates res" where
  "add_claim cs body =
     (case (search CLAIM_LINE body, search AGENT_LINE body, search LEASE_LINE body) of
        (Some c, Some a, Some l) \<Rightarrow>
          (case parse_deadline (grp l ''lease'') of
             Inl e \<Rightarrow> if exn_class e = WorkOrderError then Inr cs else Inl e
           | Inr lease \<Rightarrow> Inr (cs @ [(\<lparr> claim_task = grp c ''task'', claim_agent = grp a ''agent'',
                                      claim_lease = lease, claim_released = False \<rparr>, False)]))
      | _ \<Rightarrow> Inr cs)"

definition comment_body :: "json \<Rightarrow> string res" where
  "comment_body comment = rbind (get_attr comment ''body'' (JStr [])) (\<lambda>b. Inr (py_str b))"

definition read_comment :: "candidates \<Rightarrow> json \<Rightarrow> candidates res" where
  "read_comment cs comment =
     rbind (comment_body comment) (\<lambda>body.
     rbind (rfold renew_claim (foldl release_claim cs (findall RELEASE_LINE body)) (findall RENEW_LINE body)) (\<lambda>cs.
       add_claim cs body))"

text \<open>\<open>claims.setdefault\<close>: the first active claim of a task stays.\<close>

definition winning_claims :: "int \<Rightarrow> candidates \<Rightarrow> (string \<times> claim) list" where
  "winning_claims now cs =
     foldl (\<lambda>w (c, r). if r \<or> \<not> active_for c now \<or> map_of w (claim_task c) \<noteq> None then w
                       else w @ [(claim_task c, c)]) [] cs"

definition claim_ledger :: "(string \<times> claim) list \<Rightarrow> dispatch_ledger" where
  "claim_ledger w = \<lparr> claims = w, cancelled_ids = [], terminal_ids = [], latest_generation = [], available = True \<rparr>"

definition parse_claim_ledger :: "json list \<Rightarrow> int \<Rightarrow> dispatch_ledger res" where
  "parse_claim_ledger comments now =
     rbind (rfold read_comment [] comments) (\<lambda>cs. Inr (claim_ledger (winning_claims now cs)))"

text \<open>
  \<open>read_github_claim_ledger\<close>: pages of at most 100 comments are fetched until a shorter one, at most
  100 of them; any exception makes the ledger unavailable. \<open>fetch\<close> gives the decoded page.
\<close>

fun read_pages :: "(nat \<Rightarrow> json res) \<Rightarrow> nat \<Rightarrow> nat \<Rightarrow> json list \<Rightarrow> json list res" where
  "read_pages fetch 0 page acc = Inl (Exn ValueError ''GitHub comment ledger exceeded supported pagination limit'')"
| "read_pages fetch (Suc n) page acc =
     rbind (fetch page) (\<lambda>v. case v of
         JArr batch \<Rightarrow> if length batch < 100 then Inr (acc @ batch) else read_pages fetch n (Suc page) (acc @ batch)
       | _ \<Rightarrow> Inl (Exn ValueError ''GitHub comments response was not a list''))"

definition read_github_claim_ledger :: "(nat \<Rightarrow> json res) \<Rightarrow> int \<Rightarrow> dispatch_ledger" where
  "read_github_claim_ledger fetch now =
     (case rbind (read_pages fetch 100 1 []) (\<lambda>comments. parse_claim_ledger comments now) of
        Inr l \<Rightarrow> l
      | Inl _ \<Rightarrow> (claim_ledger [])\<lparr>available := False\<rparr>)"

section \<open>Authorization\<close>

datatype lane = Secretless | Privileged

definition lane_for :: "dict \<Rightarrow> lane res" where
  "lane_for order =
     rbind (dindex order ''access_class'') (\<lambda>a.
       Inr (if py_eq a (JStr SECRETLESS_ACCESS_CLASS) then Secretless else Privileged))"

definition demand :: "bool res \<Rightarrow> string \<Rightarrow> unit res" where
  "demand r code = rbind r (\<lambda>b. if b then Inr () else work_error code)"

definition field_in :: "dict \<Rightarrow> string \<Rightarrow> string list \<Rightarrow> bool res" where
  "field_in order k S = rbind (dindex order k) (\<lambda>v. in_names v S)"

definition field_not_in :: "dict \<Rightarrow> string \<Rightarrow> string list \<Rightarrow> bool res" where
  "field_not_in order k S = rbind (field_in order k S) (\<lambda>b. Inr (\<not> b))"

definition str_entry :: "dict \<Rightarrow> string \<Rightarrow> string res" where
  "str_entry d k = rbind (dindex d k) key_str"

definition has_claim :: "dict \<Rightarrow> dispatch_ledger \<Rightarrow> string \<Rightarrow> int \<Rightarrow> bool res" where
  "has_claim order ledger agent now =
     rbind (str_entry order ''task_id'') (\<lambda>t.
       Inr (case map_of (claims ledger) t of None \<Rightarrow> False
            | Some c \<Rightarrow> active_for c now \<and> claim_agent c = agent))"

definition current_generation :: "dict \<Rightarrow> dispatch_ledger \<Rightarrow> bool res" where
  "current_generation order ledger =
     rbind (str_entry order ''task_id'') (\<lambda>t.
       case map_of (latest_generation ledger) t of
         None \<Rightarrow> Inr True
       | Some g \<Rightarrow> rbind (dindex order ''generation'') (\<lambda>v. rbind (py_int v) (\<lambda>n. Inr (g \<le> n))))"

definition authorize_work_order ::
  "(json \<Rightarrow> string list) \<Rightarrow> dict \<Rightarrow> dispatch_ledger \<Rightarrow> dispatch_policy \<Rightarrow> int \<Rightarrow> lane res" where
  "authorize_work_order schema order ledger policy now =
     rbind (demand (Inr (schema (JObj order) = [])) ''MALFORMED'') (\<lambda>_.
     rbind (demand (Inr (available ledger)) ''LEDGER_UNAVAILABLE'') (\<lambda>_.
     rbind (demand (field_in order ''repo'' (repo_allowlist policy)) ''UNAUTHORIZED_REPOSITORY'') (\<lambda>_.
     rbind (demand (field_in order ''task_id'' (task_allowlist policy)) ''UNAUTHORIZED_TASK'') (\<lambda>_.
     rbind (demand (field_in order ''role'' (allowed_roles policy)) ''BLOCKED_POLICY'') (\<lambda>_.
     rbind (rbind (str_entry order ''deadline'') parse_deadline) (\<lambda>deadline.
     rbind (demand (Inr (now < deadline)) ''DEADLINE_EXPIRED'') (\<lambda>_.
     rbind (demand (has_claim order ledger (local_agent policy) now) ''CLAIM_INVALID'') (\<lambda>_.
     rbind (demand (field_not_in order ''attempt_id'' (cancelled_ids ledger)) ''CANCELLED'') (\<lambda>_.
     rbind (demand (field_not_in order ''attempt_id'' (terminal_ids ledger)) ''DUPLICATE_ATTEMPT'') (\<lambda>_.
     rbind (demand (current_generation order ledger) ''STALE_GENERATION'') (\<lambda>_.
     rbind (lane_for order) (\<lambda>lane.
     case lane of
       Secretless \<Rightarrow> Inr Secretless
     | Privileged \<Rightarrow>
         rbind (demand (rbind (dindex order ''starting_ref'') (\<lambda>s. Inr (py_eq (dget order ''reviewed_sha'') s)))
           ''EXACT_SHA_REQUIRED'') (\<lambda>_.
         rbind (demand (in_names (dget order ''trusted_dispatch_ref'') (trusted_refs policy)) ''UNTRUSTED_DISPATCH'') (\<lambda>_.
           Inr Privileged))))))))))))))"

section \<open>Secrets\<close>

type_synonym env = "(string \<times> string) list"

definition upper_char :: "char \<Rightarrow> char" where
  "upper_char c = (if CHR ''a'' \<le> c \<and> c \<le> CHR ''z'' then char_of (of_char c - (32::nat)) else c)"

definition upper :: "string \<Rightarrow> string" where
  "upper s = map upper_char s"

definition word_class :: "string \<Rightarrow> regex" where
  "word_class extra = Class (\<lambda>c. (CHR ''A'' \<le> c \<and> c \<le> CHR ''Z'') \<or> (CHR ''a'' \<le> c \<and> c \<le> CHR ''z'')
     \<or> (CHR ''0'' \<le> c \<and> c \<le> CHR ''9'') \<or> c \<in> set extra)"

definition one_of :: "string \<Rightarrow> regex" where
  "one_of cs = Class (\<lambda>c. c \<in> set cs)"

definition none_of :: "string \<Rightarrow> regex" where
  "none_of cs = Class (\<lambda>c. \<not> is_space c \<and> c \<notin> set cs)"

definition ione_of :: "string \<Rightarrow> regex" where
  "ione_of cs = Class (\<lambda>c. lower_char c \<in> set cs)"

definition SECRET_VALUE :: regex where
  "SECRET_VALUE = alts
     (seqs [ilit ''gh'', ione_of ''pousr'', lit ''_'', at_least 12 (word_class ''_=-'')])
    [seqs [ilit ''github_pat_'', at_least 12 (word_class ''_=-'')],
     seqs [ilit ''sk-'', at_least 12 (word_class ''_-'')],
     seqs [alts (seqs [ilit ''api'', opt (one_of ''_-''), ilit ''key'']) [ilit ''token'', ilit ''secret'', ilit ''password''],
           Star space, one_of '':='', Star space, plus (none_of [CHR 0x27, CHR 0x22])]]"

definition SECRET_NAME :: regex where
  "SECRET_NAME = alts (ilit ''token'') [ilit ''secret'', ilit ''password'',
     seqs [ilit ''api'', opt (one_of ''_-''), ilit ''key''], ilit ''railway'', ilit ''credential'']"

definition PERMITTED_NAMES :: "string list" where
  "PERMITTED_NAMES = [''PATH'', ''SYSTEMROOT'', ''WINDIR'', ''COMSPEC'', ''TEMP'', ''TMP'', ''HOME'', ''USERPROFILE'',
     ''LANG'', ''LC_ALL'']"

definition secretless_environment :: "env \<Rightarrow> env" where
  "secretless_environment source =
     filter (\<lambda>(k, _). upper k \<in> set PERMITTED_NAMES \<and> search SECRET_NAME k = None) source"

definition sanitize_text :: "string \<Rightarrow> string" where
  "sanitize_text v = sub SECRET_VALUE ''[REDACTED]'' v"

fun clean_value :: "json \<Rightarrow> json" where
  "clean_value (JStr s) = JStr (sanitize_text s)"
| "clean_value (JObj ps) = JObj (map (\<lambda>(k, v). (k, clean_value v)) ps)"
| "clean_value (JArr vs) = JArr (map clean_value vs)"
| "clean_value v = v"

definition sanitize_receipt :: "dict \<Rightarrow> dict res" where
  "sanitize_receipt receipt =
     rbind (demand (in_names (dget receipt ''terminal_status'') TERMINAL_STATUSES) ''INVALID_CLOSEOUT'') (\<lambda>_.
       Inr (map (\<lambda>(k, v). (k, clean_value v)) receipt))"

section \<open>The machine\<close>

datatype outcome = Exited int string string | TimedOut string | NotStarted exn

record command =
  cmd_argv :: "string list"
  cmd_cwd :: "string option"
  cmd_env :: "env option"
  cmd_stdin :: "string option"
  cmd_timeout :: "int option"

record 'w host =
  host_clock :: "'w \<Rightarrow> 'w \<times> int"
  host_run :: "'w \<Rightarrow> command \<Rightarrow> 'w \<times> outcome"
  host_exists :: "'w \<Rightarrow> string \<Rightarrow> bool"
  host_mkdir :: "'w \<Rightarrow> string \<Rightarrow> 'w \<times> unit res"
  host_rmtree :: "'w \<Rightarrow> string \<Rightarrow> 'w \<times> unit res"
  host_environ :: "'w \<Rightarrow> env"
  host_seconds :: "int \<Rightarrow> string"
  host_local_offset :: "datetime \<Rightarrow> int"

text \<open>\<open>subprocess.run\<close> of a command without a timeout, and \<open>try: body finally: cleanup\<close>.\<close>

definition plain :: "string list \<Rightarrow> command" where
  "plain argv = \<lparr> cmd_argv = argv, cmd_cwd = None, cmd_env = None, cmd_stdin = None, cmd_timeout = None \<rparr>"

definition run_plain :: "'w host \<Rightarrow> 'w \<Rightarrow> string list \<Rightarrow> 'w \<times> (int \<times> string \<times> string) res" where
  "run_plain h w argv =
     (case host_run h w (plain argv) of
        (w, Exited c out err) \<Rightarrow> (w, Inr (c, out, err))
      | (w, NotStarted e) \<Rightarrow> (w, Inl e)
      | (w, TimedOut m) \<Rightarrow> (w, Inl (Exn ExternalError m)))"

definition and_finally :: "'w \<times> 'a res \<Rightarrow> ('w \<Rightarrow> 'w \<times> unit res) \<Rightarrow> 'w \<times> 'a res" where
  "and_finally m cleanup = (case m of (w, r) \<Rightarrow> (case cleanup w of (w, Inl e) \<Rightarrow> (w, Inl e) | (w, Inr _) \<Rightarrow> (w, r)))"

definition isolated_worktree :: "'w host \<Rightarrow> 'w \<Rightarrow> string \<Rightarrow> dict \<Rightarrow> string \<Rightarrow> 'w \<times> string res" where
  "isolated_worktree h w repo order base =
     sbind (pure_res w (rbind (dindex order ''work_order_id'') (\<lambda>i. rbind (dindex order ''attempt_id'') (\<lambda>a.
        Inr (base @ ''/'' @ py_str i @ ''-'' @ py_str a))))) (\<lambda>w dir.
     if host_exists h w dir then (w, work_error ''DUPLICATE_ATTEMPT'')
     else sbind (host_mkdir h w base) (\<lambda>w _.
     sbind (pure_res w (dindex order ''starting_ref'')) (\<lambda>w ref.
     sbind (run_plain h w [''git'', ''-C'', repo, ''cat-file'', ''-e'', py_str ref @ ''^{commit}'']) (\<lambda>w (present, _).
     sbind (if present = 0 then (w, Inr ())
            else sbind (run_plain h w [''git'', ''-C'', repo, ''fetch'', ''--no-tags'', ''origin'', py_str ref]) (\<lambda>w (fetched, _).
              (w, if fetched = 0 then Inr () else work_error ''STARTING_REF_UNAVAILABLE''))) (\<lambda>w _.
     sbind (run_plain h w [''git'', ''-C'', repo, ''worktree'', ''add'', ''--detach'', dir, py_str ref]) (\<lambda>w (added, _).
       (w, if added = 0 then Inr dir else work_error ''WORKTREE_FAILED'')))))))"

definition destroy_worktree :: "'w host \<Rightarrow> 'w \<Rightarrow> string \<Rightarrow> string \<Rightarrow> 'w \<times> unit res" where
  "destroy_worktree h w repo dir =
     sbind (run_plain h w [''git'', ''-C'', repo, ''worktree'', ''remove'', ''--force'', dir]) (\<lambda>w _.
       if host_exists h w dir then host_rmtree h w dir else (w, Inr ()))"

text \<open>The launch of one process with a deadline, and its receipt: shared by both lanes and the broker.\<close>

definition attempt_detail :: "'w host \<Rightarrow> int \<Rightarrow> outcome \<Rightarrow> (string \<times> string) res" where
  "attempt_detail h remaining out =
     (case out of
        Exited c so se \<Rightarrow> Inr (if c = 0 then ''PASS'' else ''FAILED'', sanitize_text (strip (so @ [CHR 0x0A] @ se)))
      | TimedOut m \<Rightarrow> Inr (''FAILED'', sanitize_text (''timeout after '' @ host_seconds h remaining @ ''s: '' @ m))
      | NotStarted e \<Rightarrow> Inl e)"

definition attempt_receipt :: "dict \<Rightarrow> string \<Rightarrow> string \<Rightarrow> dict res" where
  "attempt_receipt order status detail =
     rbind (rmap (\<lambda>k. rbind (dindex order k) (\<lambda>v. Inr (k, v)))
              [''work_order_id'', ''attempt_id'', ''generation'', ''starting_ref'']) (\<lambda>ids.
       sanitize_receipt ([(''version'', JStr ''trusted-local-receipt-v1''), (''terminal_status'', JStr status)]
         @ ids @ [(''detail'', JStr detail)]))"

definition launch ::
  "'w host \<Rightarrow> 'w \<Rightarrow> string list \<Rightarrow> string \<Rightarrow> dict \<Rightarrow> env \<Rightarrow> string option \<Rightarrow> int \<Rightarrow> 'w \<times> dict res" where
  "launch h w argv worktree order environment input remaining =
     (if remaining \<le> 0 then (w, work_error ''DEADLINE_EXPIRED'')
      else case host_run h w \<lparr> cmd_argv = argv, cmd_cwd = Some worktree, cmd_env = Some environment,
                               cmd_stdin = input, cmd_timeout = Some remaining \<rparr> of
        (w, out) \<Rightarrow> pure_res w (rbind (attempt_detail h remaining out) (\<lambda>(status, detail).
          attempt_receipt order status detail)))"

definition run_attempt ::
  "'w host \<Rightarrow> 'w \<Rightarrow> string list \<Rightarrow> string \<Rightarrow> dict \<Rightarrow> env \<Rightarrow> 'w \<times> dict res" where
  "run_attempt h w argv worktree order environment =
     sbind (pure_res w (rbind (str_entry order ''deadline'') parse_deadline)) (\<lambda>w deadline.
     case host_clock h w of (w, now) \<Rightarrow> launch h w argv worktree order environment None (deadline - now))"

definition dispatch_attempt ::
  "(json \<Rightarrow> string list) \<Rightarrow> 'w host \<Rightarrow> 'w \<Rightarrow> lane \<Rightarrow> dict \<Rightarrow> dispatch_ledger \<Rightarrow> dispatch_policy \<Rightarrow> string \<Rightarrow> string
   \<Rightarrow> string list \<Rightarrow> ('w \<Rightarrow> 'w \<times> env res) \<Rightarrow> 'w \<times> dict res" where
  "dispatch_attempt schema h w lane order ledger policy repo base argv environment =
     (case host_clock h w of (w, now) \<Rightarrow>
      sbind (pure_res w (authorize_work_order schema order ledger policy now)) (\<lambda>w l.
      if l \<noteq> lane then (w, work_error ''ACCESS_CLASS_MISMATCH'')
      else sbind (isolated_worktree h w repo order base) (\<lambda>w dir.
        and_finally (sbind (environment w) (\<lambda>w e. run_attempt h w argv dir order e))
          (\<lambda>w. destroy_worktree h w repo dir))))"

definition dispatch_secretless_attempt ::
  "(json \<Rightarrow> string list) \<Rightarrow> 'w host \<Rightarrow> 'w \<Rightarrow> dict \<Rightarrow> dispatch_ledger \<Rightarrow> dispatch_policy \<Rightarrow> string \<Rightarrow> string
   \<Rightarrow> string list \<Rightarrow> 'w \<times> dict res" where
  "dispatch_secretless_attempt schema h w order ledger policy repo base argv =
     dispatch_attempt schema h w Secretless order ledger policy repo base argv
       (\<lambda>w. (w, Inr (secretless_environment (host_environ h w))))"

definition dispatch_privileged_verifier ::
  "(json \<Rightarrow> string list) \<Rightarrow> 'w host \<Rightarrow> 'w \<Rightarrow> dict \<Rightarrow> dispatch_ledger \<Rightarrow> dispatch_policy \<Rightarrow> string \<Rightarrow> string
   \<Rightarrow> string list \<Rightarrow> ('w \<Rightarrow> 'w \<times> env res) \<Rightarrow> 'w \<times> dict res" where
  "dispatch_privileged_verifier schema h w order ledger policy repo base argv credentials =
     dispatch_attempt schema h w Privileged order ledger policy repo base argv credentials"

section \<open>Words of an expression\<close>

lemma word_in_seqs_Cons [simp]:
  "word_in (seqs (r # rs)) w \<longleftrightarrow> (\<exists>u v. w = u @ v \<and> word_in r u \<and> word_in (seqs rs) v)"
  by (cases rs) auto

lemma word_in_seqs_snoc:
  "word_in (seqs (rs @ [r])) w \<longleftrightarrow> (\<exists>u v. w = u @ v \<and> word_in (seqs rs) u \<and> word_in r v)"
proof (induction rs arbitrary: w)
  case (Cons s rs)
  show ?case unfolding append_Cons word_in_seqs_Cons Cons by (metis append_assoc)
qed simp

lemma word_in_alts_Cons [simp]: "word_in (alts r (s # rs)) w \<longleftrightarrow> word_in r w \<or> word_in (alts s rs) w"
  by simp

lemma word_in_one: "(\<exists>u v. w = u @ v \<and> (\<exists>x. u = [x] \<and> f x) \<and> P v) \<longleftrightarrow> (\<exists>x v. w = x # v \<and> f x \<and> P v)"
proof
  assume "\<exists>x v. w = x # v \<and> f x \<and> P v"
  then obtain x v where "w = [x] @ v" "f x" "P v" by auto
  then show "\<exists>u v. w = u @ v \<and> (\<exists>x. u = [x] \<and> f x) \<and> P v" by blast
qed auto

lemma word_in_ilit: "word_in (ilit s) w \<longleftrightarrow> map lower_char w = map lower_char s"
  unfolding ilit_def
proof (induction s arbitrary: w)
  case (Cons c s)
  show ?case by (cases w) (auto simp: Cons word_in_one)
qed simp

lemma word_in_lit: "word_in (lit s) w \<longleftrightarrow> w = s"
  unfolding lit_def by (induction s arbitrary: w) (auto simp: CharR_def word_in_one)

lemma star_words_class: "star_words (word_in (Class f)) w \<longleftrightarrow> list_all f w"
proof
  show "star_words (word_in (Class f)) w \<Longrightarrow> list_all f w" by (induction rule: star_words.induct) auto
  show "list_all f w \<Longrightarrow> star_words (word_in (Class f)) w"
  proof (induction w)
    case (Cons x w)
    then have w: "word_in (Class f) [x]" by simp
    from Cons have "star_words (word_in (Class f)) w" unfolding list.pred_inject by blast
    from star_step [of "word_in (Class f)", OF w this] show ?case by (simp only: append_Cons append_Nil)
  qed (simp add: star_Nil)
qed

lemma word_in_plus_class: "word_in (plus (Class f)) w \<longleftrightarrow> w \<noteq> [] \<and> list_all f w"
proof -
  have "word_in (plus (Class f)) w \<longleftrightarrow> (\<exists>x v. w = x # v \<and> f x \<and> list_all f v)"
    unfolding plus_def word_in.simps(3,5) star_words_class by (simp add: word_in_one)
  then show ?thesis by (cases w) auto
qed

text \<open>The characters that may occur in a word.\<close>

fun char_in :: "regex \<Rightarrow> char \<Rightarrow> bool" where
  "char_in (Class f) c \<longleftrightarrow> f c"
| "char_in (Seq r s) c \<longleftrightarrow> char_in r c \<or> char_in s c"
| "char_in (Alt r s) c \<longleftrightarrow> char_in r c \<or> char_in s c"
| "char_in (Star r) c \<longleftrightarrow> char_in r c"
| "char_in (Lazy r) c \<longleftrightarrow> char_in r c"
| "char_in (Group n r) c \<longleftrightarrow> char_in r c"
| "char_in _ c \<longleftrightarrow> False"

lemma star_words_chars: "star_words L w \<Longrightarrow> (\<And>v. L v \<Longrightarrow> \<forall>c \<in> set v. P c) \<Longrightarrow> \<forall>c \<in> set w. P c"
  by (induction rule: star_words.induct) auto

lemma word_chars: "word_in r w \<Longrightarrow> \<forall>c \<in> set w. char_in r c"
proof (induction r arbitrary: w)
  case (Star r)
  then show ?case using star_words_chars [of "word_in r" w "char_in r"] by simp
next
  case (Lazy r)
  then show ?case using star_words_chars [of "word_in r" w "char_in r"] by simp
qed fastforce+

lemma search_pos_None_words:
  assumes "anchor_free r"
  shows "search_pos r b s = None \<longleftrightarrow> (\<forall>u w v. s = u @ w @ v \<longrightarrow> \<not> word_in r w)"
proof -
  have "(\<exists>p q. later (b, s) p \<and> matches r p q) \<longleftrightarrow> (\<exists>u w v. s = u @ w @ v \<and> word_in r w)"
  proof
    assume "\<exists>p q. later (b, s) p \<and> matches r p q"
    then obtain p q where p: "later (b, s) p" "matches r p q" by blast
    from p(2) obtain w where "snd p = w @ snd q" "word_in r w" unfolding matches_word [OF assms] by blast
    then have "s = between (b, s) p @ w @ snd q" using later_text [OF p(1)] by simp
    then show "\<exists>u w v. s = u @ w @ v \<and> word_in r w" using \<open>word_in r w\<close> by blast
  next
    assume "\<exists>u w v. s = u @ w @ v \<and> word_in r w"
    then obtain u w v where s: "s = u @ w @ v" "word_in r w" by blast
    let ?p = "after (b, s) u (w @ v)"
    have "later (b, s) ?p"
    proof (cases u rule: rev_cases)
      case Nil
      then show ?thesis using s by (simp add: after_def)
    next
      case (snoc ys y)
      then show ?thesis using s by (auto simp: after_def later_def)
    qed
    moreover have "matches r ?p (after ?p w v)"
      unfolding matches_word [OF assms] using s(2) by (intro exI [of _ w]) (simp add: after_def)
    ultimately show "\<exists>p q. later (b, s) p \<and> matches r p q" by blast
  qed
  then show ?thesis unfolding search_pos_None by blast
qed

lemma ways_Nil_words:
  assumes "anchor_free r"
  shows "ways r (b, s) = [] \<longleftrightarrow> (\<forall>w v. s = w @ v \<longrightarrow> \<not> word_in r w)"
proof -
  have "(\<exists>q. matches r (b, s) q) \<longleftrightarrow> (\<exists>w v. s = w @ v \<and> word_in r w)"
  proof
    assume "\<exists>w v. s = w @ v \<and> word_in r w"
    then obtain w v where s: "s = w @ v" "word_in r w" by blast
    have "matches r (b, s) (after (b, s) w v)"
      unfolding matches_word [OF assms] using s by (intro exI [of _ w]) (simp add: after_def)
    then show "\<exists>q. matches r (b, s) q" by blast
  qed (auto simp: matches_word [OF assms])
  then show ?thesis unfolding ways_Nil_iff by blast
qed

lemma search_pos_leftmost:
  assumes "anchor_free r" and "search_pos r b s = Some (start, q, c)"
  shows "\<exists>x m. s = x @ m @ snd q \<and> between (b, s) start = x \<and> word_in r m
    \<and> (\<forall>a y w v. x = a @ y \<longrightarrow> y \<noteq> [] \<longrightarrow> y @ m @ snd q = w @ v \<longrightarrow> \<not> word_in r w)"
  using assms(2)
proof (induction s arbitrary: b)
  case Nil
  then have "start = (b, []) \<and> (q, c) \<in> set (ways r (b, []))"
    by (subst (asm) search_pos.simps) (auto split: list.splits prod.splits)
  then show ?case using ways_sound [of q c r "(b, [])"] unfolding matches_word [OF assms(1)]
    by (auto simp: between_def)
next
  case (Cons z zs)
  show ?case
  proof (cases "ways r (b, z # zs)")
    case Nil
    with Cons.prems have "search_pos r (Some z) zs = Some (start, q, c)"
      by (subst (asm) search_pos.simps) simp
    from Cons.IH [OF this] obtain x m where xm: "zs = x @ m @ snd q" "between (Some z, zs) start = x" "word_in r m"
      "\<forall>a y w v. x = a @ y \<longrightarrow> y \<noteq> [] \<longrightarrow> y @ m @ snd q = w @ v \<longrightarrow> \<not> word_in r w" by blast
    have l: "length (snd start) \<le> length zs"
      using search_pos_Some [OF \<open>search_pos r (Some z) zs = _\<close>] later_length by fastforce
    have "between (b, z # zs) start = z # x" using xm(2) l by (simp add: between_def Suc_diff_le)
    moreover have "\<not> word_in r w" if "z # x = a @ y" "y \<noteq> []" "y @ m @ snd q = w @ v" for a y w v
    proof (cases a)
      case Nil
      then have "y = z # x" using that(1) by simp
      then have "z # zs = w @ v" using that(3) xm(1) by simp
      then show ?thesis using \<open>ways r (b, z # zs) = []\<close> ways_Nil_words [OF assms(1)] by blast
    next
      case (Cons a' as)
      then show ?thesis using that xm(4) by auto
    qed
    ultimately show ?thesis using xm(1,3) by (intro exI [of _ "z # x"] exI [of _ m]) auto
  next
    case (Cons h t)
    with Cons.prems have "start = (b, z # zs) \<and> (q, c) \<in> set (ways r (b, z # zs))"
      by (subst (asm) search_pos.simps) (auto split: prod.splits)
    then show ?thesis using ways_sound [of q c r "(b, z # zs)"] unfolding matches_word [OF assms(1)]
      by (auto simp: between_def)
  qed
qed

section \<open>Nothing secret survives\<close>

lemma anchor_free_seqs: "anchor_free (seqs rs) \<longleftrightarrow> list_all anchor_free rs"
  by (induction rs rule: seqs.induct) auto

lemma anchor_free_alts: "anchor_free (alts r rs) \<longleftrightarrow> anchor_free r \<and> list_all anchor_free rs"
  by (induction r rs rule: alts.induct) auto

lemma anchor_free_ilit: "anchor_free (ilit s)" "anchor_free (lit s)"
  by (simp_all add: ilit_def lit_def anchor_free_seqs list_all_iff CharR_def)

lemma anchor_free_rep: "anchor_free r \<Longrightarrow> anchor_free (rep n r)"
  by (simp add: rep_def anchor_free_seqs list_all_iff)

lemma anchor_free_secret: "anchor_free SECRET_VALUE"
  by (simp add: SECRET_VALUE_def anchor_free_alts anchor_free_seqs anchor_free_ilit anchor_free_rep at_least_def plus_def opt_def
      word_class_def one_of_def none_of_def ione_of_def space_def)

text \<open>\<open>starter\<close>: the first two letters of a secret, in lower case.\<close>

definition starter :: "char \<Rightarrow> char \<Rightarrow> bool" where
  "starter c d \<longleftrightarrow> [lower_char c, lower_char d] \<in> {''gh'', ''gi'', ''sk'', ''ap'', ''to'', ''se'', ''pa''}"

lemma lower_letters:
  "map lower_char ''gh'' = ''gh''" "map lower_char ''github_pat_'' = ''github_pat_''" "map lower_char ''sk-'' = ''sk-''"
  "map lower_char ''api'' = ''api''" "map lower_char ''token'' = ''token''" "map lower_char ''secret'' = ''secret''"
  "map lower_char ''password'' = ''password''"
  by code_simp+

lemma lower_start:
  assumes "map lower_char u = a # b # s" and "[a, b] \<in> {''gh'', ''gi'', ''sk'', ''ap'', ''to'', ''se'', ''pa''}"
  shows "\<exists>c d v. u @ rest = c # d # v \<and> starter c d"
proof -
  from assms(1) obtain c d v where "u = c # d # v" "lower_char c = a" "lower_char d = b" by (auto simp: map_eq_Cons_conv)
  then show ?thesis using assms(2) by (simp add: starter_def)
qed

definition KEYWORD :: regex where
  "KEYWORD = alts (seqs [ilit ''api'', opt (one_of ''_-''), ilit ''key'']) [ilit ''token'', ilit ''secret'', ilit ''password'']"

definition ASSIGNED :: regex where
  "ASSIGNED = seqs [KEYWORD, Star space, one_of '':='', Star space, plus (none_of [CHR 0x27, CHR 0x22])]"

definition TOKEN :: regex where
  "TOKEN = alts
     (seqs [ilit ''gh'', ione_of ''pousr'', lit ''_'', at_least 12 (word_class ''_=-'')])
    [seqs [ilit ''github_pat_'', at_least 12 (word_class ''_=-'')], seqs [ilit ''sk-'', at_least 12 (word_class ''_-'')]]"

lemma secret_value_words: "word_in SECRET_VALUE w \<longleftrightarrow> word_in TOKEN w \<or> word_in ASSIGNED w"
  unfolding SECRET_VALUE_def TOKEN_def ASSIGNED_def KEYWORD_def alts.simps word_in.simps(4) by blast

lemma ilit_start:
  assumes "word_in (seqs (ilit s # rs)) w" and "map lower_char s = a # b # t"
    and "[a, b] \<in> {''gh'', ''gi'', ''sk'', ''ap'', ''to'', ''se'', ''pa''}"
  shows "\<exists>c d v. w @ rest = c # d # v \<and> starter c d"
proof -
  from assms(1) obtain u v where w: "w = u @ v" and u: "map lower_char u = a # b # t"
    unfolding word_in_seqs_Cons word_in_ilit assms(2) by (elim exE conjE) (rule that)
  from lower_start [OF u assms(3), of "v @ rest"] show ?thesis unfolding w append_assoc .
qed

lemma token_start:
  assumes "word_in TOKEN w"
  shows "\<exists>c d v. w @ [] = c # d # v \<and> starter c d"
proof -
  note start = ilit_start [OF _ lower_letters(1), where rest = "[]"] ilit_start [OF _ lower_letters(2), where rest = "[]"]
    ilit_start [OF _ lower_letters(3), where rest = "[]"]
  from assms show ?thesis unfolding TOKEN_def alts.simps word_in.simps(4)
  proof (elim disjE)
    assume "word_in (seqs [ilit ''gh'', ione_of ''pousr'', lit ''_'', at_least 12 (word_class ''_=-'')]) w"
    then show ?thesis by (rule start(1)) simp
  next
    assume "word_in (seqs [ilit ''github_pat_'', at_least 12 (word_class ''_=-'')]) w"
    then show ?thesis by (rule start(2)) simp
  next
    assume "word_in (seqs [ilit ''sk-'', at_least 12 (word_class ''_-'')]) w"
    then show ?thesis by (rule start(3)) simp
  qed
qed

lemma keyword_start:
  assumes "word_in KEYWORD w"
  shows "\<exists>c d v. w @ rest = c # d # v \<and> starter c d"
proof -
  have one: "word_in (ilit s) w \<Longrightarrow> word_in (seqs (ilit s # [])) w" for s by simp
  show ?thesis using assms unfolding KEYWORD_def alts.simps word_in.simps(4)
    by (elim disjE) ((drule one)?, erule ilit_start, rule lower_letters, simp)+
qed

lemma assigned_word:
  "word_in ASSIGNED w \<longleftrightarrow> (\<exists>k x t. w = k @ x @ t \<and> word_in KEYWORD k \<and> word_in (seqs [Star space, one_of '':='', Star space]) x
     \<and> t \<noteq> [] \<and> list_all (\<lambda>c. \<not> is_space c \<and> c \<notin> {CHR 0x27, CHR 0x22}) t)"
proof -
  have p: "word_in (plus (none_of [CHR 0x27, CHR 0x22])) t \<longleftrightarrow>
      t \<noteq> [] \<and> list_all (\<lambda>c. \<not> is_space c \<and> c \<notin> {CHR 0x27, CHR 0x22}) t" for t
    unfolding none_of_def word_in_plus_class by simp
  have e: "ASSIGNED = seqs (KEYWORD # ([Star space, one_of '':='', Star space] @ [plus (none_of [CHR 0x27, CHR 0x22])]))"
    by (simp add: ASSIGNED_def)
  have "word_in ASSIGNED w \<longleftrightarrow> (\<exists>k v. w = k @ v \<and> word_in KEYWORD k \<and> (\<exists>x t. v = x @ t
      \<and> word_in (seqs [Star space, one_of '':='', Star space]) x \<and> word_in (plus (none_of [CHR 0x27, CHR 0x22])) t))"
    unfolding e word_in_seqs_Cons [of KEYWORD] word_in_seqs_snoc [of "[Star space, one_of '':='', Star space]"] by (rule refl)
  then show ?thesis unfolding p by blast
qed

lemma secret_start:
  assumes "word_in SECRET_VALUE w"
  shows "\<exists>c d v. w = c # d # v \<and> starter c d"
  using assms unfolding secret_value_words assigned_word
proof (elim disjE exE conjE)
  show "word_in TOKEN w \<Longrightarrow> \<exists>c d v. w = c # d # v \<and> starter c d" using token_start by simp
next
  fix k x t assume "w = k @ x @ t" "word_in KEYWORD k"
  then show "\<exists>c d v. w = c # d # v \<and> starter c d" using keyword_start [of k "x @ t"] by simp
qed

text \<open>
  A secret that contains a bracket is an assignment whose value holds the bracket: whatever other
  character takes the bracket's place, the text up to there is a secret already.
\<close>

lemma token_no_bracket: "word_in TOKEN w \<Longrightarrow> CHR ''['' \<notin> set w"
proof -
  have "\<not> char_in TOKEN (CHR ''['')" by code_simp
  then show "word_in TOKEN w \<Longrightarrow> CHR ''['' \<notin> set w" using word_chars by blast
qed

lemma secret_cut:
  assumes "word_in SECRET_VALUE (y @ CHR ''['' # v)" and "\<not> is_space c" "c \<notin> {CHR 0x27, CHR 0x22}"
  shows "word_in SECRET_VALUE (y @ [c])"
proof -
  from assms(1) token_no_bracket have "word_in ASSIGNED (y @ CHR ''['' # v)" by (fastforce simp: secret_value_words)
  then obtain k x t where w: "y @ CHR ''['' # v = k @ x @ t" "word_in KEYWORD k"
    "word_in (seqs [Star space, one_of '':='', Star space]) x" "t \<noteq> []"
    "list_all (\<lambda>c. \<not> is_space c \<and> c \<notin> {CHR 0x27, CHR 0x22}) t" unfolding assigned_word by blast
  have "\<not> char_in KEYWORD (CHR ''['')" "\<not> char_in (seqs [Star space, one_of '':='', Star space]) (CHR ''['')" by code_simp+
  then have n: "CHR ''['' \<notin> set (k @ x)" using word_chars [OF w(2)] word_chars [OF w(3)] by auto
  have "y @ CHR ''['' # v = (k @ x) @ t" using w(1) by simp
  then obtain r where "y = (k @ x) @ r \<and> r @ CHR ''['' # v = t \<or> y @ r = k @ x \<and> CHR ''['' # v = r @ t"
    unfolding append_eq_append_conv2 by blast
  moreover have "r = []" if "y @ r = k @ x" "CHR ''['' # v = r @ t"
  proof (rule ccontr)
    assume "r \<noteq> []"
    then have "CHR ''['' \<in> set r" using that(2) by (cases r) auto
    then show False using n that(1) by (metis in_set_conv_decomp_first append_assoc in_set_conv_decomp set_append UnI2)
  qed
  ultimately obtain r where "y = k @ x @ r" "r @ CHR ''['' # v = t" by (metis append_Nil append_Nil2 append_assoc)
  then have "y @ [c] = k @ x @ (r @ [c])" "list_all (\<lambda>c. \<not> is_space c \<and> c \<notin> {CHR 0x27, CHR 0x22}) (r @ [c])"
    using w(5) assms(2,3) by auto
  then have "word_in ASSIGNED (y @ [c])" unfolding assigned_word using w(2,3) by blast
  then show ?thesis by (simp add: secret_value_words)
qed

definition no_secret :: "string \<Rightarrow> bool" where
  "no_secret s \<longleftrightarrow> (\<forall>u w v. s = u @ w @ v \<longrightarrow> \<not> word_in SECRET_VALUE w)"

lemma no_secret_search: "no_secret s \<longleftrightarrow> search SECRET_VALUE s = None"
  unfolding no_secret_def search_def search_pos_None_words [OF anchor_free_secret, symmetric, of s None] by simp

definition MARK :: string where
  "MARK = ''[REDACTED]''"

lemma mark_not_starter: "k < 10 \<Longrightarrow> drop k MARK @ out = c # d # v \<Longrightarrow> \<not> starter c d"
proof -
  have pairs: "\<forall>(c, d) \<in> set (zip MARK (tl MARK)). \<not> starter c d" "\<not> starter (CHR '']'') x" for x
    by code_simp (simp add: starter_def, code_simp)
  assume k: "k < 10" and e: "drop k MARK @ out = c # d # v"
  show ?thesis
  proof (cases "k = 9")
    case True
    then have "c = CHR '']''" using e by (simp add: MARK_def)
    then show ?thesis using pairs(2) by simp
  next
    case False
    then have l: "Suc k < length MARK" using k by (simp add: MARK_def)
    then have "drop k MARK = MARK ! k # MARK ! Suc k # drop (Suc (Suc k)) MARK"
      by (simp add: Cons_nth_drop_Suc)
    then have "c = MARK ! k" "d = tl MARK ! k" using e l by (simp_all add: nth_tl)
    moreover have "(MARK ! k, tl MARK ! k) \<in> set (zip MARK (tl MARK))"
      using l by (auto simp: set_zip intro!: exI [of _ k])
    ultimately show ?thesis using pairs(1) by auto
  qed
qed

lemma starter_plain:
  assumes "starter c d"
  shows "\<not> is_space c" "c \<notin> {CHR 0x27, CHR 0x22}"
proof -
  have "\<forall>c \<in> set [CHR '' '', CHR 0x09, CHR 0x0A, CHR 0x0B, CHR 0x0C, CHR 0x0D, CHR 0x1C, CHR 0x1D, CHR 0x1E, CHR 0x1F,
      CHR 0x27, CHR 0x22]. lower_char c \<notin> set ''gsatp''" by code_simp
  moreover have "lower_char c \<in> set ''gsatp''" using assms unfolding starter_def by auto
  ultimately show "\<not> is_space c" "c \<notin> {CHR 0x27, CHR 0x22}" unfolding is_space_def by fastforce+
qed

text \<open>Replacing the leftmost secret by the mark creates none in front of what follows.\<close>

lemma no_secret_replace:
  assumes "word_in SECRET_VALUE m" and left: "\<forall>a y w v. x = a @ y \<longrightarrow> y \<noteq> [] \<longrightarrow> y @ m @ r = w @ v \<longrightarrow> \<not> word_in SECRET_VALUE w"
    and out: "no_secret out"
  shows "no_secret (x @ MARK @ out)"
  unfolding no_secret_def
proof (intro allI impI notI)
  fix u w v assume e: "x @ MARK @ out = u @ w @ v" and w: "word_in SECRET_VALUE w"
  from secret_start [OF w] obtain c d w' where cd: "w = c # d # w'" "starter c d" by blast
  have len: "length MARK = 10" by (simp add: MARK_def)
  consider (front) y where "x = u @ y" "y \<noteq> []" | (mark) "length x \<le> length u" "length u < length x + 10"
    | (rest) "length x + 10 \<le> length u"
  proof (cases "length x \<le> length u")
    case False
    from e obtain y where "x = u @ y \<and> y @ MARK @ out = w @ v \<or> x @ y = u \<and> MARK @ out = y @ w @ v"
      unfolding append_eq_append_conv2 by blast
    then have "x = u @ y" using False by auto
    then show ?thesis using False front by auto
  qed (use mark rest in linarith)
  then show False
  proof cases
    case front
    then have e': "y @ MARK @ out = w @ v" using e by simp
    then obtain z where "y = w @ z \<and> z @ MARK @ out = v \<or> y @ z = w \<and> MARK @ out = z @ v"
      unfolding append_eq_append_conv2 by blast
    then show False
    proof (elim disjE conjE)
      assume "y = w @ z"
      then have "y @ m @ r = w @ (z @ m @ r)" by simp
      then show False using left front w by blast
    next
      assume z: "y @ z = w" "MARK @ out = z @ v"
      show False
      proof (cases z)
        case Nil
        then have "y @ m @ r = w @ (m @ r)" using z by simp
        then show False using left front w by blast
      next
        case (Cons b z')
        then have "b = CHR ''[''" using z(2) by (simp add: MARK_def)
        then have b: "w = y @ CHR ''['' # z'" using z(1) Cons by simp
        from secret_start [OF assms(1)] obtain c' d' m' where m: "m = c' # d' # m'" "starter c' d'" by blast
        have "word_in SECRET_VALUE (y @ [c'])" using secret_cut w b starter_plain [OF m(2)] by blast
        moreover have "y @ m @ r = (y @ [c']) @ (d' # m' @ r)" using m by simp
        ultimately show False using left front by blast
      qed
    qed
  next
    case mark
    have "drop (length u) (x @ MARK @ out) = w @ v" using e by simp
    then have "drop (length u - length x) MARK @ out = c # d # (w' @ v)" using mark cd len by simp
    moreover have "length u - length x < 10" using mark by simp
    ultimately show False using mark_not_starter cd(2) by blast
  next
    case rest
    have "drop (length u) (x @ MARK @ out) = w @ v" using e by simp
    then have "drop (length u - length x - 10) out = w @ v" using rest len by simp
    then have "out = take (length u - length x - 10) out @ w @ v" by (metis append_take_drop_id)
    then show False using out w unfolding no_secret_def by blast
  qed
qed

lemma resub_no_secret: "no_secret (resub SECRET_VALUE MARK p)"
proof (induction "SECRET_VALUE" MARK p rule: resub.induct)
  case (1 p)
  show ?case
  proof (cases "search_pos SECRET_VALUE (fst p) (snd p)")
    case None
    then have "no_secret (snd p)" unfolding no_secret_def search_pos_None_words [OF anchor_free_secret] .
    then show ?thesis using None by (subst resub.simps) simp
  next
    case (Some found)
    obtain start q c where f: "found = (start, q, c)" by (cases found)
    note s = Some [unfolded f]
    from search_pos_leftmost [OF anchor_free_secret s] obtain x m where
      x: "snd p = x @ m @ snd q" "between p start = x" "word_in SECRET_VALUE m"
      "\<forall>a y w v. x = a @ y \<longrightarrow> y \<noteq> [] \<longrightarrow> y @ m @ snd q = w @ v \<longrightarrow> \<not> word_in SECRET_VALUE w" by auto
    have m: "m \<noteq> []" using secret_start [OF x(3)] by auto
    then have ne: "snd p \<noteq> []" using x(1) by auto
    have l: "snd p = x @ snd start" using search_pos_Some [OF s] later_text [of p start] x(2) by auto
    then have q: "q \<noteq> start" using x(1) m by auto
    then have "resume start q = q" by (simp add: resume_def)
    moreover have "between q q = []" by (simp add: between_def)
    ultimately have "resub SECRET_VALUE MARK p = x @ MARK @ resub SECRET_VALUE MARK q"
      using s ne x(2) by (subst resub.simps) simp
    moreover have "no_secret (resub SECRET_VALUE MARK q)" using "1" [OF s refl refl ne] \<open>resume start q = q\<close> by simp
    ultimately show ?thesis using no_secret_replace [OF x(3,4)] by simp
  qed
qed

lemma sanitize_text_no_secret: "no_secret (sanitize_text s)"
  unfolding sanitize_text_def sub_def MARK_def [symmetric] by (rule resub_no_secret)

lemma sanitize_text_clean: "no_secret s \<Longrightarrow> sanitize_text s = s"
  unfolding sanitize_text_def sub_def no_secret_search search_def by (subst resub.simps) simp

fun secret_free :: "json \<Rightarrow> bool" where
  "secret_free (JStr s) = (search SECRET_VALUE s = None)"
| "secret_free (JObj ps) = list_all (\<lambda>(k, v). secret_free v) ps"
| "secret_free (JArr vs) = list_all secret_free vs"
| "secret_free v = True"

lemma clean_value_secret_free: "secret_free (clean_value v)"
proof (induction v rule: clean_value.induct)
  case (1 s)
  then show ?case using sanitize_text_no_secret by (simp add: no_secret_search)
qed (auto simp: list_all_iff)

lemma clean_value_secret_free_id: "secret_free v \<Longrightarrow> clean_value v = v"
proof (induction v rule: clean_value.induct)
  case (1 s)
  then show ?case using sanitize_text_clean by (simp add: no_secret_search)
next
  case (2 ps)
  then show ?case by (auto simp: list_all_iff intro!: map_idI)
next
  case (3 vs)
  then show ?case by (auto simp: list_all_iff intro!: map_idI)
qed auto

lemma clean_value_idem: "clean_value (clean_value v) = clean_value v"
  by (rule clean_value_secret_free_id [OF clean_value_secret_free])

section \<open>Claims\<close>

definition winner :: "int \<Rightarrow> string \<Rightarrow> claim \<times> bool \<Rightarrow> bool" where
  "winner now t x \<longleftrightarrow> \<not> snd x \<and> active_for (fst x) now \<and> claim_task (fst x) = t"

lemma winning_claims_snoc:
  "winning_claims now (cs @ [(c, r)]) =
     (if r \<or> \<not> active_for c now \<or> map_of (winning_claims now cs) (claim_task c) \<noteq> None then winning_claims now cs
      else winning_claims now cs @ [(claim_task c, c)])"
  by (simp add: winning_claims_def)

lemma winning_claims_find:
  "map_of (winning_claims now cs) t = map_option fst (List.find (winner now t) cs)"
proof (induction cs rule: rev_induct)
  case Nil
  then show ?case by (simp add: winning_claims_def)
next
  case (snoc x cs)
  obtain c r where x: "x = (c, r)" by (cases x)
  have f: "List.find P (cs @ [x]) = (case List.find P cs of Some y \<Rightarrow> Some y | None \<Rightarrow> if P x then Some x else None)" for P
    by (induction cs) auto
  show ?case
  proof (cases "claim_task c = t")
    case True
    then have "winner now t (c, r) \<longleftrightarrow> \<not> r \<and> active_for c now" by (simp add: winner_def x)
    then show ?thesis using True snoc.IH unfolding x winning_claims_snoc f [unfolded x]
      by (cases "List.find (winner now t) cs") (auto simp: map_add_def)
  next
    case False
    then have "\<not> winner now t (c, r)" by (simp add: winner_def x)
    then show ?thesis using False snoc.IH unfolding x winning_claims_snoc f [unfolded x]
      by (cases "List.find (winner now t) cs") (auto simp: map_add_def)
  qed
qed

lemma winning_claims_keep:
  "map_of (winning_claims now cs) t = Some c \<Longrightarrow> map_of (winning_claims now (cs @ ds)) t = Some c"
  unfolding winning_claims_find by (induction cs) auto

lemma winning_claims_active:
  "map_of (winning_claims now cs) t = Some c \<Longrightarrow> active_for c now \<and> claim_task c = t \<and> (c, False) \<in> set cs"
proof -
  assume "map_of (winning_claims now cs) t = Some c"
  then obtain r where f: "List.find (winner now t) cs = Some (c, r)" unfolding winning_claims_find by auto
  then have "winner now t (c, r)" "(c, r) \<in> set cs" unfolding find_Some_iff by (metis nth_mem)+
  then show "active_for c now \<and> claim_task c = t \<and> (c, False) \<in> set cs" by (auto simp: winner_def)
qed

lemma add_claim_extends: "add_claim cs body = Inr cs' \<Longrightarrow> \<exists>ds. cs' = cs @ ds"
  by (auto simp: add_claim_def split: option.splits sum.splits if_split_asm)

lemma read_comment_extends:
  assumes "read_comment cs comment = Inr cs'" and "comment_body comment = Inr body"
    and "findall RELEASE_LINE body = []" "findall RENEW_LINE body = []"
  shows "\<exists>ds. cs' = cs @ ds"
  using assms add_claim_extends by (auto simp: read_comment_def)

section \<open>Pages\<close>

lemma read_pages_complete:
  assumes "read_pages fetch n page acc = Inr cs"
  shows "\<exists>batches. batches \<noteq> [] \<and> length batches \<le> n \<and> (\<forall>i < length batches. fetch (page + i) = Inr (JArr (batches ! i)))
    \<and> (\<forall>b \<in> set (butlast batches). 100 \<le> length b) \<and> length (last batches) < 100 \<and> cs = acc @ concat batches"
  using assms
proof (induction fetch n page acc rule: read_pages.induct)
  case (1 fetch page acc)
  then show ?case by simp
next
  case (2 fetch n page acc)
  then obtain v where "fetch page = Inr v" by auto
  with "2.prems" obtain b where b: "fetch page = Inr (JArr b)" by (cases v) auto
  show ?case
  proof (cases "length b < 100")
    case True
    then show ?thesis using "2.prems" b by (intro exI [of _ "[b]"]) simp
  next
    case False
    then have "read_pages fetch n (Suc page) (acc @ b) = Inr cs" using "2.prems" b by simp
    from "2.IH" [OF b refl False this] obtain batches where bs: "batches \<noteq> []" "length batches \<le> n"
      "\<forall>i < length batches. fetch (Suc page + i) = Inr (JArr (batches ! i))"
      "\<forall>b \<in> set (butlast batches). 100 \<le> length b" "length (last batches) < 100" "cs = (acc @ b) @ concat batches" by blast
    have "\<forall>i < length (b # batches). fetch (page + i) = Inr (JArr ((b # batches) ! i))"
      using bs(3) b by (auto simp: less_Suc_eq_0_disj)
    then show ?thesis using bs False by (intro exI [of _ "b # batches"]) auto
  qed
qed

section \<open>Receipts\<close>

lemma status_clean: "s \<in> set TERMINAL_STATUSES \<Longrightarrow> sanitize_text s = s"
proof -
  have "\<forall>s \<in> set TERMINAL_STATUSES. search SECRET_VALUE s = None" by code_simp
  then show "s \<in> set TERMINAL_STATUSES \<Longrightarrow> ?thesis" using sanitize_text_clean by (simp add: no_secret_search)
qed

lemma demand_Inr [simp]: "demand r code = Inr u \<longleftrightarrow> r = Inr True"
  by (auto simp: demand_def work_error_def split: if_split_asm)

lemma sanitize_receipt_D:
  assumes "sanitize_receipt receipt = Inr out"
  shows "in_names (dget receipt ''terminal_status'') TERMINAL_STATUSES = Inr True"
    and "out = map (\<lambda>(k, v). (k, clean_value v)) receipt"
  using assms by (auto simp: sanitize_receipt_def simp del: in_names_True)

lemma map_of_clean: "map_of (map (\<lambda>(k, v). (k, clean_value v)) r) k = map_option clean_value (map_of r k)"
  by (induction r) auto

lemma sanitize_receipt_idem:
  assumes "sanitize_receipt receipt = Inr out"
  shows "sanitize_receipt out = Inr out"
proof -
  note d = sanitize_receipt_D [OF assms]
  from d(1) obtain s where s: "dget receipt ''terminal_status'' = JStr s" "s \<in> set TERMINAL_STATUSES" by auto
  then have "map_of receipt ''terminal_status'' = Some (JStr s)" by (auto simp: dget_def split: option.splits)
  then have "dget out ''terminal_status'' = JStr s" using status_clean [OF s(2)] by (simp add: d(2) dget_def map_of_clean)
  moreover have "map (\<lambda>(k, v). (k, clean_value v)) out = out"
    unfolding d(2) by (simp add: case_prod_unfold clean_value_idem)
  ultimately show ?thesis using s(2) by (simp add: sanitize_receipt_def demand_def)
qed

section \<open>What a machine is asked to do\<close>

text \<open>
  \<open>emits log P s m\<close>: the computation \<open>m\<close>, started in \<open>s\<close>, only adds entries that satisfy \<open>P\<close> to
  the log of the state. The rules follow the program text.
\<close>

definition emits :: "('s \<Rightarrow> 'c list) \<Rightarrow> ('c \<Rightarrow> bool) \<Rightarrow> 's \<Rightarrow> 's \<times> 'a \<Rightarrow> bool" where
  "emits log P s m \<longleftrightarrow> (\<exists>new. log (fst m) = log s @ new \<and> list_all P new)"

named_theorems emits_intros

lemma emits_keep [emits_intros]: "log t = log s \<Longrightarrow> emits log P s (t, r)"
  by (simp add: emits_def)

lemma emits_pure [emits_intros]: "emits log P s (pure_res s r)"
  by (simp add: emits_def)

lemma emits_trans: "emits log P s (t, x) \<Longrightarrow> emits log P t m \<Longrightarrow> emits log P s m"
  by (fastforce simp: emits_def)

lemma emits_sbind [emits_intros]:
  assumes "emits log P s m" and "\<And>t x. m = (t, Inr x) \<Longrightarrow> emits log P t (f t x)"
  shows "emits log P s (sbind m f)"
proof (cases m)
  case (Pair t r)
  show ?thesis
  proof (cases r)
    case (Inl e)
    then show ?thesis using assms(1) Pair by (simp add: emits_def)
  next
    case (Inr x)
    have "emits log P s (t, x)" using assms(1) Pair by (simp add: emits_def)
    then show ?thesis using emits_trans assms(2) [of t x] Pair Inr by fastforce
  qed
qed

lemma emits_if [emits_intros]: "(b \<Longrightarrow> emits log P s m) \<Longrightarrow> (\<not> b \<Longrightarrow> emits log P s n) \<Longrightarrow> emits log P s (if b then m else n)"
  by simp

lemma emits_mono: "emits log P s m \<Longrightarrow> (\<And>c. P c \<Longrightarrow> Q c) \<Longrightarrow> emits log Q s m"
  by (auto simp: emits_def list_all_iff)

lemma emits_all: "emits log P s m \<Longrightarrow> log s = [] \<Longrightarrow> list_all P (log (fst m))"
  by (auto simp: emits_def)

text \<open>\<open>logged h\<close> is the machine \<open>h\<close> with the list of the commands it was given.\<close>

definition logged :: "'w host \<Rightarrow> ('w \<times> command list) host" where
  "logged h =
     \<lparr> host_clock = (\<lambda>(w, l). case host_clock h w of (w', t) \<Rightarrow> ((w', l), t)),
       host_run = (\<lambda>(w, l) c. case host_run h w c of (w', out) \<Rightarrow> ((w', l @ [c]), out)),
       host_exists = (\<lambda>(w, l) p. host_exists h w p),
       host_mkdir = (\<lambda>(w, l) p. case host_mkdir h w p of (w', r) \<Rightarrow> ((w', l), r)),
       host_rmtree = (\<lambda>(w, l) p. case host_rmtree h w p of (w', r) \<Rightarrow> ((w', l), r)),
       host_environ = (\<lambda>(w, l). host_environ h w),
       host_seconds = host_seconds h,
       host_local_offset = host_local_offset h \<rparr>"

definition parent_git :: "string \<Rightarrow> command \<Rightarrow> bool" where
  "parent_git repo c \<longleftrightarrow> (\<exists>args. c = plain (''git'' # ''-C'' # repo # args))"

definition remove_command :: "string \<Rightarrow> string \<Rightarrow> command" where
  "remove_command repo dir = plain [''git'', ''-C'', repo, ''worktree'', ''remove'', ''--force'', dir]"

text \<open>
  A machine that keeps a log: every command adds one entry, made of the command and its outcome, and
  nothing else touches the log. What the operations emit is proved once, for every such machine.
\<close>

locale recorded_host =
  fixes h :: "'s host" and log :: "'s \<Rightarrow> 'c list" and ran :: "command \<Rightarrow> outcome \<Rightarrow> 'c"
  assumes log_run: "host_run h s c = (t, out) \<Longrightarrow> log t = log s @ [ran c out]"
    and log_clock: "host_clock h s = (t, now) \<Longrightarrow> log t = log s"
    and log_mkdir: "host_mkdir h s p = (t, r) \<Longrightarrow> log t = log s"
    and log_rmtree: "host_rmtree h s p = (t, r) \<Longrightarrow> log t = log s"
begin

lemma emits_mkdir: "emits log P s (host_mkdir h s p)"
  by (cases "host_mkdir h s p") (simp add: emits_def log_mkdir)

lemma log_rmtree_state: "log (fst (host_rmtree h s p)) = log s"
  by (cases "host_rmtree h s p") (simp add: log_rmtree)

lemma run_plain_log: "\<exists>out. log (fst (run_plain h s argv)) = log s @ [ran (plain argv) out]"
  by (cases "host_run h s (plain argv)") (auto simp: run_plain_def dest: log_run split: outcome.split)

lemma emits_run_plain: "(\<And>out. P (ran (plain argv) out)) \<Longrightarrow> emits log P s (run_plain h s argv)"
  using run_plain_log [of s argv] by (auto simp: emits_def)

lemma isolated_worktree_emits:
  assumes "\<And>args out. P (ran (plain (''git'' # ''-C'' # repo # args)) out)"
  shows "emits log P s (isolated_worktree h s repo order base)"
  unfolding isolated_worktree_def
  by (auto intro!: emits_intros emits_mkdir emits_run_plain assms simp: pure_res_def split: prod.split)

lemma destroy_worktree_log:
  "\<exists>out. log (fst (destroy_worktree h s repo dir)) = log s @ [ran (remove_command repo dir) out]"
proof -
  obtain t r where m: "run_plain h s [''git'', ''-C'', repo, ''worktree'', ''remove'', ''--force'', dir] = (t, r)" by fastforce
  obtain out where "log t = log s @ [ran (remove_command repo dir) out]"
    using run_plain_log [of s "[''git'', ''-C'', repo, ''worktree'', ''remove'', ''--force'', dir]"]
    unfolding m remove_command_def by auto
  then show ?thesis unfolding destroy_worktree_def m by (cases r) (auto simp: log_rmtree_state)
qed

lemma launch_log:
  assumes "launch h s argv dir order environment input remaining = (t, r)"
  shows "(remaining \<le> 0 \<and> t = s) \<or> (0 < remaining \<and> (\<exists>out. log t = log s @ [ran \<lparr> cmd_argv = argv, cmd_cwd = Some dir,
       cmd_env = Some environment, cmd_stdin = input, cmd_timeout = Some remaining \<rparr> out] \<and> pure_res t
         (rbind (attempt_detail h remaining out) (\<lambda>(status, detail). attempt_receipt order status detail)) = (t, r)))"
proof (cases "remaining \<le> 0")
  case True
  then show ?thesis using assms by (simp add: launch_def)
next
  case False
  obtain t' out where m: "host_run h s \<lparr> cmd_argv = argv, cmd_cwd = Some dir, cmd_env = Some environment,
      cmd_stdin = input, cmd_timeout = Some remaining \<rparr> = (t', out)" by fastforce
  then show ?thesis using False assms log_run [OF m] by (auto simp: launch_def pure_res_def)
qed

end

interpretation logged: recorded_host "logged h" snd "\<lambda>c out. c" for h
  by unfold_locales (auto simp: logged_def split: prod.splits)

lemma parent_git_plain [simp]: "parent_git repo (plain (''git'' # ''-C'' # repo # args))"
  by (auto simp: parent_git_def)

lemma and_finally_state: "fst (and_finally (t, r) cleanup) = fst (cleanup t)"
  by (auto simp: and_finally_def split: prod.splits sum.splits)

definition launched :: "string list \<Rightarrow> string \<Rightarrow> env \<Rightarrow> string option \<Rightarrow> int \<Rightarrow> command \<Rightarrow> bool" where
  "launched argv dir environment input remaining c \<longleftrightarrow>
     c = \<lparr> cmd_argv = argv, cmd_cwd = Some dir, cmd_env = Some environment, cmd_stdin = input, cmd_timeout = Some remaining \<rparr>
   \<and> 0 < remaining"

text \<open>A command of an attempt: confined to the worktree, the given environment and the time that is left.\<close>

definition attempt_command :: "'w host \<Rightarrow> string list \<Rightarrow> (env \<Rightarrow> bool) \<Rightarrow> int \<Rightarrow> string \<Rightarrow> command \<Rightarrow> bool" where
  "attempt_command h argv ok deadline dir c \<longleftrightarrow>
     (\<exists>e w. ok e \<and> launched argv dir e None (deadline - snd (host_clock h w)) c)"

lemma run_attempt_emits:
  assumes "rbind (str_entry order ''deadline'') parse_deadline = Inr deadline" and "ok e"
  shows "emits snd (attempt_command h argv ok deadline dir) s (run_attempt (logged h) s argv dir order e)"
proof -
  obtain t now where c: "host_clock (logged h) s = (t, now)" by fastforce
  then have now: "now = snd (host_clock h (fst s))" by (auto simp: logged_def split: prod.splits)
  obtain u x where m: "launch (logged h) t argv dir order e None (deadline - now) = (u, x)" by fastforce
  have "emits snd (attempt_command h argv ok deadline dir) s (u, x)"
    using logged.launch_log [OF m] logged.log_clock [OF c] assms(2) now
    by (auto simp: emits_def attempt_command_def launched_def)
  then show ?thesis by (simp add: run_attempt_def assms(1) c m)
qed

lemma authorized_D:
  assumes "authorize_work_order schema order ledger policy now = Inr lane"
  shows "schema (JObj order) = []" "available ledger"
    and "\<exists>task c. map_of order ''task_id'' = Some (JStr task) \<and> task \<in> set (task_allowlist policy)
       \<and> map_of (claims ledger) task = Some c \<and> active_for c now \<and> claim_agent c = local_agent policy"
    and "\<exists>repo. map_of order ''repo'' = Some (JStr repo) \<and> repo \<in> set (repo_allowlist policy)"
    and "\<exists>role. map_of order ''role'' = Some (JStr role) \<and> role \<in> set (allowed_roles policy)"
    and "\<exists>deadline. rbind (str_entry order ''deadline'') parse_deadline = Inr deadline \<and> now < deadline"
    and "\<exists>a. map_of order ''attempt_id'' = Some a \<and> a \<notin> JStr ` set (cancelled_ids ledger) \<and> a \<notin> JStr ` set (terminal_ids ledger)"
    and "lane_for order = Inr lane"
    and "lane = Privileged \<Longrightarrow> \<exists>ref sha. map_of order ''starting_ref'' = Some ref \<and> py_eq (dget order ''reviewed_sha'') ref
       \<and> dget order ''trusted_dispatch_ref'' = JStr sha \<and> sha \<in> set (trusted_refs policy)"
proof -
  note a = assms [unfolded authorize_work_order_def rbind_Inr_iff demand_Inr]
  from a show "schema (JObj order) = []" "available ledger" by simp_all
  from a show "\<exists>repo. map_of order ''repo'' = Some (JStr repo) \<and> repo \<in> set (repo_allowlist policy)"
    by (auto simp: field_in_def)
  from a show "\<exists>role. map_of order ''role'' = Some (JStr role) \<and> role \<in> set (allowed_roles policy)"
    by (auto simp: field_in_def)
  from a show "\<exists>deadline. rbind (str_entry order ''deadline'') parse_deadline = Inr deadline \<and> now < deadline" by auto
  from a have "has_claim order ledger (local_agent policy) now = Inr True"
    "field_in order ''task_id'' (task_allowlist policy) = Inr True" by auto
  then show "\<exists>task c. map_of order ''task_id'' = Some (JStr task) \<and> task \<in> set (task_allowlist policy)
       \<and> map_of (claims ledger) task = Some c \<and> active_for c now \<and> claim_agent c = local_agent policy"
    by (auto simp: has_claim_def field_in_def str_entry_def split: option.splits)
  from a have "field_not_in order ''attempt_id'' (cancelled_ids ledger) = Inr True"
    "field_not_in order ''attempt_id'' (terminal_ids ledger) = Inr True" by auto
  then show "\<exists>a. map_of order ''attempt_id'' = Some a \<and> a \<notin> JStr ` set (cancelled_ids ledger) \<and> a \<notin> JStr ` set (terminal_ids ledger)"
    by (auto simp: field_not_in_def field_in_def)
  from a obtain l where l: "lane_for order = Inr l" "(case l of
       Secretless \<Rightarrow> Inr Secretless
     | Privileged \<Rightarrow>
         rbind (demand (rbind (dindex order ''starting_ref'') (\<lambda>s. Inr (py_eq (dget order ''reviewed_sha'') s)))
           ''EXACT_SHA_REQUIRED'') (\<lambda>_.
         rbind (demand (in_names (dget order ''trusted_dispatch_ref'') (trusted_refs policy)) ''UNTRUSTED_DISPATCH'') (\<lambda>_.
           Inr Privileged))) = Inr lane" by blast
  then have e: "l = lane" by (cases l) auto
  from l e show "lane_for order = Inr lane" by simp
  show "lane = Privileged \<Longrightarrow> \<exists>ref sha. map_of order ''starting_ref'' = Some ref \<and> py_eq (dget order ''reviewed_sha'') ref
       \<and> dget order ''trusted_dispatch_ref'' = JStr sha \<and> sha \<in> set (trusted_refs policy)" using l(2) e by auto
qed

text \<open>
  The shape of a dispatched attempt: nothing happens without authorization; otherwise the worktree is
  prepared with Git alone, the attempt runs in it, and its removal is the last command.
\<close>

lemma dispatch_attempt_log:
  assumes d: "dispatch_attempt schema (logged h) (w, []) lane order ledger policy repo base argv environment = ((w', cmds), r)"
    and env: "\<And>s t x. environment s = (t, x) \<Longrightarrow> snd t = snd s \<and> (\<forall>e. x = Inr e \<longrightarrow> ok e)"
    and cmds: "cmds \<noteq> []"
  shows "authorize_work_order schema order ledger policy (snd (host_clock h w)) = Inr lane"
    and "\<exists>deadline dir setup run cleanup. rbind (str_entry order ''deadline'') parse_deadline = Inr deadline
       \<and> cmds = setup @ run @ cleanup \<and> list_all (parent_git repo) setup
       \<and> list_all (attempt_command h argv ok deadline dir) run \<and> cleanup \<in> {[], [remove_command repo dir]} \<and> (cleanup = [] \<longrightarrow> run = [])"
proof -
  obtain t now where c: "host_clock (logged h) (w, []) = (t, now)" by fastforce
  then have now: "now = snd (host_clock h w)" "snd t = []" by (auto simp: logged_def split: prod.splits)
  note d' = d [unfolded dispatch_attempt_def c prod.case]
  show auth: "authorize_work_order schema order ledger policy (snd (host_clock h w)) = Inr lane"
  proof (cases "authorize_work_order schema order ledger policy now")
    case (Inl e)
    then show ?thesis using d' cmds now by (auto simp: pure_res_def)
  next
    case (Inr l)
    then show ?thesis using d' cmds now by (cases "l = lane") (auto simp: pure_res_def)
  qed
  from authorized_D(6) [OF auth] obtain deadline where dl: "rbind (str_entry order ''deadline'') parse_deadline = Inr deadline" by blast
  obtain t1 r1 where m: "isolated_worktree (logged h) t repo order base = (t1, r1)" by fastforce
  have s: "list_all (parent_git repo) (snd t1)"
    using logged.isolated_worktree_emits [where P = "parent_git repo" and repo = repo and h = h and s = t and order = order and base = base] now(2) by (simp add: m emits_def)
  show "\<exists>deadline dir setup run cleanup. rbind (str_entry order ''deadline'') parse_deadline = Inr deadline
       \<and> cmds = setup @ run @ cleanup \<and> list_all (parent_git repo) setup
       \<and> list_all (attempt_command h argv ok deadline dir) run \<and> cleanup \<in> {[], [remove_command repo dir]} \<and> (cleanup = [] \<longrightarrow> run = [])"
  proof (cases r1)
    case (Inl e)
    then have "snd t1 = cmds" using d' auth now m by (auto simp: pure_res_def)
    then show ?thesis using s dl by (intro exI [of _ deadline] exI [of _ "[]"] exI [of _ cmds]) auto
  next
    case (Inr dir)
    define body where "body = sbind (environment t1) (\<lambda>w e. run_attempt (logged h) w argv dir order e)"
    obtain t2 r2 where b: "body = (t2, r2)" by fastforce
    have "emits snd (attempt_command h argv ok deadline dir) t1 body"
      unfolding body_def
    proof (rule emits_sbind)
      obtain t' x where e: "environment t1 = (t', x)" by fastforce
      show "emits snd (attempt_command h argv ok deadline dir) t1 (environment t1)"
        unfolding e using env [OF e] by (intro emits_keep) simp
      show "emits snd (attempt_command h argv ok deadline dir) u (run_attempt (logged h) u argv dir order y)"
        if "environment t1 = (u, Inr y)" for u y using env [OF that] by (intro run_attempt_emits [OF dl]) simp
    qed
    then obtain run where run: "snd t2 = snd t1 @ run" "list_all (attempt_command h argv ok deadline dir) run"
      by (auto simp: emits_def b)
    have "(w', cmds) = fst (and_finally body (\<lambda>w. destroy_worktree (logged h) w repo dir))"
      using d' auth now m Inr by (simp add: pure_res_def body_def)
    then have "cmds = snd t2 @ [remove_command repo dir]"
      unfolding b and_finally_state using logged.destroy_worktree_log [where h = h and s = t2 and repo = repo and dir = dir]
      by (auto simp: prod_eq_iff)
    then show ?thesis using s run dl
      by (intro exI [of _ deadline] exI [of _ dir] exI [of _ "snd t1"] exI [of _ run] exI [of _ "[remove_command repo dir]"]) simp
  qed
qed

section \<open>Properties\<close>


definition demo_receipt :: dict where
  "demo_receipt = [(''terminal_status'', JStr ''PASS''), (''detail'', JArr [JStr ''x token: abc y''])]"

lemma demo_receipt_ok: "sanitize_receipt demo_receipt
  = Inr [(''terminal_status'', JStr ''PASS''), (''detail'', JArr [JStr ''x [REDACTED] y''])]"
  by code_simp


text \<open>C22. Claims are first come, first served: the claim that the ledger gives for a task is the
  earliest one in the comments that is neither released nor expired, it is active at the time of
  reading, and a further comment that neither releases nor renews a claim takes no task away from
  its holder.\<close>

theorem claims_cannot_be_stolen:
  assumes "rfold read_comment [] comments = Inr cs" and "read_comment cs comment = Inr cs'"
    and "comment_body comment = Inr body" "findall RELEASE_LINE body = []" "findall RENEW_LINE body = []"
  shows "\<exists>ledger ledger'. parse_claim_ledger comments now = Inr ledger
    \<and> parse_claim_ledger (comments @ [comment]) now = Inr ledger'
    \<and> (\<forall>t. map_of (claims ledger) t = map_option fst (List.find (winner now t) cs))
    \<and> (\<forall>t c. map_of (claims ledger) t = Some c \<longrightarrow> active_for c now \<and> map_of (claims ledger') t = Some c)"
proof -
  obtain ds where ds: "cs' = cs @ ds" using read_comment_extends [OF assms(2-5)] by blast
  have l: "parse_claim_ledger comments now = Inr (claim_ledger (winning_claims now cs))"
    using assms(1) by (simp add: parse_claim_ledger_def)
  have "rfold read_comment [] (comments @ [comment]) = Inr cs'" using assms(1,2) by (simp add: rfold_append)
  then have "parse_claim_ledger (comments @ [comment]) now = Inr (claim_ledger (winning_claims now cs'))"
    by (simp add: parse_claim_ledger_def)
  moreover have "active_for c now \<and> map_of (winning_claims now cs') t = Some c"
    if "map_of (winning_claims now cs) t = Some c" for t c
    using winning_claims_active [OF that] winning_claims_keep [OF that] unfolding ds by blast
  ultimately show ?thesis using l winning_claims_find [of now cs]
    by (intro exI [of _ "claim_ledger (winning_claims now cs)"] exI [of _ "claim_ledger (winning_claims now cs')"])
      (simp add: claim_ledger_def)
qed

definition demo_comment :: "string \<Rightarrow> string \<Rightarrow> json" where
  "demo_comment agent lease = JObj [(''body'', JStr (''CLAIM task=T1'' @ [CHR 0x0A] @ ''agent='' @ agent @ [CHR 0x0A]
     @ ''lease_until='' @ lease))]"

lemma demo_claims:
  "is_ok (rbind (rfold read_comment [] [demo_comment ''a'' ''2026-01-02T00:00:00Z'']) (\<lambda>cs.
     read_comment cs (demo_comment ''b'' ''2026-01-03T00:00:00Z'')))"
  by code_simp

lemma demo_no_release:
  "comment_body (demo_comment ''b'' ''2026-01-03T00:00:00Z'') = Inr (''CLAIM task=T1'' @ [CHR 0x0A] @ ''agent=b'' @ [CHR 0x0A]
     @ ''lease_until=2026-01-03T00:00:00Z'')"
  "findall RELEASE_LINE (''CLAIM task=T1'' @ [CHR 0x0A] @ ''agent=b'' @ [CHR 0x0A] @ ''lease_until=2026-01-03T00:00:00Z'') = []"
  "findall RENEW_LINE (''CLAIM task=T1'' @ [CHR 0x0A] @ ''agent=b'' @ [CHR 0x0A] @ ''lease_until=2026-01-03T00:00:00Z'') = []"
  by code_simp+

theorem claims_cannot_be_stolen_witness:
  "\<exists>ledger ledger'. parse_claim_ledger [demo_comment ''a'' ''2026-01-02T00:00:00Z''] 0 = Inr ledger
    \<and> parse_claim_ledger [demo_comment ''a'' ''2026-01-02T00:00:00Z'', demo_comment ''b'' ''2026-01-03T00:00:00Z''] 0 = Inr ledger'
    \<and> (\<forall>c \<in> {c. map_of (claims ledger) ''T1'' = Some c}. map_of (claims ledger') ''T1'' = Some c)"
proof -
  from demo_claims obtain cs cs' where
    "rfold read_comment [] [demo_comment ''a'' ''2026-01-02T00:00:00Z''] = Inr cs"
    "read_comment cs (demo_comment ''b'' ''2026-01-03T00:00:00Z'') = Inr cs'" unfolding is_ok_iff by auto
  from claims_cannot_be_stolen [OF this demo_no_release, of 0] show ?thesis by auto
qed

text \<open>
  A lease whose moment in UTC lies before the year 1 is not ignored like other invalid claims: the
  conversion raises \<open>OverflowError\<close>, which the ledger does not catch.
\<close>

lemma lease_overflow_raises:
  "parse_claim_ledger [demo_comment ''a'' ''0001-01-01T00:00:00+01:00''] 0 = Inl (Exn OverflowError ''date value out of range'')"
  "parse_claim_ledger [demo_comment ''a'' ''not a time''] 0 = Inr (claim_ledger [])"
  by code_simp+

text \<open>C23. A ledger is available only after a complete read: it was computed from at most 100 pages,
  fetched in order from the first, of which all but the last held 100 comments or more and the
  last held fewer; a failed, malformed or endless read leaves the ledger unavailable and without
  claims, so that nothing is authorized from it.\<close>

theorem available_ledger_is_complete:
  "let ledger = read_github_claim_ledger fetch now in
   if available ledger
   then \<exists>batches. length batches \<in> {1..100} \<and> list_all (\<lambda>i. fetch (Suc i) = Inr (JArr (batches ! i))) [0..<length batches]
     \<and> list_all (\<lambda>b. 100 \<le> length b) (butlast batches) \<and> length (last batches) < 100
     \<and> parse_claim_ledger (concat batches) now = Inr ledger
   else claims ledger = [] \<and> \<not> is_ok (authorize_work_order schema order ledger policy now)"
proof (cases "rbind (read_pages fetch 100 1 []) (\<lambda>comments. parse_claim_ledger comments now)")
  case (Inl e)
  then have l: "read_github_claim_ledger fetch now = (claim_ledger [])\<lparr>available := False\<rparr>"
    by (simp add: read_github_claim_ledger_def)
  have "\<not> is_ok (authorize_work_order schema order ((claim_ledger [])\<lparr>available := False\<rparr>) policy now)"
    using authorized_D(2) by (fastforce simp: is_ok_iff)
  then show ?thesis unfolding l by (simp add: claim_ledger_def Let_def)
next
  case (Inr ledger)
  then obtain cs where cs: "read_pages fetch 100 1 [] = Inr cs" "parse_claim_ledger cs now = Inr ledger" by auto
  have l: "read_github_claim_ledger fetch now = ledger" unfolding read_github_claim_ledger_def Inr by simp
  have "available ledger" using cs(2) by (auto simp: parse_claim_ledger_def claim_ledger_def)
  moreover from read_pages_complete [OF cs(1)] obtain batches where b: "batches \<noteq> []" "length batches \<le> 100"
    "\<forall>i < length batches. fetch (1 + i) = Inr (JArr (batches ! i))"
    "\<forall>b \<in> set (butlast batches). 100 \<le> length b" "length (last batches) < 100" "cs = [] @ concat batches" by blast
  have "length batches \<in> {1..100}" using b(1,2) by (cases batches) auto
  then have "\<exists>batches. length batches \<in> {1..100} \<and> list_all (\<lambda>i. fetch (Suc i) = Inr (JArr (batches ! i))) [0..<length batches]
     \<and> list_all (\<lambda>b. 100 \<le> length b) (butlast batches) \<and> length (last batches) < 100
     \<and> parse_claim_ledger (concat batches) now = Inr ledger"
    using b cs(2) by (intro exI [of _ batches]) (auto simp: list_all_iff)
  ultimately show ?thesis unfolding l by (simp add: Let_def)
qed


definition demo_order :: dict where
  "demo_order = [(''work_order_id'', JStr ''wo-1''), (''task_id'', JStr ''T1''), (''attempt_id'', JStr ''t1-a''),
     (''generation'', JInt 0), (''repo'', JStr ''o/r''), (''starting_ref'', JStr ''abc''), (''role'', JStr ''luna''),
     (''access_class'', JStr ''CLOUD_SECRETLESS''), (''deadline'', JStr ''2026-01-02T00:00:00Z'')]"

definition demo_ledger :: dispatch_ledger where
  "demo_ledger = claim_ledger [(''T1'', \<lparr> claim_task = ''T1'', claim_agent = ''me'', claim_lease = 10, claim_released = False \<rparr>)]"

definition demo_policy :: dispatch_policy where
  "demo_policy = \<lparr> repo_allowlist = [''o/r''], task_allowlist = [''T1''], local_agent = ''me'', trusted_refs = [],
     allowed_roles = [''luna''] \<rparr>"

text \<open>A machine whose commands all succeed.\<close>

definition demo_host :: "unit host" where
  "demo_host = \<lparr> host_clock = (\<lambda>w. (w, 0)), host_run = (\<lambda>w c. (w, Exited 0 [] [])), host_exists = (\<lambda>w p. False),
     host_mkdir = (\<lambda>w p. (w, Inr ())), host_rmtree = (\<lambda>w p. (w, Inr ())), host_environ = (\<lambda>w. [(''PATH'', ''/bin''), (''MY_TOKEN'', ''t'')]),
     host_seconds = show_int, host_local_offset = (\<lambda>_. 0) \<rparr>"

definition demo_dispatch :: "(unit \<times> command list) \<times> dict res" where
  "demo_dispatch = dispatch_secretless_attempt (\<lambda>_. []) (logged demo_host) ((), []) demo_order demo_ledger demo_policy
     ''/repo'' ''/trees'' [''pytest'']"

lemma demo_dispatch_runs: "map cmd_timeout (snd (fst demo_dispatch)) = [None, None, Some 63902908800000000, None]
    \<and> is_ok (snd demo_dispatch)"
  by code_simp


end
