(* ===== verification/Broker.thy ===== *)
theory Broker
  imports Work_Orders
begin

text \<open>
  The outbound broker (\<open>trusted_local_broker.py\<close>) and the task lifecycle of its queue
  (\<open>trusted_local_queue.py\<close>): what the trusted comments of the coordination issue say, the work order
  made of a ready task, its run by Codex and by the independent check, the reconciliation with the
  live queue, and the publication.

  The broker's surroundings are the record \<open>broker\<close>: a \<open>host\<close> of \<open>Work_Orders\<close>, the GitHub API as
  an exchange of requests and replies, the default layout of \<open>json.dumps\<close> and the random part of
  attempt ids. Texts that reach only people (the prompt, the body of a pull request) are built as in
  the source; the error messages are reduced to their codes.
\<close>

section \<open>Writing a time\<close>

text \<open>
  The date of a day counted from the first of the year 1, by the cycles of 400, 100, 4 and 1 years,
  and \<open>isoformat\<close> of a moment of UTC with the suffix \<open>Z\<close>.
\<close>

fun month_of :: "int \<Rightarrow> int list \<Rightarrow> int \<Rightarrow> int \<times> int" where
  "month_of y [] n = (12, n + 1)"
| "month_of y (m # ms) n = (if n < days_in_month y m then (m, n + 1) else month_of y ms (n - days_in_month y m))"

definition year_of :: "int \<Rightarrow> int \<times> int" where
  "year_of n =
     (let n400 = n div 146097; n = n mod 146097;
          n100 = n div 36524; n = n mod 36524;
          n4 = n div 1461; n = n mod 1461;
          n1 = n div 365; n = n mod 365;
          y = n400 * 400 + n100 * 100 + n4 * 4 + n1 + 1
      in if n1 = 4 \<or> n100 = 4 then (y - 1, 365) else (y, n))"

definition date_of :: "int \<Rightarrow> int \<times> int \<times> int" where
  "date_of n = (case year_of n of (y, d) \<Rightarrow> case month_of y [1..12] d of (m, day) \<Rightarrow> (y, m, day))"

fun digits :: "nat \<Rightarrow> int \<Rightarrow> string" where
  "digits 0 n = []"
| "digits (Suc k) n = digits k (n div 10) @ [digit_char (nat (n mod 10))]"

definition iso_utc :: "int \<Rightarrow> string" where
  "iso_utc t =
     (let us = t mod 1000000; s = t div 1000000; m = s div 60; h = m div 60 in
      case date_of (h div 24) of (y, mo, d) \<Rightarrow>
        digits 4 y @ ''-'' @ digits 2 mo @ ''-'' @ digits 2 d @ ''T'' @ digits 2 (h mod 24) @ '':'' @ digits 2 (m mod 60)
        @ '':'' @ digits 2 (s mod 60) @ (if us = 0 then [] else ''.'' @ digits 6 us) @ ''Z'')"

definition shifted_iso :: "int \<Rightarrow> int \<Rightarrow> string res" where
  "shifted_iso now duration =
     (let t = now + duration in
      if 0 \<le> t \<and> t < MAX_MICROS then Inr (iso_utc t) else Inl (Exn OverflowError ''date value out of range''))"

section \<open>Comments\<close>

definition TRUSTED_QUEUE_AUTHORS :: "string list" where
  "TRUSTED_QUEUE_AUTHORS = [''Pukujan'']"

definition DEFAULT_REPOS :: "string list" where
  "DEFAULT_REPOS = [''Pukujan/fossil-core'', ''Pukujan/cortex-v4'', ''Pukujan/litellm-ckff-ops'']"

definition MODEL_BY_ROLE :: "(string \<times> string) list" where
  "MODEL_BY_ROLE = [(''terra'', ''gpt-5.6-terra''), (''luna'', ''gpt-5.6-luna'')]"

definition CODEX_SANDBOXES :: "string list" where
  "CODEX_SANDBOXES = [''workspace-write'', ''danger-full-access'']"

definition TASK_START :: regex where
  "TASK_START = seqs [Bol, lit ''TASK'', plus space, lit ''task='', Group ''task'' (plus nonspace), Eol]"

definition FIELD :: regex where
  "FIELD = seqs [Bol, Group ''key'' (Seq (Class (\<lambda>c. (CHR ''A'' \<le> c \<and> c \<le> CHR ''Z'') \<or> (CHR ''a'' \<le> c \<and> c \<le> CHR ''z'') \<or> c = CHR ''_''))
     (Star (word_class ''_-''))), lit ''='', Group ''value'' (Star (Class (\<lambda>c. c \<noteq> CHR 0x0A))), Eol]"

definition order_line :: "string \<Rightarrow> regex" where
  "order_line keyword = seqs [Bol, lit keyword, plus space, lit ''task='', Group ''task'' (plus nonspace), plus space,
     lit ''attempt_id='', Group ''attempt'' (plus nonspace), plus space,
     lit ''generation='', Group ''generation'' (plus (Class is_digit))]"

definition WORKORDER :: regex where
  "WORKORDER = order_line ''WORKORDER''"

definition WORKORDER_DONE :: regex where
  "WORKORDER_DONE = order_line ''WORKORDER_DONE''"

definition WORKORDER_CANCEL :: regex where
  "WORKORDER_CANCEL = order_line ''WORKORDER_CANCEL''"

definition SHA :: regex where
  "SHA = seqs [Bol, rep 40 (Class (\<lambda>c. (CHR ''0'' \<le> c \<and> c \<le> CHR ''9'') \<or> (CHR ''a'' \<le> c \<and> c \<le> CHR ''f''))), Eol]"

definition is_sha :: "string \<Rightarrow> bool" where
  "is_sha s \<longleftrightarrow> fullmatch SHA s \<noteq> None"

record queue_task =
  task_id :: string
  task_repo :: string
  task_access :: string
  task_ref :: string
  task_role :: string
  task_spec :: string
  task_comment :: "json option"

record repo_policy =
  policy_path :: string
  check_command :: "string list"

definition is_trusted :: "string list \<Rightarrow> json \<Rightarrow> bool res" where
  "is_trusted authors comment =
     rbind (get_attr comment ''user'' JNull) (\<lambda>user.
       case user of JObj u \<Rightarrow> in_names (dget u ''login'') authors | _ \<Rightarrow> Inr False)"

definition trusted_comments :: "string list \<Rightarrow> json list \<Rightarrow> json list res" where
  "trusted_comments authors comments =
     rbind (rmap (\<lambda>c. rbind (is_trusted authors c) (\<lambda>b. Inr (c, b))) comments) (\<lambda>marked.
       Inr (map fst (filter snd marked)))"

text \<open>The generations and the closed or cancelled attempts that the work order lines of a comment record.\<close>

record order_state =
  latest :: "(string \<times> int) list"
  closed :: "string list"
  withdrawn :: "string list"

definition note_generation :: "(string \<times> int) list \<Rightarrow> groups \<Rightarrow> (string \<times> int) list" where
  "note_generation l g =
     (let t = grp g ''task''; n = int (read_nat (grp g ''generation''));
          old = (case map_of l t of None \<Rightarrow> -1 | Some m \<Rightarrow> m)
      in AList.update t (max old n) l)"

definition read_orders :: "order_state \<Rightarrow> string \<Rightarrow> order_state" where
  "read_orders s body =
     (let opened = findall WORKORDER body; done_orders = findall WORKORDER_DONE body; cancels = findall WORKORDER_CANCEL body
      in \<lparr> latest = foldl note_generation (foldl note_generation (foldl note_generation (latest s) opened) done_orders) cancels,
           closed = closed s @ map (\<lambda>g. grp g ''attempt'') done_orders,
           withdrawn = withdrawn s @ map (\<lambda>g. grp g ''attempt'') cancels \<rparr>)"

definition parse_broker_ledger :: "json list \<Rightarrow> int \<Rightarrow> string list \<Rightarrow> dispatch_ledger res" where
  "parse_broker_ledger comments now authors =
     rbind (trusted_comments authors comments) (\<lambda>trusted.
     rbind (parse_claim_ledger trusted now) (\<lambda>ledger.
     rbind (rmap comment_body trusted) (\<lambda>bodies.
       let s = foldl read_orders \<lparr> latest = [], closed = [], withdrawn = [] \<rparr> bodies
       in Inr (ledger\<lparr>latest_generation := latest s, terminal_ids := closed s, cancelled_ids := withdrawn s\<rparr>))))"

definition body_fields :: "string \<Rightarrow> (string \<times> string) list" where
  "body_fields body = foldl (\<lambda>d g. AList.update (grp g ''key'') (strip (grp g ''value'')) d) [] (findall FIELD body)"

definition field_or :: "(string \<times> string) list \<Rightarrow> string \<Rightarrow> string \<Rightarrow> string" where
  "field_or d k dflt = (case map_of d k of None \<Rightarrow> dflt | Some v \<Rightarrow> v)"

definition task_of_body :: "string \<Rightarrow> json option \<Rightarrow> queue_task option" where
  "task_of_body body cid =
     (case search TASK_START body of
        None \<Rightarrow> None
      | Some start \<Rightarrow>
          let fields = body_fields body; repo = field_or fields ''repo'' []; ref = field_or fields ''starting_ref'' []
          in if map_of fields ''state'' \<noteq> Some ''READY'' then None
             else (case map_of fields ''local_role'' of
                 None \<Rightarrow> None
               | Some role \<Rightarrow>
                   if map_of MODEL_BY_ROLE role = None \<or> repo \<notin> set DEFAULT_REPOS \<or> \<not> is_sha ref then None
                   else Some \<lparr> task_id = grp start ''task'', task_repo = repo,
                               task_access = field_or fields ''access'' ''CLOUD_SECRETLESS'', task_ref = ref,
                               task_role = role, task_spec = body, task_comment = cid \<rparr>))"

definition comment_id :: "json \<Rightarrow> json option res" where
  "comment_id comment =
     rbind (get_attr comment ''id'' JNull) (\<lambda>v.
       Inr (case v of JInt i \<Rightarrow> Some v | JBool b \<Rightarrow> Some v | _ \<Rightarrow> None))"

definition parse_ready_local_tasks :: "json list \<Rightarrow> string list \<Rightarrow> queue_task list res" where
  "parse_ready_local_tasks comments authors =
     rbind (trusted_comments authors comments) (\<lambda>trusted.
     rbind (rmap (\<lambda>c. rbind (comment_body c) (\<lambda>body. rbind (comment_id c) (\<lambda>i. Inr (task_of_body body i)))) trusted) (\<lambda>ts.
       Inr (concat (map (\<lambda>t. case t of None \<Rightarrow> [] | Some x \<Rightarrow> [x]) ts))))"

definition choose_unclaimed_task :: "queue_task list \<Rightarrow> dispatch_ledger \<Rightarrow> queue_task option" where
  "choose_unclaimed_task tasks ledger = List.find (\<lambda>t. map_of (claims ledger) (task_id t) = None) tasks"

definition next_generation :: "string \<Rightarrow> dispatch_ledger \<Rightarrow> int" where
  "next_generation t ledger = (case map_of (latest_generation ledger) t of None \<Rightarrow> 0 | Some g \<Rightarrow> g + 1)"

section \<open>The queue's lifecycle\<close>

definition TERMINAL_TASK :: regex where
  "TERMINAL_TASK = seqs [Bol, alts (lit ''DONE'') [lit ''BLOCKED''], plus space, lit ''task='', Group ''task'' (plus nonspace)]"

definition CANCEL_TASK :: regex where
  "CANCEL_TASK = seqs [Bol, lit ''CANCEL'', plus space, lit ''task='', Group ''task'' (plus nonspace)]"

record queue_state =
  active :: "(string \<times> queue_task) list"
  task_order :: "string list"

definition deactivate :: "queue_state \<Rightarrow> string \<Rightarrow> queue_state" where
  "deactivate s t = \<lparr> active = AList.delete t (active s), task_order = remove1 t (task_order s) \<rparr>"

definition directive_step :: "queue_state \<Rightarrow> json \<Rightarrow> string list \<Rightarrow> string \<Rightarrow> queue_state res" where
  "directive_step s comment authors t =
     rbind (parse_ready_local_tasks [comment] authors) (\<lambda>parsed.
       Inr (case List.find (\<lambda>x. task_id x = t) parsed of
              None \<Rightarrow> s\<lparr>active := AList.delete t (active s)\<rparr>
            | Some x \<Rightarrow> \<lparr> active = AList.update t x (active s), task_order = remove1 t (task_order s) @ [t] \<rparr>))"

definition queue_step :: "string list \<Rightarrow> queue_state \<Rightarrow> json \<Rightarrow> queue_state res" where
  "queue_step authors s comment =
     rbind (is_trusted authors comment) (\<lambda>trusted.
     if \<not> trusted then Inr s
     else rbind (comment_body comment) (\<lambda>body.
       case search TASK_START body of
         Some g \<Rightarrow> directive_step s comment authors (grp g ''task'')
       | None \<Rightarrow> (case search CANCEL_TASK body of
           Some g \<Rightarrow> Inr (deactivate s (grp g ''task''))
         | None \<Rightarrow> (case search TERMINAL_TASK body of
             Some g \<Rightarrow> Inr (deactivate s (grp g ''task''))
           | None \<Rightarrow> Inr s))))"

definition active_ready_local_tasks :: "json list \<Rightarrow> string list \<Rightarrow> queue_task list res" where
  "active_ready_local_tasks comments authors =
     rbind (rfold (queue_step authors) \<lparr> active = [], task_order = [] \<rparr> comments) (\<lambda>s.
       Inr (concat (map (\<lambda>t. case map_of (active s) t of None \<Rightarrow> [] | Some x \<Rightarrow> [x]) (task_order s))))"

section \<open>Work orders\<close>

datatype http_reply = Reply string | HttpStatus int | Broken exn

record http_request =
  req_method :: string
  req_url :: string
  req_headers :: "(string \<times> string) list"
  req_data :: "string option"

record 'w broker =
  br_host :: "'w host"
  br_http :: "'w \<Rightarrow> http_request \<Rightarrow> 'w \<times> http_reply"
  br_render :: "json \<Rightarrow> string"
  br_uuid :: "'w \<Rightarrow> 'w \<times> string"

definition make_work_order ::
  "'w broker \<Rightarrow> 'w \<Rightarrow> queue_task \<Rightarrow> dispatch_ledger \<Rightarrow> int \<Rightarrow> int \<Rightarrow> 'w \<times> dict res" where
  "make_work_order b w task ledger now duration =
     (case br_uuid b w of (w, hex) \<Rightarrow>
        let attempt = lower (task_id task) @ ''-'' @ take 12 hex in
        (w, rbind (shifted_iso now duration) (\<lambda>deadline.
          Inr [(''version'', JStr ''trusted-local-workorder-v1''),
               (''project_issue_id'', JInt 94),
               (''work_order_id'', JStr (''wo-'' @ attempt)),
               (''task_id'', JStr (task_id task)),
               (''attempt_id'', JStr attempt),
               (''generation'', JInt (next_generation (task_id task) ledger)),
               (''repo'', JStr (task_repo task)),
               (''starting_ref'', JStr (task_ref task)),
               (''role'', JStr (task_role task)),
               (''access_class'', JStr (task_access task)),
               (''mutation_scope'', strs [''repository-worktree'']),
               (''selected_checks'', strs [''pytest'']),
               (''deadline'', JStr deadline),
               (''closeout_contract'', JStr ''trusted-local-receipt-v1'')])))"

definition nl :: string where
  "nl = [CHR 0x0A]"

definition build_codex_prompt :: "'w broker \<Rightarrow> queue_task \<Rightarrow> dict \<Rightarrow> string" where
  "build_codex_prompt b task order =
     ''You are the '' @ task_role task @ '' local coding worker for '' @ task_id task @ ''.'' @ nl
     @ ''Execute only the bounded task below in the current isolated Git worktree.'' @ nl
     @ ''Do not access or search for local credentials, .env files, browser/session data, ''
     @ ''GitHub auth, Railway/provider credentials, or files outside this worktree.'' @ nl
     @ ''Do not deploy, promote production, push, open PRs, or change external state.'' @ nl
     @ ''Do not commit: the parent broker owns publication after mechanical checks.'' @ nl
     @ ''Make the smallest in-scope code/test/doc changes and run relevant local tests.'' @ nl
     @ ''A zero exit from your run is not final acceptance; the parent broker runs independent checks.'' @ nl
     @ ''WorkOrder: '' @ br_render b (canon (JObj order)) @ nl @ nl
     @ ''Authoritative queue task:'' @ nl @ task_spec task @ nl"

definition build_codex_command :: "string \<Rightarrow> string \<Rightarrow> string \<Rightarrow> string list res" where
  "build_codex_command role executable sandbox =
     (case map_of MODEL_BY_ROLE role of
        None \<Rightarrow> work_error ''BLOCKED_POLICY''
      | Some model \<Rightarrow>
          if sandbox \<notin> set CODEX_SANDBOXES then work_error ''BLOCKED_POLICY''
          else Inr [executable, ''exec'', ''--ephemeral'', ''--sandbox'', sandbox, ''--json'', ''--ignore-user-config'',
                    ''-m'', model, ''-''])"

definition SECRET_ENV_NAME :: regex where
  "SECRET_ENV_NAME = alts (ilit ''token'') [ilit ''secret'', ilit ''password'',
     seqs [ilit ''api'', opt (one_of ''_-''), ilit ''key''], ilit ''railway'', ilit ''credential'', ilit ''aws_'', ilit ''azure_'',
     ilit ''gcp_'', ilit ''anthropic'', ilit ''openai_api'']"

definition WORKER_NAMES :: "string list" where
  "WORKER_NAMES = [''PATH'', ''SYSTEMROOT'', ''WINDIR'', ''COMSPEC'', ''TEMP'', ''TMP'', ''LANG'', ''LC_ALL'']"

definition codex_worker_environment :: "string \<Rightarrow> string \<Rightarrow> env \<Rightarrow> env" where
  "codex_worker_environment worker_home codex_home source =
     AList.update ''CODEX_HOME'' codex_home (AList.update ''USERPROFILE'' worker_home (AList.update ''HOME'' worker_home
       (filter (\<lambda>(k, _). upper k \<in> set WORKER_NAMES \<and> search SECRET_ENV_NAME k = None) source)))"

section \<open>The GitHub client\<close>

record github =
  gh_token :: string
  gh_repo :: string
  gh_issue :: int

definition make_github :: "string \<Rightarrow> string \<Rightarrow> int \<Rightarrow> github res" where
  "make_github token repo issue =
     (if token = [] then work_error ''GITHUB_AUTH_REQUIRED''
      else Inr \<lparr> gh_token = token, gh_repo = repo, gh_issue = issue \<rparr>)"

definition gh_request :: "'w broker \<Rightarrow> 'w \<Rightarrow> github \<Rightarrow> string \<Rightarrow> string \<Rightarrow> dict option \<Rightarrow> 'w \<times> json res" where
  "gh_request b w g verb url payload =
     (case br_http b w \<lparr> req_method = verb, req_url = url,
         req_headers = [(''Accept'', ''application/vnd.github+json''), (''Authorization'', ''Bearer '' @ gh_token g),
                        (''User-Agent'', ''fossil-trusted-local-broker''), (''X-GitHub-Api-Version'', ''2022-11-28'')],
         req_data = map_option (\<lambda>d. br_render b (JObj d)) payload \<rparr> of
        (w, HttpStatus _) \<Rightarrow> (w, work_error ''GITHUB_API_FAILED'')
      | (w, Broken e) \<Rightarrow> (w, Inl e)
      | (w, Reply raw) \<Rightarrow> (w, if raw = [] then Inr JNull
          else rbind (decode_utf8 raw) (\<lambda>t. of_option (Exn JSONDecodeError []) (loads t))))"

definition API :: string where
  "API = ''https://api.github.com/repos/''"

definition comments_url :: "github \<Rightarrow> string" where
  "comments_url g = API @ gh_repo g @ ''/issues/'' @ show_int (gh_issue g) @ ''/comments''"

fun comment_pages :: "'w broker \<Rightarrow> 'w \<Rightarrow> github \<Rightarrow> nat \<Rightarrow> nat \<Rightarrow> json list \<Rightarrow> 'w \<times> json list res" where
  "comment_pages b w g 0 page acc = (w, work_error ''GITHUB_API_FAILED'')"
| "comment_pages b w g (Suc n) page acc =
     sbind (gh_request b w g ''GET'' (comments_url g @ ''?per_page=100&page='' @ show_nat page) None) (\<lambda>w v.
       case v of
         JArr batch \<Rightarrow> if length batch < 100 then (w, Inr (acc @ batch)) else comment_pages b w g n (Suc page) (acc @ batch)
       | _ \<Rightarrow> (w, work_error ''GITHUB_API_FAILED''))"

definition gh_comments :: "'w broker \<Rightarrow> 'w \<Rightarrow> github \<Rightarrow> 'w \<times> json list res" where
  "gh_comments b w g = comment_pages b w g 100 1 []"

definition gh_comment :: "'w broker \<Rightarrow> 'w \<Rightarrow> github \<Rightarrow> string \<Rightarrow> 'w \<times> unit res" where
  "gh_comment b w g body =
     sbind (gh_request b w g ''POST'' (comments_url g) (Some [(''body'', JStr body)])) (\<lambda>w _. (w, Inr ()))"

definition default_branch :: "'w broker \<Rightarrow> 'w \<Rightarrow> github \<Rightarrow> string \<Rightarrow> 'w \<times> string res" where
  "default_branch b w g repo =
     sbind (gh_request b w g ''GET'' (API @ repo) None) (\<lambda>w v.
       (w, case v of
            JObj d \<Rightarrow> (case dget d ''default_branch'' of JStr (c # cs) \<Rightarrow> Inr (c # cs) | _ \<Rightarrow> work_error ''GITHUB_API_FAILED'')
          | _ \<Rightarrow> work_error ''GITHUB_API_FAILED''))"

definition create_pull_request ::
  "'w broker \<Rightarrow> 'w \<Rightarrow> github \<Rightarrow> string \<Rightarrow> string \<Rightarrow> string \<Rightarrow> string \<Rightarrow> 'w \<times> string res" where
  "create_pull_request b w g repo branch title body =
     sbind (default_branch b w g repo) (\<lambda>w base.
     sbind (gh_request b w g ''POST'' (API @ repo @ ''/pulls'')
       (Some [(''title'', JStr title), (''head'', JStr branch), (''base'', JStr base), (''body'', JStr body), (''draft'', JBool True)])) (\<lambda>w v.
       (w, case v of
            JObj d \<Rightarrow> (case dget d ''html_url'' of JStr url \<Rightarrow> Inr url | _ \<Rightarrow> work_error ''GITHUB_API_FAILED'')
          | _ \<Rightarrow> work_error ''GITHUB_API_FAILED'')))"

definition claim_text :: "queue_task \<Rightarrow> string \<Rightarrow> int \<Rightarrow> int \<Rightarrow> string res" where
  "claim_text task agent now lease =
     rbind (shifted_iso now lease) (\<lambda>until.
       Inr (''CLAIM task='' @ task_id task @ nl @ ''agent='' @ agent @ nl @ ''mode=LOCAL_CODEX'' @ nl
            @ ''lease_until='' @ until @ nl @ ''repo='' @ task_repo task @ nl @ ''starting_ref='' @ task_ref task))"

definition shown :: "dict \<Rightarrow> string \<Rightarrow> string res" where
  "shown d k = rbind (dindex d k) (\<lambda>v. Inr (py_str v))"

definition workorder_text :: "dict \<Rightarrow> string res" where
  "workorder_text order =
     rbind (shown order ''task_id'') (\<lambda>t. rbind (shown order ''attempt_id'') (\<lambda>a. rbind (shown order ''generation'') (\<lambda>g.
     rbind (shown order ''repo'') (\<lambda>r. rbind (shown order ''starting_ref'') (\<lambda>s. rbind (shown order ''role'') (\<lambda>role.
     rbind (shown order ''access_class'') (\<lambda>access.
       Inr (''WORKORDER task='' @ t @ '' attempt_id='' @ a @ '' generation='' @ g @ nl @ ''repo='' @ r @ nl
            @ ''starting_ref='' @ s @ nl @ ''role='' @ role @ '' access='' @ access))))))))"

definition terminal_text :: "dict \<Rightarrow> dict \<Rightarrow> string option \<Rightarrow> string res" where
  "terminal_text order receipt pr_url =
     (let ref = (case pr_url of Some (c # cs) \<Rightarrow> '' pr='' @ c # cs | _ \<Rightarrow> []) in
      rbind (shown order ''task_id'') (\<lambda>t. rbind (shown order ''attempt_id'') (\<lambda>a. rbind (shown order ''generation'') (\<lambda>g.
      rbind (shown receipt ''terminal_status'') (\<lambda>s.
        Inr (''WORKORDER_DONE task='' @ t @ '' attempt_id='' @ a @ '' generation='' @ g @ '' status='' @ s @ ref))))))"

section \<open>Running and publishing\<close>

definition remaining_time :: "'w host \<Rightarrow> dict \<Rightarrow> int \<Rightarrow> int res" where
  "remaining_time h order now =
     rbind (dindex order ''deadline'') (\<lambda>v.
     rbind (parse_instant (py_str v)) (\<lambda>d.
     rbind (as_utc d (case dt_offset d of None \<Rightarrow> host_local_offset h d | Some off \<Rightarrow> off)) (\<lambda>t. Inr (t - now))))"

definition run_bounded_process ::
  "'w host \<Rightarrow> 'w \<Rightarrow> string list \<Rightarrow> string \<Rightarrow> dict \<Rightarrow> env \<Rightarrow> string option \<Rightarrow> 'w \<times> dict res" where
  "run_bounded_process h w argv worktree order environment input =
     (case host_clock h w of (w, now) \<Rightarrow>
      sbind (pure_res w (remaining_time h order now)) (\<lambda>w remaining.
        launch h w argv worktree order environment input remaining))"

definition SAFE_BRANCH :: regex where
  "SAFE_BRANCH = plus (Class (\<lambda>c. \<not> ((CHR ''a'' \<le> c \<and> c \<le> CHR ''z'') \<or> (CHR ''0'' \<le> c \<and> c \<le> CHR ''9'') \<or> c \<in> set ''._-'')))"

definition strip_dash :: "string \<Rightarrow> string" where
  "strip_dash s = rev (dropWhile (\<lambda>c. c = CHR ''-'') (rev (dropWhile (\<lambda>c. c = CHR ''-'') s)))"

definition safe_branch :: "string \<Rightarrow> string \<Rightarrow> string" where
  "safe_branch task attempt =
     take 120 (''agent/'' @ lower task @ ''-'' @ strip_dash (sub SAFE_BRANCH ''-'' (lower attempt)))"

definition git_in_worktree :: "string \<Rightarrow> string list \<Rightarrow> string list" where
  "git_in_worktree worktree args = [''git'', ''-c'', ''safe.directory='' @ worktree, ''-C'', worktree] @ args"

definition publication_commands :: "string \<Rightarrow> queue_task \<Rightarrow> string \<Rightarrow> string \<Rightarrow> string list list" where
  "publication_commands worktree task branch hooks =
     [git_in_worktree worktree [''switch'', ''-c'', branch],
      git_in_worktree worktree [''add'', ''-A''],
      git_in_worktree worktree [''-c'', ''core.hooksPath='' @ hooks, ''-c'', ''user.name=trusted-local-broker'',
        ''-c'', ''user.email=trusted-local-broker@users.noreply.github.com'',
        ''commit'', ''-m'', task_id task @ '': autonomous local WorkOrder''],
      git_in_worktree worktree [''-c'', ''core.hooksPath='' @ hooks,
        ''-c'', ''remote.origin.url=https://github.com/'' @ task_repo task @ ''.git'',
        ''push'', ''origin'', ''HEAD:refs/heads/'' @ branch]]"

fun run_all :: "'w host \<Rightarrow> 'w \<Rightarrow> string list list \<Rightarrow> 'w \<times> unit res" where
  "run_all h w [] = (w, Inr ())"
| "run_all h w (argv # rest) =
     sbind (run_plain h w argv) (\<lambda>w (c, _). if c \<noteq> 0 then (w, work_error ''GIT_FAILED'') else run_all h w rest)"

definition pr_body :: "queue_task \<Rightarrow> string \<Rightarrow> string" where
  "pr_body task ref =
     ''Autonomous local Codex WorkOrder for `'' @ task_id task @ ''`.'' @ nl @ nl
     @ ''Starting SHA: `'' @ ref @ ''`'' @ nl @ ''Role: `'' @ task_role task @ ''`'' @ nl
     @ ''Publication occurred only after the secretless Codex process exited, the parent ''
     @ ''broker'' @ [CHR 0x27] @ ''s independent check command passed, and live queue state was reconciled.''"

definition publish_checked_changes ::
  "'w broker \<Rightarrow> 'w \<Rightarrow> string \<Rightarrow> queue_task \<Rightarrow> dict \<Rightarrow> github \<Rightarrow> 'w \<times> string res" where
  "publish_checked_changes b w worktree task order g =
     (let h = br_host b in
      sbind (run_plain h w (git_in_worktree worktree [''status'', ''--porcelain''])) (\<lambda>w (c, out, _).
      if c \<noteq> 0 then (w, work_error ''GIT_FAILED'')
      else if strip out = [] then (w, work_error ''NO_CHANGES'')
      else sbind (pure_res w (shown order ''attempt_id'')) (\<lambda>w attempt.
        let branch = safe_branch (task_id task) attempt; hooks = worktree @ ''/.broker-empty-hooks'' in
        sbind (host_mkdir h w hooks) (\<lambda>w _.
        sbind (run_all h w (publication_commands worktree task branch hooks)) (\<lambda>w _.
        sbind (pure_res w (shown order ''starting_ref'')) (\<lambda>w ref.
          create_pull_request b w g (task_repo task) branch (task_id task @ '': autonomous local WorkOrder'') (pr_body task ref)))))))"

definition broker_policy :: "queue_task \<Rightarrow> string \<Rightarrow> dispatch_policy" where
  "broker_policy task agent =
     \<lparr> repo_allowlist = DEFAULT_REPOS, task_allowlist = [task_id task], local_agent = agent, trusted_refs = [],
       allowed_roles = map fst MODEL_BY_ROLE \<rparr>"

definition reconcile_before_publication ::
  "(json \<Rightarrow> string list) \<Rightarrow> 'w broker \<Rightarrow> 'w \<Rightarrow> queue_task \<Rightarrow> dict \<Rightarrow> string \<Rightarrow> github \<Rightarrow> 'w \<times> dispatch_ledger res" where
  "reconcile_before_publication schema b w task order agent g =
     (case host_clock (br_host b) w of (w, now) \<Rightarrow>
      sbind (gh_comments b w g) (\<lambda>w comments.
      sbind (pure_res w (parse_broker_ledger comments now TRUSTED_QUEUE_AUTHORS)) (\<lambda>w ledger.
      sbind (pure_res w (authorize_work_order schema order ledger (broker_policy task agent) now)) (\<lambda>w lane.
        (w, if lane = Secretless then Inr ledger else work_error ''ACCESS_CLASS_MISMATCH'')))))"

definition status_passed :: "dict \<Rightarrow> bool res" where
  "status_passed receipt = rbind (dindex receipt ''terminal_status'') (\<lambda>s. Inr (py_eq s (JStr ''PASS'')))"

definition check_failed :: "dict \<Rightarrow> dict res" where
  "check_failed receipt =
     sanitize_receipt (AList.update ''detail''
       (JStr (''independent check failed'' @ nl @ py_str (dget_or receipt ''detail'' (JStr [])))) receipt)"

definition published_receipt :: "dict \<Rightarrow> string \<Rightarrow> dict res" where
  "published_receipt receipt url =
     sanitize_receipt (AList.update ''pr_url'' (JStr url) (AList.update ''detail''
       (JStr ''Codex, independent checks, and live pre-publication reconciliation passed; parent broker published draft PR.'')
       (AList.update ''terminal_status'' (JStr ''PASS'') receipt)))"

definition attempt_in_worktree ::
  "(json \<Rightarrow> string list) \<Rightarrow> 'w broker \<Rightarrow> 'w \<Rightarrow> queue_task \<Rightarrow> dict \<Rightarrow> string \<Rightarrow> repo_policy \<Rightarrow> string \<Rightarrow> env \<Rightarrow> github
   \<Rightarrow> string \<Rightarrow> string \<Rightarrow> 'w \<times> (dict \<times> string option) res" where
  "attempt_in_worktree schema b w task order agent rp dir environment g executable sandbox =
     (let h = br_host b in
      sbind (pure_res w (build_codex_command (task_role task) executable sandbox)) (\<lambda>w argv.
      sbind (run_bounded_process h w argv dir order environment (Some (build_codex_prompt b task order))) (\<lambda>w codex.
      sbind (pure_res w (status_passed codex)) (\<lambda>w ok.
      if \<not> ok then (w, Inr (codex, None))
      else sbind (run_bounded_process h w (check_command rp) dir order environment None) (\<lambda>w checked.
      sbind (pure_res w (status_passed checked)) (\<lambda>w ok.
      if \<not> ok then (w, rbind (check_failed checked) (\<lambda>r. Inr (r, None)))
      else sbind (reconcile_before_publication schema b w task order agent g) (\<lambda>w _.
      sbind (publish_checked_changes b w dir task order g) (\<lambda>w url.
        (w, rbind (published_receipt checked url) (\<lambda>r. Inr (r, Some url)))))))))))"

definition run_local_codex_task ::
  "(json \<Rightarrow> string list) \<Rightarrow> 'w broker \<Rightarrow> 'w \<Rightarrow> queue_task \<Rightarrow> dict \<Rightarrow> dispatch_ledger \<Rightarrow> string \<Rightarrow> repo_policy \<Rightarrow> string
   \<Rightarrow> string \<Rightarrow> string \<Rightarrow> github \<Rightarrow> string \<Rightarrow> string \<Rightarrow> 'w \<times> (dict \<times> string option) res" where
  "run_local_codex_task schema b w task order ledger agent rp root worker_home codex_home g executable sandbox =
     (let h = br_host b in
      case host_clock h w of (w, now) \<Rightarrow>
      sbind (pure_res w (authorize_work_order schema order ledger (broker_policy task agent) now)) (\<lambda>w lane.
      if lane \<noteq> Secretless then (w, work_error ''ACCESS_CLASS_MISMATCH'')
      else sbind (isolated_worktree h w (policy_path rp) order root) (\<lambda>w dir.
        let environment = codex_worker_environment worker_home codex_home (host_environ h w) in
        and_finally (attempt_in_worktree schema b w task order agent rp dir environment g executable sandbox)
          (\<lambda>w. destroy_worktree h w (policy_path rp) dir))))"

section \<open>What the broker did\<close>

text \<open>\<open>recorded b\<close> is the broker \<open>b\<close> with the list of what it ran and what it sent, with the outcomes.\<close>

datatype entry = Ran command outcome | Sent http_request http_reply

definition recorded :: "'w broker \<Rightarrow> ('w \<times> entry list) broker" where
  "recorded b =
     (let h = br_host b in
      \<lparr> br_host =
          \<lparr> host_clock = (\<lambda>(w, l). case host_clock h w of (w', t) \<Rightarrow> ((w', l), t)),
            host_run = (\<lambda>(w, l) c. case host_run h w c of (w', out) \<Rightarrow> ((w', l @ [Ran c out]), out)),
            host_exists = (\<lambda>(w, l) p. host_exists h w p),
            host_mkdir = (\<lambda>(w, l) p. case host_mkdir h w p of (w', r) \<Rightarrow> ((w', l), r)),
            host_rmtree = (\<lambda>(w, l) p. case host_rmtree h w p of (w', r) \<Rightarrow> ((w', l), r)),
            host_environ = (\<lambda>(w, l). host_environ h w),
            host_seconds = host_seconds h,
            host_local_offset = host_local_offset h \<rparr>,
        br_http = (\<lambda>(w, l) q. case br_http b w q of (w', a) \<Rightarrow> ((w', l @ [Sent q a]), a)),
        br_render = br_render b,
        br_uuid = (\<lambda>(w, l). case br_uuid b w of (w', x) \<Rightarrow> ((w', l), x)) \<rparr>)"

interpretation recorded: recorded_host "br_host (recorded b)" snd Ran for b
  by unfold_locales (auto simp: recorded_def Let_def split: prod.splits)

lemma recorded_http: "br_http (recorded b) s q = (t, a) \<Longrightarrow> snd t = snd s @ [Sent q a]"
  by (auto simp: recorded_def Let_def split: prod.splits)

text \<open>Publication: a parent Git command in the worktree, or a request that is not a read.\<close>

definition publishes :: "entry \<Rightarrow> bool" where
  "publishes e \<longleftrightarrow> (case e of Ran c _ \<Rightarrow> cmd_env c = None \<and> take 2 (cmd_argv c) = [''git'', ''-c'']
     | Sent q _ \<Rightarrow> req_method q \<noteq> ''GET'')"

definition quiet :: "entry \<Rightarrow> bool" where
  "quiet e \<longleftrightarrow> \<not> publishes e"

text \<open>The comments that a logged reply delivered.\<close>

definition reply_items :: "entry \<Rightarrow> json list" where
  "reply_items e = (case e of Sent q (Reply raw) \<Rightarrow> (case loads raw of Some (JArr batch) \<Rightarrow> batch | _ \<Rightarrow> []) | _ \<Rightarrow> [])"

definition is_read :: "github \<Rightarrow> entry \<Rightarrow> bool" where
  "is_read g e \<longleftrightarrow> (\<exists>q a. e = Sent q a \<and> req_method q = ''GET'' \<and> starts_with (comments_url g) (req_url q))"

lemma read_quiet: "is_read g e \<Longrightarrow> quiet e"
  by (auto simp: is_read_def quiet_def publishes_def)

lemma gh_request_log:
  assumes "gh_request (recorded b) s g verb url payload = (t, r)"
  shows "\<exists>q a. snd t = snd s @ [Sent q a] \<and> req_method q = verb \<and> req_url q = url
    \<and> (\<forall>v. r = Inr v \<longrightarrow> v \<noteq> JNull \<longrightarrow> (\<exists>raw. a = Reply raw \<and> loads raw = Some v))"
proof -
  define q where "q = \<lparr> req_method = verb, req_url = url,
         req_headers = [(''Accept'', ''application/vnd.github+json''), (''Authorization'', ''Bearer '' @ gh_token g),
                        (''User-Agent'', ''fossil-trusted-local-broker''), (''X-GitHub-Api-Version'', ''2022-11-28'')],
         req_data = map_option (\<lambda>d. br_render (recorded b) (JObj d)) payload \<rparr>"
  obtain u a where m: "br_http (recorded b) s q = (u, a)" by fastforce
  have "t = u" "\<forall>v. r = Inr v \<longrightarrow> v \<noteq> JNull \<longrightarrow> (\<exists>raw. a = Reply raw \<and> loads raw = Some v)"
    using assms unfolding gh_request_def q_def [symmetric] m
    by (auto split: http_reply.splits if_split_asm simp: work_error_def decode_utf8_def)
  moreover have "req_method q = verb" "req_url q = url" by (simp_all add: q_def)
  ultimately show ?thesis using recorded_http [OF m] by blast
qed

lemma comment_pages_log:
  assumes "comment_pages (recorded b) s g n page acc = (t, r)"
  shows "\<exists>reads. snd t = snd s @ reads \<and> list_all (is_read g) reads
    \<and> (\<forall>cs. r = Inr cs \<longrightarrow> cs = acc @ concat (map reply_items reads))"
  using assms
proof (induction n arbitrary: s page acc)
  case 0
  then show ?case by (auto simp: work_error_def)
next
  case (Suc n)
  obtain u x where m: "gh_request (recorded b) s g ''GET'' (comments_url g @ ''?per_page=100&page='' @ show_nat page) None = (u, x)"
    by fastforce
  from gh_request_log [OF m] obtain q a where q: "snd u = snd s @ [Sent q a]" "req_method q = ''GET''"
    "req_url q = comments_url g @ ''?per_page=100&page='' @ show_nat page"
    "\<forall>v. x = Inr v \<longrightarrow> v \<noteq> JNull \<longrightarrow> (\<exists>raw. a = Reply raw \<and> loads raw = Some v)"
    by (elim exE conjE) (rule that)
  have read: "is_read g (Sent q a)" using q(2,3) by (simp add: is_read_def)
  note step = Suc.prems [unfolded comment_pages.simps m]
  show ?case
  proof (cases "\<exists>batch. x = Inr (JArr batch)")
    case False
    have "t = u \<and> \<not> is_ok r"
    proof (cases x)
      case (Inr v)
      then show ?thesis using False step by (cases v) (auto simp: work_error_def)
    qed (use step in auto)
    then show ?thesis using q(1) read by (intro exI [of _ "[Sent q a]"]) auto
  next
    case True
    then obtain batch where x: "x = Inr (JArr batch)" by blast
    then have items: "reply_items (Sent q a) = batch" using q(4) by (auto simp: reply_items_def)
    show ?thesis
    proof (cases "length batch < 100")
      case True
      then have "t = u \<and> r = Inr (acc @ batch)" using step x by simp
      then show ?thesis using q(1) read items by (intro exI [of _ "[Sent q a]"]) auto
    next
      case False
      then have "comment_pages (recorded b) u g n (Suc page) (acc @ batch) = (t, r)" using step x by simp
      from Suc.IH [OF this] obtain reads where "snd t = snd u @ reads" "list_all (is_read g) reads"
        "\<forall>cs. r = Inr cs \<longrightarrow> cs = (acc @ batch) @ concat (map reply_items reads)" by blast
      then show ?thesis using q(1) read items by (intro exI [of _ "Sent q a # reads"]) auto
    qed
  qed
qed

section \<open>A passed run\<close>

lemma sanitized_status:
  assumes "sanitize_receipt d = Inr r" "map_of d ''terminal_status'' = Some (JStr s)"
  shows "map_of r ''terminal_status'' = Some (JStr s)"
proof -
  have "s \<in> set TERMINAL_STATUSES" using sanitize_receipt_D(1) [OF assms(1)] assms(2) by (auto simp: dget_def)
  then show ?thesis using sanitize_receipt_D(2) [OF assms(1)] assms(2) status_clean by (simp add: map_of_clean)
qed

lemma attempt_receipt_status:
  "attempt_receipt order status detail = Inr r \<Longrightarrow> map_of r ''terminal_status'' = Some (JStr status)"
  unfolding attempt_receipt_def by (auto intro: sanitized_status)

lemma launch_passed:
  assumes "launch (br_host (recorded b)) s argv dir order environment input remaining = (t, r)"
  shows "\<exists>new. snd t = snd s @ new \<and> list_all quiet new
    \<and> (\<forall>receipt. r = Inr receipt \<longrightarrow> status_passed receipt = Inr True \<longrightarrow>
        (\<exists>so se. 0 < remaining \<and> new = [Ran \<lparr> cmd_argv = argv, cmd_cwd = Some dir, cmd_env = Some environment, cmd_stdin = input,
           cmd_timeout = Some remaining \<rparr> (Exited 0 so se)]))"
  using recorded.launch_log [OF assms]
proof (elim disjE conjE exE)
  assume le: "remaining \<le> 0" "t = s"
  then have "\<not> is_ok r" using assms by (auto simp: launch_def work_error_def)
  then show ?thesis using le by (intro exI [of _ "[]"]) auto
next
  fix out
  let ?c = "\<lparr> cmd_argv = argv, cmd_cwd = Some dir, cmd_env = Some environment, cmd_stdin = input, cmd_timeout = Some remaining \<rparr>"
  assume gt: "0 < remaining" and l: "snd t = snd s @ [Ran ?c out]"
    and r: "pure_res t (rbind (attempt_detail (br_host (recorded b)) remaining out)
       (\<lambda>(status, detail). attempt_receipt order status detail)) = (t, r)"
  have "\<exists>so se. out = Exited 0 so se" if rr: "r = Inr receipt" "status_passed receipt = Inr True" for receipt
  proof -
    from r rr(1) obtain status detail where d: "attempt_detail (br_host (recorded b)) remaining out = Inr (status, detail)"
      "attempt_receipt order status detail = Inr receipt" by (auto simp: pure_res_def)
    from attempt_receipt_status [OF d(2)] rr(2) have "status = ''PASS''" by (auto simp: status_passed_def)
    then show ?thesis using d(1) by (auto simp: attempt_detail_def split: outcome.splits if_split_asm)
  qed
  moreover have "quiet (Ran ?c out)" by (simp add: quiet_def publishes_def)
  ultimately show ?thesis using l gt by (intro exI [of _ "[Ran ?c out]"]) auto
qed

lemma run_bounded_passed:
  assumes "run_bounded_process (br_host (recorded b)) s argv dir order environment input = (t, r)"
  shows "\<exists>new. snd t = snd s @ new \<and> list_all quiet new
    \<and> (\<forall>receipt. r = Inr receipt \<longrightarrow> status_passed receipt = Inr True \<longrightarrow>
        (\<exists>so se remaining. 0 < remaining \<and> new = [Ran \<lparr> cmd_argv = argv, cmd_cwd = Some dir, cmd_env = Some environment,
           cmd_stdin = input, cmd_timeout = Some remaining \<rparr> (Exited 0 so se)]))"
proof -
  obtain u now where c: "host_clock (br_host (recorded b)) s = (u, now)" by fastforce
  note lu = recorded.log_clock [OF c]
  note a = assms [unfolded run_bounded_process_def c prod.case]
  show ?thesis
  proof (cases "remaining_time (br_host (recorded b)) order now")
    case (Inl e)
    then have "t = u \<and> r = Inl e" using a by (auto simp: pure_res_def)
    then show ?thesis using lu by (intro exI [of _ "[]"]) auto
  next
    case (Inr remaining)
    then have "launch (br_host (recorded b)) u argv dir order environment input remaining = (t, r)"
      using a by (simp add: pure_res_def)
    from launch_passed [OF this] lu show ?thesis by fastforce
  qed
qed

lemma publish_emits:
  "\<exists>new. snd (fst (publish_checked_changes (recorded b) s dir task order g)) = snd s @ new"
proof -
  have req: "emits snd (\<lambda>_. True) s (gh_request (recorded b) s g verb url payload)" for s verb url payload
    by (cases "gh_request (recorded b) s g verb url payload") (auto simp: emits_def list_all_iff dest: gh_request_log)
  have all: "emits snd (\<lambda>_. True) s (run_all (br_host (recorded b)) s cmds)" for s cmds
    by (induction cmds arbitrary: s) (auto intro!: emits_intros recorded.emits_run_plain)
  have "emits snd (\<lambda>_. True) s (publish_checked_changes (recorded b) s dir task order g)"
    unfolding publish_checked_changes_def create_pull_request_def default_branch_def Let_def
    by (auto intro!: emits_intros recorded.emits_run_plain recorded.emits_mkdir req all split: prod.split)
  then show ?thesis by (auto simp: emits_def)
qed

text \<open>The reconciliation: reads only, and what it read authorizes the order when it succeeds.\<close>

lemma reconcile_log:
  assumes "reconcile_before_publication schema (recorded b) s task order agent g = (t, r)"
  shows "\<exists>reads now. snd t = snd s @ reads \<and> list_all (is_read g) reads
    \<and> (\<forall>ledger. r = Inr ledger \<longrightarrow> parse_broker_ledger (concat (map reply_items reads)) now TRUSTED_QUEUE_AUTHORS = Inr ledger
       \<and> authorize_work_order schema order ledger (broker_policy task agent) now = Inr Secretless)"
proof -
  obtain u now where c: "host_clock (br_host (recorded b)) s = (u, now)" by fastforce
  note lu = recorded.log_clock [OF c]
  obtain v x where m: "gh_comments (recorded b) u g = (v, x)" by fastforce
  from comment_pages_log [OF m [unfolded gh_comments_def]] obtain reads where
    reads: "snd v = snd u @ reads" "list_all (is_read g) reads" "\<forall>cs. x = Inr cs \<longrightarrow> cs = [] @ concat (map reply_items reads)"
    by blast
  note a = assms [unfolded reconcile_before_publication_def c prod.case m]
  have "t = v \<and> (\<forall>ledger. r = Inr ledger \<longrightarrow> parse_broker_ledger (concat (map reply_items reads)) now TRUSTED_QUEUE_AUTHORS = Inr ledger
       \<and> authorize_work_order schema order ledger (broker_policy task agent) now = Inr Secretless)"
  proof (cases x)
    case (Inl e)
    then show ?thesis using a by auto
  next
    case (Inr cs)
    then have cs: "cs = concat (map reply_items reads)" using reads(3) by simp
    show ?thesis
    proof (cases "parse_broker_ledger cs now TRUSTED_QUEUE_AUTHORS")
      case (Inl e)
      then show ?thesis using a Inr by (auto simp: pure_res_def)
    next
      case (Inr l)
      then show ?thesis using a \<open>x = Inr cs\<close> cs
        by (cases "authorize_work_order schema order l (broker_policy task agent) now")
          (auto simp: pure_res_def work_error_def split: if_split_asm)
    qed
  qed
  then show ?thesis using reads(1,2) lu by (intro exI [of _ reads] exI [of _ now]) simp
qed

text \<open>
  \<open>cleared\<close>: Codex and then the independent check exited with 0 in the worktree, and the comments
  read afterwards authorize the order at the time of reading.
\<close>

definition cleared ::
  "(json \<Rightarrow> string list) \<Rightarrow> queue_task \<Rightarrow> dict \<Rightarrow> string \<Rightarrow> repo_policy \<Rightarrow> string \<Rightarrow> env \<Rightarrow> github \<Rightarrow> entry list \<Rightarrow> bool" where
  "cleared schema task order agent rp dir environment g l \<longleftrightarrow>
     (\<exists>codex check reads now ledger so se so' se'. l = Ran codex (Exited 0 so se) # Ran check (Exited 0 so' se') # reads
        \<and> cmd_cwd codex = Some dir \<and> cmd_env codex = Some environment
        \<and> cmd_argv check = check_command rp \<and> cmd_cwd check = Some dir \<and> cmd_env check = Some environment
        \<and> list_all (is_read g) reads
        \<and> parse_broker_ledger (concat (map reply_items reads)) now TRUSTED_QUEUE_AUTHORS = Inr ledger
        \<and> authorize_work_order schema order ledger (broker_policy task agent) now = Inr Secretless)"

lemma attempt_shape:
  assumes "attempt_in_worktree schema (recorded b) s task order agent rp dir environment g executable sandbox = (t, r)"
  shows "(\<exists>new. snd t = snd s @ new \<and> list_all quiet new)
    \<or> (\<exists>pass rest. snd t = snd s @ pass @ rest \<and> cleared schema task order agent rp dir environment g pass)"
proof -
  let ?h = "br_host (recorded b)"
  note a = assms [unfolded attempt_in_worktree_def Let_def]
  show ?thesis
  proof (cases "build_codex_command (task_role task) executable sandbox")
    case (Inl e)
    then have "t = s" using a by simp
    then show ?thesis by (intro disjI1 exI [of _ "[]"]) simp
  next
    case (Inr argv)
    obtain u x where m: "run_bounded_process ?h s argv dir order environment (Some (build_codex_prompt (recorded b) task order)) = (u, x)"
      by fastforce
    note a1 = a [unfolded Inr sbind_pure_Inr m]
    from run_bounded_passed [OF m] obtain n1 where n1: "snd u = snd s @ n1" "list_all quiet n1"
      and p1: "\<And>receipt. x = Inr receipt \<Longrightarrow> status_passed receipt = Inr True \<Longrightarrow>
        \<exists>so se c. n1 = [Ran c (Exited 0 so se)] \<and> cmd_cwd c = Some dir \<and> cmd_env c = Some environment" by fastforce
    show ?thesis
    proof (cases "\<exists>receipt. x = Inr receipt \<and> status_passed receipt = Inr True")
      case False
      then have "t = u" using a1 by (cases x; cases "status_passed (projr x)") (auto split: if_split_asm)
      then show ?thesis using n1 by blast
    next
      case True
      then obtain codex where x: "x = Inr codex" "status_passed codex = Inr True" by blast
      from p1 [OF x] obtain so se c where c: "n1 = [Ran c (Exited 0 so se)]" "cmd_cwd c = Some dir" "cmd_env c = Some environment"
        by blast
      obtain v y where m2: "run_bounded_process ?h u (check_command rp) dir order environment None = (v, y)" by fastforce
      note a2 = a1 [unfolded x(1) sbind.simps x(2) sbind_pure_Inr, simplified, unfolded m2]
      from run_bounded_passed [OF m2] obtain n2 where n2: "snd v = snd u @ n2" "list_all quiet n2"
        and p2: "\<And>receipt. y = Inr receipt \<Longrightarrow> status_passed receipt = Inr True \<Longrightarrow>
          \<exists>so se d. n2 = [Ran d (Exited 0 so se)] \<and> cmd_argv d = check_command rp \<and> cmd_cwd d = Some dir \<and> cmd_env d = Some environment"
        by fastforce
      show ?thesis
      proof (cases "\<exists>receipt. y = Inr receipt \<and> status_passed receipt = Inr True")
        case False
        then have "t = v" using a2 by (cases y; cases "status_passed (projr y)") (auto split: if_split_asm)
        then show ?thesis using n1 n2 by (intro disjI1 exI [of _ "n1 @ n2"]) simp
      next
        case True
        then obtain checked where y: "y = Inr checked" "status_passed checked = Inr True" by blast
        from p2 [OF y] obtain so' se' d where d: "n2 = [Ran d (Exited 0 so' se')]" "cmd_argv d = check_command rp"
          "cmd_cwd d = Some dir" "cmd_env d = Some environment" by blast
        obtain w z where m3: "reconcile_before_publication schema (recorded b) v task order agent g = (w, z)" by fastforce
        note a3 = a2 [unfolded y(1) sbind.simps y(2) sbind_pure_Inr, simplified, unfolded m3]
        from reconcile_log [OF m3] obtain reads now where reads: "snd w = snd v @ reads" "list_all (is_read g) reads"
          and led: "\<forall>ledger. z = Inr ledger \<longrightarrow> parse_broker_ledger (concat (map reply_items reads)) now TRUSTED_QUEUE_AUTHORS = Inr ledger
             \<and> authorize_work_order schema order ledger (broker_policy task agent) now = Inr Secretless"
          by (elim exE conjE) (rule that)
        show ?thesis
        proof (cases z)
          case (Inl e)
          then have "t = w" using a3 by simp
          moreover have "list_all quiet reads" using reads(2) read_quiet by (auto simp: list_all_iff)
          ultimately show ?thesis using n1 n2 reads(1) by (intro disjI1 exI [of _ "n1 @ n2 @ reads"]) simp
        next
          case (Inr ledger)
          let ?m = "sbind (publish_checked_changes (recorded b) w dir task order g) (\<lambda>w url. (w, rbind (published_receipt checked url) (\<lambda>r. Inr (r, Some url))))"
          have "?m = (t, r)" using a3 Inr by simp
          then have "t = fst ?m" by simp
          then have "t = fst (publish_checked_changes (recorded b) w dir task order g)" unfolding fst_sbind_ret .
          then obtain rest where "snd t = snd w @ rest" using publish_emits by blast
          moreover have "cleared schema task order agent rp dir environment g (n1 @ n2 @ reads)"
            unfolding cleared_def using c d reads(2) led Inr by (auto intro!: exI)
          ultimately show ?thesis using n1(1) n2(1) reads(1) by (intro disjI2 exI [of _ "n1 @ n2 @ reads"] exI [of _ rest]) simp
        qed
      qed
    qed
  qed
qed

section \<open>Times are read back\<close>

lemma days_before_year_split:
  fixes a b c e :: int
  assumes "0 \<le> b" "b \<le> 3" "0 \<le> c" "c \<le> 24" "0 \<le> e" "e \<le> 3"
  shows "days_before_year (400 * a + 100 * b + 4 * c + e + 1) = 146097 * a + 36524 * b + 1461 * c + 365 * e"
proof -
  let ?z = "400 * a + 100 * b + 4 * c + e"
  have "?z div 4 = 100 * a + 25 * b + c" "?z div 100 = 4 * a + b" "?z div 400 = a" using assms by linarith+
  then show ?thesis by (simp add: days_before_year_def Let_def)
qed

lemma leap_year_split:
  fixes a b c :: int
  assumes "0 \<le> b" "b \<le> 3" "0 \<le> c" "c \<le> 24" "c = 24 \<longrightarrow> b = 3"
  shows "leap_year (400 * a + 100 * b + 4 * c + 4)"
proof (cases "c = 24")
  case True
  then have e: "400 * a + 100 * b + 4 * c + 4 = 400 * (a + 1)" using assms by simp
  show ?thesis unfolding e leap_year_def by presburger
next
  case False
  have "(400 * a + 100 * b + 4 * c + 4) mod 4 = 0" by presburger
  moreover have "(400 * a + 100 * b + 4 * c + 4) mod 100 = 4 * c + 4"
  proof -
    have "400 * a + 100 * b + 4 * c + 4 = 100 * (4 * a + b) + (4 * c + 4)" by simp
    moreover have "0 \<le> 4 * c + 4" "4 * c + 4 < 100" using False assms by linarith+
    ultimately show ?thesis by (metis mod_mult_self4 mod_pos_pos_trivial)
  qed
  ultimately show ?thesis using assms(3) by (simp add: leap_year_def)
qed

lemma year_of_correct:
  assumes "year_of n = (y, d)"
  shows "days_before_year y + d = n \<and> 0 \<le> d \<and> d < (if leap_year y then 366 else 365)"
proof -
  define a r where "a = n div 146097" and "r = n mod 146097"
  define b r2 where "b = r div 36524" and "r2 = r mod 36524"
  define c r3 where "c = r2 div 1461" and "r3 = r2 mod 1461"
  define e r4 where "e = r3 div 365" and "r4 = r3 mod 365"
  have n: "n = 146097 * a + r" "0 \<le> r" "r < 146097" unfolding a_def r_def by simp_all
  have r: "r = 36524 * b + r2" "0 \<le> r2" "r2 < 36524" unfolding b_def r2_def by simp_all
  have r2: "r2 = 1461 * c + r3" "0 \<le> r3" "r3 < 1461" unfolding c_def r3_def by simp_all
  have r3: "r3 = 365 * e + r4" "0 \<le> r4" "r4 < 365" unfolding e_def r4_def by simp_all
  have b: "0 \<le> b" "b \<le> 4" using n r by linarith+
  have c: "0 \<le> c" "c \<le> 24" using r r2 by linarith+
  have e: "0 \<le> e" "e \<le> 4" using r2 r3 by linarith+
  have y: "year_of n = (if e = 4 \<or> b = 4 then (a * 400 + b * 100 + c * 4 + e, 365) else (a * 400 + b * 100 + c * 4 + e + 1, r4))"
    by (simp add: year_of_def Let_def a_def b_def c_def e_def r_def r2_def r3_def r4_def)
  consider (b4) "b = 4" | (e4) "b \<le> 3" "e = 4" | (plain) "b \<le> 3" "e \<le> 3" using b e by linarith
  then show ?thesis
  proof cases
    case b4
    then have z: "r2 = 0" using n r by linarith
    then have "c = 0" "e = 0" "r4 = 0" using r2 r3 c e by linarith+
    then have yd: "y = 400 * a + 100 * 3 + 4 * 24 + 3 + 1" "d = 365" using assms b4 unfolding y by auto
    have "days_before_year y = 146097 * a + 36524 * 3 + 1461 * 24 + 365 * 3"
      unfolding yd(1) by (rule days_before_year_split) simp_all
    moreover have "leap_year y" using leap_year_split [of 3 24 a] unfolding yd(1) by simp
    ultimately show ?thesis using n(1) r(1) b4 z yd(2) by simp
  next
    case e4
    then have z: "r4 = 0" using r2 r3 by linarith
    have yd: "y = 400 * a + 100 * b + 4 * c + 3 + 1" "d = 365" using assms e4 unfolding y by auto
    have "days_before_year y = 146097 * a + 36524 * b + 1461 * c + 365 * 3"
      unfolding yd(1) using b c e4 by (intro days_before_year_split) simp_all
    moreover have "leap_year y"
    proof -
      have "c = 24 \<longrightarrow> b = 3" using r r2 r3 e4(2) z by linarith
      then show ?thesis using leap_year_split [of b c a] b c e4 unfolding yd(1) by (simp add: algebra_simps)
    qed
    ultimately show ?thesis using n(1) r(1) r2(1) r3(1) e4 z yd(2) by simp
  next
    case plain
    then have yd: "y = 400 * a + 100 * b + 4 * c + e + 1" "d = r4" using assms unfolding y by auto
    have "days_before_year y = 146097 * a + 36524 * b + 1461 * c + 365 * e"
      unfolding yd(1) using b c e plain by (intro days_before_year_split) simp_all
    then show ?thesis using n(1) r(1) r2(1) r3 yd(2) by simp
  qed
qed

lemma days_before_month_Suc: "1 \<le> m \<Longrightarrow> days_before_month y (m + 1) = days_before_month y m + days_in_month y m"
proof -
  assume "1 \<le> m"
  then have "[1..m] = [1..m - 1] @ [m]" by (rule upto_rec2)
  then show ?thesis by (simp add: days_before_month_def)
qed

lemma days_in_month_pos: "28 \<le> days_in_month y m" "days_in_month y m \<le> 31"
  by (auto simp: days_in_month_def)

lemma month_of_correct:
  assumes "month_of y [m..12] d = (mo, day)" and "1 \<le> m" "m \<le> 13" "0 \<le> d" "days_before_month y m + d < days_before_month y 13"
  shows "m \<le> mo \<and> mo \<le> 12 \<and> 1 \<le> day \<and> day \<le> days_in_month y mo \<and> days_before_month y mo + (day - 1) = days_before_month y m + d"
  using assms
proof (induction "nat (13 - m)" arbitrary: m d)
  case 0
  then have "m = 13" by simp
  then show ?case using "0.prems" by simp
next
  case (Suc k)
  then have m: "m \<le> 12" by simp
  then have l: "[m..12] = m # [m + 1..12]" by (rule upto_rec1)
  show ?case
  proof (cases "d < days_in_month y m")
    case True
    then show ?thesis using Suc.prems m unfolding l by simp
  next
    case False
    then have step: "month_of y [m + 1..12] (d - days_in_month y m) = (mo, day)" using Suc.prems(1) unfolding l by simp
    have "k = nat (13 - (m + 1))" using Suc.hyps(2) by simp
    from Suc.hyps(1) [OF this step] show ?thesis
      using Suc.prems m False days_before_month_Suc [of m y] by auto
  qed
qed

lemma days_before_month_13: "days_before_month y 13 = (if leap_year y then 366 else 365)"
proof -
  have "[1..12::int] = [1, 2, 3, 4, 5, 6, 7, 8, 9, 10, 11, 12]" by code_simp
  then show ?thesis by (simp add: days_before_month_def days_in_month_def)
qed

lemma date_of_correct:
  assumes "date_of n = (y, mo, d)"
  shows "days_before_year y + days_before_month y mo + (d - 1) = n"
    and "1 \<le> mo" "mo \<le> 12" "1 \<le> d" "d \<le> days_in_month y mo"
proof -
  obtain dy where yd: "year_of n = (y, dy)" "month_of y [1..12] dy = (mo, d)"
    using assms by (auto simp: date_of_def split: prod.splits)
  note c = year_of_correct [OF yd(1)]
  have "days_before_month y 1 = 0" by (simp add: days_before_month_def)
  with month_of_correct [OF yd(2)] c days_before_month_13 [of y]
  show "days_before_year y + days_before_month y mo + (d - 1) = n" "1 \<le> mo" "mo \<le> 12" "1 \<le> d" "d \<le> days_in_month y mo"
    by simp_all
qed

lemma div_pred:
  fixes k y :: int
  assumes "0 < k"
  shows "y div k = (y - 1) div k + (if y mod k = 0 then 1 else 0)"
proof (cases "y mod k = 0")
  case True
  then obtain q where q: "y = q * k" by (metis mult.commute mult_div_mod_eq add.right_neutral)
  have "y - 1 = (k - 1) + (q - 1) * k" unfolding q by (simp add: algebra_simps)
  then have "(y - 1) div k = (q - 1) + (k - 1) div k" using assms by (metis div_mult_self1 less_irrefl)
  moreover have "(k - 1) div k = 0" using assms by (intro div_pos_pos_trivial) linarith+
  ultimately show ?thesis using True assms by (simp add: q)
next
  case False
  have m: "0 \<le> y mod k" "y mod k < k" using assms by simp_all
  have "y - 1 = (y mod k - 1) + (y div k) * k" by (simp add: algebra_simps)
  then have "(y - 1) div k = y div k + (y mod k - 1) div k" using assms by (metis div_mult_self1 less_irrefl)
  moreover have "(y mod k - 1) div k = 0" using m False by (intro div_pos_pos_trivial) linarith+
  ultimately show ?thesis using False by simp
qed

lemma days_before_year_Suc: "days_before_year (y + 1) = days_before_year y + (if leap_year y then 366 else 365)"
proof -
  have d: "y div 4 = (y - 1) div 4 + (if y mod 4 = 0 then 1 else 0)"
    "y div 100 = (y - 1) div 100 + (if y mod 100 = 0 then 1 else 0)"
    "y div 400 = (y - 1) div 400 + (if y mod 400 = 0 then 1 else 0)"
    by (rule div_pred, simp)+
  have "(4 :: int) dvd 100" "(100 :: int) dvd 400" by simp_all
  then have m: "y mod 400 = 0 \<longrightarrow> y mod 100 = 0" "y mod 100 = 0 \<longrightarrow> y mod 4 = 0"
    unfolding dvd_eq_mod_eq_0 [symmetric] by (blast intro: dvd_trans)+
  have bools: "(if p \<and> (\<not> q \<or> u) then 366 else 365) = (365 :: int) + (if p then 1 else 0)
      - (if q then 1 else 0) + (if u then 1 else 0)" if "u \<longrightarrow> q" "q \<longrightarrow> p" for p q u using that by (cases p; cases q; cases u) simp_all
  have l: "(if leap_year y then 366 else 365) = (365 :: int) + (if y mod 4 = 0 then 1 else 0)
      - (if y mod 100 = 0 then 1 else 0) + (if y mod 400 = 0 then 1 else 0)" unfolding leap_year_def by (rule bools [OF m])
  have e: "days_before_year (y + 1) = y * 365 + y div 4 - y div 100 + y div 400"
    "days_before_year y = (y - 1) * 365 + (y - 1) div 4 - (y - 1) div 100 + (y - 1) div 400"
    by (simp_all add: days_before_year_def Let_def)
  have sum: "y * 365 + p - q + u = (y - 1) * 365 + p' - q' + u' + (365 + a - b + c)"
    if "p = p' + a" "q = q' + b" "u = u' + c" for p q u p' q' u' a b c :: int using that by simp
  show ?thesis unfolding e l by (rule sum [OF d])
qed

lemma days_before_year_mono: "y \<le> z \<Longrightarrow> days_before_year y \<le> days_before_year z"
proof -
  have step: "days_before_year y \<le> days_before_year (y + 1)" for y
    by (simp add: days_before_year_Suc)
  show "y \<le> z \<Longrightarrow> ?thesis"
  proof (induction "nat (z - y)" arbitrary: z)
    case (Suc k)
    then have "days_before_year y \<le> days_before_year (z - 1)" by simp
    then show ?case using step [of "z - 1"] by simp
  qed simp
qed

lemma date_of_year:
  assumes "date_of n = (y, mo, d)" and "0 \<le> n" "n < days_before_year 10000"
  shows "1 \<le> y" "y \<le> 9999"
proof -
  obtain dy where yd: "year_of n = (y, dy)" using assms(1) by (auto simp: date_of_def split: prod.splits)
  note c = year_of_correct [OF yd]
  show "y \<le> 9999" using c assms(3) days_before_year_mono [of 10000 y] by force
  show "1 \<le> y"
  proof (rule ccontr)
    assume "\<not> 1 \<le> y"
    then have "days_before_year (y + 1) \<le> days_before_year 1" by (intro days_before_year_mono) simp
    moreover have "days_before_year (y + 1) = days_before_year y + (if leap_year y then 366 else 365)"
      by (rule days_before_year_Suc)
    moreover have "days_before_year 1 = 0" by (simp add: days_before_year_def)
    ultimately show False using c assms(2) by (simp split: if_split_asm)
  qed
qed

lemma length_digits [simp]: "length (digits k n) = k"
  by (induction k arbitrary: n) auto

lemma digit_char_code: "0 \<le> d \<Longrightarrow> d < 10 \<Longrightarrow> (of_char (digit_char (nat d)) :: int) = 48 + d"
proof -
  assume d: "0 \<le> d" "d < 10"
  have "(of_char (digit_char (nat d)) :: nat) = 48 + nat d" using d by (simp add: digit_char_def)
  then have "int (of_char (digit_char (nat d))) = 48 + d" using d by linarith
  moreover have "int (of_char (digit_char (nat d))) = (of_char (digit_char (nat d)) :: int)"
    by (cases "digit_char (nat d)") (simp add: of_char_def)
  ultimately show ?thesis by metis
qed

lemma digit_char_is_digit: "0 \<le> d \<Longrightarrow> d < 10 \<Longrightarrow> is_digit (digit_char (nat d))"
  by (simp add: is_digit_def digit_char_def)

lemma digits_all: "list_all is_digit (digits k n)"
  by (induction k arbitrary: n) (simp_all add: digit_char_is_digit)

lemma read_digits_snoc: "read_digits (s @ [c]) = 10 * read_digits s + (of_char c - 48)"
  by (simp add: read_digits_def)

lemma read_digits_digits: "0 \<le> n \<Longrightarrow> n < 10 ^ k \<Longrightarrow> read_digits (digits k n) = n"
proof (induction k arbitrary: n)
  case 0
  then show ?case by (simp add: read_digits_def)
next
  case (Suc k)
  then have "n div 10 < 10 ^ k" by (simp add: div_less_iff_less_mult)
  with Suc show ?case by (simp add: read_digits_snoc digit_char_code)
qed

lemma digits_of_digits: "0 \<le> n \<Longrightarrow> n < 10 ^ k \<Longrightarrow> digits_of k (digits k n @ rest) = Inr (n, rest)"
  by (simp add: digits_of_def digits_all read_digits_digits)

lemma digits_plain: "c \<in> set (digits k n) \<Longrightarrow> is_digit c"
  using digits_all [of k n] by (simp add: list_all_iff)

lemma replace_z_append: "replace_z (a @ b) = replace_z a @ replace_z b"
  by (induction a) auto

lemma digits_Suc_ne: "digits (Suc k) n \<noteq> []"
  by simp

definition clock_text :: "int \<Rightarrow> int \<Rightarrow> int \<Rightarrow> int \<Rightarrow> string" where
  "clock_text h mi s us = digits 2 h @ '':'' @ digits 2 mi @ '':'' @ digits 2 s @ (if us = 0 then [] else ''.'' @ digits 6 us)"

lemma clock_fields_text:
  assumes "0 \<le> h" "h < 100" "0 \<le> mi" "mi < 100" "0 \<le> s" "s < 100" "0 \<le> us" "us < 1000000"
  shows "clock_fields (clock_text h mi s us) = Inr (h, mi, s, us)"
proof -
  have "fraction_micros (if us = 0 then [] else ''.'' @ digits 6 us) = Inr us"
    using assms(7,8) digits_all [of 6 us] digits_Suc_ne [of 5 us]
    by (auto simp: fraction_micros_def read_digits_digits)
  then show ?thesis
    using assms digits_of_digits [of h 2] digits_of_digits [of mi 2] digits_of_digits [of s 2]
    by (simp add: clock_fields_def clock_text_def Let_def)
qed

lemma clock_text_chars: "c \<in> set (clock_text h mi s us) \<Longrightarrow> is_digit c \<or> c = CHR '':'' \<or> c = CHR ''.''"
  unfolding clock_text_def by (auto dest: digits_plain simp del: digits.simps split: if_split_asm)

lemma not_digits: "\<not> is_digit (CHR ''-'')" "\<not> is_digit (CHR ''+'')" "\<not> is_digit (CHR ''Z'')"
  by code_simp+

lemma clock_text_plain:
  "CHR ''-'' \<notin> set (clock_text h mi s us)" "CHR ''+'' \<notin> set (clock_text h mi s us)" "CHR ''Z'' \<notin> set (clock_text h mi s us)"
  using not_digits by (auto dest!: clock_text_chars)

lemma clock_time_text:
  assumes "0 \<le> h" "h < 100" "0 \<le> mi" "mi < 100" "0 \<le> s" "s < 100" "0 \<le> us" "us < 1000000"
  shows "clock_time (clock_text h mi s us @ ''+00:00'') = Inr ((h, mi, s, us), Some 0)"
proof -
  let ?t = "clock_text h mi s us"
  have p: "\<forall>c\<in>set ?t. c \<noteq> CHR ''+''" using clock_text_plain(2) by metis
  have "takeWhile (\<lambda>c. c \<noteq> CHR ''+'') (?t @ ''+00:00'') = ?t" using p by (subst takeWhile_append2) auto
  moreover have "dropWhile (\<lambda>c. c \<noteq> CHR ''+'') (?t @ ''+00:00'') = ''+00:00''" using p by (subst dropWhile_append2) auto
  ultimately have "zone_split (?t @ ''+00:00'') = (?t, ''+00:00'')" using clock_text_plain(1) by (simp add: zone_split_def)
  moreover have "tz_offset (CHR ''+'') ''00:00'' = Inr 0" by code_simp
  ultimately show ?thesis by (simp add: clock_time_def clock_fields_text [OF assms])
qed

lemma calendar_date_text:
  assumes "0 \<le> y" "y < 10000" "0 \<le> mo" "mo < 100" "0 \<le> d" "d < 100"
  shows "calendar_date (digits 4 y @ ''-'' @ digits 2 mo @ ''-'' @ digits 2 d @ r) = Inr ((y, mo, d), r)"
  using assms digits_of_digits [of y 4] digits_of_digits [of mo 2] digits_of_digits [of d 2]
  by (simp add: calendar_date_def Let_def)

lemma iso_utc_split:
  fixes t :: int
  defines "s \<equiv> t div 1000000"
  defines "m \<equiv> s div 60"
  defines "h \<equiv> m div 60"
  shows "t = (((h div 24 * 24 + h mod 24) * 60 + m mod 60) * 60 + s mod 60) * 1000000 + t mod 1000000"
  unfolding s_def m_def h_def by (simp only: div_mult_mod_eq)

lemma parse_iso_utc:
  assumes "0 \<le> t" "t < MAX_MICROS"
  shows "\<exists>d. parse_instant (iso_utc t) = Inr d \<and> dt_offset d = Some 0 \<and> utc_micros d = t"
proof -
  define s where "s = t div 1000000"
  define m where "m = s div 60"
  define h where "h = m div 60"
  obtain y mo d where ymd: "date_of (h div 24) = (y, mo, d)" by (metis prod_cases3)
  note date = date_of_correct [OF ymd]
  have n: "0 \<le> h div 24" "h div 24 < days_before_year 10000"
    using assms unfolding s_def m_def h_def MAX_MICROS_def by (simp_all add: zdiv_zmult2_eq [symmetric] div_less_iff_less_mult days_before_year_def)
  note year = date_of_year [OF ymd n]
  have d31: "d \<le> 31" using date(5) days_in_month_pos(2) [of y mo] by linarith
  let ?c = "clock_text (h mod 24) (m mod 60) (s mod 60) (t mod 1000000)"
  have written: "iso_utc t = (digits 4 y @ ''-'' @ digits 2 mo @ ''-'' @ digits 2 d @ ''T'' @ ?c) @ ''Z''"
    using ymd by (simp add: iso_utc_def Let_def clock_text_def s_def m_def h_def)
  have "CHR ''Z'' \<notin> set (digits 4 y @ ''-'' @ digits 2 mo @ ''-'' @ digits 2 d @ ''T'' @ ?c)"
  proof -
    show ?thesis using clock_text_plain(3) not_digits(3) by (auto dest!: digits_plain simp del: digits.simps)
  qed
  then have z: "replace_z (iso_utc t) = digits 4 y @ ''-'' @ digits 2 mo @ ''-'' @ digits 2 d @ (''T'' @ ?c @ ''+00:00'')"
    unfolding written by (subst replace_z_append) (simp add: replace_z_id)
  let ?d = "\<lparr> dt_year = y, dt_month = mo, dt_day = d, dt_hour = h mod 24, dt_minute = m mod 60, dt_second = s mod 60,
               dt_micro = t mod 1000000, dt_offset = Some 0 \<rparr>"
  have cl: "clock_time (?c @ ''+00:00'') = Inr ((h mod 24, m mod 60, s mod 60, t mod 1000000), Some 0)"
    by (rule clock_time_text) (simp_all add: order_less_le_trans [OF pos_mod_bound])
  have "valid_datetime ?d" using date year by (simp add: valid_datetime_def)
  then have "parse_instant (iso_utc t) = Inr ?d"
    unfolding parse_instant_def z fromisoformat_def
    using calendar_date_text [of y mo d "''T'' @ ?c @ ''+00:00''"] year date d31 cl by simp
  moreover have "utc_micros ?d = t"
  proof -
    have "t = (((h div 24 * 24 + h mod 24) * 60 + m mod 60) * 60 + s mod 60) * 1000000 + t mod 1000000"
      using iso_utc_split [of t] unfolding s_def m_def h_def .
    then show ?thesis using date(1) by (simp add: utc_micros_def)
  qed
  ultimately show ?thesis by auto
qed

lemma deadline_round_trip: "0 \<le> t \<Longrightarrow> t < MAX_MICROS \<Longrightarrow> parse_deadline (iso_utc t) = Inr t"
proof -
  assume t: "0 \<le> t" "t < MAX_MICROS"
  from parse_iso_utc [OF this] obtain d where d: "parse_instant (iso_utc t) = Inr d" "dt_offset d = Some 0" "utc_micros d = t" by blast
  then have e: "d\<lparr>dt_offset := Some 0\<rparr> = d" by (cases d) simp
  show ?thesis using d(2,3) t by (simp add: parse_deadline_def as_utc_def Let_def d(1) e)
qed

section \<open>What stands on the queue\<close>

text \<open>
  The verdict of one comment, read on its own: the task that it concerns, and the task that it makes
  executable, if it does. A comment that is not trusted, and one without a directive, says nothing.
\<close>

definition verdict :: "string list \<Rightarrow> json \<Rightarrow> (string \<times> queue_task option) option res" where
  "verdict authors comment =
     rbind (is_trusted authors comment) (\<lambda>trusted.
     if \<not> trusted then Inr None
     else rbind (comment_body comment) (\<lambda>body. rbind (comment_id comment) (\<lambda>i.
       Inr (case (search TASK_START body, search CANCEL_TASK body, search TERMINAL_TASK body) of
              (Some g, _) \<Rightarrow> Some (grp g ''task'', task_of_body body i)
            | (None, Some g, _) \<Rightarrow> Some (grp g ''task'', None)
            | (None, None, Some g) \<Rightarrow> Some (grp g ''task'', None)
            | _ \<Rightarrow> None))))"

text \<open>The tasks that stand: made executable by a comment that no later comment about the task follows.\<close>

fun standing :: "(string \<times> queue_task option) option list \<Rightarrow> queue_task list" where
  "standing [] = []"
| "standing (v # vs) =
     (case v of Some (t, Some x) \<Rightarrow> if t \<in> {fst d | d. Some d \<in> set vs} then [] else [x] | _ \<Rightarrow> []) @ standing vs"

definition listing :: "queue_state \<Rightarrow> queue_task list" where
  "listing s = concat (map (\<lambda>t. case map_of (active s) t of None \<Rightarrow> [] | Some x \<Rightarrow> [x]) (task_order s))"

definition queue_ok :: "queue_state \<Rightarrow> bool" where
  "queue_ok s \<longleftrightarrow> distinct (task_order s) \<and> distinct (map fst (active s)) \<and> fst ` set (active s) \<subseteq> set (task_order s)
     \<and> (\<forall>(t, x) \<in> set (active s). task_id x = t)"

fun apply_verdict :: "queue_task list \<Rightarrow> (string \<times> queue_task option) option \<Rightarrow> queue_task list" where
  "apply_verdict l None = l"
| "apply_verdict l (Some (t, v)) = filter (\<lambda>x. task_id x \<noteq> t) l @ (case v of None \<Rightarrow> [] | Some x \<Rightarrow> [x])"

lemma task_of_body_id: "task_of_body body i = Some x \<Longrightarrow> search TASK_START body = Some g \<Longrightarrow> task_id x = grp g ''task''"
  by (auto simp: task_of_body_def Let_def split: option.splits if_split_asm)

lemma verdict_id: "verdict authors c = Inr (Some (t, Some x)) \<Longrightarrow> task_id x = t"
  by (auto simp: verdict_def res_simps task_of_body_id split: option.splits if_split_asm)

lemma listing_filter:
  assumes "queue_ok s"
  shows "concat (map (\<lambda>u. case map_of (AList.delete t (active s)) u of None \<Rightarrow> [] | Some x \<Rightarrow> [x]) (task_order s))
    = filter (\<lambda>x. task_id x \<noteq> t) (listing s)"
    and "concat (map (\<lambda>u. case map_of (AList.delete t (active s)) u of None \<Rightarrow> [] | Some x \<Rightarrow> [x]) (remove1 t (task_order s)))
    = filter (\<lambda>x. task_id x \<noteq> t) (listing s)"
proof -
  let ?f = "\<lambda>u. case map_of (active s) u of None \<Rightarrow> [] | Some x \<Rightarrow> [x]"
  let ?g = "\<lambda>u. case map_of (AList.delete t (active s)) u of None \<Rightarrow> [] | Some x \<Rightarrow> [x]"
  have id: "task_id x = u" if "map_of (active s) u = Some x" for u x
    using assms map_of_SomeD [OF that] by (auto simp: queue_ok_def)
  have g: "?g u = filter (\<lambda>x. task_id x \<noteq> t) (?f u)" for u
    using id [of u] by (cases "u = t") (auto simp: map_of_delete split: option.split)
  then have all: "concat (map ?g us) = filter (\<lambda>x. task_id x \<noteq> t) (concat (map ?f us))" for us
    by (induction us) simp_all
  then show "concat (map ?g (task_order s)) = filter (\<lambda>x. task_id x \<noteq> t) (listing s)" by (simp add: listing_def)
  have "concat (map ?g (remove1 t us)) = concat (map ?g us)" for us
    by (induction us) (auto simp: map_of_delete)
  then show "concat (map ?g (remove1 t (task_order s))) = filter (\<lambda>x. task_id x \<noteq> t) (listing s)" using all by (simp add: listing_def)
qed

lemma delete_subset: "set (AList.delete t al) \<subseteq> set al"
  by (auto simp: AList.delete_eq)

lemma delete_key: "p \<in> set (AList.delete t al) \<Longrightarrow> fst p \<noteq> t"
  by (auto simp: AList.delete_eq)

lemma queue_ok_delete: "queue_ok s \<Longrightarrow> queue_ok (s\<lparr>active := AList.delete t (active s)\<rparr>)"
  unfolding queue_ok_def using delete_subset [of t "active s"] by (simp add: subset_eq Ball_def)

lemma queue_ok_deactivate: "queue_ok s \<Longrightarrow> queue_ok (deactivate s t)"
  unfolding queue_ok_def deactivate_def using delete_subset [of t "active s"] delete_key [of _ t "active s"]
  by (simp add: subset_eq Ball_def)

lemma queue_ok_activate:
  assumes "queue_ok s" "task_id x = t"
  shows "queue_ok \<lparr> active = AList.update t x (active s), task_order = remove1 t (task_order s) @ [t] \<rparr>"
proof -
  have "task_id y = u" if "(u, y) \<in> set (AList.update t x (active s))" for u y
  proof -
    have "distinct (map fst (AList.update t x (active s)))" using assms by (simp add: queue_ok_def)
    then have "map_of (AList.update t x (active s)) u = Some y" using that by (simp only: map_of_is_SomeI)
    then show ?thesis using assms by (auto simp: queue_ok_def split: if_split_asm dest: map_of_SomeD)
  qed
  then show ?thesis using assms by (auto simp: queue_ok_def)
qed

text \<open>One comment: the state changes as the verdict says, and an invalid comment fails both alike.\<close>

lemma queue_step_verdict:
  assumes "queue_ok s"
  shows "case verdict authors c of
      Inl e \<Rightarrow> queue_step authors s c = Inl e
    | Inr v \<Rightarrow> \<exists>s'. queue_step authors s c = Inr s' \<and> queue_ok s' \<and> listing s' = apply_verdict (listing s) v"
proof (cases "is_trusted authors c")
  case (Inl e)
  then show ?thesis by (simp add: verdict_def queue_step_def)
next
  case (Inr trusted)
  then obtain d where c: "c = JObj d" by (cases c) (simp_all add: is_trusted_def get_attr_def)
  obtain body i where b: "comment_body c = Inr body" "comment_id c = Inr i"
    by (simp add: c comment_body_def comment_id_def get_attr_def)
  have none: "s\<lparr>active := active s\<rparr> = s" by simp
  show ?thesis
  proof (cases trusted)
    case False
    then show ?thesis using Inr assms by (simp add: verdict_def queue_step_def)
  next
    case True
    note v = Inr b True
    consider (start) g where "search TASK_START body = Some g"
      | (cancel) g where "search TASK_START body = None" "search CANCEL_TASK body = Some g"
      | (end_of) g where "search TASK_START body = None" "search CANCEL_TASK body = None" "search TERMINAL_TASK body = Some g"
      | (plain) "search TASK_START body = None" "search CANCEL_TASK body = None" "search TERMINAL_TASK body = None" by fastforce
    then show ?thesis
    proof cases
      case start
      let ?t = "grp g ''task''"
      have p: "parse_ready_local_tasks [c] authors = Inr (case task_of_body body i of None \<Rightarrow> [] | Some x \<Rightarrow> [x])"
        using v by (simp add: parse_ready_local_tasks_def trusted_comments_def)
      show ?thesis
      proof (cases "task_of_body body i")
        case None
        then show ?thesis using v start p assms listing_filter(1) [OF assms, of ?t] queue_ok_delete [OF assms]
          by (simp add: verdict_def queue_step_def directive_step_def listing_def)
      next
        case (Some x)
        then have id: "task_id x = ?t" using start by (rule task_of_body_id)
        let ?s = "\<lparr> active = AList.update ?t x (active s), task_order = remove1 ?t (task_order s) @ [?t] \<rparr>"
        have "listing ?s = filter (\<lambda>x. task_id x \<noteq> ?t) (listing s) @ [x]"
        proof -
          have "?t \<notin> set (remove1 ?t (task_order s))" using assms by (simp add: queue_ok_def)
          then have "map (\<lambda>u. case map_of (AList.update ?t x (active s)) u of None \<Rightarrow> [] | Some x \<Rightarrow> [x]) (remove1 ?t (task_order s))
            = map (\<lambda>u. case map_of (AList.delete ?t (active s)) u of None \<Rightarrow> [] | Some x \<Rightarrow> [x]) (remove1 ?t (task_order s))"
            by (intro map_cong) auto
          then show ?thesis using listing_filter(2) [OF assms, of ?t] unfolding listing_def by (simp only: queue_state.simps map_append concat_append) simp
        qed
        then show ?thesis using v start p Some id queue_ok_activate [OF assms id]
          by (simp add: verdict_def queue_step_def directive_step_def)
      qed
    next
      case cancel
      then show ?thesis using v listing_filter(2) [OF assms, of "grp g ''task''"] queue_ok_deactivate [OF assms]
        by (simp add: verdict_def queue_step_def listing_def deactivate_def)
    next
      case end_of
      then show ?thesis using v listing_filter(2) [OF assms, of "grp g ''task''"] queue_ok_deactivate [OF assms]
        by (simp add: verdict_def queue_step_def listing_def deactivate_def)
    next
      case plain
      then show ?thesis using v assms by (simp add: verdict_def queue_step_def)
    qed
  qed
qed

lemma queue_run_verdicts:
  "queue_ok s \<Longrightarrow> rbind (rfold (queue_step authors) s cs) (\<lambda>s. Inr (listing s))
     = rbind (rmap (verdict authors) cs) (\<lambda>vs. Inr (foldl apply_verdict (listing s) vs))"
proof (induction cs arbitrary: s)
  case (Cons c cs)
  note q = queue_step_verdict [OF Cons.prems, of authors c]
  show ?case
  proof (cases "verdict authors c")
    case (Inr v)
    then obtain s' where s': "queue_step authors s c = Inr s'" "queue_ok s'" "listing s' = apply_verdict (listing s) v"
      using q by auto
    then show ?thesis using Cons.IH [OF s'(2)] Inr by (cases "rmap (verdict authors) cs") simp_all
  qed (use q in simp)
qed simp

lemma standing_snoc:
  "(\<And>t x. Some (t, Some x) \<in> set vs \<Longrightarrow> task_id x = t) \<Longrightarrow> standing (vs @ [v]) = apply_verdict (standing vs) v"
proof (induction vs)
  case Nil
  then show ?case by (cases v) (auto split: option.split)
next
  case (Cons u vs)
  then have IH: "standing (vs @ [v]) = apply_verdict (standing vs) v" by simp
  have id: "u = Some (t, Some x) \<Longrightarrow> task_id x = t" for t x using Cons.prems by simp
  show ?case
    using IH id by (cases v) (auto split: option.split)
qed

lemma standing_fold:
  "(\<And>t x. Some (t, Some x) \<in> set vs \<Longrightarrow> task_id x = t) \<Longrightarrow> foldl apply_verdict [] vs = standing vs"
  by (induction vs rule: rev_induct) (simp_all add: standing_snoc)

lemma active_tasks_standing:
  "active_ready_local_tasks comments authors = rbind (rmap (verdict authors) comments) (\<lambda>vs. Inr (standing vs))"
proof -
  let ?s = "\<lparr> active = [], task_order = [] \<rparr> :: queue_state"
  have "queue_ok ?s" "listing ?s = []" by (simp_all add: queue_ok_def listing_def)
  then have "active_ready_local_tasks comments authors
      = rbind (rmap (verdict authors) comments) (\<lambda>vs. Inr (foldl apply_verdict [] vs))"
    using queue_run_verdicts [of ?s authors comments] by (simp add: active_ready_local_tasks_def listing_def)
  also have "\<dots> = rbind (rmap (verdict authors) comments) (\<lambda>vs. Inr (standing vs))"
  proof (intro rbind_cong refl)
    fix vs
    assume "rmap (verdict authors) comments = Inr vs"
    then have "task_id x = t" if "Some (t, Some x) \<in> set vs" for t x
      using that verdict_id by (auto simp: rmap_Inr_set)
    then show "Inr (foldl apply_verdict [] vs) = Inr (standing vs)" by (simp add: standing_fold)
  qed
  finally show ?thesis .
qed

section \<open>One run\<close>

lemma worker_environment_names:
  "(k, v) \<in> set (codex_worker_environment worker_home codex_home source) \<Longrightarrow>
     (k, v) \<in> {(''HOME'', worker_home), (''USERPROFILE'', worker_home), (''CODEX_HOME'', codex_home)}
     \<or> (k, v) \<in> set source \<and> upper k \<in> set WORKER_NAMES \<and> search SECRET_ENV_NAME k = None"
proof -
  assume "(k, v) \<in> set (codex_worker_environment worker_home codex_home source)"
  moreover have "set (AList.update a b al) \<subseteq> insert (a, b) (set al)" for a b and al :: env
    by (induction al) auto
  note upd = subsetD [OF this]
  ultimately show ?thesis unfolding codex_worker_environment_def by (auto dest!: upd)
qed

lemma cleared_quiet: "cleared schema task order agent rp dir environment g pass \<Longrightarrow> list_all quiet pass"
proof -
  assume "cleared schema task order agent rp dir environment g pass"
  then obtain codex check reads so se so' se' where p: "pass = Ran codex (Exited 0 so se) # Ran check (Exited 0 so' se') # reads"
    "cmd_env codex = Some environment" "cmd_env check = Some environment" "list_all (is_read g) reads"
    unfolding cleared_def by (elim exE conjE) (rule that)
  then have "list_all quiet reads" using read_quiet by (auto simp: list_all_iff)
  then show ?thesis unfolding p(1) using p(2,3) by (simp add: quiet_def publishes_def)
qed

lemma remove_command_quiet: "quiet (Ran (remove_command repo dir) out)"
  by (simp add: quiet_def publishes_def remove_command_def plain_def)

lemma isolated_worktree_quiet: "emits snd quiet s (isolated_worktree (br_host (recorded b)) s repo order base)"
  by (rule recorded.isolated_worktree_emits) (simp add: quiet_def publishes_def plain_def)

lemma run_shape:
  assumes r: "run_local_codex_task schema (recorded b) (w, []) task order ledger agent rp root worker_home codex_home g executable sandbox
      = ((w', l), r)" and e: "e \<in> set l" "publishes e"
  shows "authorize_work_order schema order ledger (broker_policy task agent) (snd (host_clock (br_host b) w)) = Inr Secretless"
    and "\<exists>dir source setup pass rest out.
       l = setup @ pass @ rest @ [Ran (remove_command (policy_path rp) dir) out] \<and> list_all quiet setup \<and> e \<in> set rest
       \<and> cleared schema task order agent rp dir (codex_worker_environment worker_home codex_home source) g pass"
proof -
  let ?h = "br_host (recorded b)"
  obtain t now where c: "host_clock ?h (w, []) = (t, now)" by fastforce
  then have now: "now = snd (host_clock (br_host b) w)" "snd t = []"
    by (auto simp: recorded_def Let_def split: prod.splits)
  note a = r [unfolded run_local_codex_task_def Let_def c prod.case]
  have auth: "authorize_work_order schema order ledger (broker_policy task agent) now = Inr Secretless"
  proof (cases "authorize_work_order schema order ledger (broker_policy task agent) now")
    case (Inl x)
    then show ?thesis using a e now by (auto simp: pure_res_def)
  next
    case (Inr lane)
    then show ?thesis using a e now by (cases lane) (auto simp: pure_res_def work_error_def)
  qed
  then show "authorize_work_order schema order ledger (broker_policy task agent) (snd (host_clock (br_host b) w)) = Inr Secretless"
    by (simp add: now)
  obtain t1 r1 where m: "isolated_worktree ?h t (policy_path rp) order root = (t1, r1)" by fastforce
  have prep: "list_all quiet (snd t1)" using isolated_worktree_quiet [of t b "policy_path rp" order root] now(2) by (simp add: m emits_def)
  note a1 = a [unfolded auth sbind_pure_Inr m]
  show "\<exists>dir source setup pass rest out.
       l = setup @ pass @ rest @ [Ran (remove_command (policy_path rp) dir) out] \<and> list_all quiet setup \<and> e \<in> set rest
       \<and> cleared schema task order agent rp dir (codex_worker_environment worker_home codex_home source) g pass"
  proof (cases r1)
    case (Inl x)
    then have "snd t1 = l" using a1 by auto
    then show ?thesis using prep e by (auto simp: list_all_iff quiet_def)
  next
    case (Inr dir)
    let ?src = "host_environ ?h t1"
    let ?env = "codex_worker_environment worker_home codex_home ?src"
    obtain t2 r2 where b: "attempt_in_worktree schema (recorded b) t1 task order agent rp dir ?env g executable sandbox = (t2, r2)" by fastforce
    have "(w', l) = fst (and_finally (t2, r2) (\<lambda>w. destroy_worktree ?h w (policy_path rp) dir))"
      using a1 Inr by (simp add: b)
    then have "\<exists>out. l = snd t2 @ [Ran (remove_command (policy_path rp) dir) out]"
      unfolding and_finally_state using recorded.destroy_worktree_log [where b = b and s = t2 and repo = "policy_path rp" and dir = dir]
      by (auto simp: prod_eq_iff)
    then obtain out where l: "l = snd t2 @ [Ran (remove_command (policy_path rp) dir) out]" by blast
    then have in2: "e \<in> set (snd t2)" using e remove_command_quiet by (auto simp: quiet_def)
    from attempt_shape [OF b] show ?thesis
    proof (elim disjE exE conjE)
      fix new assume "snd t2 = snd t1 @ new" "list_all quiet new"
      then show ?thesis using in2 e(2) prep by (auto simp: list_all_iff quiet_def)
    next
      fix pass rest
      assume s2: "snd t2 = snd t1 @ pass @ rest" and cl: "cleared schema task order agent rp dir ?env g pass"
      have "list_all quiet pass" using cl by (rule cleared_quiet)
      then have "e \<in> set rest" using in2 e(2) prep s2 by (auto simp: list_all_iff quiet_def)
      then show ?thesis using l s2 prep cl
        by (intro exI [of _ dir] exI [of _ ?src] exI [of _ "snd t1"] exI [of _ pass] exI [of _ rest] exI [of _ out]) simp
    qed
  qed
qed

lemma issued_order_fields:
  assumes "make_work_order b w task ledger now duration = (w', Inr order)"
  shows "map_of order ''task_id'' = Some (JStr (task_id task))" "map_of order ''repo'' = Some (JStr (task_repo task))"
    "map_of order ''role'' = Some (JStr (task_role task))" "map_of order ''access_class'' = Some (JStr (task_access task))"
    "map_of order ''generation'' = Some (JInt (next_generation (task_id task) ledger))"
    "map_of order ''attempt_id'' = Some (JStr (lower (task_id task) @ ''-'' @ take 12 (snd (br_uuid b w))))"
    "map_of order ''deadline'' = Some (JStr (iso_utc (now + duration)))" "0 \<le> now + duration" "now + duration < MAX_MICROS"
  using assms by (auto simp: make_work_order_def shifted_iso_def Let_def split: prod.splits if_split_asm)

lemma ready_task_valid:
  assumes "parse_ready_local_tasks comments authors = Inr tasks" "task \<in> set tasks"
  shows "task_repo task \<in> set DEFAULT_REPOS" "map_of MODEL_BY_ROLE (task_role task) \<noteq> None" "is_sha (task_ref task)"
proof -
  from assms obtain body i where "task_of_body body i = Some task"
    by (auto simp: parse_ready_local_tasks_def rmap_Inr_set rbind_Inr_iff split: option.splits)
  then show "task_repo task \<in> set DEFAULT_REPOS" "map_of MODEL_BY_ROLE (task_role task) \<noteq> None" "is_sha (task_ref task)"
    by (auto simp: task_of_body_def Let_def split: option.splits if_split_asm)
qed

section \<open>Properties\<close>


definition demo_task :: queue_task where
  "demo_task = \<lparr> task_id = ''T1'', task_repo = ''Pukujan/cortex-v4'', task_access = ''CLOUD_SECRETLESS'', task_ref = ''abc'',
     task_role = ''luna'', task_spec = ''TASK task=T1'', task_comment = None \<rparr>"

definition demo_claim_reply :: string where
  "demo_claim_reply = dumps (JArr [JObj [(''user'', JObj [(''login'', JStr ''Pukujan'')]),
     (''body'', JStr (''CLAIM task=T1'' @ nl @ ''agent=me'' @ nl @ ''lease_until=0001-01-02T00:00:00Z''))]])"

text \<open>A machine whose commands all succeed, a queue that holds one claim, and pull requests out of service.\<close>

definition demo_broker :: "unit broker" where
  "demo_broker =
     \<lparr> br_host = \<lparr> host_clock = (\<lambda>w. (w, 0)), host_run = (\<lambda>w c. (w, Exited 0 ''M a'' [])), host_exists = (\<lambda>w p. False),
         host_mkdir = (\<lambda>w p. (w, Inr ())), host_rmtree = (\<lambda>w p. (w, Inr ())),
         host_environ = (\<lambda>w. [(''PATH'', ''/bin''), (''MY_TOKEN'', ''t'')]), host_seconds = show_int, host_local_offset = (\<lambda>_. 0) \<rparr>,
       br_http = (\<lambda>w q. (w, if req_method q = ''GET'' \<and> ends_with ''/comments?per_page=100&page=1'' (req_url q) then Reply demo_claim_reply else HttpStatus 503)),
       br_render = (\<lambda>v. []),
       br_uuid = (\<lambda>w. (w, ''0123456789abcdef'')) \<rparr>"

definition demo_claims_ledger :: dispatch_ledger where
  "demo_claims_ledger = claim_ledger [(''T1'', \<lparr> claim_task = ''T1'', claim_agent = ''me'', claim_lease = 10, claim_released = False \<rparr>)]"

lemma demo_order_made: "make_work_order demo_broker () demo_task demo_claims_ledger 0 5 = ((), Inr
  [(''version'', JStr ''trusted-local-workorder-v1''), (''project_issue_id'', JInt 94),
   (''work_order_id'', JStr ''wo-t1-0123456789ab''), (''task_id'', JStr ''T1''), (''attempt_id'', JStr ''t1-0123456789ab''),
   (''generation'', JInt 0), (''repo'', JStr ''Pukujan/cortex-v4''), (''starting_ref'', JStr ''abc''), (''role'', JStr ''luna''),
   (''access_class'', JStr ''CLOUD_SECRETLESS''), (''mutation_scope'', strs [''repository-worktree'']),
   (''selected_checks'', strs [''pytest'']), (''deadline'', JStr ''0001-01-01T00:00:00.000005Z''),
   (''closeout_contract'', JStr ''trusted-local-receipt-v1'')])"
  by code_simp

definition demo_work_order :: dict where
  "demo_work_order = projr (snd (make_work_order demo_broker () demo_task demo_claims_ledger 0 5))"

definition demo_github :: github where
  "demo_github = \<lparr> gh_token = ''t'', gh_repo = ''q'', gh_issue = 94 \<rparr>"

definition demo_run :: "(unit \<times> entry list) \<times> (dict \<times> string option) res" where
  "demo_run = run_local_codex_task (\<lambda>_. []) (recorded demo_broker) ((), []) demo_task demo_work_order demo_claims_ledger ''me''
     \<lparr> policy_path = ''/repo'', check_command = [''pytest''] \<rparr> ''/trees'' ''/w'' ''/c'' demo_github
     ''codex'' ''workspace-write''"

lemma demo_worktree: "snd (isolated_worktree (br_host (recorded demo_broker)) ((), []) ''/repo'' demo_work_order ''/trees'')
    = Inr ''/trees/wo-t1-0123456789ab-t1-0123456789ab''"
  by code_simp

lemma demo_process: "rbind (snd (run_bounded_process (br_host (recorded demo_broker)) ((), l) argv dir demo_work_order e p)) status_passed = Inr True"
  by code_simp

lemma demo_reconciled:
  "is_ok (snd (reconcile_before_publication (\<lambda>_. []) (recorded demo_broker) ((), l) demo_task demo_work_order ''me'' demo_github))"
  by code_simp

lemma demo_published:
  "list_ex publishes (snd (fst (publish_checked_changes (recorded demo_broker) ((), l) dir demo_task demo_work_order demo_github)))"
  by (code_simp, simp add: publishes_def)

lemma demo_command: "is_ok (build_codex_command (task_role demo_task) ''codex'' ''workspace-write'')"
  by code_simp

lemma demo_authorized: "authorize_work_order (\<lambda>_. []) demo_work_order demo_claims_ledger (broker_policy demo_task ''me'') 0 = Inr Secretless"
  by code_simp

lemma demo_attempt: "list_ex publishes (snd (fst (attempt_in_worktree (\<lambda>_. []) (recorded demo_broker) ((), l) demo_task demo_work_order ''me''
     rp dir e demo_github ''codex'' ''workspace-write'')))"
proof -
  let ?run = "\<lambda>l argv p. run_bounded_process (br_host (recorded demo_broker)) ((), l) argv dir demo_work_order e p"
  have run: "\<exists>l' receipt. ?run l argv p = (((), l'), Inr receipt) \<and> status_passed receipt = Inr True" for l argv p
    using demo_process [of l argv dir e p] by (cases "?run l argv p") (auto simp: rbind_Inr_iff)
  obtain argv where argv: "build_codex_command (task_role demo_task) ''codex'' ''workspace-write'' = Inr argv"
    using demo_command by (rule is_okE)
  let ?p = "Some (build_codex_prompt (recorded demo_broker) demo_task demo_work_order)"
  from run obtain l1 r1 where r1: "?run l argv ?p = (((), l1), Inr r1)" "status_passed r1 = Inr True" by blast
  from run obtain l2 r2 where r2: "?run l1 (check_command rp) None = (((), l2), Inr r2)" "status_passed r2 = Inr True" by blast
  obtain l3 ledger where r3: "reconcile_before_publication (\<lambda>_. []) (recorded demo_broker) ((), l2) demo_task demo_work_order ''me'' demo_github
      = (((), l3), Inr ledger)"
    using demo_reconciled [of l2]
    by (cases "reconcile_before_publication (\<lambda>_. []) (recorded demo_broker) ((), l2) demo_task demo_work_order ''me'' demo_github")
      (auto elim: is_okE)
  show ?thesis
    unfolding attempt_in_worktree_def Let_def argv sbind_pure_Inr r1 sbind.simps r2 r3 if_False not_True_eq_False fst_sbind_ret
    by (rule demo_published)
qed

lemma logged_pairE:
  fixes p :: "(unit \<times> 'a) \<times> 'b"
  obtains l r where "p = (((), l), r)"
  by (cases p) auto


text \<open>What is executable is what stands on the queue: \<open>active_ready_local_tasks\<close> returns, in the order of the
  comments, exactly the tasks that a trusted comment made executable and that no later trusted
  comment about the same task (a new directive, a cancellation, a \<open>DONE\<close> or \<open>BLOCKED\<close> line) followed,
  and it fails exactly when a comment cannot be read, with the error of the first such comment.\<close>

lemma ready_tasks_stand:
  "active_ready_local_tasks comments authors = rbind (rmap (verdict authors) comments) (\<lambda>vs. Inr (standing vs))"
  by (rule active_tasks_standing)

text \<open>The times that the broker writes are read back exactly: \<open>parse_deadline\<close> of the text of a moment some
  time from now, written as \<open>isoformat\<close> does with the suffix \<open>Z\<close>, is that moment, to the microsecond,
  for every moment of the years 1 to 9999, leap days and century years included.\<close>

lemma deadlines_round_trip:
  assumes "shifted_iso now duration = Inr s"
  shows "parse_deadline s = Inr (now + duration)"
  using assms by (auto simp: shifted_iso_def Let_def deadline_round_trip split: if_split_asm)

lemma demo_century: "shifted_iso 63082281599999999 1 = Inr ''2000-01-01T00:00:00Z''"
  by code_simp


definition ready_body :: string where
  "ready_body = ''TASK task=T1'' @ nl @ ''state=READY'' @ nl @ ''local_role=luna'' @ nl @ ''repo=Pukujan/cortex-v4'' @ nl
     @ ''starting_ref='' @ replicate 40 CHR ''a''"

definition said :: "string \<Rightarrow> json" where
  "said body = JObj [(''user'', JObj [(''login'', JStr ''Pukujan'')]), (''body'', JStr body)]"

definition ready_task :: queue_task where
  "ready_task = demo_task\<lparr>task_ref := replicate 40 CHR ''a'', task_spec := ready_body\<rparr>"

lemma ready_task_parsed: "parse_ready_local_tasks [said ready_body] TRUSTED_QUEUE_AUTHORS = Inr [ready_task]"
  by code_simp


text \<open>
  A comment without a directive is read for its first terminal line only: a second one in the same
  comment leaves its task executable, where the module promises that any later \<open>DONE\<close> or \<open>BLOCKED\<close>
  deactivates it.
\<close>

lemma second_terminal_line_ignored:
  "active_ready_local_tasks [said ready_body, said (''DONE task=T0'' @ nl @ ''DONE task=T1'')] TRUSTED_QUEUE_AUTHORS = Inr [ready_task]"
  by code_simp

end
