(* ===== verification/Supervisor.thy ===== *)
theory Supervisor
  imports Broker
begin

text \<open>
  The host-side supervisor of the broker (\<open>trusted_local_supervisor.py\<close>) and its entry point
  (\<open>scripts/run_trusted_local_broker_supervisor.py\<close>): the release directives of the coordination
  issue, the evidence of the checks, and the replacement of the running broker container.

  The surroundings are the record \<open>dock\<close>: a \<open>host\<close> of \<open>Work_Orders\<close> that runs \<open>git\<close> and \<open>docker\<close>, the
  GitHub API, temporary directories, and \<open>sleep\<close>. Paths are POSIX texts. The evidence of
  \<open>apply_release\<close> is a parameter, as the protocol \<open>GitHubEvidence\<close> has it; \<open>checks_successful\<close> is the
  program's own instance.
\<close>

section \<open>Configuration\<close>

definition REPOSITORY :: string where
  "REPOSITORY = ''Pukujan/fossil-core''"

definition ORIGINS :: "string list" where
  "ORIGINS = [''https://github.com/Pukujan/fossil-core'', ''https://github.com/Pukujan/fossil-core.git'']"

text \<open>\<open>r{0,n}\<close>.\<close>

primrec up_to :: "nat \<Rightarrow> regex \<Rightarrow> regex" where
  "up_to 0 r = Eps"
| "up_to (Suc n) r = opt (Seq r (up_to n r))"

definition VOLUME :: regex where
  "VOLUME = seqs [Bol, word_class [], up_to 127 (word_class ''_.-''), Eol]"

definition FORBIDDEN_MOUNT_NAME :: regex where
  "FORBIDDEN_MOUNT_NAME = alts (ilit ''docker'') (map ilit [''socket'', ''owner'', ''profile'', ''provider'', ''secret'', ''railway'',
     ''credential'', ''home'', ''drive''])"

definition HEALTH_CHECK_ATTEMPTS :: nat where
  "HEALTH_CHECK_ATTEMPTS = 8"

definition HEALTH_CHECK_INTERVAL_SECONDS :: int where
  "HEALTH_CHECK_INTERVAL_SECONDS = 5"

definition supervisor_error :: "string \<Rightarrow> 'a res" where
  "supervisor_error m = Inl (Exn SupervisorError m)"

record supervisor_config =
  repository_path :: string
  broker_config_file :: string
  broker_name :: string
  runtime_network :: string
  broker_parent_github_volume :: string
  worker_codex_volume :: string
  worktree_volume :: string

definition volume_ok :: "string \<Rightarrow> bool" where
  "volume_ok v \<longleftrightarrow> fullmatch VOLUME v \<noteq> None \<and> search FORBIDDEN_MOUNT_NAME v = None"

definition validate_config :: "supervisor_config \<Rightarrow> unit res" where
  "validate_config c =
     (if runtime_network c \<noteq> ''bridge'' then supervisor_error ''only the fixed bridge runtime network is allowed''
      else if broker_name c = [] \<or> CHR ''/'' \<in> set (broker_name c) \<or> starts_with ''.'' (broker_name c)
        then supervisor_error ''invalid broker container name''
      else if \<not> list_all volume_ok [broker_parent_github_volume c, worker_codex_volume c, worktree_volume c]
        then supervisor_error ''mount configuration must contain only named Docker volumes''
      else if \<not> starts_with ''/'' (broker_config_file c)
        then supervisor_error ''broker config file must be an absolute owner-local path''
      else Inr ())"

section \<open>Directives\<close>

definition directive_fields :: "string list \<Rightarrow> (string \<times> string) list" where
  "directive_fields tokens =
     foldl (\<lambda>d t. if CHR ''='' \<in> set t then AList.update (takeWhile (\<lambda>c. c \<noteq> CHR ''='') t) (drop 1 (dropWhile (\<lambda>c. c \<noteq> CHR ''='') t)) d
                  else d) [] tokens"

definition release_of_line :: "string \<Rightarrow> string option" where
  "release_of_line line =
     (case split_words line of
        [] \<Rightarrow> None
      | t # ts \<Rightarrow>
          if t \<noteq> ''BROKER_RELEASE'' then None
          else let fields = directive_fields ts; sha = field_or fields ''reviewed_sha'' [] in
            if map_of fields ''repo'' \<noteq> Some REPOSITORY then None
            else if is_sha sha then Some sha else None)"

definition parse_release_directives :: "json list \<Rightarrow> string list \<Rightarrow> string list res" where
  "parse_release_directives comments authors =
     rbind (trusted_comments authors comments) (\<lambda>trusted.
     rbind (rmap comment_body trusted) (\<lambda>bodies.
       Inr (concat (map (\<lambda>body. List.map_filter release_of_line (splitlines body)) bodies))))"

section \<open>The host\<close>

record 'w dock =
  dk_host :: "'w host"
  dk_http :: "'w \<Rightarrow> http_request \<Rightarrow> 'w \<times> http_reply"
  dk_temp :: "'w \<Rightarrow> 'w \<times> string res"
  dk_untemp :: "'w \<Rightarrow> string \<Rightarrow> 'w \<times> unit res"
  dk_sleep :: "'w \<Rightarrow> int \<Rightarrow> 'w"

definition docker_command :: "string list \<Rightarrow> string option \<Rightarrow> command" where
  "docker_command argv cwd = \<lparr> cmd_argv = argv, cmd_cwd = cwd, cmd_env = None, cmd_stdin = None, cmd_timeout = None \<rparr>"

definition host_step :: "'w dock \<Rightarrow> 'w \<Rightarrow> string list \<Rightarrow> string option \<Rightarrow> 'w \<times> string res" where
  "host_step d w argv cwd =
     (case host_run (dk_host d) w (docker_command argv cwd) of
        (w, Exited c out _) \<Rightarrow> (w, if c \<noteq> 0 then supervisor_error ''host command failed'' else Inr (strip out))
      | (w, NotStarted e) \<Rightarrow> (w, Inl e)
      | (w, TimedOut m) \<Rightarrow> (w, Inl (Exn ExternalError m)))"

definition host_git :: "'w dock \<Rightarrow> 'w \<Rightarrow> string \<Rightarrow> string list \<Rightarrow> 'w \<times> string res" where
  "host_git d w repository args = host_step d w ([''git'', ''-C'', repository] @ args) None"

text \<open>\<open>except SupervisorError\<close>, with the value of the handler.\<close>

definition recover :: "'w \<times> 'a res \<Rightarrow> 'a \<Rightarrow> 'w \<times> 'a res" where
  "recover m v = (case m of (w, Inl e) \<Rightarrow> (w, if exn_isa (exn_class e) SupervisorError then Inr v else Inl e) | (w, Inr x) \<Rightarrow> (w, Inr x))"

section \<open>Evidence\<close>

type_synonym 'w evidence = "'w \<Rightarrow> string \<Rightarrow> 'w \<times> bool res"

definition make_checks :: "string \<Rightarrow> string res" where
  "make_checks token = (if token = [] then supervisor_error ''supervisor GitHub credential is required'' else Inr token)"

definition checks_get :: "'w dock \<Rightarrow> 'w \<Rightarrow> string \<Rightarrow> string \<Rightarrow> 'w \<times> json res" where
  "checks_get d w token url =
     (case dk_http d w \<lparr> req_method = ''GET'', req_url = url,
         req_headers = [(''Accept'', ''application/vnd.github+json''), (''Authorization'', ''Bearer '' @ token),
                        (''User-Agent'', ''fossil-trusted-local-supervisor''), (''X-GitHub-Api-Version'', ''2022-11-28'')],
         req_data = None \<rparr> of
        (w, HttpStatus _) \<Rightarrow> (w, Inl (Exn OSError ''HTTP Error''))
      | (w, Broken e) \<Rightarrow> (w, Inl e)
      | (w, Reply raw) \<Rightarrow> (w, rbind (decode_utf8 raw) (\<lambda>t. of_option (Exn JSONDecodeError []) (loads t))))"

text \<open>\<open>except (HTTPError, OSError, ValueError)\<close>; an \<open>HTTPError\<close> is an \<open>OSError\<close>.\<close>

definition unreadable :: "exn \<Rightarrow> bool" where
  "unreadable e \<longleftrightarrow> exn_isa (exn_class e) OSError \<or> exn_isa (exn_class e) ValueError"

definition is_object :: "json \<Rightarrow> bool" where
  "is_object v \<longleftrightarrow> (case v of JObj _ \<Rightarrow> True | _ \<Rightarrow> False)"

fun release_pages :: "'w dock \<Rightarrow> 'w \<Rightarrow> string \<Rightarrow> nat \<Rightarrow> nat \<Rightarrow> json list \<Rightarrow> 'w \<times> json list res" where
  "release_pages d w token 0 page acc = (w, supervisor_error ''trusted release queue pagination limit reached'')"
| "release_pages d w token (Suc n) page acc =
     (case checks_get d w token (API @ REPOSITORY @ ''/issues/94/comments?per_page=100&page='' @ show_nat page) of
        (w, Inl e) \<Rightarrow> (w, if unreadable e then supervisor_error ''trusted release queue is unreadable'' else Inl e)
      | (w, Inr (JArr batch)) \<Rightarrow>
          (let acc = acc @ filter is_object batch in
           if length batch < 100 then (w, Inr acc) else release_pages d w token n (Suc page) acc)
      | (w, Inr _) \<Rightarrow> (w, supervisor_error ''GitHub queue response was not a list''))"

definition release_comments :: "'w dock \<Rightarrow> 'w \<Rightarrow> string \<Rightarrow> 'w \<times> json list res" where
  "release_comments d w token = release_pages d w token 100 1 []"

definition check_passed :: "json \<Rightarrow> bool" where
  "check_passed c \<longleftrightarrow> (case c of
       JObj f \<Rightarrow> py_eq (dget f ''status'') (JStr ''completed'') \<and> py_eq (dget f ''conclusion'') (JStr ''success'')
     | _ \<Rightarrow> False)"

definition checks_successful :: "'w dock \<Rightarrow> string \<Rightarrow> 'w evidence" where
  "checks_successful d token w sha =
     (if \<not> is_sha sha then (w, Inr False)
      else case checks_get d w token (API @ REPOSITORY @ ''/commits/'' @ sha @ ''/check-runs?per_page=100'') of
        (w, Inl e) \<Rightarrow> (w, if unreadable e then Inr False else Inl e)
      | (w, Inr payload) \<Rightarrow>
          let checks = (case payload of JObj p \<Rightarrow> dget p ''check_runs'' | _ \<Rightarrow> JNull) in
          (w, if \<not> truthy checks then Inr False else rbind (py_iter checks) (\<lambda>cs. Inr (list_all check_passed cs))))"

section \<open>Containers\<close>

definition candidate_tag :: "string \<Rightarrow> string res" where
  "candidate_tag sha =
     (if is_sha sha then Inr (''fossil-trusted-local-broker:reviewed-'' @ sha)
      else supervisor_error ''reviewed_sha must be exactly 40 lowercase hex characters'')"

definition rstrip_slash :: "string \<Rightarrow> string" where
  "rstrip_slash s = rev (dropWhile (\<lambda>c. c = CHR ''/'') (rev s))"

definition verify_origin_and_main :: "'w dock \<Rightarrow> 'w \<Rightarrow> supervisor_config \<Rightarrow> string \<Rightarrow> 'w \<times> unit res" where
  "verify_origin_and_main d w config sha =
     sbind (host_git d w (repository_path config) [''config'', ''--get'', ''remote.origin.url'']) (\<lambda>w origin.
     if rstrip_slash origin \<notin> set ORIGINS then (w, supervisor_error ''repository origin is not the fixed fossil-core origin'')
     else sbind (host_git d w (repository_path config) [''ls-remote'', ''origin'', ''refs/heads/main'']) (\<lambda>w out.
       (w, if split_words out = [] \<or> hd (split_words out) \<noteq> sha then supervisor_error ''reviewed_sha is not live origin/main''
           else Inr ())))"

definition mount :: "string \<Rightarrow> string \<Rightarrow> bool \<Rightarrow> bool \<Rightarrow> string list" where
  "mount source target readonly bind =
     [''--mount'', ''type='' @ (if bind then ''bind'' else ''volume'') @ '',src='' @ source @ '',dst='' @ target
        @ (if readonly then '',readonly'' else [])]"

definition runtime_argv :: "supervisor_config \<Rightarrow> string \<Rightarrow> string list res" where
  "runtime_argv config img =
     rbind (validate_config config) (\<lambda>_.
       Inr ([''docker'', ''run'', ''-d'', ''--name'', broker_name config,
             ''--restart'', ''unless-stopped'', ''--network'', runtime_network config]
            @ mount (broker_parent_github_volume config) ''/run/fossil/broker-github'' True False
            @ mount (worker_codex_volume config) ''/worker/codex-home'' False False
            @ mount (worktree_volume config) ''/worker/worktrees'' False False
            @ mount (broker_config_file config) ''/etc/fossil/broker.json'' True True
            @ [img]))"

definition inspect :: "string \<Rightarrow> string \<Rightarrow> string list" where
  "inspect format name = [''docker'', ''container'', ''inspect'', ''--format'', format, name]"

definition image_id :: "'w dock \<Rightarrow> 'w \<Rightarrow> string \<Rightarrow> 'w \<times> string res" where
  "image_id d w img =
     sbind (host_step d w [''docker'', ''image'', ''inspect'', ''--format'', ''{{.Id}}'', img] None) (\<lambda>w v.
       (w, if v = [] then supervisor_error ''could not resolve image identity'' else Inr v))"

definition inspected :: "'w dock \<Rightarrow> 'w \<Rightarrow> string \<Rightarrow> string \<Rightarrow> 'w \<times> string option res" where
  "inspected d w format name =
     recover (sbind (host_step d w (inspect format name) None) (\<lambda>w v. (w, Inr (if v = [] then None else Some v)))) None"

definition IMAGE_FORMAT :: string where
  "IMAGE_FORMAT = ''{{.Image}}''"

definition REVISION_FORMAT :: string where
  "REVISION_FORMAT = ''{{index .Config.Labels '' @ [CHR 0x22] @ ''org.opencontainers.image.revision'' @ [CHR 0x22] @ ''}}''"

definition RUNNING_FORMAT :: string where
  "RUNNING_FORMAT = ''{{.State.Running}}''"

definition HEALTH_FORMAT :: string where
  "HEALTH_FORMAT = ''{{if .State.Health}}{{.State.Health.Status}}{{else}}none{{end}}''"

definition container_image :: "'w dock \<Rightarrow> 'w \<Rightarrow> string \<Rightarrow> 'w \<times> string option res" where
  "container_image d w name = inspected d w IMAGE_FORMAT name"

definition container_revision :: "'w dock \<Rightarrow> 'w \<Rightarrow> string \<Rightarrow> 'w \<times> string option res" where
  "container_revision d w name = inspected d w REVISION_FORMAT name"

definition health_status :: "'w dock \<Rightarrow> 'w \<Rightarrow> string \<Rightarrow> 'w \<times> string option res" where
  "health_status d w name = inspected d w HEALTH_FORMAT name"

definition running :: "'w dock \<Rightarrow> 'w \<Rightarrow> string \<Rightarrow> 'w \<times> bool res" where
  "running d w name =
     recover (sbind (host_step d w (inspect RUNNING_FORMAT name) None) (\<lambda>w v. (w, Inr (v = ''true'')))) False"

fun await_healthy :: "'w dock \<Rightarrow> 'w \<Rightarrow> string \<Rightarrow> nat \<Rightarrow> 'w \<times> bool res" where
  "await_healthy d w name 0 = (w, Inr False)"
| "await_healthy d w name (Suc n) =
     sbind (health_status d w name) (\<lambda>w status.
       if status = Some ''healthy'' then (w, Inr True)
       else if status \<noteq> Some ''starting'' then (w, Inr False)
       else await_healthy d (if n = 0 then w else dk_sleep d w HEALTH_CHECK_INTERVAL_SECONDS) name n)"

definition healthy :: "'w dock \<Rightarrow> 'w \<Rightarrow> string \<Rightarrow> 'w \<times> bool res" where
  "healthy d w name = await_healthy d w name HEALTH_CHECK_ATTEMPTS"

definition remove_container :: "'w dock \<Rightarrow> 'w \<Rightarrow> string \<Rightarrow> 'w \<times> unit res" where
  "remove_container d w name =
     recover (sbind (host_step d w [''docker'', ''rm'', ''-f'', name] None) (\<lambda>w _. (w, Inr ()))) ()"

section \<open>Releases\<close>

definition build_argv :: "string \<Rightarrow> string \<Rightarrow> string list" where
  "build_argv sha img = [''docker'', ''build'', ''--label'', ''org.opencontainers.image.revision='' @ sha, ''-t'', img,
     ''-f'', ''docker/trusted-local-broker/Dockerfile'', ''.'']"

definition smoke_argv :: "string \<Rightarrow> string list" where
  "smoke_argv img = [''docker'', ''run'', ''--rm'', ''--network'', ''none'', ''--entrypoint'', ''python3'', img, ''-c'', ''import fossil_core'']"

text \<open>The \<open>try\<close> block of the build: the identity of the candidate image.\<close>

definition test_candidate :: "'w dock \<Rightarrow> 'w \<Rightarrow> string \<Rightarrow> string \<Rightarrow> string \<Rightarrow> 'w \<times> string res" where
  "test_candidate d w sha img worktree =
     sbind (host_git d w worktree [''rev-parse'', ''HEAD'']) (\<lambda>w head_sha.
     if head_sha \<noteq> sha then (w, supervisor_error ''detached build worktree revision mismatch'')
     else sbind (host_git d w worktree [''config'', ''--get'', ''remote.origin.url'']) (\<lambda>w origin.
     if rstrip_slash origin \<notin> set ORIGINS then (w, supervisor_error ''detached build worktree origin mismatch'')
     else sbind (host_step d w (build_argv sha img) (Some worktree)) (\<lambda>w _.
     sbind (image_id d w img) (\<lambda>w candidate.
     sbind (host_step d w (smoke_argv img) None) (\<lambda>w _. (w, Inr candidate))))))"

definition build_candidate :: "'w dock \<Rightarrow> 'w \<Rightarrow> supervisor_config \<Rightarrow> string \<Rightarrow> string \<Rightarrow> 'w \<times> string res" where
  "build_candidate d w config sha img =
     sbind (dk_temp d w) (\<lambda>w temporary.
     let worktree = temporary @ ''/source'' in
     and_finally
       (sbind (host_git d w (repository_path config) [''worktree'', ''add'', ''--detach'', worktree, sha]) (\<lambda>w _.
        and_finally (test_candidate d w sha img worktree)
          (\<lambda>w. sbind (host_git d w (repository_path config) [''worktree'', ''remove'', ''--force'', worktree]) (\<lambda>w _. (w, Inr ())))))
       (\<lambda>w. dk_untemp d w temporary))"

definition confirm_candidate :: "'w dock \<Rightarrow> 'w \<Rightarrow> string \<Rightarrow> string \<Rightarrow> string \<Rightarrow> 'w \<times> unit res" where
  "confirm_candidate d w name candidate sha =
     (let bad = (\<lambda>w. (w, supervisor_error ''candidate did not reach requested healthy image revision'')) in
      sbind (running d w name) (\<lambda>w up. if \<not> up then bad w
      else sbind (container_image d w name) (\<lambda>w now_image. if now_image \<noteq> Some candidate then bad w
      else sbind (container_revision d w name) (\<lambda>w rev. if rev \<noteq> Some sha then bad w
      else sbind (healthy d w name) (\<lambda>w ok. if \<not> ok then bad w else (w, Inr ()))))))"

definition start_container :: "'w dock \<Rightarrow> 'w \<Rightarrow> supervisor_config \<Rightarrow> string \<Rightarrow> 'w \<times> unit res" where
  "start_container d w config img =
     sbind (pure_res w (runtime_argv config img)) (\<lambda>w argv. sbind (host_step d w argv None) (\<lambda>w _. (w, Inr ())))"

definition roll_back :: "'w dock \<Rightarrow> 'w \<Rightarrow> supervisor_config \<Rightarrow> string option \<Rightarrow> 'w \<times> unit res" where
  "roll_back d w config previous =
     sbind (remove_container d w (broker_name config)) (\<lambda>w _.
       case previous of None \<Rightarrow> (w, Inr ()) | Some p \<Rightarrow> start_container d w config p)"

definition replace_broker :: "'w dock \<Rightarrow> 'w \<Rightarrow> supervisor_config \<Rightarrow> string \<Rightarrow> string \<Rightarrow> string \<Rightarrow> 'w \<times> string res" where
  "replace_broker d w config sha img candidate =
     (let name = broker_name config in
      sbind (container_image d w name) (\<lambda>w previous.
      sbind (if previous = None then (w, Inr ())
             else sbind (host_step d w [''docker'', ''stop'', name] None) (\<lambda>w _. remove_container d w name)) (\<lambda>w _.
        case sbind (start_container d w config img) (\<lambda>w _. confirm_candidate d w name candidate sha) of
          (w, Inr _) \<Rightarrow> (w, Inr ''APPLIED'')
        | (w, Inl e) \<Rightarrow>
            if exn_isa (exn_class e) SupervisorError then sbind (roll_back d w config previous) (\<lambda>w _. (w, Inl e))
            else (w, Inl e))))"

definition apply_release :: "'w dock \<Rightarrow> 'w evidence \<Rightarrow> 'w \<Rightarrow> supervisor_config \<Rightarrow> string \<Rightarrow> 'w \<times> string res" where
  "apply_release d evidence w config sha =
     sbind (pure_res w (validate_config config)) (\<lambda>w _.
     if \<not> is_sha sha then (w, supervisor_error ''malformed reviewed_sha'')
     else sbind (verify_origin_and_main d w config sha) (\<lambda>w _.
     sbind (evidence w sha) (\<lambda>w ok.
     if \<not> ok then (w, supervisor_error ''GitHub CI/check evidence absent, unreadable, or non-success'')
     else sbind (running d w (broker_name config)) (\<lambda>w up.
     sbind (if up then sbind (container_revision d w (broker_name config)) (\<lambda>w rev. (w, Inr (rev = Some sha))) else (w, Inr False)) (\<lambda>w current.
     if current then (w, Inr ''NOOP'')
     else sbind (pure_res w (candidate_tag sha)) (\<lambda>w img.
     sbind (build_candidate d w config sha img) (\<lambda>w candidate.
       replace_broker d w config sha img candidate)))))))"

text \<open>\<open>load_config\<close> on the decoded file; \<open>resolve\<close> is \<open>Path.resolve\<close>.\<close>

definition load_config :: "(string \<Rightarrow> string) \<Rightarrow> json \<Rightarrow> supervisor_config res" where
  "load_config resolve raw =
     (case raw of
        JObj d \<Rightarrow>
          (let get = (\<lambda>k dflt. py_str (dget_or d k (JStr dflt)));
               config = \<lparr> repository_path = resolve (get ''repository_path'' []), broker_config_file = resolve (get ''broker_config_file'' []),
                  broker_name = get ''broker_name'' ''fossil-trusted-local-broker'', runtime_network = get ''runtime_network'' ''bridge'',
                  broker_parent_github_volume = get ''broker_parent_github_volume'' ''fossil-broker-github-auth'',
                  worker_codex_volume = get ''worker_codex_volume'' ''fossil-codex-auth'',
                  worktree_volume = get ''worktree_volume'' ''fossil-broker-worktrees'' \<rparr>
           in rbind (validate_config config) (\<lambda>_. Inr config))
      | _ \<Rightarrow> supervisor_error ''supervisor config must be an object'')"

text \<open>One pass of the entry point: every directive of the queue, in order; the results are printed.\<close>

fun apply_all :: "'w dock \<Rightarrow> 'w evidence \<Rightarrow> 'w \<Rightarrow> supervisor_config \<Rightarrow> string list \<Rightarrow> 'w \<times> string list res" where
  "apply_all d evidence w config [] = (w, Inr [])"
| "apply_all d evidence w config (sha # shas) =
     sbind (apply_release d evidence w config sha) (\<lambda>w out.
     sbind (apply_all d evidence w config shas) (\<lambda>w outs. (w, Inr (out # outs))))"

definition supervise_once :: "'w dock \<Rightarrow> string \<Rightarrow> 'w \<Rightarrow> supervisor_config \<Rightarrow> 'w \<times> string list res" where
  "supervise_once d token w config =
     sbind (release_comments d w token) (\<lambda>w comments.
     sbind (pure_res w (parse_release_directives comments TRUSTED_QUEUE_AUTHORS)) (\<lambda>w releases.
       apply_all d (checks_successful d token) w config releases))"

section \<open>What the supervisor did\<close>

datatype did = Did command outcome | Asked string "bool res"

definition watched :: "'w dock \<Rightarrow> ('w \<times> did list) dock" where
  "watched d =
     (let h = dk_host d in
      \<lparr> dk_host =
          \<lparr> host_clock = (\<lambda>(w, l). case host_clock h w of (w', t) \<Rightarrow> ((w', l), t)),
            host_run = (\<lambda>(w, l) c. case host_run h w c of (w', out) \<Rightarrow> ((w', l @ [Did c out]), out)),
            host_exists = (\<lambda>(w, l) p. host_exists h w p),
            host_mkdir = (\<lambda>(w, l) p. case host_mkdir h w p of (w', r) \<Rightarrow> ((w', l), r)),
            host_rmtree = (\<lambda>(w, l) p. case host_rmtree h w p of (w', r) \<Rightarrow> ((w', l), r)),
            host_environ = (\<lambda>(w, l). host_environ h w),
            host_seconds = host_seconds h,
            host_local_offset = host_local_offset h \<rparr>,
        dk_http = (\<lambda>(w, l) q. case dk_http d w q of (w', a) \<Rightarrow> ((w', l), a)),
        dk_temp = (\<lambda>(w, l). case dk_temp d w of (w', r) \<Rightarrow> ((w', l), r)),
        dk_untemp = (\<lambda>(w, l) p. case dk_untemp d w p of (w', r) \<Rightarrow> ((w', l), r)),
        dk_sleep = (\<lambda>(w, l) n. (dk_sleep d w n, l)) \<rparr>)"

definition asked :: "'w evidence \<Rightarrow> ('w \<times> did list) evidence" where
  "asked ev = (\<lambda>(w, l) sha. case ev w sha of (w', r) \<Rightarrow> ((w', l @ [Asked sha r]), r))"

interpretation watched: recorded_host "dk_host (watched d)" snd Did for d
  by unfold_locales (auto simp: watched_def Let_def split: prod.splits)

text \<open>\<open>answered argv cwd v e\<close>: the entry is the command \<open>argv\<close>, which exited with 0 and printed \<open>v\<close>.\<close>

definition answered :: "string list \<Rightarrow> string option \<Rightarrow> string \<Rightarrow> did \<Rightarrow> bool" where
  "answered argv cwd v e \<longleftrightarrow> (\<exists>out err. e = Did (docker_command argv cwd) (Exited 0 out err) \<and> v = strip out)"

text \<open>The entries that stop, remove or start a container that stays.\<close>

definition touches :: "did \<Rightarrow> bool" where
  "touches e \<longleftrightarrow> (case e of Did c _ \<Rightarrow> take 2 (cmd_argv c) \<in> {[''docker'', ''stop''], [''docker'', ''rm'']} \<or> take 3 (cmd_argv c) = [''docker'', ''run'', ''-d'']
     | Asked _ _ \<Rightarrow> False)"

definition idle :: "did \<Rightarrow> bool" where
  "idle e \<longleftrightarrow> \<not> touches e"

lemma host_step_log:
  assumes "host_step (watched d) s argv cwd = (t, r)"
  shows "\<exists>out. snd t = snd s @ [Did (docker_command argv cwd) out]
    \<and> (\<forall>v. r = Inr v \<longrightarrow> (\<exists>o' err. out = Exited 0 o' err \<and> v = strip o'))"
proof -
  obtain u out where m: "host_run (dk_host (watched d)) s (docker_command argv cwd) = (u, out)" by fastforce
  have "t = u \<and> (\<forall>v. r = Inr v \<longrightarrow> (\<exists>o' err. out = Exited 0 o' err \<and> v = strip o'))"
    using assms unfolding host_step_def m by (auto simp: supervisor_error_def split: outcome.splits if_split_asm)
  then show ?thesis using watched.log_run [OF m] by blast
qed

lemma host_step_Inr:
  assumes "host_step (watched d) s argv cwd = (t, Inr v)"
  shows "\<exists>e. snd t = snd s @ [e] \<and> answered argv cwd v e"
  using host_step_log [OF assms] by (auto simp: answered_def)

lemma emits_host_step: "(\<And>out. P (Did (docker_command argv cwd) out)) \<Longrightarrow> emits snd P s (host_step (watched d) s argv cwd)"
  by (cases "host_step (watched d) s argv cwd") (auto simp: emits_def dest!: host_step_log)

lemma emits_recover [emits_intros]: "emits log P s m \<Longrightarrow> emits log P s (recover m v)"
  by (auto simp: emits_def recover_def split: prod.splits sum.splits)

lemma emits_finally [emits_intros]:
  assumes "emits log P s m" and "\<And>t. emits log P t (cleanup t)"
  shows "emits log P s (and_finally m cleanup)"
proof (cases m)
  case (Pair t r)
  have "emits log P s (fst (cleanup t), ())"
    using assms(1) assms(2) [of t] Pair unfolding emits_def by fastforce
  then show ?thesis by (simp add: Pair emits_def and_finally_state)
qed

lemma watched_temp: "snd (fst (dk_temp (watched d) s)) = snd s" "snd (fst (dk_untemp (watched d) s p)) = snd s"
  "snd (dk_sleep (watched d) s n) = snd s"
  by (cases s; simp add: watched_def Let_def split: prod.split)+

lemma emits_temp [emits_intros]: "emits snd P s (dk_temp (watched d) s)" "emits snd P s (dk_untemp (watched d) s p)"
  using watched_temp [of d s] by (simp_all add: emits_def)

lemma idle_simps:
  "idle (Did (docker_command (''git'' # args) cwd) out)"
  "idle (Did (docker_command (inspect format name) cwd) out)"
  "idle (Did (docker_command [''docker'', ''image'', ''inspect'', ''--format'', f, img] cwd) out)"
  "idle (Did (docker_command (build_argv sha img) cwd) out)"
  "idle (Did (docker_command (smoke_argv img) cwd) out)"
  "idle (Asked sha r)"
  by (simp_all add: idle_def touches_def docker_command_def inspect_def build_argv_def smoke_argv_def)

lemma idle_git: "emits snd idle s (host_git (watched d) s repository args)"
  unfolding host_git_def by (intro emits_host_step) (simp add: idle_simps)

lemma idle_inspected: "emits snd idle s (inspected (watched d) s format name)"
  unfolding inspected_def by (auto intro!: emits_intros emits_host_step simp: idle_simps)

lemma idle_running: "emits snd idle s (running (watched d) s name)"
  unfolding running_def by (auto intro!: emits_intros emits_host_step simp: idle_simps)

lemma idle_verify: "emits snd idle s (verify_origin_and_main (watched d) s config sha)"
  unfolding verify_origin_and_main_def by (auto intro!: emits_intros idle_git simp: supervisor_error_def)

lemma idle_test: "emits snd idle s (test_candidate (watched d) s sha img worktree)"
  unfolding test_candidate_def image_id_def
  by (auto intro!: emits_intros idle_git emits_host_step simp: idle_simps)

lemma idle_build: "emits snd idle s (build_candidate (watched d) s config sha img)"
  unfolding build_candidate_def Let_def by (intro emits_intros idle_git idle_test) simp_all

lemma idle_evidence: "emits snd idle s (asked ev s sha)"
  by (cases s) (auto simp: asked_def emits_def idle_simps split: prod.split)

lemma and_finally_Inr:
  assumes "and_finally m cleanup = (t, Inr v)"
  obtains u x where "m = (u, Inr v)" "cleanup u = (t, Inr x)"
  using assms by (auto simp: and_finally_def split: prod.splits sum.splits)

lemma if_error_Inr: "(if b then (w, supervisor_error m) else f) = (t, Inr v) \<longleftrightarrow> \<not> b \<and> f = (t, Inr v)"
  by (simp add: supervisor_error_def)

definition origin_argv :: "string \<Rightarrow> string list" where
  "origin_argv repository = [''git'', ''-C'', repository, ''config'', ''--get'', ''remote.origin.url'']"

definition main_argv :: "string \<Rightarrow> string list" where
  "main_argv repository = [''git'', ''-C'', repository, ''ls-remote'', ''origin'', ''refs/heads/main'']"

text \<open>The two answers that identify the repository and its live main branch.\<close>

definition live_main :: "supervisor_config \<Rightarrow> string \<Rightarrow> did list \<Rightarrow> bool" where
  "live_main config sha l \<longleftrightarrow>
     (\<exists>oe me url out. l = [oe, me] \<and> answered (origin_argv (repository_path config)) None url oe \<and> rstrip_slash url \<in> set ORIGINS
        \<and> answered (main_argv (repository_path config)) None out me \<and> split_words out \<noteq> [] \<and> hd (split_words out) = sha)"

text \<open>
  The build in a worktree of its own: checked out at the revision, from the fixed origin, built with the
  revision as its label, resolved to the image \<open>candidate\<close>, smoke-tested without a network, removed.
\<close>

definition tested :: "supervisor_config \<Rightarrow> string \<Rightarrow> string \<Rightarrow> string \<Rightarrow> did list \<Rightarrow> bool" where
  "tested config sha img candidate l \<longleftrightarrow>
     (\<exists>dir e1 e2 e3 e4 e5 e6 e7 url v1 v4 v6 v7. l = [e1, e2, e3, e4, e5, e6, e7]
        \<and> answered [''git'', ''-C'', repository_path config, ''worktree'', ''add'', ''--detach'', dir, sha] None v1 e1
        \<and> answered [''git'', ''-C'', dir, ''rev-parse'', ''HEAD''] None sha e2
        \<and> answered (origin_argv dir) None url e3 \<and> rstrip_slash url \<in> set ORIGINS
        \<and> answered (build_argv sha img) (Some dir) v4 e4
        \<and> answered [''docker'', ''image'', ''inspect'', ''--format'', ''{{.Id}}'', img] None candidate e5 \<and> candidate \<noteq> []
        \<and> answered (smoke_argv img) None v6 e6
        \<and> answered [''git'', ''-C'', repository_path config, ''worktree'', ''remove'', ''--force'', dir] None v7 e7)"

lemma verify_Inr:
  assumes "verify_origin_and_main (watched d) s config sha = (t, Inr x)"
  shows "\<exists>l. snd t = snd s @ l \<and> live_main config sha l"
proof -
  from assms obtain u url where 1: "host_git (watched d) s (repository_path config) [''config'', ''--get'', ''remote.origin.url''] = (u, Inr url)"
    and rest: "rstrip_slash url \<in> set ORIGINS"
      "sbind (host_git (watched d) u (repository_path config) [''ls-remote'', ''origin'', ''refs/heads/main'']) (\<lambda>w out.
        (w, if split_words out = [] \<or> hd (split_words out) \<noteq> sha then supervisor_error ''reviewed_sha is not live origin/main'' else Inr ())) = (t, Inr x)"
    unfolding verify_origin_and_main_def by (elim sbind_InrE) (auto simp: if_error_Inr simp del: sbind.simps)
  from rest(2) obtain v out where 2: "host_git (watched d) u (repository_path config) [''ls-remote'', ''origin'', ''refs/heads/main''] = (v, Inr out)"
    and m: "v = t" "split_words out \<noteq> []" "hd (split_words out) = sha"
    by (elim sbind_InrE) (auto simp: supervisor_error_def split: if_split_asm)
  from host_step_Inr [OF 1 [unfolded host_git_def]] host_step_Inr [OF 2 [unfolded host_git_def]] rest(1) m show ?thesis
    unfolding live_main_def origin_argv_def main_argv_def by fastforce
qed

lemma test_Inr:
  assumes "test_candidate (watched d) s sha img dir = (t, Inr candidate)"
  shows "\<exists>e2 e3 e4 e5 e6 url v4 v6. snd t = snd s @ [e2, e3, e4, e5, e6]
    \<and> answered [''git'', ''-C'', dir, ''rev-parse'', ''HEAD''] None sha e2 \<and> answered (origin_argv dir) None url e3 \<and> rstrip_slash url \<in> set ORIGINS
    \<and> answered (build_argv sha img) (Some dir) v4 e4
    \<and> answered [''docker'', ''image'', ''inspect'', ''--format'', ''{{.Id}}'', img] None candidate e5 \<and> candidate \<noteq> []
    \<and> answered (smoke_argv img) None v6 e6"
proof -
  from assms obtain s2 where 2: "host_git (watched d) s dir [''rev-parse'', ''HEAD''] = (s2, Inr sha)"
    and a: "sbind (host_git (watched d) s2 dir [''config'', ''--get'', ''remote.origin.url'']) (\<lambda>w origin.
     if rstrip_slash origin \<notin> set ORIGINS then (w, supervisor_error ''detached build worktree origin mismatch'')
     else sbind (host_step (watched d) w (build_argv sha img) (Some dir)) (\<lambda>w _.
     sbind (image_id (watched d) w img) (\<lambda>w candidate.
     sbind (host_step (watched d) w (smoke_argv img) None) (\<lambda>w _. (w, Inr candidate))))) = (t, Inr candidate)"
    unfolding test_candidate_def by (elim sbind_InrE) (auto simp: if_error_Inr simp del: sbind.simps)
  from a obtain s3 url where 3: "host_git (watched d) s2 dir [''config'', ''--get'', ''remote.origin.url''] = (s3, Inr url)" "rstrip_slash url \<in> set ORIGINS"
    and b: "sbind (host_step (watched d) s3 (build_argv sha img) (Some dir)) (\<lambda>w _.
     sbind (image_id (watched d) w img) (\<lambda>w candidate.
     sbind (host_step (watched d) w (smoke_argv img) None) (\<lambda>w _. (w, Inr candidate)))) = (t, Inr candidate)"
    by (elim sbind_InrE) (auto simp: if_error_Inr simp del: sbind.simps)
  from b obtain s4 v4 where 4: "host_step (watched d) s3 (build_argv sha img) (Some dir) = (s4, Inr v4)"
    and c: "sbind (image_id (watched d) s4 img) (\<lambda>w candidate.
     sbind (host_step (watched d) w (smoke_argv img) None) (\<lambda>w _. (w, Inr candidate))) = (t, Inr candidate)"
    by (rule sbind_InrE)
  from c obtain s5 x where 5: "image_id (watched d) s4 img = (s5, Inr x)"
    and e: "sbind (host_step (watched d) s5 (smoke_argv img) None) (\<lambda>w _. (w, Inr x)) = (t, Inr candidate)"
    by (rule sbind_InrE)
  from e obtain v6 where 6: "host_step (watched d) s5 (smoke_argv img) None = (t, Inr v6)" and x: "candidate = x"
    by (rule sbind_ret_InrE)
  note 5 = 5 [folded x]
  from 5 have "host_step (watched d) s4 [''docker'', ''image'', ''inspect'', ''--format'', ''{{.Id}}'', img] None = (s5, Inr candidate) \<and> candidate \<noteq> []"
    unfolding image_id_def by (elim sbind_InrE) (auto simp: supervisor_error_def split: if_split_asm)
  then have 5: "host_step (watched d) s4 [''docker'', ''image'', ''inspect'', ''--format'', ''{{.Id}}'', img] None = (s5, Inr candidate)" "candidate \<noteq> []" by auto
  from host_step_Inr [OF 2 [unfolded host_git_def]] obtain e2 where e2: "snd s2 = snd s @ [e2]" "answered ([''git'', ''-C'', dir] @ [''rev-parse'', ''HEAD'']) None sha e2" by blast
  from host_step_Inr [OF 3(1) [unfolded host_git_def]] obtain e3 where e3: "snd s3 = snd s2 @ [e3]" "answered ([''git'', ''-C'', dir] @ [''config'', ''--get'', ''remote.origin.url'']) None url e3" by blast
  from host_step_Inr [OF 4] obtain e4 where e4: "snd s4 = snd s3 @ [e4]" "answered (build_argv sha img) (Some dir) v4 e4" by blast
  from host_step_Inr [OF 5(1)] obtain e5 where e5: "snd s5 = snd s4 @ [e5]" "answered [''docker'', ''image'', ''inspect'', ''--format'', ''{{.Id}}'', img] None candidate e5" by blast
  from host_step_Inr [OF 6] obtain e6 where e6: "snd t = snd s5 @ [e6]" "answered (smoke_argv img) None v6 e6" by blast
  have l: "snd t = snd s @ [e2, e3, e4, e5, e6]" by (simp add: e2(1) e3(1) e4(1) e5(1) e6(1))
  show ?thesis
    by (intro exI conjI) (rule l e2(2) [unfolded append.simps] e3(2) [unfolded append.simps, folded origin_argv_def] 3(2) e4(2) e5(2) 5(2) e6(2))+
qed

lemma build_Inr:
  assumes "build_candidate (watched d) s config sha img = (t, Inr candidate)"
  shows "\<exists>l. snd t = snd s @ l \<and> tested config sha img candidate l"
proof -
  from assms obtain s1 temporary where 0: "dk_temp (watched d) s = (s1, Inr temporary)"
    and a: "and_finally
       (sbind (host_git (watched d) s1 (repository_path config) [''worktree'', ''add'', ''--detach'', temporary @ ''/source'', sha]) (\<lambda>w _.
        and_finally (test_candidate (watched d) w sha img (temporary @ ''/source''))
          (\<lambda>w. sbind (host_git (watched d) w (repository_path config) [''worktree'', ''remove'', ''--force'', temporary @ ''/source'']) (\<lambda>w _. (w, Inr ())))))
       (\<lambda>w. dk_untemp (watched d) w temporary) = (t, Inr candidate)"
    unfolding build_candidate_def Let_def by (elim sbind_InrE) (auto simp del: sbind.simps)
  define dir where "dir = temporary @ ''/source''"
  from a obtain s5 x where b: "sbind (host_git (watched d) s1 (repository_path config) [''worktree'', ''add'', ''--detach'', dir, sha]) (\<lambda>w _.
        and_finally (test_candidate (watched d) w sha img dir)
          (\<lambda>w. sbind (host_git (watched d) w (repository_path config) [''worktree'', ''remove'', ''--force'', dir]) (\<lambda>w _. (w, Inr ())))) = (s5, Inr candidate)"
    and 5: "dk_untemp (watched d) s5 temporary = (t, Inr x)" unfolding dir_def by (rule and_finally_Inr)
  from b obtain s2 v1 where 1: "host_git (watched d) s1 (repository_path config) [''worktree'', ''add'', ''--detach'', dir, sha] = (s2, Inr v1)"
    and c: "and_finally (test_candidate (watched d) s2 sha img dir)
          (\<lambda>w. sbind (host_git (watched d) w (repository_path config) [''worktree'', ''remove'', ''--force'', dir]) (\<lambda>w _. (w, Inr ()))) = (s5, Inr candidate)"
    by (elim sbind_InrE)
  from c obtain s3 y where 2: "test_candidate (watched d) s2 sha img dir = (s3, Inr candidate)"
    and r: "sbind (host_git (watched d) s3 (repository_path config) [''worktree'', ''remove'', ''--force'', dir]) (\<lambda>w _. (w, Inr ())) = (s5, Inr y)"
    by (rule and_finally_Inr)
  from r obtain v7 where 7: "host_git (watched d) s3 (repository_path config) [''worktree'', ''remove'', ''--force'', dir] = (s5, Inr v7)"
    by (elim sbind_InrE) auto
  have t: "snd s1 = snd s" "snd t = snd s5"
    using watched_temp(1) [of d s] watched_temp(2) [of d s5 temporary] unfolding 0 5 by simp_all
  from host_step_Inr [OF 1 [unfolded host_git_def]] obtain e1 where e1: "snd s2 = snd s1 @ [e1]"
    "answered [''git'', ''-C'', repository_path config, ''worktree'', ''add'', ''--detach'', dir, sha] None v1 e1" by auto
  from host_step_Inr [OF 7 [unfolded host_git_def]] obtain e7 where e7: "snd s5 = snd s3 @ [e7]"
    "answered [''git'', ''-C'', repository_path config, ''worktree'', ''remove'', ''--force'', dir] None v7 e7" by auto
  from test_Inr [OF 2] obtain e2 e3 e4 e5 e6 url v4 v6 where m: "snd s3 = snd s2 @ [e2, e3, e4, e5, e6]"
    "answered [''git'', ''-C'', dir, ''rev-parse'', ''HEAD''] None sha e2" "answered (origin_argv dir) None url e3" "rstrip_slash url \<in> set ORIGINS"
    "answered (build_argv sha img) (Some dir) v4 e4"
    "answered [''docker'', ''image'', ''inspect'', ''--format'', ''{{.Id}}'', img] None candidate e5" "candidate \<noteq> []"
    "answered (smoke_argv img) None v6 e6" by (elim exE conjE) (rule that)
  have "tested config sha img candidate [e1, e2, e3, e4, e5, e6, e7]"
    unfolding tested_def
    by (intro exI conjI) (rule refl e1(2) m(2-8) e7(2))+
  then show ?thesis using t e1(1) m(1) e7(1) by (intro exI [of _ "[e1, e2, e3, e4, e5, e6, e7]"]) simp
qed

section \<open>Replacing the container\<close>

lemma inspected_log:
  assumes "inspected (watched d) s format name = (t, r)"
  shows "\<exists>e out. snd t = snd s @ [e] \<and> e = Did (docker_command (inspect format name) None) out
    \<and> (\<forall>v. r = Inr (Some v) \<longrightarrow> answered (inspect format name) None v e \<and> v \<noteq> [])"
proof -
  obtain u x where m: "host_step (watched d) s (inspect format name) None = (u, x)" by fastforce
  from host_step_log [OF m] obtain out where "snd u = snd s @ [Did (docker_command (inspect format name) None) out]"
    "\<forall>v. x = Inr v \<longrightarrow> (\<exists>o' err. out = Exited 0 o' err \<and> v = strip o')" by (elim exE conjE) (rule that)
  moreover have "t = u" "\<forall>v. r = Inr (Some v) \<longrightarrow> x = Inr v \<and> v \<noteq> []"
    using assms unfolding inspected_def m by (cases x; auto simp: recover_def split: if_split_asm)+
  ultimately show ?thesis by (auto simp: answered_def)
qed

lemma inspected_Some:
  assumes "inspected (watched d) s format name = (t, Inr (Some v))"
  shows "\<exists>e. snd t = snd s @ [e] \<and> answered (inspect format name) None v e"
  using inspected_log [OF assms] by blast

lemma running_True:
  assumes "running (watched d) s name = (t, Inr True)"
  shows "\<exists>e. snd t = snd s @ [e] \<and> answered (inspect RUNNING_FORMAT name) None ''true'' e"
proof -
  obtain u x where m: "host_step (watched d) s (inspect RUNNING_FORMAT name) None = (u, x)" by fastforce
  have x: "u = t" "x = Inr ''true''"
    using assms unfolding running_def m by (cases x; simp add: recover_def split: if_split_asm)+
  show ?thesis using host_step_Inr [OF m [unfolded x]] by blast
qed

lemma healthy_True:
  assumes "await_healthy (watched d) s name n = (t, Inr True)"
  shows "\<exists>hs e. snd t = snd s @ hs @ [e] \<and> list_all idle hs \<and> answered (inspect HEALTH_FORMAT name) None ''healthy'' e"
  using assms
proof (induction n arbitrary: s)
  case (Suc n)
  obtain u status where m: "health_status (watched d) s name = (u, Inr status)"
    and rest: "(if status = Some ''healthy'' then (u, Inr True) else if status \<noteq> Some ''starting'' then (u, Inr False)
       else await_healthy (watched d) (if n = 0 then u else dk_sleep (watched d) u HEALTH_CHECK_INTERVAL_SECONDS) name n) = (t, Inr True)"
    using Suc.prems unfolding await_healthy.simps by (rule sbind_InrE)
  show ?case
  proof (cases "status = Some ''healthy''")
    case True
    then have "t = u" using rest by simp
    then show ?thesis using inspected_Some [OF m [unfolded health_status_def True]]
      by (intro exI [of _ "[]"]) simp
  next
    case False
    define v where "v = (if n = 0 then u else dk_sleep (watched d) u HEALTH_CHECK_INTERVAL_SECONDS)"
    have "await_healthy (watched d) v name n = (t, Inr True)" using rest False by (simp add: v_def split: if_split_asm)
    from Suc.IH [OF this] obtain hs e where h: "snd t = snd v @ hs @ [e]" "list_all idle hs"
      "answered (inspect HEALTH_FORMAT name) None ''healthy'' e" by blast
    have "snd v = snd u" by (simp add: v_def watched_temp(3))
    moreover obtain p out where "snd u = snd s @ [p]" "p = Did (docker_command (inspect HEALTH_FORMAT name) None) out"
      using inspected_log [OF m [unfolded health_status_def]] by blast
    ultimately show ?thesis using h by (intro exI [of _ "p # hs"] exI [of _ e]) (simp add: idle_simps)
  qed
qed simp

text \<open>The candidate was seen running, as the tested image, at the revision, and last as healthy.\<close>

definition confirmed :: "string \<Rightarrow> string \<Rightarrow> string \<Rightarrow> did list \<Rightarrow> bool" where
  "confirmed name candidate sha l \<longleftrightarrow>
     (\<exists>e1 e2 e3 hs e. l = [e1, e2, e3] @ hs @ [e]
        \<and> answered (inspect RUNNING_FORMAT name) None ''true'' e1
        \<and> answered (inspect IMAGE_FORMAT name) None candidate e2
        \<and> answered (inspect REVISION_FORMAT name) None sha e3
        \<and> list_all idle hs \<and> answered (inspect HEALTH_FORMAT name) None ''healthy'' e)"

lemma confirm_Inr:
  assumes "confirm_candidate (watched d) s name candidate sha = (t, Inr x)"
  shows "\<exists>l. snd t = snd s @ l \<and> confirmed name candidate sha l"
proof -
  from assms obtain s1 where 1: "running (watched d) s name = (s1, Inr True)"
    and a: "sbind (container_image (watched d) s1 name) (\<lambda>w now_image. if now_image \<noteq> Some candidate then (w, supervisor_error ''candidate did not reach requested healthy image revision'')
      else sbind (container_revision (watched d) w name) (\<lambda>w rev. if rev \<noteq> Some sha then (w, supervisor_error ''candidate did not reach requested healthy image revision'')
      else sbind (healthy (watched d) w name) (\<lambda>w ok. if \<not> ok then (w, supervisor_error ''candidate did not reach requested healthy image revision'') else (w, Inr ())))) = (t, Inr x)"
    unfolding confirm_candidate_def Let_def by (elim sbind_InrE) (auto simp: if_error_Inr simp del: sbind.simps)
  from a obtain s2 where 2: "container_image (watched d) s1 name = (s2, Inr (Some candidate))"
    and b: "sbind (container_revision (watched d) s2 name) (\<lambda>w rev. if rev \<noteq> Some sha then (w, supervisor_error ''candidate did not reach requested healthy image revision'')
      else sbind (healthy (watched d) w name) (\<lambda>w ok. if \<not> ok then (w, supervisor_error ''candidate did not reach requested healthy image revision'') else (w, Inr ()))) = (t, Inr x)"
    by (elim sbind_InrE) (auto simp: if_error_Inr simp del: sbind.simps)
  from b obtain s3 where 3: "container_revision (watched d) s2 name = (s3, Inr (Some sha))"
    and c: "sbind (healthy (watched d) s3 name) (\<lambda>w ok. if \<not> ok then (w, supervisor_error ''candidate did not reach requested healthy image revision'') else (w, Inr ())) = (t, Inr x)"
    by (elim sbind_InrE) (auto simp: if_error_Inr simp del: sbind.simps)
  from c have 4: "await_healthy (watched d) s3 name HEALTH_CHECK_ATTEMPTS = (t, Inr True)"
    unfolding healthy_def by (elim sbind_InrE) (auto simp: if_error_Inr)
  from running_True [OF 1] obtain e1 where e1: "snd s1 = snd s @ [e1]" "answered (inspect RUNNING_FORMAT name) None ''true'' e1" by blast
  from inspected_Some [OF 2 [unfolded container_image_def]] obtain e2 where e2: "snd s2 = snd s1 @ [e2]"
    "answered (inspect IMAGE_FORMAT name) None candidate e2" by blast
  from inspected_Some [OF 3 [unfolded container_revision_def]] obtain e3 where e3: "snd s3 = snd s2 @ [e3]"
    "answered (inspect REVISION_FORMAT name) None sha e3" by blast
  from healthy_True [OF 4] obtain hs e where h: "snd t = snd s3 @ hs @ [e]" "list_all idle hs"
    "answered (inspect HEALTH_FORMAT name) None ''healthy'' e" by blast
  have "confirmed name candidate sha ([e1, e2, e3] @ hs @ [e])"
    unfolding confirmed_def by (intro exI conjI) (rule refl e1(2) e2(2) e3(2) h(2,3))+
  then show ?thesis using e1(1) e2(1) e3(1) h(1) by (intro exI [of _ "[e1, e2, e3] @ hs @ [e]"]) simp
qed

lemma idle_await: "emits snd idle s (await_healthy (watched d) s name n)"
proof (induction n arbitrary: s)
  case (Suc n)
  have "emits snd idle u (await_healthy (watched d) (if n = 0 then u else dk_sleep (watched d) u k) name n)" for u k
  proof (cases "n = 0")
    case True
    then show ?thesis by (simp add: emits_def)
  next
    case False
    then show ?thesis using Suc.IH [of "dk_sleep (watched d) u k"] watched_temp(3) [of d u k] by (simp add: emits_def)
  qed
  then show ?case unfolding await_healthy.simps health_status_def by (intro emits_intros idle_inspected) auto
qed (simp add: emits_def)

lemma idle_confirm: "emits snd idle s (confirm_candidate (watched d) s name candidate sha)"
  unfolding confirm_candidate_def Let_def container_image_def container_revision_def healthy_def
  by (intro emits_intros idle_running idle_inspected idle_await) simp_all

lemma start_log:
  assumes "start_container (watched d) s config img = (t, r)" "runtime_argv config img = Inr argv"
  shows "\<exists>e out. snd t = snd s @ [e] \<and> e = Did (docker_command argv None) out \<and> (\<forall>x. r = Inr x \<longrightarrow> (\<exists>v. answered argv None v e))"
proof -
  obtain u x where m: "host_step (watched d) s argv None = (u, x)" by fastforce
  from host_step_log [OF m] obtain out where l: "snd u = snd s @ [Did (docker_command argv None) out]"
    "\<forall>v. x = Inr v \<longrightarrow> (\<exists>o' err. out = Exited 0 o' err \<and> v = strip o')" by (elim exE conjE) (rule that)
  have "sbind (u, x) (\<lambda>w _. (w, Inr ())) = (t, r)"
    using assms(1) unfolding start_container_def assms(2) sbind_pure_Inr m .
  then have t: "t = u" and r: "\<And>y. r = Inr y \<Longrightarrow> \<exists>v. x = Inr v" by (cases x; auto)+
  have "\<exists>v. answered argv None v (Did (docker_command argv None) out)" if "r = Inr y" for y
  proof -
    from r [OF that] l(2) obtain o' err where "out = Exited 0 o' err" by auto
    then show ?thesis by (simp add: answered_def)
  qed
  then show ?thesis using l(1) t by blast
qed

lemma remove_log:
  assumes "remove_container (watched d) s name = (t, r)"
  shows "\<exists>out. snd t = snd s @ [Did (docker_command [''docker'', ''rm'', ''-f'', name] None) out]
    \<and> (\<forall>e. r = Inl e \<longrightarrow> \<not> exn_isa (exn_class e) SupervisorError)"
proof -
  obtain u x where m: "host_step (watched d) s [''docker'', ''rm'', ''-f'', name] None = (u, x)" by fastforce
  have "t = u" "\<forall>e. r = Inl e \<longrightarrow> \<not> exn_isa (exn_class e) SupervisorError"
    using assms unfolding remove_container_def m by (cases x; auto simp: recover_def split: if_split_asm)+
  then show ?thesis using host_step_log [OF m] by (elim exE conjE) (intro exI conjI, simp_all)
qed

definition restarted :: "supervisor_config \<Rightarrow> string option \<Rightarrow> did list \<Rightarrow> bool" where
  "restarted config previous l \<longleftrightarrow>
     (case previous of None \<Rightarrow> l = []
      | Some p \<Rightarrow> \<exists>argv out. runtime_argv config p = Inr argv \<and> l = [Did (docker_command argv None) out])"

definition probed :: "string \<Rightarrow> string option \<Rightarrow> did \<Rightarrow> bool" where
  "probed name previous e \<longleftrightarrow> (\<exists>out. e = Did (docker_command (inspect IMAGE_FORMAT name) None) out)
     \<and> (\<forall>p. previous = Some p \<longrightarrow> answered (inspect IMAGE_FORMAT name) None p e)"

definition removal :: "string \<Rightarrow> outcome \<Rightarrow> did" where
  "removal name out = Did (docker_command [''docker'', ''rm'', ''-f'', name] None) out"

text \<open>
  The log of a replacement that got as far as starting the candidate: the image of the container
  before, the start, and then either the confirmation or, after an error of the supervisor, the
  removal of the candidate and the restart of that image.
\<close>

definition replaced :: "supervisor_config \<Rightarrow> string list \<Rightarrow> string \<Rightarrow> string \<Rightarrow> string res \<Rightarrow> did list \<Rightarrow> bool" where
  "replaced config argv candidate sha r l \<longleftrightarrow>
     (\<exists>probe previous stops start checks after_checks. l = probe # stops @ start # checks @ after_checks
        \<and> probed (broker_name config) previous probe \<and> (\<exists>out. start = Did (docker_command argv None) out)
        \<and> (case r of
             Inr v \<Rightarrow> v = ''APPLIED'' \<and> (\<exists>v. answered argv None v start) \<and> confirmed (broker_name config) candidate sha checks \<and> after_checks = []
           | Inl e \<Rightarrow> exn_isa (exn_class e) SupervisorError \<longrightarrow>
               (\<exists>out again. after_checks = removal (broker_name config) out # again \<and> restarted config previous again)))"

lemma runtime_argv_images: "runtime_argv config img = Inr argv \<Longrightarrow> \<exists>argv. runtime_argv config img' = Inr argv"
  by (auto simp: runtime_argv_def)

lemma runtime_argv_head: "runtime_argv config img = Inr argv \<Longrightarrow> take 3 argv = [''docker'', ''run'', ''-d'']"
  by (auto simp: runtime_argv_def)

lemma start_not: "runtime_argv config img = Inr argv \<Longrightarrow>
    Did (docker_command argv None) out \<noteq> Did (docker_command (inspect format name) None) out'
    \<and> Did (docker_command argv None) out \<noteq> Did (docker_command [''docker'', ''stop'', name] None) out'
    \<and> Did (docker_command argv None) out \<noteq> removal name out'"
  by (drule runtime_argv_head) (auto simp: docker_command_def inspect_def removal_def)

lemma roll_back_log:
  assumes "roll_back (watched d) s config previous = (t, r)" "runtime_argv config img = Inr argv"
  shows "\<exists>out again. snd t = snd s @ removal (broker_name config) out # again
    \<and> (restarted config previous again \<or> (\<exists>e. r = Inl e \<and> \<not> exn_isa (exn_class e) SupervisorError))"
proof -
  obtain u x where m: "remove_container (watched d) s (broker_name config) = (u, x)" by fastforce
  from remove_log [OF m, folded removal_def] obtain out where l: "snd u = snd s @ [removal (broker_name config) out]"
    and e: "\<forall>e. x = Inl e \<longrightarrow> \<not> exn_isa (exn_class e) SupervisorError"
    by (elim exE conjE) (rule that)
  note a = assms(1) [unfolded roll_back_def m]
  show ?thesis
  proof (cases x)
    case (Inl err)
    then show ?thesis using a l e by (intro exI [of _ out] exI [of _ "[]"]) auto
  next
    case (Inr y)
    show ?thesis
    proof (cases previous)
      case None
      then have "t = u" using a Inr by simp
      then show ?thesis using l None by (intro exI [of _ out] exI [of _ "[]"]) (simp add: restarted_def)
    next
      case (Some p)
      obtain argv' where p: "runtime_argv config p = Inr argv'" using runtime_argv_images [OF assms(2)] by blast
      have "start_container (watched d) u config p = (t, r)" using a Inr Some by simp
      from start_log [OF this p] obtain out' where "snd t = snd u @ [Did (docker_command argv' None) out']" by blast
      then show ?thesis using l p Some
        by (intro exI [of _ out] exI [of _ "[Did (docker_command argv' None) out']"]) (simp add: restarted_def)
    qed
  qed
qed

lemma replace_log:
  assumes "replace_broker (watched d) s config sha img candidate = (t, r)" "runtime_argv config img = Inr argv"
  shows "\<exists>l. snd t = snd s @ l \<and> (replaced config argv candidate sha r l
    \<or> (\<forall>out. Did (docker_command argv None) out \<notin> set l) \<and> \<not> is_ok r)"
proof -
  let ?name = "broker_name config"
  note no = start_not [OF assms(2)]
  obtain s1 x where m: "container_image (watched d) s ?name = (s1, x)" by fastforce
  from inspected_log [OF m [unfolded container_image_def]] obtain probe pout where p: "snd s1 = snd s @ [probe]"
    "probe = Did (docker_command (inspect IMAGE_FORMAT ?name) None) pout"
    "\<forall>v. x = Inr (Some v) \<longrightarrow> answered (inspect IMAGE_FORMAT ?name) None v probe \<and> v \<noteq> []" by (elim exE conjE) (rule that)
  note a = assms(1) [unfolded replace_broker_def Let_def m]
  show ?thesis
  proof (cases x)
    case (Inl e)
    then have "t = s1 \<and> \<not> is_ok r" using a by auto
    then show ?thesis using p(1,2) no by (intro exI [of _ "[probe]"]) simp
  next
    case (Inr previous)
    have probed: "probed ?name previous probe" using p(2,3) Inr by (auto simp: probed_def)
    define stopping where "stopping = (if previous = None then (s1, Inr ())
             else sbind (host_step (watched d) s1 [''docker'', ''stop'', ?name] None) (\<lambda>w _. remove_container (watched d) w ?name))"
    obtain s2 y where y: "stopping = (s2, y)" by fastforce
    have "\<exists>stops. snd s2 = snd s1 @ stops \<and> (\<forall>out. Did (docker_command argv None) out \<notin> set stops)"
    proof (cases previous)
      case None
      then show ?thesis using y by (intro exI [of _ "[]"]) (simp add: stopping_def)
    next
      case (Some v)
      obtain u z where st: "host_step (watched d) s1 [''docker'', ''stop'', ?name] None = (u, z)" by fastforce
      from host_step_log [OF st] obtain o1 where o1: "snd u = snd s1 @ [Did (docker_command [''docker'', ''stop'', ?name] None) o1]" by (elim exE conjE) (rule that)
      show ?thesis
      proof (cases z)
        case (Inl e)
        then have "s2 = u" using y Some st by (simp add: stopping_def)
        then show ?thesis using o1 no by (intro exI [of _ "[Did (docker_command [''docker'', ''stop'', ?name] None) o1]"]) simp
      next
        case (Inr v)
        then have "remove_container (watched d) u ?name = (s2, y)" using y Some st by (simp add: stopping_def)
        from remove_log [OF this, folded removal_def] obtain o2 where "snd s2 = snd u @ [removal ?name o2]" by (elim exE conjE) (rule that)
        then show ?thesis using o1 no
          by (intro exI [of _ "[Did (docker_command [''docker'', ''stop'', ?name] None) o1, removal ?name o2]"]) simp
      qed
    qed
    then obtain stops where stops: "snd s2 = snd s1 @ stops" "\<forall>out. Did (docker_command argv None) out \<notin> set stops" by blast
    note a2 = a [unfolded Inr sbind.simps stopping_def [symmetric] y]
    show ?thesis
    proof (cases y)
      case (Inl e)
      then have "t = s2 \<and> \<not> is_ok r" using a2 by auto
      then show ?thesis using p(1,2) stops no by (intro exI [of _ "probe # stops"]) simp
    next
      case (Inr unit)
      obtain s3 z where st: "start_container (watched d) s2 config img = (s3, z)" by fastforce
      from start_log [OF st assms(2)] obtain start out where start: "snd s3 = snd s2 @ [start]" "start = Did (docker_command argv None) out"
        "\<forall>x. z = Inr x \<longrightarrow> (\<exists>v. answered argv None v start)" by (elim exE conjE) (rule that)
      obtain s4 c where c: "sbind (start_container (watched d) s2 config img) (\<lambda>w _. confirm_candidate (watched d) w ?name candidate sha) = (s4, c)"
        by fastforce
      have checks: "\<exists>checks. snd s4 = snd s3 @ checks \<and> (is_ok c \<longrightarrow> is_ok z \<and> confirmed ?name candidate sha checks)"
      proof (cases z)
        case (Inl e)
        then show ?thesis using c st by (intro exI [of _ "[]"]) auto
      next
        case (Inr v)
        then have cc: "confirm_candidate (watched d) s3 ?name candidate sha = (s4, c)" using c st by simp
        show ?thesis
        proof (cases c)
          case (Inl e)
          obtain n where "snd s4 = snd s3 @ n" using idle_confirm [of s3 d ?name candidate sha] unfolding cc emits_def by auto
          then show ?thesis using Inl by (intro exI [of _ n]) simp
        next
          case (Inr w)
          then show ?thesis using confirm_Inr [OF cc [unfolded Inr]] \<open>z = Inr v\<close> by (elim exE conjE) (intro exI conjI, simp_all)
        qed
      qed
      then obtain checks where checks: "snd s4 = snd s3 @ checks" "is_ok c \<longrightarrow> is_ok z \<and> confirmed ?name candidate sha checks" by blast
      note a3 = a2 [unfolded Inr sbind.simps c prod.case]
      have log4: "snd s4 = snd s @ probe # stops @ start # checks" using p(1) stops(1) start(1) checks(1) by simp
      show ?thesis
      proof (cases c)
        case (Inr v)
        then have t: "t = s4" "r = Inr ''APPLIED''" using a3 by auto
        obtain v where "answered argv None v start" using checks(2) Inr start(3) by (cases z) auto
        then have "replaced config argv candidate sha r (probe # stops @ start # checks)"
          unfolding replaced_def t using probed start(2) checks(2) Inr
          by (intro exI [of _ probe] exI [of _ previous] exI [of _ stops] exI [of _ start] exI [of _ checks] exI [of _ "[]"]) auto
        then show ?thesis using log4 t by blast
      next
        case (Inl e)
        show ?thesis
        proof (cases "exn_isa (exn_class e) SupervisorError")
          case False
          then have t: "t = s4" "r = Inl e" using a3 Inl by auto
          have "replaced config argv candidate sha r (probe # stops @ start # checks)"
            unfolding replaced_def t using probed start(2) False
            by (intro exI [of _ probe] exI [of _ previous] exI [of _ stops] exI [of _ start] exI [of _ checks] exI [of _ "[]"]) auto
          then show ?thesis using log4 t by blast
        next
          case True
          obtain s5 b where rb: "roll_back (watched d) s4 config previous = (s5, b)" by fastforce
          from roll_back_log [OF rb assms(2)] obtain o5 again where again: "snd s5 = snd s4 @ removal ?name o5 # again"
            "restarted config previous again \<or> (\<exists>e. b = Inl e \<and> \<not> exn_isa (exn_class e) SupervisorError)" by (elim exE conjE) (rule that)
          have t: "t = s5" "\<exists>e'. r = Inl e' \<and> (b = Inl e' \<or> is_ok b)" using a3 Inl True rb by (cases b; auto)+
          from t(2) obtain e' where r: "r = Inl e'" "b = Inl e' \<or> is_ok b" by blast
          have "exn_isa (exn_class e') SupervisorError \<longrightarrow> restarted config previous again" using again(2) r(2) by auto
          then have "replaced config argv candidate sha r (probe # stops @ start # checks @ removal ?name o5 # again)"
            unfolding replaced_def r(1) using probed start(2)
            by (intro exI [of _ probe] exI [of _ previous] exI [of _ stops] exI [of _ start] exI [of _ checks] exI [of _ "removal ?name o5 # again"]) auto
          then show ?thesis using log4 t(1) again(1) by (intro exI [of _ "probe # stops @ start # checks @ removal ?name o5 # again"]) simp
        qed
      qed
    qed
  qed
qed

lemma idle_answered:
  "answered (origin_argv repository) None v e \<Longrightarrow> idle e" "answered (main_argv repository) None v e \<Longrightarrow> idle e"
  "answered (''git'' # args) cwd v e \<Longrightarrow> idle e" "answered (build_argv sha img) cwd v e \<Longrightarrow> idle e"
  "answered (smoke_argv img) cwd v e \<Longrightarrow> idle e"
  "answered [''docker'', ''image'', ''inspect'', ''--format'', ''{{.Id}}'', img] cwd v e \<Longrightarrow> idle e"
  by (auto simp: answered_def idle_simps origin_argv_def main_argv_def)

lemma idle_live_main: "live_main config sha l \<Longrightarrow> list_all idle l"
  unfolding live_main_def by (elim exE conjE) (simp add: idle_answered)

lemma idle_tested: "tested config sha img candidate l \<Longrightarrow> list_all idle l"
  unfolding tested_def by (elim exE conjE) (simp add: idle_answered)

lemma emits_idle_log:
  assumes "emits snd idle s m" "m = (t, x)"
  obtains new where "snd t = snd s @ new" "list_all idle new"
  using assms by (auto simp: emits_def)

text \<open>The log of a release: nothing is touched, or the replacement follows a complete vetting.\<close>

definition vetted :: "supervisor_config \<Rightarrow> string \<Rightarrow> string \<Rightarrow> string \<Rightarrow> did list \<Rightarrow> bool" where
  "vetted config sha img candidate l \<longleftrightarrow>
     (\<exists>live probes built. l = live @ Asked sha (Inr True) # probes @ built
        \<and> live_main config sha live \<and> list_all idle probes \<and> tested config sha img candidate built)"

lemma idle_vetted: "vetted config sha img candidate l \<Longrightarrow> list_all idle l"
  unfolding vetted_def by (elim exE conjE) (simp add: idle_live_main idle_tested idle_simps)

lemma apply_log:
  assumes r: "apply_release (watched d) (asked ev) (w, []) config sha = ((w', l), r)"
  shows "list_all idle l \<or> (\<exists>img candidate vetting s t. candidate_tag sha = Inr img \<and> validate_config config = Inr () \<and> vetted config sha img candidate vetting
      \<and> snd s = vetting \<and> replace_broker (watched d) s config sha img candidate = (t, r) \<and> snd t = l)"
proof -
  define s0 where "s0 = (w, [] :: did list)"
  have s0: "snd s0 = []" by (simp add: s0_def)
  note a = r [folded s0_def, unfolded apply_release_def]
  show ?thesis
  proof (cases "validate_config config = Inr () \<and> is_sha sha")
    case False
    then have "(w', l) = s0" using a by (cases "validate_config config") (auto simp: pure_res_def)
    then show ?thesis using s0 by (cases s0) auto
  next
    case True
    note a1 = a [unfolded True [THEN conjunct1] sbind_pure_Inr, simplified True, simplified]
    obtain s1 x1 where m1: "verify_origin_and_main (watched d) s0 config sha = (s1, x1)" by fastforce
    show ?thesis
    proof (cases x1)
      case (Inl e)
      then have "l = snd s1" using a1 m1 by auto
      then show ?thesis using idle_verify [of s0 d config sha] s0 unfolding m1 emits_def by auto
    next
      case (Inr u1)
      from verify_Inr [OF m1 [unfolded Inr]] obtain live where live: "snd s1 = live" "live_main config sha live" using s0 by auto
      note idle1 = idle_live_main [OF live(2)]
      obtain s2 x2 where m2: "asked ev s1 sha = (s2, x2)" by fastforce
      have s2: "snd s2 = live @ [Asked sha x2]" using m2 live(1) by (cases s1) (auto simp: asked_def split: prod.splits)
      note a2 = a1 [unfolded m1 Inr sbind.simps m2]
      show ?thesis
      proof (cases "x2 = Inr True")
        case False
        then have "l = snd s2" using a2 by (cases x2) (auto simp: supervisor_error_def)
        then show ?thesis using s2 idle1 by (simp add: idle_simps)
      next
        case True
        define probe where "probe = sbind (running (watched d) s2 (broker_name config)) (\<lambda>w up.
          if up then sbind (container_revision (watched d) w (broker_name config)) (\<lambda>w rev. (w, Inr (rev = Some sha))) else (w, Inr False))"
        obtain s3 x3 where m3: "probe = (s3, x3)" by fastforce
        have "emits snd idle s2 probe" unfolding probe_def container_revision_def by (intro emits_intros idle_running idle_inspected) simp_all
        from emits_idle_log [OF this m3] obtain probes where probes: "snd s3 = snd s2 @ probes" "list_all idle probes" .
        have a3: "sbind probe (\<lambda>w current. if current then (w, Inr ''NOOP'')
            else sbind (pure_res w (candidate_tag sha)) (\<lambda>w img.
              sbind (build_candidate (watched d) w config sha img) (\<lambda>w candidate. replace_broker (watched d) w config sha img candidate)))
          = ((w', l), r)"
          using a2 True unfolding probe_def by (cases "running (watched d) s2 (broker_name config)"; cases "snd (running (watched d) s2 (broker_name config))") auto
        show ?thesis
        proof (cases "x3 = Inr False")
          case False
          then have "l = snd s3" using a3 m3 by (cases x3) auto
          then show ?thesis using probes s2 idle1 by (simp add: idle_simps)
        next
          case x3: True
          obtain img where img: "candidate_tag sha = Inr img" using \<open>validate_config config = Inr () \<and> is_sha sha\<close> by (simp add: candidate_tag_def)
          obtain s4 x4 where m4: "build_candidate (watched d) s3 config sha img = (s4, x4)" by fastforce
          have a4: "sbind (s4, x4) (\<lambda>w candidate. replace_broker (watched d) w config sha img candidate) = ((w', l), r)"
            using a3 m3 x3 img m4 by simp
          show ?thesis
          proof (cases x4)
            case (Inl e)
            then have l: "l = snd s4" using a4 by auto
            from emits_idle_log [OF idle_build m4] obtain new where "snd s4 = snd s3 @ new" "list_all idle new" .
            then show ?thesis using l probes s2 idle1 by (simp add: idle_simps)
          next
            case (Inr candidate)
            from build_Inr [OF m4 [unfolded Inr]] obtain built where built: "snd s4 = snd s3 @ built" "tested config sha img candidate built" by blast
            have "vetted config sha img candidate (snd s4)"
              unfolding vetted_def using built probes s2 live(2) True
              by (intro exI [of _ live] exI [of _ probes] exI [of _ built]) simp
            moreover have "replace_broker (watched d) s4 config sha img candidate = ((w', l), r)" using a4 Inr by simp
            ultimately show ?thesis using img \<open>validate_config config = Inr () \<and> is_sha sha\<close> by (intro disjI2 exI conjI) auto
          qed
        qed
      qed
    qed
  qed
qed

section \<open>Properties\<close>

text \<open>C27. The running broker is only touched for a vetted release. If applying a release stops, removes or
  starts a container, then before the first such step the repository's origin was the fixed one and
  its live main branch was exactly the released revision, the evidence said that the checks of that
  revision succeeded, and the candidate was built from a fresh worktree at that revision, labelled
  with it, resolved to an image, smoke-tested without a network, and the worktree removed; each of
  these commands exited with 0.\<close>

theorem releases_are_vetted:
  assumes "apply_release (watched d) (asked ev) (w, []) config sha = ((w', l), r)" and "e \<in> set l" "touches e"
  shows "\<exists>img candidate vetting rest. candidate_tag sha = Inr img \<and> l = vetting @ rest
    \<and> vetted config sha img candidate vetting \<and> list_all idle vetting \<and> e \<in> set rest"
proof -
  have "\<not> list_all idle l" using assms(2,3) by (auto simp: list_all_iff idle_def)
  note run = disjE [OF apply_log [OF assms(1)] notE [OF this]]
  obtain img candidate vetting s t where a: "candidate_tag sha = Inr img" "validate_config config = Inr ()"
    "vetted config sha img candidate vetting" "snd s = vetting" "replace_broker (watched d) s config sha img candidate = (t, r)" "snd t = l"
    by (rule run, assumption) (elim exE conjE, rule that)
  note a = a(1,2) a(3) [folded a(4)] a(5,6)
  from a(2) obtain argv where "runtime_argv config img = Inr argv" by (simp add: runtime_argv_def)
  from replace_log [OF a(4) this] obtain rest where l: "l = snd s @ rest" using a(5) by auto
  note idle = idle_vetted [OF a(3)]
  then have "e \<in> set rest" using assms(2,3) l by (auto simp: list_all_iff idle_def)
  then show ?thesis using a(1,3) l idle by blast
qed


definition demo_sha :: string where
  "demo_sha = replicate 40 CHR ''a''"

definition demo_config :: supervisor_config where
  "demo_config = \<lparr> repository_path = ''/r'', broker_config_file = ''/b.json'', broker_name = ''broker'', runtime_network = ''bridge'',
     broker_parent_github_volume = ''gh'', worker_codex_volume = ''cx'', worktree_volume = ''wt'' \<rparr>"

text \<open>A host whose container keeps running the image \<open>old\<close>, whatever it is told to start.\<close>

definition demo_answer :: "string list \<Rightarrow> string" where
  "demo_answer argv =
     (if argv ! 3 = ''config'' then hd ORIGINS else if argv ! 3 = ''ls-remote'' then demo_sha @ '' main''
      else if argv ! 3 = ''rev-parse'' then demo_sha else if argv ! 1 = ''image'' then ''new''
      else if argv ! 1 \<noteq> ''container'' then [] else if argv ! 4 = RUNNING_FORMAT then ''true'' else ''old'')"

definition demo_dock :: "unit dock" where
  "demo_dock =
     \<lparr> dk_host = \<lparr> host_clock = (\<lambda>w. (w, 0)), host_run = (\<lambda>w c. (w, Exited 0 (demo_answer (cmd_argv c)) [])), host_exists = (\<lambda>w p. False),
         host_mkdir = (\<lambda>w p. (w, Inr ())), host_rmtree = (\<lambda>w p. (w, Inr ())), host_environ = (\<lambda>w. []), host_seconds = show_int,
         host_local_offset = (\<lambda>_. 0) \<rparr>,
       dk_http = (\<lambda>w q. (w, HttpStatus 503)), dk_temp = (\<lambda>w. (w, Inr ''/tmp'')), dk_untemp = (\<lambda>w p. (w, Inr ())), dk_sleep = (\<lambda>w n. w) \<rparr>"

definition demo_release :: "(unit \<times> did list) \<times> string res" where
  "demo_release = apply_release (watched demo_dock) (asked (\<lambda>w sha. (w, Inr True))) ((), []) demo_config demo_sha"

lemma demo_release_runs: "map touches (snd (fst demo_release)) = [False, False, False, False, False, False, False, False, False,
    False, False, False, False, True, True, True, False, False, True, True]"
  by code_simp

theorem releases_are_vetted_witness:
  "\<exists>e img candidate vetting rest. snd (fst demo_release) = vetting @ rest \<and> e \<in> set rest \<and> touches e
     \<and> vetted demo_config demo_sha img candidate vetting"
proof -
  obtain l r where d: "demo_release = (((), l), r)" by (rule logged_pairE)
  have "list_ex touches (snd (fst demo_release))" using arg_cong [OF demo_release_runs, of "list_ex id"] by (simp add: list_ex_iff)
  then obtain e where e: "e \<in> set l" "touches e" unfolding d by (auto simp: list_ex_iff)
  from releases_are_vetted [OF d [unfolded demo_release_def] e] e(2) show ?thesis
    unfolding d fst_conv snd_conv by (elim exE conjE) (intro exI conjI)
qed

definition demo_start :: "string list" where
  "demo_start = projr (runtime_argv demo_config (projr (candidate_tag demo_sha)))"

lemma demo_started: "snd demo_release = supervisor_error ''candidate did not reach requested healthy image revision''"
  "snd (fst demo_release) ! 15 = Did (docker_command demo_start None) (Exited 0 [] [])" "length (snd (fst demo_release)) = 20"
  by code_simp+


text \<open>
  Two limits. \<open>runtime_argv\<close> promises that no socket mount is expressible, and the configuration file may
  be any absolute path, the socket of the Docker daemon included. And a directive is never retired: as
  soon as the main branch has moved past one release of the queue, every pass of the entry point
  stops there with an error, before any later release.
\<close>

lemma socket_is_mountable:
  "rbind (runtime_argv (demo_config\<lparr>broker_config_file := ''/var/run/docker.sock''\<rparr>) ''i'') (\<lambda>argv.
     Inr (argv ! 16)) = Inr ''type=bind,src=/var/run/docker.sock,dst=/etc/fossil/broker.json,readonly''"
  by code_simp

lemma superseded_release_fails:
  assumes "\<And>w. snd (host_step d w (main_argv (repository_path config)) None) = Inr out" "split_words out = [] \<or> hd (split_words out) \<noteq> sha"
  shows "\<not> is_ok (snd (apply_release d ev w config sha))"
proof
  assume "is_ok (snd (apply_release d ev w config sha))"
  then obtain t v where "apply_release d ev w config sha = (t, Inr v)"
    by (cases "apply_release d ev w config sha") (auto elim: is_okE)
  then obtain s u x where "verify_origin_and_main d s config sha = (u, Inr x)"
    unfolding apply_release_def by (elim sbind_InrE) (auto simp: if_error_Inr elim!: sbind_InrE simp del: sbind.simps)
  then obtain s' where "sbind (host_git d s' (repository_path config) [''ls-remote'', ''origin'', ''refs/heads/main'']) (\<lambda>w out.
      (w, if split_words out = [] \<or> hd (split_words out) \<noteq> sha then supervisor_error ''reviewed_sha is not live origin/main'' else Inr ())) = (u, Inr x)"
    unfolding verify_origin_and_main_def by (elim sbind_InrE) (auto simp: if_error_Inr simp del: sbind.simps)
  then obtain u' out' where o': "host_git d s' (repository_path config) [''ls-remote'', ''origin'', ''refs/heads/main''] = (u', Inr out')"
    "\<not> (split_words out' = [] \<or> hd (split_words out') \<noteq> sha)"
    by (elim sbind_InrE) (auto simp: supervisor_error_def split: if_split_asm)
  then have "out' = out" using assms(1) [of s'] by (simp add: host_git_def main_argv_def)
  then show False using o'(2) assms(2) by simp
qed

lemma superseded_release_blocks:
  assumes "\<And>w. snd (host_step d w (main_argv (repository_path config)) None) = Inr out" "split_words out = [] \<or> hd (split_words out) \<noteq> old"
    and "old \<in> set shas"
  shows "\<not> is_ok (snd (apply_all d ev w config shas))"
  using assms(3)
proof (induction shas arbitrary: w)
  case (Cons sha shas)
  show ?case
  proof (cases "old = sha")
    case True
    obtain t r where m: "apply_release d ev w config sha = (t, r)" by fastforce
    then have "\<not> is_ok r" using superseded_release_fails [where d = d and ev = ev and w = w and config = config and sha = sha, OF assms(1,2) [unfolded True]] by simp
    then show ?thesis using m by (cases r) simp_all
  next
    case False
    obtain t r where m: "apply_release d ev w config sha = (t, r)" by fastforce
    obtain t' r' where m': "apply_all d ev t config shas = (t', r')" by fastforce
    have "\<not> is_ok r'" using Cons.IH [of t] Cons.prems False m' by simp
    then show ?thesis using m m' by (cases r; cases r') simp_all
  qed
qed simp

end
