(* ===== verification/Query_Context.thy ===== *)
theory Query_Context
  imports Json
begin

text \<open>
  The context of a query on its way to a model (\<open>application/query/security.py\<close> and
  \<open>application/query/lineage.py\<close>): retrieved items are resolved against the mounted durable documents,
  relation endpoints are added from them, and what the model answers is reduced to durable claims.

  A model service is the record \<open>model_service\<close>, its two operations on a world of their own; the two
  wrappers of the program are functions from services to services, composed as the program composes
  them. \<open>sha\<close> is SHA-256 in hex. Documents are the dictionaries the services were made with.
\<close>

section \<open>Services\<close>

record 'w model_service =
  svc_metadata :: "'w \<Rightarrow> 'w \<times> json res"
  svc_run :: "'w \<Rightarrow> dict \<Rightarrow> 'w \<times> json res"

definition str_get :: "dict \<Rightarrow> string \<Rightarrow> string" where
  "str_get d k = py_str (dget_or d k (JStr []))"

definition iter_get :: "dict \<Rightarrow> string \<Rightarrow> json list res" where
  "iter_get d k = py_iter (dget_or d k (JArr []))"

definition dict_items :: "json list \<Rightarrow> dict list res" where
  "dict_items vs = rmap as_dict vs"

section \<open>Untrusted context\<close>

definition CONTEXT_SECURITY_RESOLVER :: string where
  "CONTEXT_SECURITY_RESOLVER = ''fossil-untrusted-context-v1''"

definition UNTRUSTED_SOURCE_DATA :: string where
  "UNTRUSTED_SOURCE_DATA = ''untrusted_source_data''"

definition CITATION_KEYS :: "string list" where
  "CITATION_KEYS = [''schema_version'', ''citation_id'', ''snapshot_id'', ''artifact_id'', ''byte_start'', ''byte_end'', ''passage_hash'']"

definition EXECUTABLE_FIELDS :: "string list" where
  "EXECUTABLE_FIELDS = [''actions'', ''commit'', ''commit_request'', ''commit_requests'', ''proposals'', ''requested_actions'',
     ''tool_call'', ''tool_calls'', ''tools'']"

definition ALLOWED_OUTPUT_FIELDS :: "string list" where
  "ALLOWED_OUTPUT_FIELDS = [''outcome'', ''answer_text'', ''claims'', ''confidence'']"

definition ALLOWED_CLAIM_FIELDS :: "string list" where
  "ALLOWED_CLAIM_FIELDS = [''claim_id'', ''text'', ''citation'']"

definition canonical_citation :: "json \<Rightarrow> json" where
  "canonical_citation v = (case v of JObj d \<Rightarrow> JObj (map (\<lambda>k. (k, dget d k)) CITATION_KEYS) | _ \<Rightarrow> JNull)"

definition authority_projection :: "dict \<Rightarrow> json" where
  "authority_projection d =
     JObj (map (\<lambda>k. (k, dget d k)) [''id'', ''pack_id'', ''text'', ''document_type'', ''current_state'', ''state_history'', ''relation_type'',
        ''source_ref'', ''target_ref''] @ [(''citation'', canonical_citation (dget d ''citation''))])"

definition untrusted_fingerprint :: "(string \<Rightarrow> string) \<Rightarrow> string \<Rightarrow> string \<Rightarrow> string" where
  "untrusted_fingerprint sha pack text = sha (pack @ [CHR 0x00] @ text)"

definition keyed_documents :: "dict list \<Rightarrow> (string \<times> dict) list" where
  "keyed_documents docs =
     foldl (\<lambda>m d. if dget d ''id'' = JNull then m else AList.update (py_str (dget d ''id'')) d m) [] docs"

record context_scan =
  secured :: "dict list"
  seen_durable :: "string list"
  seen_fingerprints :: "string list"
  canonicalized_ids :: "string list"
  mismatched_ids :: "string list"
  demoted_ids :: "string list"
  dropped_ids :: "string list"
  deduplicated_ids :: "string list"

definition empty_scan :: context_scan where
  "empty_scan = \<lparr> secured = [], seen_durable = [], seen_fingerprints = [], canonicalized_ids = [], mismatched_ids = [],
     demoted_ids = [], dropped_ids = [], deduplicated_ids = [] \<rparr>"

definition or_missing :: "string \<Rightarrow> string" where
  "or_missing i = (if i = [] then ''<missing-id>'' else i)"

definition durable_item :: "dict \<Rightarrow> bool \<Rightarrow> dict" where
  "durable_item d mismatch = AList.update ''context_security''
     (JObj [(''resolver'', JStr CONTEXT_SECURITY_RESOLVER), (''trust'', JStr UNTRUSTED_SOURCE_DATA),
        (''authority'', JStr ''durable_identity_resolved''), (''retrieved_payload_mismatch'', JBool mismatch)]) d"

definition untrusted_item :: "string \<Rightarrow> string \<Rightarrow> string \<Rightarrow> string \<Rightarrow> dict" where
  "untrusted_item i pack text claimed =
     [(''id'', JStr i), (''pack_id'', JStr pack), (''text'', JStr text), (''document_type'', JStr ''untrusted_context''),
      (''context_security'', JObj [(''resolver'', JStr CONTEXT_SECURITY_RESOLVER), (''trust'', JStr UNTRUSTED_SOURCE_DATA),
         (''authority'', JStr ''unresolved_untrusted_payload''), (''claimed_document_type'', JStr claimed)])]"

definition secure_durable :: "string list \<Rightarrow> dict \<Rightarrow> context_scan \<Rightarrow> dict \<Rightarrow> context_scan" where
  "secure_durable allowed durable s raw =
     (let i = str_get raw ''id'' in
      if str_get durable ''pack_id'' \<notin> set allowed then s\<lparr>dropped_ids := dropped_ids s @ [or_missing i]\<rparr>
      else if i \<in> set (seen_durable s) then s\<lparr>deduplicated_ids := deduplicated_ids s @ [i]\<rparr>
      else let mismatch = \<not> py_eq (authority_projection raw) (authority_projection durable) in
        s\<lparr>seen_durable := i # seen_durable s,
          mismatched_ids := mismatched_ids s @ (if mismatch then [i] else []),
          canonicalized_ids := canonicalized_ids s @ [i],
          secured := secured s @ [durable_item durable mismatch]\<rparr>)"

definition secure_unknown :: "(string \<Rightarrow> string) \<Rightarrow> string list \<Rightarrow> context_scan \<Rightarrow> dict \<Rightarrow> context_scan" where
  "secure_unknown sha allowed s raw =
     (let i = str_get raw ''id''; pack = str_get raw ''pack_id''; text = str_get raw ''text''; fp = untrusted_fingerprint sha pack text in
      if pack \<notin> set allowed then s\<lparr>dropped_ids := dropped_ids s @ [or_missing i]\<rparr>
      else if fp \<in> set (seen_fingerprints s)
        then s\<lparr>deduplicated_ids := deduplicated_ids s @ [if i = [] then ''sha256:'' @ take 16 fp else i]\<rparr>
      else let j = (if i = [] then ''untrusted_'' @ take 24 fp else i) in
        s\<lparr>seen_fingerprints := fp # seen_fingerprints s,
          demoted_ids := demoted_ids s @ [j],
          secured := secured s @ [untrusted_item j pack text (str_get raw ''document_type'')]\<rparr>)"

definition secure_item :: "(string \<Rightarrow> string) \<Rightarrow> (string \<times> dict) list \<Rightarrow> string list \<Rightarrow> context_scan \<Rightarrow> dict \<Rightarrow> context_scan" where
  "secure_item sha durables allowed s raw =
     (let i = str_get raw ''id'' in
      case (if i = [] then None else map_of durables i) of
        Some durable \<Rightarrow> secure_durable allowed durable s raw
      | None \<Rightarrow> secure_unknown sha allowed s raw)"

definition scan_context :: "(string \<Rightarrow> string) \<Rightarrow> dict list \<Rightarrow> string list \<Rightarrow> dict list \<Rightarrow> context_scan" where
  "scan_context sha docs allowed items = foldl (secure_item sha (keyed_documents docs) allowed) empty_scan items"

definition item_ids :: "dict list \<Rightarrow> string list" where
  "item_ids items = map (\<lambda>d. str_get d ''id'') (filter (\<lambda>d. truthy (dget d ''id'')) items)"

definition security_diagnostics :: "string list \<Rightarrow> nat \<Rightarrow> context_scan \<Rightarrow> dict" where
  "security_diagnostics allowed n s =
     [(''resolver'', JStr CONTEXT_SECURITY_RESOLVER), (''source_text_trust'', JStr UNTRUSTED_SOURCE_DATA),
      (''allowed_pack_ids'', strs (sorted_set (set allowed))), (''input_item_count'', JInt (int n)),
      (''forwarded_item_count'', JInt (int (length (secured s)))), (''forwarded_item_ids'', strs (item_ids (secured s))),
      (''forwarded_pack_ids'', strs (sorted_set (set (map (\<lambda>d. str_get d ''pack_id'') (filter (\<lambda>d. truthy (dget d ''pack_id'')) (secured s)))))),
      (''canonicalized_ids'', strs (canonicalized_ids s)), (''retrieved_payload_mismatch_ids'', strs (mismatched_ids s)),
      (''demoted_untrusted_ids'', strs (demoted_ids s)), (''dropped_out_of_scope_ids'', strs (dropped_ids s)),
      (''deduplicated_ids'', strs (deduplicated_ids s))]"

definition canonicalize_untrusted_context ::
  "(string \<Rightarrow> string) \<Rightarrow> json list \<Rightarrow> dict list \<Rightarrow> json list \<Rightarrow> (dict list \<times> dict) res" where
  "canonicalize_untrusted_context sha items docs packs =
     rbind (dict_items items) (\<lambda>raws.
       let allowed = map py_str packs; s = scan_context sha docs allowed raws
       in Inr (secured s, security_diagnostics allowed (length raws) s))"

section \<open>Answers\<close>

definition durable_claim_payload :: "dict \<Rightarrow> dict" where
  "durable_claim_payload d =
     [(''claim_id'', JStr (py_str (dget d ''id''))), (''text'', JStr (str_get d ''text''))]
     @ (let c = canonical_citation (dget d ''citation'') in if c = JNull then [] else [(''citation'', c)])"

definition runtime_metadata :: "'w model_service \<Rightarrow> 'w \<Rightarrow> dict \<Rightarrow> 'w \<times> dict res" where
  "runtime_metadata svc w extra =
     sbind (svc_metadata svc w) (\<lambda>w v.
       (w, rbind (as_dict v) (\<lambda>m. rbind (as_dict (dget_or m ''runtime'' (JObj []))) (\<lambda>r.
         Inr (AList.update ''runtime'' (JObj (foldl (\<lambda>r (k, x). AList.update k x r) r extra)) m)))))"

definition security_metadata :: "'w model_service \<Rightarrow> 'w \<Rightarrow> 'w \<times> dict res" where
  "security_metadata svc w = runtime_metadata svc w
     [(''context_security_resolver'', JStr CONTEXT_SECURITY_RESOLVER), (''retrieved_source_text_trust'', JStr UNTRUSTED_SOURCE_DATA),
      (''answer_tool_execution'', JStr ''disabled'')]"

definition durable_claims :: "dict list \<Rightarrow> string list \<Rightarrow> (string \<times> dict) list res" where
  "durable_claims docs allowed =
     rfold (\<lambda>m d. if str_get d ''pack_id'' \<in> set allowed \<and> str_get d ''document_type'' = ''claim''
        then rbind (dindex d ''id'') (\<lambda>i. Inr (AList.update (py_str i) d m)) else Inr m) [] docs"

record claim_scan =
  canonical_claims :: "dict list"
  invalid_claim_ids :: "string list"
  blocked_claim_fields :: "(string \<times> json) list"

definition scan_claim :: "(string \<times> dict) list \<Rightarrow> claim_scan \<Rightarrow> json \<Rightarrow> claim_scan" where
  "scan_claim durables s v =
     (let claim = (case v of JObj d \<Rightarrow> d | _ \<Rightarrow> []); i = str_get claim ''claim_id'' in
      case (if i = [] then None else map_of durables i) of
        None \<Rightarrow> s\<lparr>invalid_claim_ids := invalid_claim_ids s @ [or_missing i]\<rparr>
      | Some d \<Rightarrow>
          let extras = sort (filter (\<lambda>k. k \<notin> set ALLOWED_CLAIM_FIELDS) (map fst claim)) in
          s\<lparr>blocked_claim_fields := (if extras = [] then blocked_claim_fields s else AList.update i (strs extras) (blocked_claim_fields s)),
            canonical_claims := canonical_claims s @ [durable_claim_payload d]\<rparr>)"

definition INSUFFICIENT :: dict where
  "INSUFFICIENT = [(''outcome'', JStr ''insufficient_evidence''), (''answer_text'', JStr ''Insufficient evidence.''), (''claims'', JArr []),
     (''confidence'', JFloat ''1.0'')]"

definition secure_request :: "dict \<Rightarrow> dict list \<Rightarrow> dict" where
  "secure_request task items =
     filter (\<lambda>(k, _). k \<notin> set EXECUTABLE_FIELDS)
       (AList.update ''context_security''
          (JObj [(''resolver'', JStr CONTEXT_SECURITY_RESOLVER), (''retrieved_source_text'', JStr UNTRUSTED_SOURCE_DATA),
             (''retrieved_text_can_issue_policy'', JBool False), (''model_can_execute_tools'', JBool False),
             (''durable_claim_resolution_required'', JBool True)])
          (AList.update ''context_items'' (JArr (map JObj items)) task))"

definition secure_output :: "(string \<times> dict) list \<Rightarrow> json \<Rightarrow> dict \<times> dict" where
  "secure_output durables v =
     (let raw = (case v of JObj d \<Rightarrow> d | _ \<Rightarrow> []);
          output = filter (\<lambda>(k, _). k \<in> set ALLOWED_OUTPUT_FIELDS) raw;
          values = (case dget_or output ''claims'' (JArr []) of JArr vs \<Rightarrow> vs | _ \<Rightarrow> []);
          s = foldl (scan_claim durables) \<lparr> canonical_claims = [], invalid_claim_ids = [], blocked_claim_fields = [] \<rparr> values
      in (if invalid_claim_ids s \<noteq> [] then INSUFFICIENT
          else AList.update ''claims'' (JArr (map JObj (canonical_claims s))) output,
          [(''blocked_output_fields'', strs (sort (filter (\<lambda>k. k \<notin> set ALLOWED_OUTPUT_FIELDS) (map fst raw)))),
           (''blocked_claim_fields'', JObj (blocked_claim_fields s)),
           (''invalid_output_claim_ids'', strs (invalid_claim_ids s))]))"

definition untrusted_run ::
  "(string \<Rightarrow> string) \<Rightarrow> 'w model_service \<Rightarrow> dict list \<Rightarrow> 'w \<Rightarrow> dict \<Rightarrow> 'w \<times> dict res" where
  "untrusted_run sha svc docs w task =
     sbind (pure_res w (iter_get task ''pack_ids'')) (\<lambda>w packs.
     sbind (pure_res w (iter_get task ''context_items'')) (\<lambda>w items.
     sbind (pure_res w (canonicalize_untrusted_context sha items docs (map (JStr \<circ> py_str) packs))) (\<lambda>w (secured, diagnostics).
     sbind (svc_run svc w (secure_request task secured)) (\<lambda>w v.
     sbind (pure_res w (as_dict v)) (\<lambda>w response.
       let blocked = sort (filter (\<lambda>k. k \<in> set EXECUTABLE_FIELDS) (map fst response));
           response = filter (\<lambda>(k, _). k \<notin> set EXECUTABLE_FIELDS) response in
     sbind (pure_res w (durable_claims docs (map py_str packs))) (\<lambda>w durables.
       case secure_output durables (dget_or response ''output'' (JObj [])) of (output, reports) \<Rightarrow>
     sbind (security_metadata svc w) (\<lambda>w metadata.
       (w, Inr (AList.update ''context_security'' (JObj (diagnostics @ (''blocked_response_fields'', strs blocked) # reports))
          (AList.update ''service'' (JObj metadata) (AList.update ''authority'' (JStr ''candidate_only'')
             (AList.update ''output'' (JObj output) response))))))))))))"

definition untrusted_service :: "(string \<Rightarrow> string) \<Rightarrow> 'w model_service \<Rightarrow> dict list \<Rightarrow> 'w model_service" where
  "untrusted_service sha svc docs =
     \<lparr> svc_metadata = (\<lambda>w. sbind (security_metadata svc w) (\<lambda>w m. (w, Inr (JObj m)))),
       svc_run = (\<lambda>w task. sbind (untrusted_run sha svc docs w task) (\<lambda>w r. (w, Inr (JObj r)))) \<rparr>"

section \<open>Lineage\<close>

definition LINEAGE_CONTEXT_RESOLVER :: string where
  "LINEAGE_CONTEXT_RESOLVER = ''fossil-lineage-context-v1''"

definition mounted_documents :: "dict list \<Rightarrow> string list \<Rightarrow> (string \<times> dict) list res" where
  "mounted_documents docs allowed =
     rfold (\<lambda>m d. if str_get d ''pack_id'' \<in> set allowed then rbind (dindex d ''id'') (\<lambda>i. Inr (AList.update (py_str i) d m)) else Inr m) [] docs"

text \<open>\<open>pick_refs\<close> is the loop over the two endpoints of one relation, \<open>pick_items\<close> the one over the items.\<close>

primrec pick_refs :: "(string \<times> dict) list \<Rightarrow> int \<Rightarrow> string list \<Rightarrow> string list \<times> string list \<Rightarrow> string list \<times> string list" where
  "pick_refs docs limit [] s = s"
| "pick_refs docs limit (i # ids) s =
     (if i \<noteq> [] \<and> i \<notin> set (snd s) \<and> map_of docs i \<noteq> None
      then (let s' = (fst s @ [i], i # snd s) in if limit \<le> int (length (fst s')) then s' else pick_refs docs limit ids s')
      else pick_refs docs limit ids s)"

primrec pick_items :: "(string \<times> dict) list \<Rightarrow> int \<Rightarrow> dict list \<Rightarrow> string list \<times> string list \<Rightarrow> string list \<times> string list" where
  "pick_items docs limit [] s = s"
| "pick_items docs limit (d # items) s =
     (if str_get d ''document_type'' \<noteq> ''relation'' then pick_items docs limit items s
      else let s' = pick_refs docs limit [str_get d ''source_ref'', str_get d ''target_ref''] s in
        if limit \<le> int (length (fst s')) then s' else pick_items docs limit items s')"

definition expansion_item :: "dict \<Rightarrow> dict" where
  "expansion_item d = AList.update ''context_expansion''
     (JObj [(''reason'', JStr ''durable_relation_endpoint''), (''resolver'', JStr LINEAGE_CONTEXT_RESOLVER)]) d"

definition expand_with_diagnostics ::
  "json list \<Rightarrow> dict list \<Rightarrow> json list \<Rightarrow> int \<Rightarrow> (dict list \<times> dict) res" where
  "expand_with_diagnostics items docs packs limit =
     (if limit < 0 then Inl (Exn ValueError ''max_expansions must be non-negative'')
      else rbind (mounted_documents docs (map py_str packs)) (\<lambda>mounted.
      rbind (dict_items items) (\<lambda>selected.
        let ids = item_ids selected;
            picked = fst (pick_items mounted limit selected ([], ids));
            final = selected @ map (\<lambda>i. expansion_item (the (map_of mounted i))) picked
        in Inr (final, [(''resolver'', JStr LINEAGE_CONTEXT_RESOLVER), (''allowed_pack_ids'', strs (sorted_set (set (map py_str packs)))),
             (''input_context_ids'', strs ids), (''expanded_ids'', strs picked), (''final_context_ids'', strs (item_ids final)),
             (''max_expansions'', JInt limit)]))))"

definition expand_context_with_lineage :: "json list \<Rightarrow> dict list \<Rightarrow> json list \<Rightarrow> int \<Rightarrow> dict list res" where
  "expand_context_with_lineage items docs packs limit = rbind (expand_with_diagnostics items docs packs limit) (\<lambda>(final, _). Inr final)"

definition lineage_metadata :: "'w model_service \<Rightarrow> int \<Rightarrow> 'w \<Rightarrow> 'w \<times> dict res" where
  "lineage_metadata svc limit w = runtime_metadata svc w
     [(''lineage_context_resolver'', JStr LINEAGE_CONTEXT_RESOLVER), (''lineage_max_expansions'', JStr (show_int limit))]"

definition lineage_run :: "'w model_service \<Rightarrow> dict list \<Rightarrow> int \<Rightarrow> 'w \<Rightarrow> dict \<Rightarrow> 'w \<times> dict res" where
  "lineage_run svc docs limit w task =
     sbind (pure_res w (iter_get task ''context_items'')) (\<lambda>w items.
     sbind (pure_res w (iter_get task ''pack_ids'')) (\<lambda>w packs.
     sbind (pure_res w (expand_with_diagnostics items docs packs limit)) (\<lambda>w (expanded, diagnostics).
     sbind (svc_run svc w (AList.update ''context_items'' (JArr (map JObj expanded)) task)) (\<lambda>w v.
     sbind (pure_res w (as_dict v)) (\<lambda>w response.
     sbind (lineage_metadata svc limit w) (\<lambda>w metadata.
       (w, Inr (AList.update ''lineage_resolution'' (JObj diagnostics) (AList.update ''service'' (JObj metadata) response)))))))))"

definition lineage_service :: "'w model_service \<Rightarrow> dict list \<Rightarrow> int \<Rightarrow> 'w model_service res" where
  "lineage_service svc docs limit =
     (if limit < 0 then Inl (Exn ValueError ''max_expansions must be non-negative'')
      else Inr \<lparr> svc_metadata = (\<lambda>w. sbind (lineage_metadata svc limit w) (\<lambda>w m. (w, Inr (JObj m)))),
                 svc_run = (\<lambda>w task. sbind (lineage_run svc docs limit w task) (\<lambda>w r. (w, Inr (JObj r)))) \<rparr>)"

section \<open>What is forwarded\<close>

definition durable_forwarded :: "dict list \<Rightarrow> string list \<Rightarrow> dict \<Rightarrow> bool" where
  "durable_forwarded docs allowed x \<longleftrightarrow>
     (\<exists>d m. d \<in> set docs \<and> dget d ''id'' \<noteq> JNull \<and> str_get d ''pack_id'' \<in> set allowed \<and> x = durable_item d m)"

definition untrusted_forwarded :: "string list \<Rightarrow> dict \<Rightarrow> bool" where
  "untrusted_forwarded allowed x \<longleftrightarrow> (\<exists>i pack text claimed. pack \<in> set allowed \<and> x = untrusted_item i pack text claimed)"

lemma keyed_documents_Some:
  assumes "map_of (keyed_documents docs) i = Some d"
  shows "d \<in> set docs \<and> dget d ''id'' \<noteq> JNull \<and> i = py_str (dget d ''id'')"
proof -
  have "map_of (foldl (\<lambda>m d. if dget d ''id'' = JNull then m else AList.update (py_str (dget d ''id'')) d m) m ds) i = Some d \<Longrightarrow>
    map_of m i = Some d \<or> (d \<in> set ds \<and> dget d ''id'' \<noteq> JNull \<and> i = py_str (dget d ''id''))" for m ds
  proof (induction ds arbitrary: m)
    case (Cons e ds)
    show ?case
    proof (cases "dget e ''id'' = JNull")
      case True
      then show ?thesis using Cons by auto
    next
      case False
      then have "map_of (foldl (\<lambda>m d. if dget d ''id'' = JNull then m else AList.update (py_str (dget d ''id'')) d m)
        (AList.update (py_str (dget e ''id'')) e m) ds) i = Some d" using Cons.prems by simp
      from Cons.IH [OF this] show ?thesis using False by (auto split: if_split_asm)
    qed
  qed simp
  from this [of "[]" docs] assms show ?thesis by (simp add: keyed_documents_def)
qed

text \<open>The invariant of the scan: what is forwarded is durable or plain data, once each, and every item is accounted for.\<close>

definition scan_ok :: "(string \<Rightarrow> string) \<Rightarrow> dict list \<Rightarrow> string list \<Rightarrow> nat \<Rightarrow> context_scan \<Rightarrow> bool" where
  "scan_ok sha docs allowed n s \<longleftrightarrow>
     list_all (\<lambda>x. durable_forwarded docs allowed x \<or> untrusted_forwarded allowed x) (secured s)
     \<and> n = length (secured s) + length (dropped_ids s) + length (deduplicated_ids s)
     \<and> length (secured s) = length (canonicalized_ids s) + length (demoted_ids s)
     \<and> set (seen_durable s) = set (canonicalized_ids s) \<and> distinct (canonicalized_ids s)
     \<and> set (mismatched_ids s) \<subseteq> set (canonicalized_ids s)"

lemma secure_item_ok:
  assumes "scan_ok sha docs allowed n s"
  shows "scan_ok sha docs allowed (Suc n) (secure_item sha (keyed_documents docs) allowed s raw)"
proof (cases "if str_get raw ''id'' = [] then None else map_of (keyed_documents docs) (str_get raw ''id'')")
  case (Some d)
  then have "map_of (keyed_documents docs) (str_get raw ''id'') = Some d" by (simp split: if_split_asm)
  note doc = keyed_documents_Some [OF this]
  have fwd: "str_get d ''pack_id'' \<in> set allowed \<Longrightarrow> durable_forwarded docs allowed (durable_item d m)" for m
    using doc unfolding durable_forwarded_def by blast
  show ?thesis
    using assms fwd unfolding secure_item_def Let_def Some option.case secure_durable_def scan_ok_def
    by (simp add: subset_insertI2, auto)
next
  case None
  have fwd: "pack \<in> set allowed \<Longrightarrow> untrusted_forwarded allowed (untrusted_item j pack t c)" for j pack t c
    by (auto simp: untrusted_forwarded_def)
  show ?thesis
  proof (cases "str_get raw ''pack_id'' \<in> set allowed")
    case False
    then show ?thesis using assms unfolding secure_item_def Let_def None option.case secure_unknown_def scan_ok_def by simp
  next
    case True
    then have "untrusted_forwarded allowed (untrusted_item j (str_get raw ''pack_id'') t c)" for j t c by (rule fwd)
    then show ?thesis using assms True unfolding secure_item_def Let_def None option.case secure_unknown_def scan_ok_def by simp
  qed
qed

lemma scan_context_ok: "scan_ok sha docs allowed (length items) (scan_context sha docs allowed items)"
proof -
  have "scan_ok sha docs allowed n s \<Longrightarrow>
    scan_ok sha docs allowed (n + length items) (foldl (secure_item sha (keyed_documents docs) allowed) s items)" for n s
  proof (induction items arbitrary: n s)
    case (Cons raw items)
    from Cons.IH [OF secure_item_ok [OF Cons.prems]] show ?case by simp
  qed simp
  from this [of 0 empty_scan] show ?thesis by (simp add: scan_context_def scan_ok_def empty_scan_def)
qed

lemma rmap_length: "rmap f xs = Inr ys \<Longrightarrow> length ys = length xs"
  by (simp add: rmap_Inr_iff)

lemma canonicalize_D:
  assumes "canonicalize_untrusted_context sha items docs packs = Inr (out, diag)"
  obtains s where "out = secured s" "scan_ok sha docs (map py_str packs) (length items) s"
    "diag = security_diagnostics (map py_str packs) (length items) s"
proof -
  from assms obtain raws where r: "dict_items items = Inr raws"
    and o': "out = secured (scan_context sha docs (map py_str packs) raws)"
    "diag = security_diagnostics (map py_str packs) (length raws) (scan_context sha docs (map py_str packs) raws)"
    by (auto simp: canonicalize_untrusted_context_def rbind_Inr_iff Let_def)
  have "length raws = length items" using rmap_length [OF r [unfolded dict_items_def]] .
  then show ?thesis using that o' scan_context_ok [of sha docs "map py_str packs" raws] by metis
qed

section \<open>What is answered\<close>

lemma foldl_claims_durable:
  "list_all (\<lambda>c. \<exists>d. d \<in> snd ` set durables \<and> c = durable_claim_payload d) (canonical_claims s) \<Longrightarrow>
   list_all (\<lambda>c. \<exists>d. d \<in> snd ` set durables \<and> c = durable_claim_payload d) (canonical_claims (foldl (scan_claim durables) s vs))"
proof (induction vs arbitrary: s)
  case (Cons v vs)
  have "list_all (\<lambda>c. \<exists>d. d \<in> snd ` set durables \<and> c = durable_claim_payload d) (canonical_claims (scan_claim durables s v))"
  proof (cases "if str_get (case v of JObj d \<Rightarrow> d | _ \<Rightarrow> []) ''claim_id'' = [] then None
      else map_of durables (str_get (case v of JObj d \<Rightarrow> d | _ \<Rightarrow> []) ''claim_id'')")
    case None
    then show ?thesis using Cons.prems unfolding scan_claim_def Let_def None option.case by simp
  next
    case (Some d)
    then have "d \<in> snd ` set durables" by (auto split: if_split_asm dest!: map_of_SomeD intro: rev_image_eqI)
    then show ?thesis using Cons.prems unfolding scan_claim_def Let_def Some option.case by auto
  qed
  from Cons.IH [OF this] show ?case by simp
qed simp

lemma durable_claims_D:
  assumes "durable_claims docs allowed = Inr m"
  shows "\<forall>d \<in> snd ` set m. d \<in> set docs \<and> str_get d ''pack_id'' \<in> set allowed \<and> str_get d ''document_type'' = ''claim''"
proof -
  let ?P = "\<lambda>m. \<forall>d \<in> snd ` set m. d \<in> set docs \<and> str_get d ''pack_id'' \<in> set allowed \<and> str_get d ''document_type'' = ''claim''"
  have upd: "set (AList.update k v m) \<subseteq> insert (k, v) (set m)" for k and v :: dict and m
    by (induction m) auto
  let ?f = "\<lambda>m d. if str_get d ''pack_id'' \<in> set allowed \<and> str_get d ''document_type'' = ''claim''
        then rbind (dindex d ''id'') (\<lambda>i. Inr (AList.update (py_str i) d m)) else Inr m"
  have "rfold ?f m ds = Inr m' \<Longrightarrow> set ds \<subseteq> set docs \<Longrightarrow> ?P m \<Longrightarrow> ?P m'" for ds m m'
  proof (induction ds arbitrary: m)
    case (Cons d ds)
    from Cons.prems(1) obtain m1 where m1: "?f m d = Inr m1" "rfold ?f m1 ds = Inr m'" by (auto simp: rbind_Inr_iff split: if_split_asm)
    have "?P m1"
    proof (cases "str_get d ''pack_id'' \<in> set allowed \<and> str_get d ''document_type'' = ''claim''")
      case True
      then obtain i where "m1 = AList.update (py_str i) d m" using m1(1) by (auto simp: rbind_Inr_iff)
      then show ?thesis using Cons.prems(2,3) True upd [of "py_str i" d m] by fastforce
    next
      case False
      have "m1 = m" using m1(1) unfolding if_not_P [OF False] by simp
      then show ?thesis using Cons.prems(3) by simp
    qed
    then show ?case using Cons.IH [OF m1(2)] Cons.prems(2) by simp
  qed simp
  from this [OF assms [unfolded durable_claims_def]] show ?thesis by simp
qed

lemma secure_output_safe:
  assumes "secure_output durables v = (output, reports)"
  shows "fst ` set output \<subseteq> set ALLOWED_OUTPUT_FIELDS"
    and "\<exists>claims. map_of output ''claims'' = Some (JArr (map JObj claims)) \<and> (\<forall>c \<in> set claims. \<exists>d \<in> snd ` set durables. c = durable_claim_payload d)"
proof -
  let ?raw = "case v of JObj d \<Rightarrow> d | _ \<Rightarrow> []"
  let ?o = "filter (\<lambda>(k, _). k \<in> set ALLOWED_OUTPUT_FIELDS) ?raw"
  define vs where "vs = (case dget_or ?o ''claims'' (JArr []) of JArr vs \<Rightarrow> vs | _ \<Rightarrow> [])"
  define s where "s = foldl (scan_claim durables) \<lparr> canonical_claims = [], invalid_claim_ids = [], blocked_claim_fields = [] \<rparr> vs"
  have o': "output = (if invalid_claim_ids s \<noteq> [] then INSUFFICIENT else AList.update ''claims'' (JArr (map JObj (canonical_claims s))) ?o)"
    using assms unfolding secure_output_def Let_def vs_def s_def by simp
  have "fst ` set ?o \<subseteq> set ALLOWED_OUTPUT_FIELDS" by auto
  then show "fst ` set output \<subseteq> set ALLOWED_OUTPUT_FIELDS"
    unfolding o' by (auto simp: INSUFFICIENT_def ALLOWED_OUTPUT_FIELDS_def split: if_split_asm)
  have "list_all (\<lambda>c. \<exists>d. d \<in> snd ` set durables \<and> c = durable_claim_payload d) (canonical_claims s)"
    unfolding s_def by (rule foldl_claims_durable) simp
  then have c: "\<forall>c \<in> set (canonical_claims s). \<exists>d \<in> snd ` set durables. c = durable_claim_payload d" by (auto simp: list_all_iff)
  show "\<exists>claims. map_of output ''claims'' = Some (JArr (map JObj claims)) \<and> (\<forall>c \<in> set claims. \<exists>d \<in> snd ` set durables. c = durable_claim_payload d)"
  proof (cases "invalid_claim_ids s = []")
    case True
    then show ?thesis unfolding o' using c by (intro exI [of _ "canonical_claims s"]) simp
  next
    case False
    then show ?thesis unfolding o' by (intro exI [of _ "[]"]) (simp add: INSUFFICIENT_def)
  qed
qed

section \<open>What is expanded\<close>

definition endpoint_of :: "dict list \<Rightarrow> string \<Rightarrow> bool" where
  "endpoint_of items i \<longleftrightarrow> (\<exists>d \<in> set items. str_get d ''document_type'' = ''relation'' \<and> i \<in> {str_get d ''source_ref'', str_get d ''target_ref''})"

definition resolvable :: "(string \<times> dict) list \<Rightarrow> string \<Rightarrow> bool" where
  "resolvable docs i \<longleftrightarrow> i \<noteq> [] \<and> map_of docs i \<noteq> None"

definition pick_inv :: "(string \<times> dict) list \<Rightarrow> string list \<Rightarrow> (string \<Rightarrow> bool) \<Rightarrow> string list \<times> string list \<Rightarrow> bool" where
  "pick_inv docs ids refs s \<longleftrightarrow> set (snd s) = set ids \<union> set (fst s) \<and> distinct (fst s) \<and> set (fst s) \<inter> set ids = {}
     \<and> (\<forall>i \<in> set (fst s). resolvable docs i \<and> refs i)"

lemma pick_refs_ok:
  assumes "pick_inv docs ids refs s" "int (length (fst s)) < max 1 limit" "\<forall>i \<in> set is. refs i"
  shows "pick_inv docs ids refs (pick_refs docs limit is s) \<and> int (length (fst (pick_refs docs limit is s))) \<le> max 1 limit
    \<and> set (snd s) \<subseteq> set (snd (pick_refs docs limit is s))
    \<and> (int (length (fst (pick_refs docs limit is s))) < limit \<longrightarrow>
        (\<forall>i \<in> set is. resolvable docs i \<longrightarrow> i \<in> set (snd (pick_refs docs limit is s))))"
  using assms
proof (induction "is" arbitrary: s)
  case (Cons i ids')
  show ?case
  proof (cases "i \<noteq> [] \<and> i \<notin> set (snd s) \<and> map_of docs i \<noteq> None")
    case False
    then show ?thesis using Cons.IH [OF Cons.prems(1,2)] Cons.prems(3) by (auto simp: resolvable_def)
  next
    case True
    let ?s = "(fst s @ [i], i # snd s)"
    have inv: "pick_inv docs ids refs ?s" using Cons.prems True by (auto simp: pick_inv_def resolvable_def)
    show ?thesis
    proof (cases "limit \<le> int (length (fst ?s))")
      case stop: True
      then have "pick_refs docs limit (i # ids') s = ?s" using True by simp
      then show ?thesis using inv stop Cons.prems(2) by auto
    next
      case go: False
      then have e: "pick_refs docs limit (i # ids') s = pick_refs docs limit ids' ?s" using True by simp
      have "int (length (fst ?s)) < max 1 limit" using go by auto
      from Cons.IH [OF inv this] Cons.prems(3) show ?thesis unfolding e by auto
    qed
  qed
qed simp

lemma pick_items_ok:
  assumes "pick_inv docs ids refs s" "int (length (fst s)) < max 1 limit" "\<forall>i. endpoint_of items i \<longrightarrow> refs i"
  shows "pick_inv docs ids refs (pick_items docs limit items s) \<and> int (length (fst (pick_items docs limit items s))) \<le> max 1 limit
    \<and> set (snd s) \<subseteq> set (snd (pick_items docs limit items s))
    \<and> (int (length (fst (pick_items docs limit items s))) < limit \<longrightarrow>
        (\<forall>i. endpoint_of items i \<longrightarrow> resolvable docs i \<longrightarrow> i \<in> set (snd (pick_items docs limit items s))))"
  using assms
proof (induction items arbitrary: s)
  case Nil
  then show ?case by (simp add: endpoint_of_def)
next
  case (Cons d items)
  show ?case
  proof (cases "str_get d ''document_type'' = ''relation''")
    case False
    have "endpoint_of (d # items) i \<longleftrightarrow> endpoint_of items i" for i using False by (simp add: endpoint_of_def)
    then show ?thesis using Cons.IH [OF Cons.prems(1,2)] Cons.prems(3) False by simp
  next
    case True
    let ?ends = "[str_get d ''source_ref'', str_get d ''target_ref'']"
    define s' where "s' = pick_refs docs limit ?ends s"
    have e: "endpoint_of (d # items) i \<longleftrightarrow> i \<in> set ?ends \<or> endpoint_of items i" for i using True by (auto simp: endpoint_of_def)
    have "\<forall>i \<in> set ?ends. refs i" using Cons.prems(3) e by blast
    note p = pick_refs_ok [OF Cons.prems(1,2) this, folded s'_def]
    show ?thesis
    proof (cases "limit \<le> int (length (fst s'))")
      case stop: True
      then have r: "pick_items docs limit (d # items) s = s'" using True by (simp add: s'_def Let_def)
      show ?thesis unfolding r using p stop by simp
    next
      case go: False
      then have r: "pick_items docs limit (d # items) s = pick_items docs limit items s'" using True by (simp add: s'_def Let_def)
      have "int (length (fst s')) < max 1 limit" using go by auto
      from Cons.IH [OF p [THEN conjunct1] this] Cons.prems(3) e
      have IH: "pick_inv docs ids refs (pick_items docs limit items s') \<and> int (length (fst (pick_items docs limit items s'))) \<le> max 1 limit
        \<and> set (snd s') \<subseteq> set (snd (pick_items docs limit items s'))
        \<and> (int (length (fst (pick_items docs limit items s'))) < limit \<longrightarrow>
            (\<forall>i. endpoint_of items i \<longrightarrow> resolvable docs i \<longrightarrow> i \<in> set (snd (pick_items docs limit items s'))))" by blast
      have "\<forall>i \<in> set ?ends. resolvable docs i \<longrightarrow> i \<in> set (snd s')" using p go by auto
      then show ?thesis unfolding r e using IH p by blast
    qed
  qed
qed

lemma pick_items_start:
  "pick_inv docs ids (endpoint_of items) ([], ids)" "int (length (fst ([] :: string list, ids))) < max 1 limit"
  "\<forall>i. endpoint_of items i \<longrightarrow> endpoint_of items i"
  by (simp_all add: pick_inv_def)

lemma mounted_documents_Some:
  assumes "mounted_documents docs allowed = Inr m" "map_of m i = Some d"
  shows "d \<in> set docs \<and> str_get d ''pack_id'' \<in> set allowed \<and> (\<exists>v. map_of d ''id'' = Some v \<and> i = py_str v)"
proof -
  let ?P = "\<lambda>m. \<forall>i d. map_of m i = Some d \<longrightarrow> d \<in> set docs \<and> str_get d ''pack_id'' \<in> set allowed \<and> (\<exists>v. map_of d ''id'' = Some v \<and> i = py_str v)"
  let ?f = "\<lambda>m d. if str_get d ''pack_id'' \<in> set allowed then rbind (dindex d ''id'') (\<lambda>i. Inr (AList.update (py_str i) d m)) else Inr m"
  have "rfold ?f m ds = Inr m' \<Longrightarrow> set ds \<subseteq> set docs \<Longrightarrow> ?P m \<Longrightarrow> ?P m'" for ds m m'
  proof (induction ds arbitrary: m)
    case (Cons d ds)
    from Cons.prems(1) obtain m1 where m1: "?f m d = Inr m1" "rfold ?f m1 ds = Inr m'" by (auto simp: rbind_Inr_iff split: if_split_asm)
    have "?P m1"
    proof (cases "str_get d ''pack_id'' \<in> set allowed")
      case True
      then obtain v where "m1 = AList.update (py_str v) d m" "map_of d ''id'' = Some v" using m1(1) by (auto simp: rbind_Inr_iff dindex_def)
      then show ?thesis using Cons.prems(2,3) True by (auto split: if_split_asm)
    next
      case False
      have "m1 = m" using m1(1) unfolding if_not_P [OF False] by simp
      then show ?thesis using Cons.prems(3) by blast
    qed
    then show ?case using Cons.IH [OF m1(2)] Cons.prems(2) by simp
  qed simp
  from this [OF assms(1) [unfolded mounted_documents_def]] assms(2) show ?thesis by simp
qed

text \<open>The expansion as a whole.\<close>

definition expansion_ok :: "dict list \<Rightarrow> string list \<Rightarrow> dict list \<Rightarrow> int \<Rightarrow> dict list \<Rightarrow> string list \<Rightarrow> bool" where
  "expansion_ok docs allowed selected limit expanded picked \<longleftrightarrow>
     list_all2 (\<lambda>i x. \<exists>d \<in> set docs. str_get d ''pack_id'' \<in> set allowed \<and> str_get d ''id'' = i \<and> x = expansion_item d) picked expanded
     \<and> distinct picked \<and> set picked \<inter> set (item_ids selected) = {} \<and> (\<forall>i \<in> set picked. endpoint_of selected i)
     \<and> int (length picked) \<le> max 1 limit"

lemma expand_D:
  assumes "expand_with_diagnostics items docs packs limit = Inr (final, diag)"
  obtains selected expanded picked mounted where "dict_items items = Inr selected" "final = selected @ expanded"
    "expansion_ok docs (map py_str packs) selected limit expanded picked" "mounted_documents docs (map py_str packs) = Inr mounted" "0 \<le> limit"
    "int (length picked) < limit \<Longrightarrow> \<forall>i. endpoint_of selected i \<longrightarrow> resolvable mounted i \<longrightarrow> i \<in> set (item_ids selected) \<union> set picked"
    "map_of diag ''expanded_ids'' = Some (strs picked)"
proof -
  from assms obtain mounted selected where m: "mounted_documents docs (map py_str packs) = Inr mounted" "dict_items items = Inr selected"
    and f: "(let ids = item_ids selected;
            picked = fst (pick_items mounted limit selected ([], ids));
            final = selected @ map (\<lambda>i. expansion_item (the (map_of mounted i))) picked
        in Inr (final, [(''resolver'', JStr LINEAGE_CONTEXT_RESOLVER), (''allowed_pack_ids'', strs (sorted_set (set (map py_str packs)))),
             (''input_context_ids'', strs ids), (''expanded_ids'', strs picked), (''final_context_ids'', strs (item_ids final)),
             (''max_expansions'', JInt limit)])) = (Inr (final, diag) :: (dict list \<times> dict) res)" "0 \<le> limit"
    unfolding expand_with_diagnostics_def by (auto simp: rbind_Inr_iff split: if_split_asm)
  define picked where "picked = fst (pick_items mounted limit selected ([], item_ids selected))"
  have final: "final = selected @ map (\<lambda>i. expansion_item (the (map_of mounted i))) picked" "map_of diag ''expanded_ids'' = Some (strs picked)"
    using f(1) by (auto simp: Let_def picked_def)
  note p = pick_items_ok [where docs = mounted and ids = "item_ids selected" and refs = "endpoint_of selected" and s = "([], item_ids selected)"
    and limit = limit and items = selected, OF pick_items_start]
  have inv: "pick_inv mounted (item_ids selected) (endpoint_of selected) (pick_items mounted limit selected ([], item_ids selected))"
    "int (length picked) \<le> max 1 limit" using p by (simp_all add: picked_def)
  have ex: "\<exists>d \<in> set docs. str_get d ''pack_id'' \<in> set (map py_str packs) \<and> str_get d ''id'' = i \<and> expansion_item (the (map_of mounted i)) = expansion_item d"
    if "i \<in> set picked" for i
  proof -
    from inv(1) that obtain d where d: "map_of mounted i = Some d" unfolding pick_inv_def resolvable_def picked_def [symmetric] by auto
    from mounted_documents_Some [OF m(1) d] show ?thesis by (auto simp: str_get_def dget_or_def d)
  qed
  have "expansion_ok docs (map py_str packs) selected limit (map (\<lambda>i. expansion_item (the (map_of mounted i))) picked) picked"
    using inv ex unfolding expansion_ok_def pick_inv_def picked_def [symmetric] by (auto simp: list_all2_conv_all_nth)
  then show thesis
  proof (rule that [OF m(2) final(1) _ m(1) f(2) _ final(2)])
    assume "int (length picked) < limit"
    then show "\<forall>i. endpoint_of selected i \<longrightarrow> resolvable mounted i \<longrightarrow> i \<in> set (item_ids selected) \<union> set picked"
      using p inv(1) unfolding pick_inv_def picked_def by auto
  qed
qed

text \<open>A service that keeps the requests it is given.\<close>

definition spied :: "'w model_service \<Rightarrow> ('w \<times> dict list) model_service" where
  "spied svc = \<lparr> svc_metadata = (\<lambda>(w, l). case svc_metadata svc w of (w', r) \<Rightarrow> ((w', l), r)),
     svc_run = (\<lambda>(w, l) q. case svc_run svc w q of (w', r) \<Rightarrow> ((w', l @ [q]), r)) \<rparr>"

lemma spied_run: "svc_run (spied svc) s q = (t, r) \<Longrightarrow> snd t = snd s @ [q]"
  by (auto simp: spied_def split: prod.splits)

lemma spied_metadata: "svc_metadata (spied svc) s = (t, r) \<Longrightarrow> snd t = snd s"
  by (auto simp: spied_def split: prod.splits)

lemma runtime_metadata_log: "snd (fst (runtime_metadata (spied svc) s extra)) = snd s"
proof -
  obtain t r where m: "svc_metadata (spied svc) s = (t, r)" by fastforce
  then show ?thesis using spied_metadata [OF m] by (cases r) (simp_all add: runtime_metadata_def)
qed

text \<open>Requests whose context is secured and expanded, and that carry no executable field.\<close>

definition safe_request :: "dict list \<Rightarrow> dict list \<Rightarrow> string list \<Rightarrow> int \<Rightarrow> dict \<Rightarrow> bool" where
  "safe_request docs docs' allowed limit q \<longleftrightarrow> fst ` set q \<inter> set EXECUTABLE_FIELDS = {}
     \<and> (\<exists>forwarded expanded picked. map_of q ''context_items'' = Some (JArr (map JObj (forwarded @ expanded)))
          \<and> list_all (\<lambda>x. durable_forwarded docs allowed x \<or> untrusted_forwarded allowed x) forwarded
          \<and> expansion_ok docs' allowed forwarded limit expanded picked)"

lemma map_of_filter_keys: "P k \<Longrightarrow> map_of (filter (\<lambda>(k, _). P k) al) k = map_of al k"
  by (induction al) auto

lemma secure_request_fields:
  "fst ` set (secure_request task items) \<inter> set EXECUTABLE_FIELDS = {}"
  "map_of (secure_request task items) ''context_items'' = Some (JArr (map JObj items))"
  "map_of (secure_request task items) ''pack_ids'' = map_of task ''pack_ids''"
proof -
  show "fst ` set (secure_request task items) \<inter> set EXECUTABLE_FIELDS = {}" by (auto simp: secure_request_def)
  have "''context_items'' \<notin> set EXECUTABLE_FIELDS" "''pack_ids'' \<notin> set EXECUTABLE_FIELDS" by code_simp+
  then show "map_of (secure_request task items) ''context_items'' = Some (JArr (map JObj items))"
    "map_of (secure_request task items) ''pack_ids'' = map_of task ''pack_ids''"
    unfolding secure_request_def by (simp_all add: map_of_filter_keys)
qed

lemma dict_items_JObj: "dict_items (map JObj ds) = Inr ds"
  by (induction ds) (simp_all add: dict_items_def)

lemma lineage_run_log:
  assumes "lineage_run (spied svc) docs limit s task = (t, r)"
  shows "snd t = snd s \<or> (\<exists>items packs selected expanded picked. iter_get task ''context_items'' = Inr items \<and> iter_get task ''pack_ids'' = Inr packs
    \<and> dict_items items = Inr selected \<and> expansion_ok docs (map py_str packs) selected limit expanded picked
    \<and> snd t = snd s @ [AList.update ''context_items'' (JArr (map JObj (selected @ expanded))) task])"
proof (cases "\<exists>items packs x. iter_get task ''context_items'' = Inr items \<and> iter_get task ''pack_ids'' = Inr packs
    \<and> expand_with_diagnostics items docs packs limit = Inr x")
  case False
  then have "t = s" using assms unfolding lineage_run_def
    by (cases "iter_get task ''context_items''"; cases "iter_get task ''pack_ids''";
        cases "expand_with_diagnostics (projr (iter_get task ''context_items'')) docs (projr (iter_get task ''pack_ids'')) limit") (auto simp: pure_res_def)
  then show ?thesis by simp
next
  case True
  then obtain items packs final diag where i: "iter_get task ''context_items'' = Inr items" "iter_get task ''pack_ids'' = Inr packs"
    and x: "expand_with_diagnostics items docs packs limit = Inr (final, diag)" by auto
  let ?q = "AList.update ''context_items'' (JArr (map JObj final)) task"
  obtain u v where m: "svc_run (spied svc) s ?q = (u, v)" by fastforce
  note a = assms [unfolded lineage_run_def i sbind_pure_Inr x prod.case m]
  have "snd t = snd u"
  proof (cases "rbind v as_dict")
    case (Inl e)
    then show ?thesis using a by (cases v) (auto simp: pure_res_def)
  next
    case (Inr response)
    then obtain j where j: "v = Inr j" "as_dict j = Inr response" by (cases v) auto
    obtain u' y where md: "lineage_metadata (spied svc) limit u = (u', y)" by fastforce
    have "snd u' = snd u" using runtime_metadata_log [of svc u] md unfolding lineage_metadata_def by (metis fst_conv)
    then show ?thesis using a unfolding j(1) sbind.simps j(2) sbind_pure_Inr md by (cases y) auto
  qed
  moreover have "snd u = snd s @ [?q]" by (rule spied_run [OF m])
  moreover obtain selected expanded picked where "dict_items items = Inr selected" "final = selected @ expanded"
    "expansion_ok docs (map py_str packs) selected limit expanded picked" using expand_D [OF x] by metis
  ultimately show ?thesis using i by (intro disjI2 exI conjI) auto
qed

lemma untrusted_run_request:
  assumes "untrusted_run sha svc docs s task = (t, r)"
  shows "t = s \<or> (\<exists>packs out. iter_get task ''pack_ids'' = Inr packs
    \<and> list_all (\<lambda>x. durable_forwarded docs (map py_str packs) x \<or> untrusted_forwarded (map py_str packs) x) out
    \<and> (\<exists>u v. svc_run svc s (secure_request task out) = (u, v) \<and> (t = u \<or> (\<exists>y. security_metadata svc u = (t, y)))))"
proof (cases "iter_get task ''pack_ids''")
  case (Inl e)
  then show ?thesis using assms by (auto simp: untrusted_run_def pure_res_def)
next
  case packs: (Inr packs)
  show ?thesis
  proof (cases "iter_get task ''context_items''")
    case (Inl e)
    then show ?thesis using assms packs by (auto simp: untrusted_run_def pure_res_def)
  next
    case items: (Inr items)
    show ?thesis
    proof (cases "canonicalize_untrusted_context sha items docs (map (JStr \<circ> py_str) packs)")
      case (Inl e)
      then show ?thesis using assms packs items by (auto simp: untrusted_run_def pure_res_def)
    next
      case (Inr x)
      obtain out diag where x: "x = (out, diag)" by fastforce
      obtain u v where m: "svc_run svc s (secure_request task out) = (u, v)" by fastforce
      obtain t' y where md: "security_metadata svc u = (t', y)" by fastforce
      note a = assms [unfolded untrusted_run_def packs items sbind_pure_Inr Inr x prod.case m Let_def]
      have "t = u \<or> t = t'"
        using a
        by (cases v; cases "as_dict (projr v)"; cases "durable_claims docs (map py_str packs)"; cases y)
          (auto simp: pure_res_def md split: prod.splits)
      moreover have "map py_str (map (JStr \<circ> py_str) packs) = map py_str packs" by simp
      then have "list_all (\<lambda>x. durable_forwarded docs (map py_str packs) x \<or> untrusted_forwarded (map py_str packs) x) out"
        using canonicalize_D [OF Inr [unfolded x]] unfolding scan_ok_def by metis
      moreover have "t = u \<or> t = t' \<Longrightarrow> t = u \<or> (\<exists>y. security_metadata svc u = (t, y))" using md by blast
      ultimately show ?thesis using packs m by blast
    qed
  qed
qed


lemma composed_request:
  assumes inner: "lineage_service (spied svc) docs' limit = Inr inner"
    and run: "untrusted_run sha inner docs (w, []) task = ((w', l), r)" and q: "q \<in> set l"
  shows "\<exists>packs. iter_get task ''pack_ids'' = Inr packs \<and> safe_request docs docs' (map py_str packs) limit q"
proof -
  define s where "s = (w, [] :: dict list)"
  have i: "inner = \<lparr> svc_metadata = (\<lambda>w. sbind (lineage_metadata (spied svc) limit w) (\<lambda>w m. (w, Inr (JObj m)))),
      svc_run = (\<lambda>w task. sbind (lineage_run (spied svc) docs' limit w task) (\<lambda>w r. (w, Inr (JObj r)))) \<rparr>"
    using inner by (simp add: lineage_service_def split: if_split_asm)
  have meta: "snd (fst (lineage_metadata (spied svc) limit u)) = snd u" for u
    unfolding lineage_metadata_def by (rule runtime_metadata_log)
  have smeta: "snd (fst (security_metadata inner u)) = snd u" for u
  proof -
    obtain v y where m: "lineage_metadata (spied svc) limit u = (v, y)" by fastforce
    then show ?thesis using meta [of u] by (cases y) (simp_all add: security_metadata_def runtime_metadata_def i)
  qed
  have "(w', l) \<noteq> s" using q by (auto simp: s_def)
  with untrusted_run_request [OF run [folded s_def]] obtain packs out u v where p: "iter_get task ''pack_ids'' = Inr packs"
    and out: "list_all (\<lambda>x. durable_forwarded docs (map py_str packs) x \<or> untrusted_forwarded (map py_str packs) x) out"
    and sr: "svc_run inner s (secure_request task out) = (u, v)" and t: "(w', l) = u \<or> (\<exists>y. security_metadata inner u = ((w', l), y))" by blast
  have l: "l = snd u" using t smeta [of u] by (auto simp: prod_eq_iff)
  obtain u1 v1 where lr: "lineage_run (spied svc) docs' limit s (secure_request task out) = (u1, v1)" by fastforce
  have u1: "u1 = u" using sr lr by (cases v1) (simp_all add: i)
  note f = secure_request_fields [of task out]
  from lineage_run_log [OF lr] q l u1 obtain items packs' selected expanded picked where
    g: "iter_get (secure_request task out) ''context_items'' = Inr items" "iter_get (secure_request task out) ''pack_ids'' = Inr packs'"
       "dict_items items = Inr selected" "expansion_ok docs' (map py_str packs') selected limit expanded picked"
    and lq: "l = [AList.update ''context_items'' (JArr (map JObj (selected @ expanded))) (secure_request task out)]"
    by (auto simp: s_def)
  have "items = map JObj out" using g(1) f(2) by (simp add: iter_get_def dget_or_def py_iter_def)
  then have "selected = out" using g(3) dict_items_JObj by simp
  moreover have "packs' = packs" using g(2) p f(3) by (simp add: iter_get_def dget_or_def)
  moreover have "''context_items'' \<notin> set EXECUTABLE_FIELDS" by code_simp
  then have "fst ` set q \<inter> set EXECUTABLE_FIELDS = {}" using q lq f(1) by auto
  moreover have "map_of q ''context_items'' = Some (JArr (map JObj (out @ expanded)))" using q lq \<open>selected = out\<close> by simp
  ultimately show ?thesis using p out g(4) unfolding safe_request_def by blast
qed

lemma untrusted_run_answer:
  assumes "untrusted_run sha svc docs w task = (w', Inr response)"
  shows "\<exists>packs durables produced raw v reports. iter_get task ''pack_ids'' = Inr packs \<and> durable_claims docs (map py_str packs) = Inr durables
    \<and> secure_output durables v = (produced, reports)
    \<and> map_of response ''output'' = Some (JObj produced) \<and> map_of response ''authority'' = Some (JStr ''candidate_only'')
    \<and> fst ` set response = insert ''context_security'' (insert ''service'' (insert ''authority'' (insert ''output''
        (fst ` set (filter (\<lambda>(k, _). k \<notin> set EXECUTABLE_FIELDS) (raw :: dict))))))"
proof -
  from assms obtain packs items out diag raw v durables produced reports metadata where
    f: "iter_get task ''pack_ids'' = Inr packs" "durable_claims docs (map py_str packs) = Inr durables" "secure_output durables v = (produced, reports)" and
    resp: "response = AList.update ''context_security'' (JObj (diag @ (''blocked_response_fields'', strs (sort (filter (\<lambda>k. k \<in> set EXECUTABLE_FIELDS) (map fst raw)))) # reports))
          (AList.update ''service'' (JObj metadata) (AList.update ''authority'' (JStr ''candidate_only'')
             (AList.update ''output'' (JObj produced) (filter (\<lambda>(k, _). k \<notin> set EXECUTABLE_FIELDS) raw))))"
    unfolding untrusted_run_def Let_def
    by (elim sbind_InrE) (auto elim!: sbind_InrE split: prod.splits simp del: sbind.simps)
  have keys: "fst ` set response = insert ''context_security'' (insert ''service'' (insert ''authority'' (insert ''output''
        (fst ` set (filter (\<lambda>(k, _). k \<notin> set EXECUTABLE_FIELDS) raw)))))" unfolding resp by (simp only: set_keys_update)
  have fields: "map_of response ''output'' = Some (JObj produced)" "map_of response ''authority'' = Some (JStr ''candidate_only'')"
    unfolding resp by simp_all
  show ?thesis by (intro exI conjI) (rule f fields keys)+
qed

section \<open>Properties\<close>

text \<open>C29. What reaches the model is resolved. In the composition that the program uses, the untrusted-context
  service around the lineage service around the model, every request that the model is given has no
  executable field, and its context consists of items that are each a document of a mounted pack as
  the service holds it, with the security mark added, or plain untrusted text of a mounted pack with
  no other field than id, pack, text and type, followed by the lineage expansions: documents of
  mounted packs that a forwarded relation names, each once, none already forwarded by its id.\<close>

theorem model_context_is_resolved:
  assumes "lineage_service (spied model) docs' limit = Inr inner"
    and "svc_run (untrusted_service sha inner docs) (w, []) task = ((w', requests), r)" and "q \<in> set requests"
  shows "\<exists>packs. iter_get task ''pack_ids'' = Inr packs \<and> safe_request docs docs' (map py_str packs) limit q"
proof -
  obtain s x where m: "untrusted_run sha inner docs (w, []) task = (s, x)" by fastforce
  then have s: "s = (w', requests)" using assms(2) by (cases x) (simp_all add: untrusted_service_def)
  show ?thesis by (rule composed_request [OF assms(1) m [unfolded s] assms(3)])
qed

text \<open>C30. Every answer has the candidate type, whatever the service returned: no executable field, the authority
  \<open>candidate_only\<close>, an output with no other field than outcome, answer text, claims and confidence,
  and claims that are each the identity, text and citation of a claim document of a mounted pack.\<close>

theorem answers_have_candidate_type:
  assumes "untrusted_run sha svc docs w task = (w', Inr response)"
  shows "fst ` set response \<inter> set EXECUTABLE_FIELDS = {} \<and> map_of response ''authority'' = Some (JStr ''candidate_only'')
    \<and> (\<exists>packs output claims. iter_get task ''pack_ids'' = Inr packs \<and> map_of response ''output'' = Some (JObj output)
         \<and> fst ` set output \<subseteq> set ALLOWED_OUTPUT_FIELDS \<and> map_of output ''claims'' = Some (JArr (map JObj claims))
         \<and> (\<forall>c \<in> set claims. \<exists>d \<in> set docs. c = durable_claim_payload d \<and> str_get d ''pack_id'' \<in> set (map py_str packs)
              \<and> str_get d ''document_type'' = ''claim''))"
proof -
  from untrusted_run_answer [OF assms] obtain packs durables produced raw v reports where
    a: "iter_get task ''pack_ids'' = Inr packs" "durable_claims docs (map py_str packs) = Inr durables"
       "secure_output durables v = (produced, reports)" "map_of response ''output'' = Some (JObj produced)"
       "map_of response ''authority'' = Some (JStr ''candidate_only'')"
       "fst ` set response = insert ''context_security'' (insert ''service'' (insert ''authority'' (insert ''output''
          (fst ` set (filter (\<lambda>(k, _). k \<notin> set EXECUTABLE_FIELDS) (raw :: dict))))))" by (elim exE conjE) (rule that)
  have "{''context_security'', ''service'', ''authority'', ''output''} \<inter> set EXECUTABLE_FIELDS = {}" by code_simp
  then have keys: "fst ` set response \<inter> set EXECUTABLE_FIELDS = {}" unfolding a(6) by auto
  from secure_output_safe(2) [OF a(3)] obtain claims where claims: "map_of produced ''claims'' = Some (JArr (map JObj claims))"
    "\<forall>c \<in> set claims. \<exists>d \<in> snd ` set durables. c = durable_claim_payload d" by blast
  have "\<forall>c \<in> set claims. \<exists>d \<in> set docs. c = durable_claim_payload d \<and> str_get d ''pack_id'' \<in> set (map py_str packs)
      \<and> str_get d ''document_type'' = ''claim''" using claims(2) durable_claims_D [OF a(2)] by blast
  then show ?thesis using keys a(1,4,5) secure_output_safe(1) [OF a(3)] claims(1) by blast
qed

text \<open>The lineage expansion is exact: the retrieved items stay in front, unchanged; the ids added are
  distinct, new, and endpoints of retrieved relations, each standing for a document of a mounted
  pack; there are at most \<open>max_expansions\<close> of them, or one when that is 0; and unless the limit was
  reached no endpoint that a mounted document answers is missing.\<close>

lemma lineage_expansion_exact:
  assumes "expand_with_diagnostics items docs packs limit = Inr (final, diag)"
  shows "\<exists>selected expanded picked mounted. dict_items items = Inr selected \<and> final = selected @ expanded
    \<and> expansion_ok docs (map py_str packs) selected limit expanded picked
    \<and> mounted_documents docs (map py_str packs) = Inr mounted
    \<and> (int (length picked) < limit \<longrightarrow> (\<forall>i. endpoint_of selected i \<longrightarrow> resolvable mounted i \<longrightarrow>
         i \<in> set (item_ids selected) \<union> set picked))
    \<and> map_of diag ''expanded_ids'' = Some (strs picked)"
proof -
  from expand_D [OF assms] obtain selected expanded picked mounted where
    e: "dict_items items = Inr selected" "final = selected @ expanded" "expansion_ok docs (map py_str packs) selected limit expanded picked"
       "mounted_documents docs (map py_str packs) = Inr mounted"
       "int (length picked) < limit \<Longrightarrow> \<forall>i. endpoint_of selected i \<longrightarrow> resolvable mounted i \<longrightarrow> i \<in> set (item_ids selected) \<union> set picked"
       "map_of diag ''expanded_ids'' = Some (strs picked)" by metis
  show ?thesis by (intro exI conjI impI) (rule e(1-4) e(5) e(6) | assumption)+
qed

definition demo_doc :: "string \<Rightarrow> string \<Rightarrow> (string \<times> json) list \<Rightarrow> dict" where
  "demo_doc i kind extra = [(''id'', JStr i), (''pack_id'', JStr ''p''), (''text'', JStr ''t''), (''document_type'', JStr kind)] @ extra"

definition demo_docs :: "dict list" where
  "demo_docs = [demo_doc ''c1'' ''claim'' [], demo_doc ''c2'' ''claim'' [],
     demo_doc ''r1'' ''relation'' [(''source_ref'', JStr ''c1''), (''target_ref'', JStr ''c2'')]]"

text \<open>A model that answers with a claim whose text it made up and asks for a tool.\<close>

definition demo_model :: "unit model_service" where
  "demo_model = \<lparr> svc_metadata = (\<lambda>w. (w, Inr (JObj []))),
     svc_run = (\<lambda>w q. (w, Inr (JObj [(''tool_calls'', JArr []), (''output'', JObj [(''claims'', JArr [JObj [(''claim_id'', JStr ''c1''),
        (''text'', JStr ''made up'')]]), (''commit'', JNull)])]))) \<rparr>"

definition demo_query :: dict where
  "demo_query = [(''pack_ids'', JArr [JStr ''p'']), (''actions'', JArr []),
     (''context_items'', JArr [JObj [(''id'', JStr ''r1''), (''text'', JStr ''forged'')], JObj [(''pack_id'', JStr ''p''), (''citation'', JObj [])],
        JObj [(''id'', JStr ''x''), (''pack_id'', JStr ''other'')]])]"

definition demo_stack :: "((unit \<times> dict list) \<times> json res) res" where
  "demo_stack = rbind (lineage_service (spied demo_model) demo_docs 5) (\<lambda>inner.
     Inr (svc_run (untrusted_service (\<lambda>s. replicate 64 CHR ''a'') inner demo_docs) ((), []) demo_query))"

lemma demo_stack_runs: "rbind demo_stack (\<lambda>x. Inr (map (\<lambda>q. map fst q) (snd (fst x))))
  = Inr [[''pack_ids'', ''context_items'', ''context_security'']]"
  by code_simp

theorem model_context_is_resolved_witness:
  "\<exists>q. snd (fst (projr demo_stack)) = [q] \<and> safe_request demo_docs demo_docs [''p''] 5 q"
proof -
  obtain inner where i: "lineage_service (spied demo_model) demo_docs 5 = Inr inner" by (simp add: lineage_service_def)
  obtain w' l r where run: "svc_run (untrusted_service (\<lambda>s. replicate 64 CHR ''a'') inner demo_docs) ((), []) demo_query = ((w', l), r)"
    by (metis prod.collapse)
  have d: "demo_stack = Inr ((w', l), r)" using i run by (simp add: demo_stack_def)
  have "length (map (\<lambda>q. map fst q) l) = 1" using demo_stack_runs by (simp add: d)
  then obtain q where q: "l = [q]" by (auto simp: length_Suc_conv)
  then have "q \<in> set l" by simp
  from model_context_is_resolved [OF i run this] show ?thesis
    by (auto simp: d q demo_query_def iter_get_def dget_or_def py_iter_def)
qed

definition demo_answer_run :: "unit \<times> dict res" where
  "demo_answer_run = untrusted_run (\<lambda>s. replicate 64 CHR ''a'') demo_model demo_docs () demo_query"

lemma demo_answers: "rbind (snd demo_answer_run) (\<lambda>a. Inr (dget a ''output'')) =
    Inr (JObj [(''claims'', JArr [JObj [(''claim_id'', JStr ''c1''), (''text'', JStr ''t'')]])])"
  by code_simp

theorem answers_have_candidate_type_witness:
  "\<exists>response. snd demo_answer_run = Inr response \<and> fst ` set response \<inter> set EXECUTABLE_FIELDS = {}
     \<and> map_of response ''authority'' = Some (JStr ''candidate_only'')"
proof -
  obtain r where r: "demo_answer_run = ((), r)" by (cases demo_answer_run) auto
  obtain response where "r = Inr response" using demo_answers unfolding r snd_conv by (cases r) simp_all
  then have "untrusted_run (\<lambda>s. replicate 64 CHR ''a'') demo_model demo_docs () demo_query = ((), Inr response)"
    using r by (simp add: demo_answer_run_def)
  note a = answers_have_candidate_type [OF this]
  have "snd demo_answer_run = Inr response" unfolding r snd_conv by (rule \<open>r = Inr response\<close>)
  then show ?thesis using a by (intro exI [of _ response]) simp
qed

lemma demo_expansion: "rbind (expand_with_diagnostics [JObj (demo_docs ! 2)] demo_docs [JStr ''p''] 3) (\<lambda>(final, diag). Inr (dget diag ''expanded_ids''))
    = Inr (strs [''c1'', ''c2''])"
  by code_simp

lemma zero_limit_expands:
  "rbind (expand_with_diagnostics [JObj (demo_docs ! 2)] demo_docs [JStr ''p''] 0) (\<lambda>(final, diag). Inr (dget diag ''expanded_ids''))
    = Inr (strs [''c1''])"
  by code_simp

end
