(* ===== verification/Agent.thy ===== *)
theory Agent
  imports Conversation Projection Packs
begin

text \<open>
  The agent boundary: skills, session provenance and the corpus service (\<open>agent.py\<close>), the tool
  adapter in front of it (\<open>adapters/mcp/__init__.py\<close>) and the errors an agent sees
  (\<open>adapters/mcp/server.py\<close>).

  An agent works on the record \<open>agent_world\<close>: the event log, the conversation store its lineages read
  and the world of the external services. The retriever and the context provider of the service are
  arbitrary functions on that last part: nothing is assumed of what they return. The skill directory
  is a file system; the JSON schema of a skill manifest is the parameter \<open>V\<close>, under which a
  \<open>methodology_ref\<close> is one file name.
\<close>

section \<open>Skills\<close>

record skill_registry =
  reg_skills :: "(string \<times> dict) list"
  reg_dirs :: "(string \<times> string) list"
  loaded_methodologies :: "string list"

definition empty_registry :: skill_registry where
  "empty_registry = \<lparr> reg_skills = [], reg_dirs = [], loaded_methodologies = [] \<rparr>"

definition load_manifest :: "(json \<Rightarrow> bool) \<Rightarrow> fs \<Rightarrow> skill_registry \<Rightarrow> path \<Rightarrow> skill_registry res" where
  "load_manifest V disk reg p =
     rbind (read_json disk p) (\<lambda>v.
     rbind (check (V v) (Exn ValidationError [])) (\<lambda>_.
     rbind (index v ''skill_id'') (\<lambda>iv. rbind (key_str iv) (\<lambda>i.
     rbind (check (map_of (reg_skills reg) i = None) (Exn ValueError ''duplicate skill_id: '')) (\<lambda>_.
     rbind (index v ''methodology_ref'') (\<lambda>rv. rbind (key_str rv) (\<lambda>r.
     rbind (check (exists_path disk [hd p, r]) (Exn ValueError ''missing methodology for '')) (\<lambda>_.
     rbind (as_dict v) (\<lambda>m.
       Inr (reg\<lparr>reg_skills := AList.update i m (reg_skills reg),
                reg_dirs := AList.update i (hd p) (reg_dirs reg)\<rparr>))))))))))"

definition skill_manifests :: "fs \<Rightarrow> path list" where
  "skill_manifests disk = sort (filter (\<lambda>p. length p = 2 \<and> last p = ''manifest.json'') (map fst disk))"

definition load_manifests :: "(json \<Rightarrow> bool) \<Rightarrow> fs \<Rightarrow> skill_registry res" where
  "load_manifests V disk = rfold (load_manifest V disk) empty_registry (skill_manifests disk)"

definition list_skills :: "skill_registry \<Rightarrow> dict list" where
  "list_skills reg = map (\<lambda>k. the (map_of (reg_skills reg) k)) (sorted_set (set (map fst (reg_skills reg))))"

definition skill_matches :: "string list \<Rightarrow> string option \<Rightarrow> dict \<Rightarrow> bool res" where
  "skill_matches terms capability m =
     rbind (if capability \<noteq> None \<and> capability \<noteq> Some []
            then rbind (dindex m ''capabilities'') (py_in (JStr (the capability))) else Inr True) (\<lambda>granted.
     if \<not> granted then Inr False
     else rbind (dindex m ''name'') (\<lambda>n. rbind (dindex m ''summary'') (\<lambda>s.
       rbind (dindex m ''triggers'') (\<lambda>tv. rbind (py_iter tv) (\<lambda>ts.
       rbind (rmap key_str (n # s # ts)) (\<lambda>parts.
         let haystack = lower (join '' '' parts)
         in Inr (terms = [] \<or> list_ex (\<lambda>t. substring t haystack) terms)))))))"

definition discover :: "skill_registry \<Rightarrow> string \<Rightarrow> string option \<Rightarrow> dict list res" where
  "discover reg query capability =
     rbind (rmap (\<lambda>m. rbind (skill_matches (split_words (lower query)) capability m) (\<lambda>b. Inr (m, b)))
              (list_skills reg)) (\<lambda>marked.
       Inr (map fst (filter snd marked)))"

definition get_skill :: "skill_registry \<Rightarrow> string \<Rightarrow> dict res" where
  "get_skill reg i = of_option (Exn KeyError i) (map_of (reg_skills reg) i)"

definition require_capability :: "skill_registry \<Rightarrow> string \<Rightarrow> string \<Rightarrow> dict res" where
  "require_capability reg i capability =
     rbind (get_skill reg i) (\<lambda>m.
     rbind (dindex m ''capabilities'') (\<lambda>caps.
     rbind (py_in (JStr capability) caps) (\<lambda>granted.
     rbind (check granted (Exn CapabilityError ''skill '')) (\<lambda>_. Inr m))))"

definition load_methodology :: "fs \<Rightarrow> skill_registry \<Rightarrow> string \<Rightarrow> skill_registry \<times> string res" where
  "load_methodology disk reg i =
     sbind (pure_res reg (rbind (get_skill reg i) (\<lambda>m.
        rbind (of_option (Exn KeyError i) (map_of (reg_dirs reg) i)) (\<lambda>dir.
        rbind (dindex m ''methodology_ref'') (\<lambda>rv. rbind (key_str rv) (\<lambda>r. Inr [dir, r]))))))
       (\<lambda>reg p. (reg\<lparr>loaded_methodologies := i # loaded_methodologies reg\<rparr>, read_file disk p))"

definition methodology_loaded :: "skill_registry \<Rightarrow> string \<Rightarrow> bool" where
  "methodology_loaded reg i \<longleftrightarrow> i \<in> set (loaded_methodologies reg)"

section \<open>Session provenance\<close>

record agent_context =
  ctx_actor :: string
  ctx_model :: string
  ctx_harness :: string
  ctx_skill :: string
  ctx_version :: string

definition make_context :: "string \<Rightarrow> string \<Rightarrow> string \<Rightarrow> string \<Rightarrow> string \<Rightarrow> agent_context res" where
  "make_context actor model harness skill version =
     rbind (each (\<lambda>v. check (v \<noteq> []) (Exn AgentProvenanceError ''agent context requires ''))
              [actor, model, harness, skill, version]) (\<lambda>_.
       Inr \<lparr> ctx_actor = actor, ctx_model = model, ctx_harness = harness, ctx_skill = skill, ctx_version = version \<rparr>)"

definition durable_actor :: "agent_context \<Rightarrow> dict" where
  "durable_actor ctx =
     [(''actor_type'', JStr ''agent''), (''actor_id'', JStr (ctx_actor ctx)), (''model_id'', JStr (ctx_model ctx)),
      (''harness_version'', JStr (ctx_harness ctx)), (''skill_id'', JStr (ctx_skill ctx)),
      (''skill_version'', JStr (ctx_version ctx))]"

definition skill_ref :: "agent_context \<Rightarrow> string" where
  "skill_ref ctx = ctx_skill ctx @ ''@'' @ ctx_version ctx"

section \<open>The corpus service\<close>

record 'w corpus_service =
  cs_config :: event_config
  cs_root :: string
  cs_skills :: skill_registry
  cs_lineages :: "(string \<times> string \<times> lineage) list"
  cs_retriever :: "('w \<Rightarrow> string \<Rightarrow> string list \<Rightarrow> int \<Rightarrow> 'w \<times> json res) option"
  cs_context :: "('w \<Rightarrow> dict \<Rightarrow> 'w \<times> json res) option"
  cs_version :: string

record 'w agent_world =
  corpus :: event_store
  conversations :: conversation_store
  outside :: 'w

definition CAPABILITIES :: "string list" where
  "CAPABILITIES = [''search'', ''context'', ''read'', ''lineage'', ''propose'', ''validate'', ''commit'', ''manage'']"

definition authorize :: "'w corpus_service \<Rightarrow> agent_context \<Rightarrow> string \<Rightarrow> dict res" where
  "authorize svc ctx capability =
     rbind (require_capability (cs_skills svc) (ctx_skill ctx) capability) (\<lambda>m.
     rbind (dindex m ''version'') (\<lambda>v.
     rbind (check (py_eq v (JStr (ctx_version ctx))) (Exn AgentProvenanceError ''context skill version '')) (\<lambda>_.
       Inr m)))"

definition require_actor_match :: "dict \<Rightarrow> agent_context \<Rightarrow> unit res" where
  "require_actor_match event ctx =
     check (py_eq (dget event ''actor'') (JObj (durable_actor ctx)))
       (Exn AgentProvenanceError ''agent event actor/model/harness/skill provenance does not match session context'')"

text \<open>\<open>v in packs\<close> for a frozen set of pack ids, and the two guards of a pack that is any value.\<close>

definition value_in :: "json \<Rightarrow> string set \<Rightarrow> bool res" where
  "value_in v packs =
     (if hashable v then Inr (case v of JStr s \<Rightarrow> s \<in> packs | _ \<Rightarrow> False) else Inl (Exn TypeError ''unhashable''))"

definition require_read_value :: "pack_access \<Rightarrow> json \<Rightarrow> unit res" where
  "require_read_value a v = rbind (value_in v (read_mounts a)) (\<lambda>b. check b (Exn PackBoundaryError ''pack ''))"

definition require_write_value :: "pack_access \<Rightarrow> json \<Rightarrow> unit res" where
  "require_write_value a v = rbind (value_in v (write_targets a)) (\<lambda>b. check b (Exn PackBoundaryError ''pack ''))"

definition authorized_pack_ids :: "json \<Rightarrow> pack_access \<Rightarrow> string list res" where
  "authorized_pack_ids requested a =
     (case requested of
        JNull \<Rightarrow> Inr (sorted_set (read_mounts a))
      | JArr vs \<Rightarrow>
          (let ids = rev (remdups (rev (filter (\<lambda>s. s \<noteq> []) (map py_str vs)))) in
           rbind (check (ids \<noteq> []) (Exn ValueError ''pack_ids must contain at least one readable pack'')) (\<lambda>_.
           rbind (each (require_read a) ids) (\<lambda>_. Inr ids)))
      | _ \<Rightarrow> Inl (Exn TypeError ''pack_ids must be a sequence of pack IDs''))"

definition item_pack :: "dict \<Rightarrow> string" where
  "item_pack d = (let v = dget d ''pack_id'' in if truthy v then py_str v else [])"

definition require_result_scope :: "string list \<Rightarrow> dict list \<Rightarrow> unit res" where
  "require_result_scope allowed results =
     each (\<lambda>d. rbind (check (item_pack d \<noteq> []) (Exn PackBoundaryError ''retrieval result is missing pack_id'')) (\<lambda>_.
       check (item_pack d \<in> set allowed) (Exn PackBoundaryError ''retrieval result from unmounted pack ''))) results"

definition search_result :: "json \<Rightarrow> dict res" where
  "search_result ev =
     rbind (rmap (index ev) [''event_id'', ''event_type'', ''pack_id'', ''recorded_at'']) (\<lambda>vs.
     rbind (rmap (\<lambda>k. rbind (get_attr ev k (JArr [])) py_iter)
              [''subject_refs'', ''evidence_refs'', ''source_snapshot_refs'']) (\<lambda>refs.
       Inr (zip [''event_id'', ''event_type'', ''pack_id'', ''recorded_at''] vs
          @ zip [''subject_refs'', ''evidence_refs'', ''source_snapshot_refs''] (map JArr refs))))"

primrec search_paths :: "event_store \<Rightarrow> pack_access \<Rightarrow> string \<Rightarrow> int \<Rightarrow> path list \<Rightarrow> dict list \<Rightarrow> dict list res" where
  "search_paths st a needle limit [] acc = Inr acc"
| "search_paths st a needle limit (p # ps) acc =
     rbind (read_json (events st) p) (\<lambda>ev.
     rbind (index ev ''pack_id'') (\<lambda>pk. rbind (value_in pk (read_mounts a)) (\<lambda>readable.
     if \<not> readable \<or> needle \<noteq> [] \<and> \<not> substring needle (lower (enc_spaced (canon ev)))
     then search_paths st a needle limit ps acc
     else rbind (search_result ev) (\<lambda>r.
       if limit \<le> int (length acc) + 1 then Inr (acc @ [r]) else search_paths st a needle limit ps (acc @ [r])))))"

definition agent_search ::
  "'w corpus_service \<Rightarrow> pack_access \<Rightarrow> agent_context \<Rightarrow> 'w agent_world \<Rightarrow> string \<Rightarrow> int
   \<Rightarrow> 'w agent_world \<times> dict list res" where
  "agent_search svc a ctx w query limit =
     sbind (pure_res w (rbind (authorize svc ctx ''search'') (\<lambda>_.
        check (1 \<le> limit \<and> limit \<le> 100) (Exn ValueError ''search limit must be between 1 and 100'')))) (\<lambda>w _.
     case cs_retriever svc of
       Some retrieve \<Rightarrow>
         (let packs = sorted_set (read_mounts a); (x, r) = retrieve (outside w) query packs limit in
          (w\<lparr>outside := x\<rparr>, rbind r (\<lambda>v. rbind (py_iter v) (\<lambda>vs. rbind (rmap as_dict vs) (\<lambda>results.
             rbind (require_result_scope packs results) (\<lambda>_. Inr (take (nat limit) results)))))))
     | None \<Rightarrow>
         pure_res w (search_paths (corpus w) a (strip (lower query)) limit (glob_json (events (corpus w))) []))"

definition agent_build_context ::
  "'w corpus_service \<Rightarrow> pack_access \<Rightarrow> agent_context \<Rightarrow> 'w agent_world \<Rightarrow> dict \<Rightarrow> 'w agent_world \<times> dict res" where
  "agent_build_context svc a ctx w request =
     sbind (pure_res w (rbind (authorize svc ctx ''context'') (\<lambda>_.
        rbind (of_option (Exn CapabilityError ''FOSSIL context provider is not configured'') (cs_context svc)) (\<lambda>build.
        rbind (authorized_pack_ids (dget request ''pack_ids'') a) (\<lambda>packs. Inr (build, packs))))))
       (\<lambda>w (build, packs).
         let (x, r) = build (outside w) (AList.update ''pack_ids'' (strs packs) request) in
         (w\<lparr>outside := x\<rparr>, rbind r (\<lambda>v. rbind (as_dict v) (\<lambda>result.
            rbind (py_iter (dget_or result ''items'' (JArr []))) (\<lambda>vs. rbind (rmap as_dict vs) (\<lambda>results.
            rbind (require_result_scope packs results) (\<lambda>_.
              Inr (AList.update ''pack_ids'' (strs packs)
                (AList.update ''items'' (JArr (map JObj results)) result)))))))))"

definition agent_read ::
  "'w corpus_service \<Rightarrow> pack_access \<Rightarrow> agent_context \<Rightarrow> 'w agent_world \<Rightarrow> string \<Rightarrow> json res" where
  "agent_read svc a ctx w i =
     rbind (authorize svc ctx ''read'') (\<lambda>_.
     rbind (get_event (corpus w) i) (\<lambda>ev.
     rbind (index ev ''pack_id'') (\<lambda>p.
     rbind (require_read_value a p) (\<lambda>_. Inr ev))))"

definition agent_lineage ::
  "'w corpus_service \<Rightarrow> pack_access \<Rightarrow> agent_context \<Rightarrow> 'w agent_world \<Rightarrow> string \<Rightarrow> json \<Rightarrow> dict res" where
  "agent_lineage svc a ctx w cid node =
     rbind (authorize svc ctx ''lineage'') (\<lambda>_.
     rbind (of_option (Exn KeyError cid) (map_of (cs_lineages svc) cid)) (\<lambda>(pack, l).
     rbind (require_read a pack) (\<lambda>_.
     rbind (current_conclusions l) (\<lambda>cs.
     rbind (historical_nodes l) (\<lambda>hs.
     let result = [(''conversation_id'', JStr cid), (''pack_id'', JStr pack),
                   (''current_conclusions'', JArr cs), (''historical_nodes'', JArr hs)] in
     if node = JNull then Inr result
     else rbind (key_str node) (\<lambda>i.
       rbind (lineage_node l i) (\<lambda>n.
       rbind (lineage_citations (conversations w) l i) (\<lambda>cits.
       rbind (opposing_positions l i) (\<lambda>ops.
         Inr (result @ [(''node'', n), (''citations'', JArr cits), (''opposing_positions'', JArr ops)]))))))))))"

text \<open>The keyword arguments of \<open>propose\<close>; a missing optional argument is its default.\<close>

record proposal =
  pr_type :: string
  pr_pack :: string
  pr_subjects :: "json list"
  pr_payload :: dict
  pr_occurred :: string
  pr_recorded :: string
  pr_key :: string
  pr_evidence :: "json list"
  pr_snapshots :: "json list"
  pr_caused :: "json list"
  pr_correlation :: json
  pr_provenance :: dict

definition proposal_event :: "agent_context \<Rightarrow> proposal \<Rightarrow> dict" where
  "proposal_event ctx p =
     [(''schema_version'', JStr ''dkg.event.v1''), (''event_type'', JStr (pr_type p)),
      (''occurred_at'', JStr (pr_occurred p)), (''recorded_at'', JStr (pr_recorded p)),
      (''pack_id'', JStr (pr_pack p)), (''actor'', JObj (durable_actor ctx)),
      (''subject_refs'', JArr (pr_subjects p)), (''caused_by_event_ids'', JArr (pr_caused p)),
      (''correlation_id'', pr_correlation p), (''idempotency_key'', JStr (pr_key p)),
      (''evidence_refs'', JArr (pr_evidence p)), (''source_snapshot_refs'', JArr (pr_snapshots p)),
      (''payload'', JObj (pr_payload p)),
      (''provenance'', JObj (foldl (\<lambda>d (k, v). AList.update k v d)
         [(''method'', JStr ''agent_proposal''), (''prompt_or_policy_ref'', JStr (skill_ref ctx))] (pr_provenance p)))]"

definition agent_propose ::
  "'w corpus_service \<Rightarrow> pack_access \<Rightarrow> agent_context \<Rightarrow> string \<Rightarrow> proposal \<Rightarrow> dict res" where
  "agent_propose svc a ctx uuid_hex p =
     rbind (authorize svc ctx ''propose'') (\<lambda>_.
     rbind (require_write a (pr_pack p)) (\<lambda>_.
       prepare_event (cs_config svc) (proposal_event ctx p) uuid_hex))"

definition agent_propose_promotion ::
  "'w corpus_service \<Rightarrow> pack_access \<Rightarrow> agent_context \<Rightarrow> string \<Rightarrow> string \<Rightarrow> string \<Rightarrow> string \<Rightarrow> string \<Rightarrow> string list
   \<Rightarrow> string \<Rightarrow> string \<Rightarrow> string \<Rightarrow> string list \<Rightarrow> string \<Rightarrow> dict res" where
  "agent_propose_promotion svc a ctx uuid_hex source_pack source_revision source_event target_pack subjects
       occurred_at recorded_at idempotency_key evidence reason =
     rbind (authorize svc ctx ''propose'') (\<lambda>_.
     rbind (require_read a source_pack) (\<lambda>_.
     rbind (require_write a target_pack) (\<lambda>_.
     rbind (build_promotion_event source_pack source_revision source_event target_pack subjects
              (durable_actor ctx) occurred_at recorded_at idempotency_key evidence reason) (\<lambda>event.
     rbind (dindex event ''provenance'') (\<lambda>v. rbind (as_dict v) (\<lambda>provenance.
       prepare_event (cs_config svc)
         (AList.update ''provenance''
            (JObj (AList.update ''prompt_or_policy_ref'' (JStr (skill_ref ctx)) provenance)) event) uuid_hex))))))"

text \<open>The guards of \<open>validate\<close> and \<open>commit\<close>.\<close>

definition admit :: "'w corpus_service \<Rightarrow> pack_access \<Rightarrow> agent_context \<Rightarrow> string \<Rightarrow> dict \<Rightarrow> unit res" where
  "admit svc a ctx capability event =
     rbind (authorize svc ctx capability) (\<lambda>_.
     rbind (dindex event ''pack_id'') (\<lambda>p.
     rbind (require_write_value a p) (\<lambda>_.
       require_actor_match event ctx)))"

definition agent_validate ::
  "'w corpus_service \<Rightarrow> pack_access \<Rightarrow> agent_context \<Rightarrow> string \<Rightarrow> dict \<Rightarrow> dict res" where
  "agent_validate svc a ctx uuid_hex event =
     rbind (admit svc a ctx ''validate'' event) (\<lambda>_. validate_event (cs_config svc) event uuid_hex)"

definition agent_commit ::
  "'w corpus_service \<Rightarrow> pack_access \<Rightarrow> agent_context \<Rightarrow> 'w agent_world \<Rightarrow> string \<Rightarrow> dict \<Rightarrow> 'w agent_world \<times> json res"
where
  "agent_commit svc a ctx w uuid_hex event =
     sbind (pure_res w (admit svc a ctx ''commit'' event)) (\<lambda>w _.
       let (st, r) = commit_event (cs_config svc) (corpus w) event uuid_hex in (w\<lparr>corpus := st\<rparr>, r))"

definition agent_manage :: "'w corpus_service \<Rightarrow> agent_context \<Rightarrow> string \<Rightarrow> dict res" where
  "agent_manage svc ctx action =
     rbind (authorize svc ctx ''manage'') (\<lambda>_.
       if action = ''capabilities''
       then Inr [(''service_version'', JStr (cs_version svc)), (''capabilities'', strs CAPABILITIES),
                 (''arbitrary_graph_mutation'', JBool False)]
       else if action = ''skills'' then Inr [(''skills'', JArr (map JObj (list_skills (cs_skills svc))))]
       else if action = ''health''
       then Inr [(''status'', JStr ''ok''), (''service_version'', JStr (cs_version svc)),
                 (''event_store_root'', JStr (cs_root svc))]
       else Inl (Exn CapabilityError ''unsupported management action: ''))"

section \<open>The tools\<close>

definition TOOL_NAMES :: "string list" where
  "TOOL_NAMES = [''fossil.search'', ''fossil.read'', ''fossil.lineage'', ''fossil.propose'', ''fossil.validate'',
     ''fossil.commit'', ''fossil.manage'']"

definition arg_str :: "dict \<Rightarrow> string \<Rightarrow> string res" where
  "arg_str d k = rbind (dindex d k) (\<lambda>v. Inr (py_str v))"

definition arg_dict :: "dict \<Rightarrow> string \<Rightarrow> dict res" where
  "arg_dict d k = rbind (dindex d k) as_dict"

definition arg_list :: "dict \<Rightarrow> string \<Rightarrow> json list res" where
  "arg_list d k = py_iter (dget_or d k (JArr []))"

text \<open>
  \<open>int(v)\<close>. A float is truncated towards zero: \<open>repr\<close> writes it with an exponent only below 1e-4 and
  from 1e16 on, where its exact digits do not matter to the bound the result is compared with. A text
  is a decimal numeral with an optional sign (Python's underscores between digits are left out).
\<close>

definition trunc_float :: "string \<Rightarrow> int" where
  "trunc_float t =
     (let m = takeWhile (\<lambda>c. c \<noteq> CHR ''e'') t; e = drop (length m + 1) t; n = read_int (takeWhile (\<lambda>c. c \<noteq> CHR ''.'') m)
      in if e = [] then n else if hd e = CHR ''-'' then 0
         else n * 10 ^ nat (read_int (if hd e = CHR ''+'' then tl e else e)))"

definition to_int :: "json \<Rightarrow> int res" where
  "to_int v =
     (case v of
        JInt i \<Rightarrow> Inr i
      | JBool b \<Rightarrow> Inr (if b then 1 else 0)
      | JFloat t \<Rightarrow> Inr (trunc_float t)
      | JStr s \<Rightarrow>
          (let t = strip s; u = (if t \<noteq> [] \<and> hd t = CHR ''+'' then tl t else t) in
           if unsigned u \<noteq> [] \<and> list_all is_digit (unsigned u) \<and> (hd t = CHR ''+'' \<longrightarrow> unsigned u = u)
           then Inr (read_int u) else Inl (Exn ValueError ''invalid literal for int() with base 10: ''))
      | _ \<Rightarrow> Inl (Exn TypeError ''int() argument''))"

definition arg_proposal :: "dict \<Rightarrow> proposal res" where
  "arg_proposal args =
     rbind (arg_str args ''event_type'') (\<lambda>event_type. rbind (arg_str args ''pack_id'') (\<lambda>pack_id.
     rbind (rbind (dindex args ''subject_refs'') py_iter) (\<lambda>subjects. rbind (arg_dict args ''payload'') (\<lambda>payload.
     rbind (arg_str args ''occurred_at'') (\<lambda>occurred_at. rbind (arg_str args ''recorded_at'') (\<lambda>recorded_at.
     rbind (arg_str args ''idempotency_key'') (\<lambda>key. rbind (arg_list args ''evidence_refs'') (\<lambda>evidence.
     rbind (arg_list args ''source_snapshot_refs'') (\<lambda>snaps. rbind (arg_list args ''caused_by_event_ids'') (\<lambda>caused.
     rbind (as_dict (dget_or args ''provenance'' (JObj []))) (\<lambda>provenance.
       Inr \<lparr> pr_type = event_type, pr_pack = pack_id, pr_subjects = subjects, pr_payload = payload,
             pr_occurred = occurred_at, pr_recorded = recorded_at, pr_key = key, pr_evidence = evidence,
             pr_snapshots = snaps, pr_caused = caused, pr_correlation = dget args ''correlation_id'',
             pr_provenance = provenance \<rparr>)))))))))))"

definition invoke ::
  "'w corpus_service \<Rightarrow> pack_access \<Rightarrow> agent_context \<Rightarrow> 'w agent_world \<Rightarrow> string \<Rightarrow> dict \<Rightarrow> string
   \<Rightarrow> 'w agent_world \<times> json res" where
  "invoke svc a ctx w tool args uuid_hex =
     (if tool = ''fossil.search'' then
        sbind (pure_res w (rbind (arg_str args ''query'') (\<lambda>q.
          rbind (to_int (dget_or args ''limit'' (JInt 20))) (\<lambda>n. Inr (q, n))))) (\<lambda>w (q, n).
        sbind (agent_search svc a ctx w q n) (\<lambda>w rs. (w, Inr (JArr (map JObj rs)))))
      else if tool = ''fossil.read'' then
        pure_res w (rbind (arg_str args ''event_id'') (agent_read svc a ctx w))
      else if tool = ''fossil.lineage'' then
        pure_res w (rbind (arg_str args ''conversation_id'') (\<lambda>c.
          rbind (agent_lineage svc a ctx w c (dget args ''node_id'')) (\<lambda>d. Inr (JObj d))))
      else if tool = ''fossil.propose'' then
        pure_res w (rbind (arg_proposal args) (\<lambda>p. rbind (agent_propose svc a ctx uuid_hex p) (\<lambda>d. Inr (JObj d))))
      else if tool = ''fossil.validate'' then
        pure_res w (rbind (arg_dict args ''event'') (\<lambda>ev. rbind (agent_validate svc a ctx uuid_hex ev) (\<lambda>d. Inr (JObj d))))
      else if tool = ''fossil.commit'' then
        sbind (pure_res w (arg_dict args ''event'')) (\<lambda>w ev. agent_commit svc a ctx w uuid_hex ev)
      else if tool = ''fossil.manage'' then
        pure_res w (rbind (arg_str args ''action'') (\<lambda>act. rbind (agent_manage svc ctx act) (\<lambda>d. Inr (JObj d))))
      else (w, Inl (Exn CapabilityError ''tool '')))"

section \<open>The server\<close>

record tool_error =
  err_code :: string
  err_detail :: string

definition mapped_error :: "exn \<Rightarrow> tool_error" where
  "mapped_error e =
     (let c = exn_class e; m = exn_msg e in
      if exn_isa c PackBoundaryError then \<lparr> err_code = ''unauthorized_pack'', err_detail = m \<rparr>
      else if exn_isa c CapabilityError then \<lparr> err_code = ''capability_denied'', err_detail = m \<rparr>
      else if exn_isa c FileNotFoundError then \<lparr> err_code = ''not_found'', err_detail = m \<rparr>
      else if exn_isa c KeyError then \<lparr> err_code = ''not_found'', err_detail = m \<rparr>
      else if exn_isa c TypeError \<or> exn_isa c ValueError then \<lparr> err_code = ''invalid_request'', err_detail = m \<rparr>
      else if exn_isa c OSError then \<lparr> err_code = ''canonical_store_unavailable'', err_detail = m \<rparr>
      else \<lparr> err_code = ''internal_error'', err_detail = ''FOSSIL tool execution failed'' \<rparr>)"

definition server_invoke ::
  "'w corpus_service \<Rightarrow> pack_access \<Rightarrow> agent_context \<Rightarrow> 'w agent_world \<Rightarrow> string \<Rightarrow> dict \<Rightarrow> string
   \<Rightarrow> 'w agent_world \<times> (tool_error + json)" where
  "server_invoke svc a ctx w tool args uuid_hex = map_prod id (map_sum mapped_error id) (invoke svc a ctx w tool args uuid_hex)"

text \<open>The requests of the server's typed tools, and the arguments each hands to the adapter.\<close>

datatype server_request =
    FossilSearch string int
  | FossilRead string
  | FossilLineage string "string option"
  | FossilPropose string string "string list" dict string string string
      "string list option" "string list option" "string list option" "string option" "dict option"
  | FossilValidate dict
  | FossilCommit dict
  | FossilManage string

definition given :: "string \<Rightarrow> json option \<Rightarrow> dict" where
  "given k v = (case v of None \<Rightarrow> [] | Some x \<Rightarrow> [(k, x)])"

primrec server_arguments :: "server_request \<Rightarrow> string \<times> dict" where
  "server_arguments (FossilSearch query limit) = (''fossil.search'', [(''query'', JStr query), (''limit'', JInt limit)])"
| "server_arguments (FossilRead i) = (''fossil.read'', [(''event_id'', JStr i)])"
| "server_arguments (FossilLineage c n) =
     (''fossil.lineage'', (''conversation_id'', JStr c) # given ''node_id'' (map_option JStr n))"
| "server_arguments (FossilPropose k p subjects payload occurred recorded key evidence snaps caused correlation provenance) =
     (''fossil.propose'',
      [(''event_type'', JStr k), (''pack_id'', JStr p), (''subject_refs'', strs subjects), (''payload'', JObj payload),
       (''occurred_at'', JStr occurred), (''recorded_at'', JStr recorded), (''idempotency_key'', JStr key)]
      @ given ''evidence_refs'' (map_option strs evidence) @ given ''source_snapshot_refs'' (map_option strs snaps)
      @ given ''caused_by_event_ids'' (map_option strs caused) @ given ''correlation_id'' (map_option JStr correlation)
      @ given ''provenance'' (map_option JObj provenance))"
| "server_arguments (FossilValidate ev) = (''fossil.validate'', [(''event'', JObj ev)])"
| "server_arguments (FossilCommit ev) = (''fossil.commit'', [(''event'', JObj ev)])"
| "server_arguments (FossilManage act) = (''fossil.manage'', [(''action'', JStr act)])"

definition serve ::
  "'w corpus_service \<Rightarrow> pack_access \<Rightarrow> agent_context \<Rightarrow> 'w agent_world \<Rightarrow> server_request \<Rightarrow> string
   \<Rightarrow> 'w agent_world \<times> (tool_error + json)" where
  "serve svc a ctx w r uuid_hex = server_invoke svc a ctx w (fst (server_arguments r)) (snd (server_arguments r)) uuid_hex"

section \<open>Authorization\<close>

text \<open>A session is granted a capability: its skill is registered in the session's version and lists it.\<close>

definition skill_grants :: "skill_registry \<Rightarrow> agent_context \<Rightarrow> string \<Rightarrow> bool" where
  "skill_grants reg ctx capability \<longleftrightarrow>
     (\<exists>m caps. map_of (reg_skills reg) (ctx_skill ctx) = Some m \<and> map_of m ''capabilities'' = Some caps
        \<and> py_in (JStr capability) caps = Inr True \<and> map_of m ''version'' = Some (JStr (ctx_version ctx)))"

lemma authorize_iff: "(\<exists>m. authorize svc ctx c = Inr m) \<longleftrightarrow> skill_grants (cs_skills svc) ctx c"
  by (auto simp: authorize_def require_capability_def get_skill_def skill_grants_def)

lemma authorize_D: "authorize svc ctx c = Inr m \<Longrightarrow> skill_grants (cs_skills svc) ctx c"
  using authorize_iff by blast

lemma value_in_Inr_True [simp]: "value_in v packs = Inr True \<longleftrightarrow> (\<exists>s. v = JStr s \<and> s \<in> packs)"
  by (cases v) (auto simp: value_in_def hashable_def is_arr_def is_obj_def)

lemma require_read_value_iff [simp]: "require_read_value a v = Inr u \<longleftrightarrow> (\<exists>s. v = JStr s \<and> s \<in> read_mounts a)"
  by (simp add: require_read_value_def)

lemma require_write_value_iff [simp]: "require_write_value a v = Inr u \<longleftrightarrow> (\<exists>s. v = JStr s \<and> s \<in> write_targets a)"
  by (simp add: require_write_value_def)

lemma admit_iff:
  "admit svc a ctx c event = Inr u \<longleftrightarrow> skill_grants (cs_skills svc) ctx c
     \<and> (\<exists>p \<in> write_targets a. map_of event ''pack_id'' = Some (JStr p))
     \<and> py_eq (dget event ''actor'') (JObj (durable_actor ctx))"
  by (auto simp: admit_def require_actor_match_def authorize_iff [symmetric])

section \<open>Writes\<close>

text \<open>\<open>prepare\<close> changes no field of an event but its id.\<close>

lemma prepare_event_fields:
  "prepare_event cfg ev u = Inr c \<Longrightarrow> k \<noteq> ''event_id'' \<Longrightarrow> map_of c k = map_of ev k"
  by (auto simp: prepare_event_def Let_def map_of_update split: if_split_asm)

lemma validate_event_fields:
  "validate_event cfg ev u = Inr c \<Longrightarrow> k \<noteq> ''event_id'' \<Longrightarrow> map_of c k = map_of ev k"
  by (auto simp: validate_event_def prepare_event_fields)

text \<open>What a commit of an arbitrary event does to a log that satisfies the invariant.\<close>

lemma commit_effect:
  assumes ok: "events_ok cfg st" and wf: "wf_json (JObj ev)"
  shows "tombstones (fst (commit_event cfg st ev u)) = tombstones st
    \<and> (\<forall>i v. get_event st i = Inr v \<longrightarrow> get_event (fst (commit_event cfg st ev u)) i = Inr v)
    \<and> (\<forall>i v. get_event (fst (commit_event cfg st ev u)) i = Inr v \<longrightarrow> get_event st i = Inr v
         \<or> (\<exists>d. v = canon (JObj d) \<and> validate_event cfg ev u = Inr d \<and> map_of d ''event_id'' = Some (JStr i)))
    \<and> (\<not> is_ok (snd (commit_event cfg st ev u)) \<longrightarrow> fst (commit_event cfg st ev u) = st)"
proof (cases rule: commit_event_cases [of cfg st ev u])
  case refused
  then show ?thesis by simp
next
  case (stored c i)
  show ?thesis
  proof (cases rule: store_event_cases [of st i c])
    case erased
    then show ?thesis using stored(3) by simp
  next
    case present
    then show ?thesis using stored(3) by simp
  next
    case fresh
    let ?st = "st\<lparr>events := AList.update (event_path i) (canonical (JObj c)) (events st)\<rparr>"
    have s: "store_event st c i = (?st, Inr (JObj c))" by (rule fresh(3))
    have "get_event ?st i = Inr (canon (JObj c))"
      using stored_then_get [OF ok validate_event_D(1) [OF stored(1) wf] s] by blast
    moreover have "get_event ?st j = get_event st j" if "j \<noteq> i" for j
      using that by (simp add: get_event_def event_is_redacted_def read_json_def read_file_def)
    moreover have "get_event st i = Inl (Exn FileNotFoundError [])"
      using fresh(1,2) by (simp add: get_event_def read_json_def read_file_def)
    ultimately have get: "get_event ?st j = (if j = i then Inr (canon (JObj c)) else get_event st j)"
      "get_event st i \<noteq> Inr v" for j v by simp_all
    show ?thesis unfolding stored(3) s fst_conv snd_conv get using stored(1,2) get(2)
      by (auto simp del: canon.simps)
  qed
qed

text \<open>The condition under which a session may add an event.\<close>

definition write_authorized ::
  "'w corpus_service \<Rightarrow> pack_access \<Rightarrow> agent_context \<Rightarrow> string \<Rightarrow> json \<Rightarrow> bool" where
  "write_authorized svc a ctx i v \<longleftrightarrow>
     (\<exists>d. v = canon (JObj d) \<and> map_of d ''event_id'' = Some (JStr i)
        \<and> skill_grants (cs_skills svc) ctx ''commit''
        \<and> (\<exists>p \<in> write_targets a. map_of d ''pack_id'' = Some (JStr p))
        \<and> py_eq (dget d ''actor'') (JObj (durable_actor ctx))
        \<and> cfg_envelope (cs_config svc) (JObj d)
        \<and> is_ok (validate_event_for_commit (cfg_payload (cs_config svc)) d (cfg_endpoints (cs_config svc))
             (cfg_promotions (cs_config svc))))"

definition writes_bounded ::
  "'w corpus_service \<Rightarrow> pack_access \<Rightarrow> agent_context \<Rightarrow> event_store \<Rightarrow> event_store \<Rightarrow> bool" where
  "writes_bounded svc a ctx st st' \<longleftrightarrow> tombstones st' = tombstones st
     \<and> (\<forall>i v. get_event st i = Inr v \<longrightarrow> get_event st' i = Inr v)
     \<and> (\<forall>i v. get_event st' i = Inr v \<longrightarrow> get_event st i = Inr v \<or> write_authorized svc a ctx i v)"

lemma writes_bounded_refl [simp]: "writes_bounded svc a ctx st st"
  by (simp add: writes_bounded_def)

lemma writes_bounded_trans:
  "writes_bounded svc a ctx st st' \<Longrightarrow> writes_bounded svc a ctx st' st'' \<Longrightarrow> writes_bounded svc a ctx st st''"
  unfolding writes_bounded_def by metis

lemma agent_commit_step:
  assumes ok: "events_ok (cs_config svc) (corpus w)" and wf: "wf_json (JObj ev)"
  shows "events_ok (cs_config svc) (corpus (fst (agent_commit svc a ctx w u ev)))
    \<and> writes_bounded svc a ctx (corpus w) (corpus (fst (agent_commit svc a ctx w u ev)))
    \<and> (\<not> is_ok (snd (agent_commit svc a ctx w u ev)) \<longrightarrow> fst (agent_commit svc a ctx w u ev) = w)"
proof (cases "admit svc a ctx ''commit'' ev")
  case (Inl e)
  then show ?thesis using ok by (simp add: agent_commit_def)
next
  case (Inr x)
  let ?cfg = "cs_config svc"
  let ?st = "fst (commit_event ?cfg (corpus w) ev u)"
  have c: "agent_commit svc a ctx w u ev = (w\<lparr>corpus := ?st\<rparr>, snd (commit_event ?cfg (corpus w) ev u))"
    using Inr by (simp add: agent_commit_def split_beta Let_def)
  note eff = commit_effect [OF ok wf, of u]
  have "events_ok ?cfg ?st" using event_step_ok [of "CommitEvent ev u"] ok wf by simp
  moreover have "write_authorized svc a ctx i (canon (JObj d))"
    if "validate_event ?cfg ev u = Inr d" "map_of d ''event_id'' = Some (JStr i)" for d i
  proof -
    have "map_of d ''pack_id'' = map_of ev ''pack_id''" "dget d ''actor'' = dget ev ''actor''"
      using validate_event_fields [OF that(1)] by (simp_all add: dget_def)
    then show ?thesis unfolding write_authorized_def
      using that Inr [unfolded admit_iff] validate_event_D [OF that(1) wf]
      by (intro exI [of _ d]) simp
  qed
  then have "writes_bounded svc a ctx (corpus w) ?st" unfolding writes_bounded_def using eff by blast
  ultimately show ?thesis unfolding c using eff by simp
qed

lemma wf_arg: "wf_json (JObj args) \<Longrightarrow> arg_dict args k = Inr ev \<Longrightarrow> wf_json (JObj ev)"
proof -
  assume wf: "wf_json (JObj args)" and e: "arg_dict args k = Inr ev"
  have "map_of args k = Some (JObj ev)" using e by (simp add: arg_dict_def)
  then have "(k, JObj ev) \<in> set args" by (rule map_of_SomeD)
  with wf show ?thesis by (metis snd_conv wf_json.simps(3))
qed

lemma search_keeps [simp]: "corpus (fst (agent_search svc a ctx w q n)) = corpus w"
  unfolding agent_search_def
  by (rule fst_sbind_invariant [where P = "\<lambda>x. corpus x = corpus w"])
    (simp_all add: Let_def split_beta split: option.split)

text \<open>One invocation, whatever the tool and its arguments.\<close>

lemma invoke_step:
  assumes ok: "events_ok (cs_config svc) (corpus w)" and wf: "wf_json (JObj args)"
  shows "events_ok (cs_config svc) (corpus (fst (invoke svc a ctx w tool args u)))
    \<and> writes_bounded svc a ctx (corpus w) (corpus (fst (invoke svc a ctx w tool args u)))
    \<and> (\<not> is_ok (snd (invoke svc a ctx w tool args u)) \<longrightarrow> corpus (fst (invoke svc a ctx w tool args u)) = corpus w)"
proof (cases "tool = ''fossil.commit''")
  case True
  show ?thesis
  proof (cases "arg_dict args ''event''")
    case (Inl e)
    then show ?thesis using True ok by (simp add: invoke_def)
  next
    case (Inr ev)
    then have "invoke svc a ctx w tool args u = agent_commit svc a ctx w u ev" using True by (simp add: invoke_def)
    then show ?thesis using agent_commit_step [OF ok wf_arg [OF wf Inr], of a ctx u] by auto
  qed
next
  case False
  have "corpus (fst (invoke svc a ctx w tool args u)) = corpus w"
  proof (cases "tool = ''fossil.search''")
    case True
    have "corpus (fst (sbind (pure_res w r) (\<lambda>w (q, n). sbind (agent_search svc a ctx w q n)
       (\<lambda>w rs. (w, Inr (JArr (map JObj rs))))))) = corpus w" for r
      by (rule fst_sbind_invariant [where P = "\<lambda>x. corpus x = corpus w"]) (simp_all add: split_beta)
    then show ?thesis using True by (simp add: invoke_def)
  qed (use False in \<open>simp add: invoke_def\<close>)
  then show ?thesis using ok by simp
qed

section \<open>Runs\<close>

type_synonym tool_call = "string \<times> dict \<times> string"

definition agent_step :: "'w corpus_service \<Rightarrow> pack_access \<Rightarrow> agent_context \<Rightarrow> 'w agent_world \<Rightarrow> tool_call \<Rightarrow> 'w agent_world" where
  "agent_step svc a ctx w call = (case call of (tool, args, u) \<Rightarrow> fst (invoke svc a ctx w tool args u))"

definition agent_run :: "'w corpus_service \<Rightarrow> pack_access \<Rightarrow> agent_context \<Rightarrow> 'w agent_world \<Rightarrow> tool_call list \<Rightarrow> 'w agent_world" where
  "agent_run svc a ctx w calls = foldl (agent_step svc a ctx) w calls"

definition calls_wf :: "tool_call list \<Rightarrow> bool" where
  "calls_wf calls \<longleftrightarrow> (\<forall>(tool, args, u) \<in> set calls. wf_json (JObj args))"

lemma agent_run_step:
  assumes "calls_wf calls" and "events_ok (cs_config svc) (corpus w)"
  shows "events_ok (cs_config svc) (corpus (agent_run svc a ctx w calls))
    \<and> writes_bounded svc a ctx (corpus w) (corpus (agent_run svc a ctx w calls))"
  using assms
proof (induction calls arbitrary: w)
  case Nil
  then show ?case by (simp add: agent_run_def)
next
  case (Cons call calls)
  obtain tool args u where call: "call = (tool, args, u)" by (cases call) auto
  let ?w = "fst (invoke svc a ctx w tool args u)"
  have wf: "wf_json (JObj args)" and rest: "calls_wf calls" using Cons.prems(1) call by (simp_all add: calls_wf_def)
  note step = invoke_step [OF Cons.prems(2) wf, of a ctx tool u]
  then have "events_ok (cs_config svc) (corpus ?w)" by blast
  note ih = Cons.IH [OF rest this]
  have "agent_run svc a ctx w (call # calls) = agent_run svc a ctx ?w calls"
    by (simp add: agent_run_def agent_step_def call)
  then show ?case using ih step writes_bounded_trans by metis
qed

section \<open>Reads\<close>

text \<open>What a search without a retriever collects: readable events of the log, in the order of its files.\<close>

definition from_log :: "event_store \<Rightarrow> pack_access \<Rightarrow> dict \<Rightarrow> bool" where
  "from_log st a d \<longleftrightarrow> (\<exists>p ev. p \<in> set (glob_json (events st)) \<and> read_json (events st) p = Inr ev
     \<and> search_result ev = Inr d \<and> (\<exists>s \<in> read_mounts a. index ev ''pack_id'' = Inr (JStr s)))"

lemma search_result_pack:
  assumes "search_result ev = Inr d"
  shows "index ev ''pack_id'' = Inr (dget d ''pack_id'')"
proof -
  from assms obtain i k p r refs where "index ev ''pack_id'' = Inr p"
    "d = [(''event_id'', i), (''event_type'', k), (''pack_id'', p), (''recorded_at'', r)] @ refs"
    by (auto simp: search_result_def)
  then show ?thesis by (simp add: dget_def)
qed

lemma search_paths_ok:
  assumes "search_paths st a needle limit ps acc = Inr rs" and "set ps \<subseteq> set (glob_json (events st))"
    and "\<forall>d \<in> set acc. from_log st a d" and "int (length acc) < limit"
  shows "(\<forall>d \<in> set rs. from_log st a d) \<and> int (length rs) \<le> limit"
  using assms
proof (induction ps arbitrary: acc)
  case (Cons p ps)
  from Cons.prems(1) obtain ev pk readable where ev: "read_json (events st) p = Inr ev" "index ev ''pack_id'' = Inr pk"
    "value_in pk (read_mounts a) = Inr readable" by auto
  show ?case
  proof (cases "\<not> readable \<or> needle \<noteq> [] \<and> \<not> substring needle (lower (enc_spaced (canon ev)))")
    case True
    then have "search_paths st a needle limit ps acc = Inr rs" using Cons.prems(1) ev by simp
    then show ?thesis using Cons.IH [of acc] Cons.prems by simp
  next
    case False
    then obtain r where r: "search_result ev = Inr r" and
      tl: "(if limit \<le> int (length acc) + 1 then Inr (acc @ [r]) else search_paths st a needle limit ps (acc @ [r])) = Inr rs"
      using Cons.prems(1) ev by auto
    have "from_log st a r" unfolding from_log_def
      using ev r False Cons.prems(2) by (intro exI [of _ p] exI [of _ ev]) auto
    with Cons.prems(3) have acc: "\<forall>d \<in> set (acc @ [r]). from_log st a d" by auto
    show ?thesis
    proof (cases "limit \<le> int (length acc) + 1")
      case True
      then show ?thesis using tl acc Cons.prems(4) by auto
    next
      case False
      then show ?thesis using Cons.IH [of "acc @ [r]"] tl acc Cons.prems by simp
    qed
  qed
qed simp

lemma from_log_mounted: "from_log st a d \<Longrightarrow> \<exists>s \<in> read_mounts a. map_of d ''pack_id'' = Some (JStr s)"
  using search_result_pack unfolding from_log_def by (fastforce simp: dget_def split: option.splits)


section \<open>The registry\<close>

definition registry_ok :: "(json \<Rightarrow> bool) \<Rightarrow> fs \<Rightarrow> skill_registry \<Rightarrow> bool" where
  "registry_ok V disk reg \<longleftrightarrow> (\<forall>i m. map_of (reg_skills reg) i = Some m \<longrightarrow>
     V (JObj m) \<and> map_of m ''skill_id'' = Some (JStr i)
     \<and> (\<exists>dir r. map_of (reg_dirs reg) i = Some dir \<and> map_of m ''methodology_ref'' = Some (JStr r) \<and> exists_path disk [dir, r]))"

lemma load_manifest_ok:
  assumes "load_manifest V disk reg p = Inr reg'" and "registry_ok V disk reg"
  shows "registry_ok V disk reg'"
proof -
  from assms(1) obtain m i r where m: "V (JObj m)" "map_of m ''skill_id'' = Some (JStr i)"
    "map_of m ''methodology_ref'' = Some (JStr r)" "exists_path disk [hd p, r]"
    and reg': "reg' = reg\<lparr>reg_skills := AList.update i m (reg_skills reg), reg_dirs := AList.update i (hd p) (reg_dirs reg)\<rparr>"
    by (auto simp: load_manifest_def)
  show ?thesis unfolding registry_ok_def
  proof (intro allI impI)
    fix j m' assume j: "map_of (reg_skills reg') j = Some m'"
    show "V (JObj m') \<and> map_of m' ''skill_id'' = Some (JStr j)
     \<and> (\<exists>dir r. map_of (reg_dirs reg') j = Some dir \<and> map_of m' ''methodology_ref'' = Some (JStr r) \<and> exists_path disk [dir, r])"
    proof (cases "j = i")
      case True
      then show ?thesis using j m unfolding reg' by simp
    next
      case False
      then show ?thesis using j assms(2) unfolding reg' registry_ok_def by simp
    qed
  qed
qed

text \<open>The methodology of every registered skill can be loaded, and loading is the only thing that marks it.\<close>

lemma load_manifests_ok: "load_manifests V disk = Inr reg \<Longrightarrow> registry_ok V disk reg"
  unfolding load_manifests_def
  by (erule rfold_invariant [where P = "registry_ok V disk"])
    (simp add: empty_registry_def registry_ok_def, rule load_manifest_ok)

lemma methodology_available:
  assumes "load_manifests V disk = Inr reg" and "map_of (reg_skills reg) i = Some m"
  shows "is_ok (snd (load_methodology disk reg i)) \<and> methodology_loaded (fst (load_methodology disk reg i)) i"
proof -
  from load_manifests_ok [OF assms(1)] assms(2) obtain dir r where
    "map_of (reg_dirs reg) i = Some dir" "map_of m ''methodology_ref'' = Some (JStr r)" "exists_path disk [dir, r]"
    unfolding registry_ok_def by blast
  then show ?thesis using assms(2)
    by (auto simp: load_methodology_def get_skill_def methodology_loaded_def read_file_def exists_path_def)
qed

lemma load_methodology_skills: "reg_skills (fst (load_methodology disk reg i)) = reg_skills reg"
  unfolding load_methodology_def
  by (rule fst_sbind_invariant [where P = "\<lambda>r. reg_skills r = reg_skills reg"]) simp_all


section \<open>Properties\<close>

lemma sorted_set_subset: "set (sorted_set A) \<subseteq> A"
  by (cases "finite A") (simp_all add: sorted_set_def)

lemma scope_iff [simp]:
  "require_result_scope allowed ds = Inr u \<longleftrightarrow> (\<forall>d \<in> set ds. item_pack d \<noteq> [] \<and> item_pack d \<in> set allowed)"
  by (simp add: require_result_scope_def)

lemma from_log_item_pack: "from_log st a d \<Longrightarrow> item_pack d \<in> read_mounts a"
  using from_log_mounted [of st a d] by (auto simp: item_pack_def dget_def Let_def)

lemma agent_search_ok:
  assumes "snd (agent_search svc a ctx w q n) = Inr rs"
  shows "skill_grants (cs_skills svc) ctx ''search'' \<and> int (length rs) \<le> n \<and> n \<le> 100
    \<and> (\<forall>d \<in> set rs. item_pack d \<in> read_mounts a)
    \<and> (cs_retriever svc = None \<longrightarrow> (\<forall>d \<in> set rs. from_log (corpus w) a d))"
proof -
  from assms obtain m where m: "authorize svc ctx ''search'' = Inr m" and n: "1 \<le> n" "n \<le> 100"
    by (auto simp: agent_search_def snd_sbind_Inr)
  show ?thesis
  proof (cases "cs_retriever svc")
    case None
    then have s: "search_paths (corpus w) a (strip (lower q)) n (glob_json (events (corpus w))) [] = Inr rs"
      using assms m n by (simp add: agent_search_def)
    have "(\<forall>d \<in> set rs. from_log (corpus w) a d) \<and> int (length rs) \<le> n"
      by (rule search_paths_ok [OF s]) (use n in simp_all)
    then show ?thesis using authorize_D [OF m] n from_log_item_pack by auto
  next
    case (Some retrieve)
    then obtain results where r: "rs = take (nat n) results"
      "\<forall>d \<in> set results. item_pack d \<in> set (sorted_set (read_mounts a))"
      using assms m n by (auto simp: agent_search_def Let_def split_beta)
    then have "\<forall>d \<in> set rs. item_pack d \<in> read_mounts a"
      using sorted_set_subset [of "read_mounts a"] by (meson in_set_takeD subsetD)
    then show ?thesis using authorize_D [OF m] n r Some by simp
  qed
qed

lemma authorized_pack_ids_subset:
  "authorized_pack_ids v a = Inr packs \<Longrightarrow> set packs \<subseteq> read_mounts a"
  using sorted_set_subset [of "read_mounts a"]
  by (auto simp: authorized_pack_ids_def Let_def split: json.split_asm)

lemma agent_context_ok:
  assumes "snd (agent_build_context svc a ctx w request) = Inr c"
  shows "skill_grants (cs_skills svc) ctx ''context'' \<and> (\<exists>packs ds. set packs \<subseteq> read_mounts a
    \<and> map_of c ''pack_ids'' = Some (strs packs) \<and> map_of c ''items'' = Some (JArr (map JObj ds))
    \<and> (\<forall>d \<in> set ds. item_pack d \<in> set packs))"
proof -
  from assms obtain m build packs where m: "authorize svc ctx ''context'' = Inr m" "cs_context svc = Some build"
    "authorized_pack_ids (dget request ''pack_ids'') a = Inr packs"
    by (auto simp: agent_build_context_def snd_sbind_Inr)
  with assms obtain d ds where "c = AList.update ''pack_ids'' (strs packs) (AList.update ''items'' (JArr (map JObj ds)) d)"
    "\<forall>d \<in> set ds. item_pack d \<in> set packs"
    by (auto simp: agent_build_context_def split_beta Let_def)
  then show ?thesis using authorize_D [OF m(1)] authorized_pack_ids_subset [OF m(3)] by auto
qed

text \<open>C31. An agent can only add authorized events. Whatever tools a session calls, with whatever
  arguments and in whatever order, and whatever the retriever and the context provider do: no event
  of the log changes or disappears, no redaction happens, and every event that is new was committed
  under a skill that grants the capability in the session's version, into a pack that is a write
  target, with the session's own provenance as its actor, and was accepted by the envelope schema
  and the acceptance registry.\<close>

theorem agent_writes_are_authorized:
  assumes "list_all event_op_legal ops" and "corpus w = event_run (cs_config svc) ops" and "calls_wf calls"
  shows "tombstones (corpus (agent_run svc a ctx w calls)) = tombstones (corpus w)
    \<and> (\<forall>i v. get_event (corpus w) i = Inr v \<longrightarrow> get_event (corpus (agent_run svc a ctx w calls)) i = Inr v)
    \<and> (\<forall>i v. get_event (corpus (agent_run svc a ctx w calls)) i = Inr v \<longrightarrow>
         get_event (corpus w) i = Inr v \<or> write_authorized svc a ctx i v)"
  using agent_run_step [OF assms(3), of svc w a ctx] event_run_ok [OF assms(1), of "cs_config svc"] assms(2)
  by (simp add: writes_bounded_def)

definition demo_skill :: "string list \<Rightarrow> dict" where
  "demo_skill caps = [(''skill_id'', JStr ''skill_demo''), (''version'', JStr ''1.0.0''), (''name'', JStr ''Demo''),
     (''summary'', JStr ''demo''), (''capabilities'', strs caps), (''triggers'', strs [''demo''])]"

definition demo_service :: "string list \<Rightarrow> unit corpus_service" where
  "demo_service caps = \<lparr> cs_config = demo_config, cs_root = ''events'',
     cs_skills = \<lparr> reg_skills = [(''skill_demo'', demo_skill caps)], reg_dirs = [(''skill_demo'', ''demo'')], loaded_methodologies = [] \<rparr>,
     cs_lineages = [], cs_retriever = None, cs_context = None, cs_version = ''1'' \<rparr>"

definition demo_access :: pack_access where
  "demo_access = \<lparr> acc_pack_id = JStr ''pack_project_aaaaaaaa'', read_mounts = {''pack_project_aaaaaaaa''},
     write_targets = {''pack_project_aaaaaaaa''} \<rparr>"

definition demo_ctx :: agent_context where
  "demo_ctx = \<lparr> ctx_actor = ''agent'', ctx_model = ''m'', ctx_harness = ''h'', ctx_skill = ''skill_demo'', ctx_version = ''1.0.0'' \<rparr>"

definition demo_agent_event :: dict where
  "demo_agent_event = (''actor'', JObj (durable_actor demo_ctx)) # demo_proposal ''k3'' ''c3''"

definition demo_calls :: "tool_call list" where
  "demo_calls = [(''fossil.commit'', [(''event'', JObj demo_agent_event)], ''u3''), (''fossil.drop'', [], ''u4'')]"

definition demo_world :: "unit agent_world" where
  "demo_world = \<lparr> corpus = event_run demo_config [], conversations = demo_conv_store, outside = () \<rparr>"

definition demo_agent_run :: "unit agent_world" where
  "demo_agent_run = agent_run (demo_service [''commit'']) demo_access demo_ctx demo_world demo_calls"

lemma demo_admit: "admit (demo_service [''commit'']) demo_access demo_ctx ''commit'' demo_agent_event = Inr ()"
  by code_simp

lemma demo_run_commit:
  "corpus demo_agent_run = fst (commit_event demo_config (event_run demo_config []) demo_agent_event ''u3'')"
proof -
  have "cs_config (demo_service [''commit'']) = demo_config" by (simp add: demo_service_def)
  then have "corpus (fst (invoke (demo_service [''commit'']) demo_access demo_ctx demo_world ''fossil.commit''
      [(''event'', JObj demo_agent_event)] ''u3''))
    = fst (commit_event demo_config (event_run demo_config []) demo_agent_event ''u3'')"
    by (simp add: invoke_def arg_dict_def agent_commit_def demo_admit split_beta Let_def demo_world_def)
  then show ?thesis
    by (simp add: demo_agent_run_def agent_run_def agent_step_def demo_calls_def) (simp add: invoke_def)
qed

lemma demo_agent_facts:
  "is_ok (get_event (fst (commit_event demo_config (event_run demo_config []) demo_agent_event ''u3'')) (demo_id ''k3''))"
  "\<not> is_ok (get_event (event_run demo_config []) (demo_id ''k3''))"
  by code_simp+

lemma demo_calls_wf: "calls_wf demo_calls"
  by (simp add: calls_wf_def demo_calls_def demo_agent_event_def durable_actor_def demo_proposal_def)

theorem agent_writes_are_authorized_witness:
  "\<exists>v. get_event (corpus demo_agent_run) (demo_id ''k3'') = Inr v
     \<and> write_authorized (demo_service [''commit'']) demo_access demo_ctx (demo_id ''k3'') v"
proof -
  have w: "corpus demo_world = event_run (cs_config (demo_service [''commit''])) []"
    by (simp add: demo_world_def demo_service_def)
  from demo_agent_facts(1) obtain v where v: "get_event (corpus demo_agent_run) (demo_id ''k3'') = Inr v"
    unfolding demo_run_commit by (rule is_okE)
  moreover from demo_agent_facts(2) have "get_event (corpus demo_world) (demo_id ''k3'') \<noteq> Inr v"
    by (auto simp: is_ok_iff demo_world_def)
  ultimately show ?thesis
    using agent_writes_are_authorized [OF _ w demo_calls_wf, of demo_access demo_ctx]
    unfolding demo_agent_run_def by fastforce
qed

text \<open>C32. An agent only reads mounted packs. A successful search, read, context or lineage call was
  made under a skill that grants it; a search returns at most the limit asked for, which is at most
  100, and only items of packs in the read mounts, even from a retriever that returns anything
  (without one, every result is an event of the log); a read returns the event of the log, of a
  readable pack; a context holds items of the requested packs, all readable; a lineage belongs to a
  readable pack.\<close>

theorem agent_reads_are_scoped:
  "(\<forall>rs. snd (agent_search svc a ctx w q n) = Inr rs \<longrightarrow>
      skill_grants (cs_skills svc) ctx ''search'' \<and> int (length rs) \<le> n \<and> n \<le> 100
      \<and> (\<forall>d \<in> set rs. item_pack d \<in> read_mounts a)
      \<and> (cs_retriever svc = None \<longrightarrow> (\<forall>d \<in> set rs. from_log (corpus w) a d)))
   \<and> (\<forall>ev. agent_read svc a ctx w i = Inr ev \<longrightarrow>
      skill_grants (cs_skills svc) ctx ''read'' \<and> get_event (corpus w) i = Inr ev
      \<and> (\<exists>p \<in> read_mounts a. index ev ''pack_id'' = Inr (JStr p)))
   \<and> (\<forall>c. snd (agent_build_context svc a ctx w request) = Inr c \<longrightarrow>
      skill_grants (cs_skills svc) ctx ''context'' \<and> (\<exists>packs ds. set packs \<subseteq> read_mounts a
      \<and> map_of c ''pack_ids'' = Some (strs packs) \<and> map_of c ''items'' = Some (JArr (map JObj ds))
      \<and> (\<forall>d \<in> set ds. item_pack d \<in> set packs)))
   \<and> (\<forall>d. agent_lineage svc a ctx w cid node = Inr d \<longrightarrow>
      skill_grants (cs_skills svc) ctx ''lineage'' \<and> (\<exists>p \<in> read_mounts a. \<exists>l. map_of (cs_lineages svc) cid = Some (p, l)))"
proof (intro conjI)
  show "\<forall>rs. snd (agent_search svc a ctx w q n) = Inr rs \<longrightarrow>
      skill_grants (cs_skills svc) ctx ''search'' \<and> int (length rs) \<le> n \<and> n \<le> 100
      \<and> (\<forall>d \<in> set rs. item_pack d \<in> read_mounts a)
      \<and> (cs_retriever svc = None \<longrightarrow> (\<forall>d \<in> set rs. from_log (corpus w) a d))"
    using agent_search_ok by blast
  show "\<forall>ev. agent_read svc a ctx w i = Inr ev \<longrightarrow>
      skill_grants (cs_skills svc) ctx ''read'' \<and> get_event (corpus w) i = Inr ev
      \<and> (\<exists>p \<in> read_mounts a. index ev ''pack_id'' = Inr (JStr p))"
    by (auto simp: agent_read_def dest: authorize_D)
  show "\<forall>c. snd (agent_build_context svc a ctx w request) = Inr c \<longrightarrow>
      skill_grants (cs_skills svc) ctx ''context'' \<and> (\<exists>packs ds. set packs \<subseteq> read_mounts a
      \<and> map_of c ''pack_ids'' = Some (strs packs) \<and> map_of c ''items'' = Some (JArr (map JObj ds))
      \<and> (\<forall>d \<in> set ds. item_pack d \<in> set packs))"
    using agent_context_ok by blast
  show "\<forall>d. agent_lineage svc a ctx w cid node = Inr d \<longrightarrow>
      skill_grants (cs_skills svc) ctx ''lineage'' \<and> (\<exists>p \<in> read_mounts a. \<exists>l. map_of (cs_lineages svc) cid = Some (p, l))"
    by (auto simp: agent_lineage_def dest: authorize_D)
qed

definition demo_filled :: "unit agent_world" where
  "demo_filled = \<lparr> corpus = fst (commit_event demo_config (event_run demo_config []) demo_agent_event ''u3''),
     conversations = demo_conv_store, outside = () \<rparr>"

lemma demo_search:
  "map_sum id length (snd (agent_search (demo_service [''search'']) demo_access demo_ctx demo_filled ''C3'' 5)) = Inr 1"
  by code_simp

theorem agent_reads_are_scoped_witness:
  "\<exists>d. snd (agent_search (demo_service [''search'']) demo_access demo_ctx demo_filled ''C3'' 5) = Inr [d]
     \<and> from_log (corpus demo_filled) demo_access d \<and> item_pack d \<in> read_mounts demo_access"
proof -
  from demo_search obtain rs where rs:
    "snd (agent_search (demo_service [''search'']) demo_access demo_ctx demo_filled ''C3'' 5) = Inr rs" "length rs = 1"
    by (cases "snd (agent_search (demo_service [''search'']) demo_access demo_ctx demo_filled ''C3'' 5)") auto
  from rs(2) obtain d where d: "rs = [d]" by (cases rs) auto
  have "cs_retriever (demo_service [''search'']) = None" by (simp add: demo_service_def)
  with agent_reads_are_scoped [of "demo_service [''search'']" demo_access demo_ctx demo_filled "''C3''" 5] rs(1) d
  show ?thesis by simp
qed


lemma mapped_error_code:
  "err_code (mapped_error e) \<in> {''unauthorized_pack'', ''capability_denied'', ''not_found'', ''invalid_request'',
     ''canonical_store_unavailable'', ''internal_error''}"
  by (simp add: mapped_error_def Let_def)

lemma mapped_error_internal:
  "err_code (mapped_error e) = ''internal_error'' \<Longrightarrow> err_detail (mapped_error e) = ''FOSSIL tool execution failed''"
  by (simp add: mapped_error_def Let_def split: if_split_asm)

lemma mapped_error_class:
  "err_code (mapped_error (Exn PackBoundaryError m)) = ''unauthorized_pack''"
  "err_code (mapped_error (Exn CapabilityError m)) = ''capability_denied''"
  "err_code (mapped_error (Exn AgentProvenanceError m)) = ''invalid_request''"
  "err_code (mapped_error (Exn EventContractError m)) = ''invalid_request''"
  "err_code (mapped_error (Exn EventRedactedError m)) = ''not_found''"
  "err_code (mapped_error (Exn IdempotencyConflict m)) = ''internal_error''"
  by (simp_all add: mapped_error_def exn_isa_def)

text \<open>A request of the typed tools is made of JSON values.\<close>

fun request_wf :: "server_request \<Rightarrow> bool" where
  "request_wf (FossilPropose k p subjects payload occurred recorded key evidence snaps caused correlation provenance) =
     (wf_json (JObj payload) \<and> (case provenance of None \<Rightarrow> True | Some d \<Rightarrow> wf_json (JObj d)))"
| "request_wf (FossilValidate ev) = wf_json (JObj ev)"
| "request_wf (FossilCommit ev) = wf_json (JObj ev)"
| "request_wf _ = True"

lemma server_arguments_wf: "request_wf r \<Longrightarrow> wf_json (JObj (snd (server_arguments r)))"
  by (cases r) (auto simp: given_def split: option.splits)

text \<open>C33. A failed tool call is reported by a fixed code and leaves the log unchanged. When a typed tool
  of the server fails, the error is the translation of the exception the adapter raised, its code is
  one of the six documented ones, the detail of an internal error reveals nothing, and no event was
  added, changed or removed. A pack outside the mounts is reported as \<open>unauthorized_pack\<close>, a missing
  grant as \<open>capability_denied\<close>, foreign provenance as \<open>invalid_request\<close> and a redacted event as
  \<open>not_found\<close>.\<close>

theorem failed_tool_calls_change_nothing:
  assumes "list_all event_op_legal ops" and "corpus w = event_run (cs_config svc) ops" and "request_wf r"
    and "serve svc a ctx w r u = (w', Inl err)"
  shows "corpus w' = corpus w
    \<and> err_code err \<in> {''unauthorized_pack'', ''capability_denied'', ''not_found'', ''invalid_request'',
        ''canonical_store_unavailable'', ''internal_error''}
    \<and> (err_code err = ''internal_error'' \<longrightarrow> err_detail err = ''FOSSIL tool execution failed'')
    \<and> (\<exists>c m. snd (invoke svc a ctx w (fst (server_arguments r)) (snd (server_arguments r)) u) = Inl (Exn c m)
        \<and> (c = PackBoundaryError \<longrightarrow> err_code err = ''unauthorized_pack'')
        \<and> (c = CapabilityError \<longrightarrow> err_code err = ''capability_denied'')
        \<and> (c = AgentProvenanceError \<longrightarrow> err_code err = ''invalid_request'')
        \<and> (c = EventRedactedError \<longrightarrow> err_code err = ''not_found''))"
proof -
  let ?r = "invoke svc a ctx w (fst (server_arguments r)) (snd (server_arguments r)) u"
  from assms(4) obtain e where e: "snd ?r = Inl e" "err = mapped_error e" "w' = fst ?r"
    by (cases ?r; cases "snd ?r") (auto simp: serve_def server_invoke_def)
  have ok: "events_ok (cs_config svc) (corpus w)" using event_run_ok [OF assms(1)] assms(2) by simp
  from invoke_step [OF ok server_arguments_wf [OF assms(3)], of a ctx "fst (server_arguments r)" u] e(1,3)
  have "corpus w' = corpus w" by simp
  moreover obtain c m where "e = Exn c m" by (cases e)
  ultimately show ?thesis using e mapped_error_code [of e] mapped_error_internal [of e] mapped_error_class
    by (intro conjI exI [of _ c] exI [of _ m]) auto
qed

lemma demo_denied: "admit (demo_service [''search'']) demo_access demo_ctx ''commit'' demo_agent_event = Inl (Exn CapabilityError ''skill '')"
  by code_simp

theorem failed_tool_calls_change_nothing_witness:
  "\<exists>err. serve (demo_service [''search'']) demo_access demo_ctx demo_world (FossilCommit demo_agent_event) ''u''
       = (demo_world, Inl err) \<and> err_code err = ''capability_denied''"
proof -
  let ?r = "FossilCommit demo_agent_event"
  have i: "invoke (demo_service [''search'']) demo_access demo_ctx demo_world ''fossil.commit''
      [(''event'', JObj demo_agent_event)] ''u'' = (demo_world, Inl (Exn CapabilityError ''skill ''))"
    by (simp add: invoke_def arg_dict_def agent_commit_def demo_denied)
  then have s: "serve (demo_service [''search'']) demo_access demo_ctx demo_world ?r ''u''
      = (demo_world, Inl (mapped_error (Exn CapabilityError ''skill '')))"
    by (simp add: serve_def server_invoke_def)
  have w: "corpus demo_world = event_run (cs_config (demo_service [''search''])) []"
    by (simp add: demo_world_def demo_service_def)
  have wf: "request_wf ?r"
    by (simp add: demo_agent_event_def durable_actor_def demo_proposal_def)
  from failed_tool_calls_change_nothing [OF _ w wf s] i s show ?thesis by simp
qed

section \<open>Proposals\<close>

lemma update_present: "map_of al k = Some v \<Longrightarrow> AList.update k v al = al"
  by (induction al) auto

text \<open>Preparing a prepared event again changes nothing, whatever random id part is drawn.\<close>

lemma prepare_event_idem:
  assumes "prepare_event cfg ev u = Inr c"
  shows "prepare_event cfg c u' = Inr c"
proof -
  let ?idem = "truthy (dget ev ''pack_id'') \<and> truthy (dget ev ''idempotency_key'')"
  have f: "dget c k = dget ev k" if "k \<noteq> ''event_id''" for k
    using prepare_event_fields [OF assms that] by (simp add: dget_def)
  have env: "cfg_envelope cfg (JObj c)" using assms by (auto simp: prepare_event_def Let_def split: if_split_asm)
  show ?thesis
  proof (cases ?idem)
    case True
    let ?i = "deterministic_event_id (cfg_sha cfg) (py_str (dget ev ''pack_id'')) (py_str (dget ev ''idempotency_key''))"
    have "c = AList.update ''event_id'' (JStr ?i) ev" using assms True
      by (auto simp: prepare_event_def Let_def split: if_split_asm)
    then have m: "map_of c ''event_id'' = Some (JStr ?i)" by simp
    then show ?thesis using True f [of "''pack_id''"] f [of "''idempotency_key''"] env update_present [OF m]
      by (simp add: prepare_event_def Let_def dget_def)
  next
    case False
    have "truthy (dget c ''event_id'')" using assms False
      by (auto simp: prepare_event_def Let_def new_id_def dget_def split: if_split_asm)
    then show ?thesis using False f [of "''pack_id''"] f [of "''idempotency_key''"] env
      by (auto simp: prepare_event_def Let_def)
  qed
qed

lemma proposal_fields:
  "map_of (proposal_event ctx p) ''actor'' = Some (JObj (durable_actor ctx))"
  "map_of (proposal_event ctx p) ''pack_id'' = Some (JStr (pr_pack p))"
  "map_of (proposal_event ctx p) ''idempotency_key'' = Some (JStr (pr_key p))"
  "map_of (proposal_event ctx p) ''event_id'' = None"
  by (simp_all add: proposal_event_def)

text \<open>What a session proposes it can commit: when \<open>propose\<close> returns an event, the event is already in
  prepared form, carries the session's provenance, has the identity its pack and idempotency key
  determine, and under a grant of \<open>commit\<close> no guard of the service refuses it: the call is exactly
  the store's commit of that event.\<close>

lemma proposals_can_be_committed:
  assumes "agent_propose svc a ctx u p = Inr ev" and "skill_grants (cs_skills svc) ctx ''commit''"
  shows "agent_commit svc a ctx w u' ev
      = (w\<lparr>corpus := fst (commit_event (cs_config svc) (corpus w) ev u')\<rparr>,
         snd (commit_event (cs_config svc) (corpus w) ev u'))
    \<and> prepare_event (cs_config svc) ev u' = Inr ev
    \<and> map_of ev ''actor'' = Some (JObj (durable_actor ctx)) \<and> pr_pack p \<in> write_targets a
    \<and> (pr_pack p \<noteq> [] \<and> pr_key p \<noteq> [] \<longrightarrow>
         map_of ev ''event_id'' = Some (JStr (deterministic_event_id (cfg_sha (cs_config svc)) (pr_pack p) (pr_key p))))"
proof -
  from assms(1) have w: "pr_pack p \<in> write_targets a"
    and prep: "prepare_event (cs_config svc) (proposal_event ctx p) u = Inr ev"
    by (auto simp: agent_propose_def)
  have f: "map_of ev ''actor'' = Some (JObj (durable_actor ctx))" "map_of ev ''pack_id'' = Some (JStr (pr_pack p))"
    using prepare_event_fields [OF prep] proposal_fields by simp_all
  have "admit svc a ctx ''commit'' ev = Inr ()" unfolding admit_iff using assms(2) w f by (auto simp: dget_def)
  then have c: "agent_commit svc a ctx w u' ev
      = (w\<lparr>corpus := fst (commit_event (cs_config svc) (corpus w) ev u')\<rparr>, snd (commit_event (cs_config svc) (corpus w) ev u'))"
    by (simp add: agent_commit_def split_beta Let_def)
  have "map_of ev ''event_id'' = Some (JStr (deterministic_event_id (cfg_sha (cs_config svc)) (pr_pack p) (pr_key p)))"
    if "pr_pack p \<noteq> []" "pr_key p \<noteq> []"
    using prep that by (auto simp: prepare_event_def Let_def dget_def proposal_fields)
  then show ?thesis using c w f prepare_event_idem [OF prep] by blast
qed

definition demo_pr :: proposal where
  "demo_pr = \<lparr> pr_type = ''claim.proposed'', pr_pack = ''pack_project_aaaaaaaa'', pr_subjects = [JStr ''c3''],
     pr_payload = [(''claim_text'', JStr ''c3'')], pr_occurred = ''2026-01-01T00:00:00Z'', pr_recorded = ''2026-01-01T00:00:00Z'',
     pr_key = ''k3'', pr_evidence = [], pr_snapshots = [], pr_caused = [], pr_correlation = JNull, pr_provenance = [] \<rparr>"

lemma demo_grants: "skill_grants (cs_skills (demo_service [''commit'', ''propose''])) demo_ctx ''commit''"
  by (simp add: skill_grants_def demo_service_def demo_ctx_def demo_skill_def strs_def py_in_def)

lemma demo_proposed: "is_ok (agent_propose (demo_service [''commit'', ''propose'']) demo_access demo_ctx ''u'' demo_pr)"
  by code_simp

end
