(* ===== verification/Pack_Fixture.thy ===== *)
theory Pack_Fixture
  imports Packset_Lock Source_Store Lifecycle
begin

text \<open>
  The audit of durable pack repositories (\<open>pack_fixture.py\<close>): the readers of a repository's
  artifacts, snapshots and events, the index of owners, the citations, and the audit that composes
  them.

  A pack root is a directory, the file system \<open>disk r\<close> below the root \<open>r\<close>; its paths are the lists of
  components. The four JSON schemas and SHA-256 are the record \<open>fixture_config\<close>. The audit never
  writes, so its definitions are functions of the disk.
\<close>

section \<open>Reading a repository\<close>

record fixture_config =
  fx_sha :: "string \<Rightarrow> string"
  fx_pack :: "json \<Rightarrow> bool"
  fx_event :: "json \<Rightarrow> bool"
  fx_snapshot :: "json \<Rightarrow> bool"
  fx_citation :: "json \<Rightarrow> bool"

record pack_contents =
  pc_root :: string
  pc_manifest :: dict
  pc_access :: pack_access
  pc_artifacts :: "(string \<times> dict) list"
  pc_snapshots :: "(string \<times> dict) list"
  pc_events :: "dict list"

record fixture_audit =
  aud_packs :: "string list"
  aud_artifacts :: nat
  aud_snapshots :: nat
  aud_events :: nat
  aud_citations :: nat
  aud_claims :: nat
  aud_relations :: nat

definition fixture_error :: "string \<Rightarrow> exn" where
  "fixture_error m = Exn PackFixtureIntegrityError m"

text \<open>The components of a relative path, and the files \<open>*/*.json\<close> below a directory in sorted order.\<close>

primrec slash_parts :: "string \<Rightarrow> string \<Rightarrow> string list" where
  "slash_parts part [] = [part]"
| "slash_parts part (c # cs) = (if c = CHR ''/'' then part # slash_parts [] cs else slash_parts (part @ [c]) cs)"

definition path_of :: "string \<Rightarrow> path" where
  "path_of s = filter (\<lambda>p. p \<noteq> [] \<and> p \<noteq> ''.'') (slash_parts [] s)"

definition json_files :: "fs \<Rightarrow> path \<Rightarrow> path list" where
  "json_files d dir =
     sort (filter (\<lambda>p. length p = length dir + 2 \<and> take (length dir) p = dir \<and> ends_with ''.json'' (last p)) (map fst d))"

definition is_dir :: "fs \<Rightarrow> path \<Rightarrow> bool" where
  "is_dir d dir \<longleftrightarrow> list_ex (\<lambda>p. length dir < length p \<and> take (length dir) p = dir) (map fst d)"

definition load_fixture :: "fs \<Rightarrow> path \<Rightarrow> dict res" where
  "load_fixture d p =
     rbind (of_option (fixture_error ''invalid JSON fixture '') (map_of d p)) (\<lambda>bytes.
     rbind (decode_utf8 bytes) (\<lambda>t.
     rbind (of_option (fixture_error ''invalid JSON fixture '') (loads t)) (\<lambda>v.
       case v of JObj m \<Rightarrow> Inr m | _ \<Rightarrow> Inl (fixture_error ''fixture must contain a JSON object: ''))))"

definition validate_schema :: "(json \<Rightarrow> bool) \<Rightarrow> dict \<Rightarrow> unit res" where
  "validate_schema V m = check (V (JObj m)) (fixture_error '' failed schema validation: '')"

section \<open>Artifacts\<close>

definition lower_hex :: "char \<Rightarrow> bool" where
  "lower_hex c \<longleftrightarrow> c \<in> set ''0123456789abcdef''"

definition artifact_manifest_shape :: "dict \<Rightarrow> unit res" where
  "artifact_manifest_shape m =
     rbind (check (set (map fst m) = {''artifact_id'', ''content_hash'', ''byte_size'', ''media_type''})
              (fixture_error '' artifact manifest fields must be exactly '')) (\<lambda>_.
     rbind (check (case dget m ''content_hash'' of JObj h \<Rightarrow> set (map fst h) = {''algorithm'', ''digest''} | _ \<Rightarrow> False)
              (fixture_error '' has invalid content_hash'')) (\<lambda>_.
     rbind (as_dict (dget m ''content_hash'')) (\<lambda>h.
     rbind (check (py_eq (dget h ''algorithm'') (JStr ''sha256'')) (fixture_error '' must use sha256'')) (\<lambda>_.
     let digest = py_str (dget h ''digest'') in
     rbind (check (length digest = 64 \<and> list_all lower_hex digest) (fixture_error '' has invalid sha256 digest'')) (\<lambda>_.
     rbind (check (case dget m ''byte_size'' of JInt i \<Rightarrow> 0 \<le> i | JBool b \<Rightarrow> True | _ \<Rightarrow> False)
              (fixture_error '' has invalid byte_size'')) (\<lambda>_.
       check (case dget m ''media_type'' of JStr s \<Rightarrow> s \<noteq> [] | _ \<Rightarrow> False) (fixture_error '' has invalid media_type'')))))))"

definition item_digest :: "dict \<Rightarrow> string res" where
  "item_digest m = rbind (dindex m ''content_hash'') (\<lambda>h. rbind (index h ''digest'') (\<lambda>g. Inr (py_str g)))"

definition fixture_blob_path :: "string \<Rightarrow> path" where
  "fixture_blob_path digest = [''artifacts'', ''blobs'', ''sha256'', take 2 digest, digest]"

definition read_artifact :: "fixture_config \<Rightarrow> fs \<Rightarrow> (string \<times> dict) list \<Rightarrow> path \<Rightarrow> (string \<times> dict) list res" where
  "read_artifact cfg d found p =
     rbind (load_fixture d p) (\<lambda>item.
     let a = py_str (dget_or item ''artifact_id'' (JStr [])) in
     rbind (artifact_manifest_shape item) (\<lambda>_.
     rbind (item_digest item) (\<lambda>digest.
     rbind (check (a = artifact_id_for_digest digest) (fixture_error ''artifact identity mismatch in '')) (\<lambda>_.
     rbind (check (p = [''artifacts'', ''manifests''] @ manifest_path a)
              (fixture_error ''artifact manifest path does not match stable identity: '')) (\<lambda>_.
     rbind (of_option (fixture_error ''artifact blob is missing: '') (map_of d (fixture_blob_path digest))) (\<lambda>data.
     rbind (check (fx_sha cfg data = digest) (fixture_error ''artifact hash mismatch for '')) (\<lambda>_.
     rbind (rbind (dindex item ''byte_size'') py_int) (\<lambda>size.
     rbind (check (int (length data) = size) (fixture_error ''artifact byte_size mismatch for '')) (\<lambda>_.
     rbind (check (map_of found a = None) (fixture_error ''duplicate artifact manifest: '')) (\<lambda>_.
       Inr (AList.update a item found)))))))))))"

definition read_index_line :: "(string \<times> dict) list \<Rightarrow> string \<Rightarrow> (string \<times> dict) list res" where
  "read_index_line indexed line =
     (if strip line = [] then Inr indexed
      else rbind (of_option (fixture_error ''invalid artifact manifest JSONL at '') (loads line)) (\<lambda>v.
        rbind (case v of JObj m \<Rightarrow> Inr m
               | _ \<Rightarrow> Inl (fixture_error ''artifact manifest JSONL entry must be an object at '')) (\<lambda>item.
        rbind (artifact_manifest_shape item) (\<lambda>_.
        rbind (dindex item ''artifact_id'') (\<lambda>iv.
        rbind (check (map_of indexed (py_str iv) = None) (fixture_error ''duplicate artifact index entry: '')) (\<lambda>_.
          Inr (AList.update (py_str iv) item indexed)))))))"

definition read_index :: "fs \<Rightarrow> (string \<times> dict) list \<Rightarrow> json \<Rightarrow> (string \<times> dict) list res" where
  "read_index d indexed relative =
     rbind (of_option (fixture_error ''artifact manifest index is missing: '') (map_of d (path_of (py_str relative)))) (\<lambda>bytes.
     rbind (decode_utf8 bytes) (\<lambda>t. rfold read_index_line indexed (splitlines t)))"

definition table :: "(string \<times> dict) list \<Rightarrow> json" where
  "table ms = JObj (map (\<lambda>(k, m). (k, JObj m)) ms)"

definition read_artifacts :: "fixture_config \<Rightarrow> fs \<Rightarrow> dict \<Rightarrow> (string \<times> dict) list res" where
  "read_artifacts cfg d manifest =
     rbind (rfold (read_artifact cfg d) [] (json_files d [''artifacts'', ''manifests''])) (\<lambda>discovered.
     rbind (py_iter (dget_or manifest ''artifact_manifests'' (JArr []))) (\<lambda>relatives.
     rbind (rfold (read_index d) [] relatives) (\<lambda>indexed.
     rbind (check (py_eq (table indexed) (table discovered))
              (fixture_error ''artifact manifest index does not match immutable manifests (missing='')) (\<lambda>_.
       Inr discovered))))"

section \<open>Snapshots\<close>

definition as_mapping :: "json \<Rightarrow> dict res" where
  "as_mapping v = (case v of JObj d \<Rightarrow> Inr d | _ \<Rightarrow> Inl (Exn AttributeError ''get''))"

lemma as_mapping_Inr_iff [simp, res_simps]: "as_mapping v = Inr d \<longleftrightarrow> v = JObj d"
  by (cases v) (simp_all add: as_mapping_def)

definition derivation_ok :: "string \<Rightarrow> json \<Rightarrow> bool" where
  "derivation_ok role derivation \<longleftrightarrow>
     (if role \<in> {''derived'', ''reconstructed''}
      then (case derivation of JObj d \<Rightarrow> truthy (dget d ''parent_snapshot_refs'') | _ \<Rightarrow> False)
      else derivation = JNull)"

definition snapshot_identity :: "(string \<Rightarrow> string) \<Rightarrow> dict \<Rightarrow> string res" where
  "snapshot_identity sha snapshot =
     rbind (rbind (dindex snapshot ''version_metadata'') as_dict) (\<lambda>metadata.
     rbind (dindex snapshot ''source_id'') (\<lambda>source_id.
     rbind (item_digest snapshot) (\<lambda>digest.
     rbind (dindex snapshot ''retrieved_at'') (\<lambda>retrieved_at.
       Inr (stable_id sha ''snap''
         [py_str source_id, digest, py_str retrieved_at, ascii_dumps (JObj (merged_version (Some metadata)))] 24)))))"

definition read_snapshot ::
  "fixture_config \<Rightarrow> fs \<Rightarrow> (string \<times> dict) list \<Rightarrow> (string \<times> dict) list \<Rightarrow> path \<Rightarrow> (string \<times> dict) list res" where
  "read_snapshot cfg d artifacts found p =
     rbind (load_fixture d p) (\<lambda>snapshot.
     rbind (validate_schema (fx_snapshot cfg) snapshot) (\<lambda>_.
     rbind (dindex snapshot ''snapshot_id'') (\<lambda>iv. let i = py_str iv in
     rbind (check (p = [''sources'', ''snapshots''] @ snapshot_path i)
              (fixture_error ''source snapshot path does not match stable identity: '')) (\<lambda>_.
     rbind (dindex snapshot ''locator'') (\<lambda>lv.
     rbind (as_mapping lv) (\<lambda>locator.
     rbind (source_id_for_locator (fx_sha cfg) locator) (\<lambda>source_id.
     rbind (dindex snapshot ''source_id'') (\<lambda>sv.
     rbind (check (py_eq sv (JStr source_id)) (fixture_error ''source_id does not match locator for '')) (\<lambda>_.
     rbind (dindex snapshot ''artifact_id'') (\<lambda>av.
     rbind (of_option (fixture_error ''source snapshot '') (map_of artifacts (py_str av))) (\<lambda>artifact.
     rbind (dindex snapshot ''content_hash'') (\<lambda>sh. rbind (dindex artifact ''content_hash'') (\<lambda>ah.
     rbind (check (py_eq sh ah) (fixture_error ''source snapshot content hash disagrees with artifact '')) (\<lambda>_.
     rbind (snapshot_identity (fx_sha cfg) snapshot) (\<lambda>expected.
     rbind (check (i = expected) (fixture_error ''snapshot_id does not match immutable snapshot identity: '')) (\<lambda>_.
     rbind (dindex snapshot ''source_role'') (\<lambda>rv. rbind (dindex snapshot ''derivation'') (\<lambda>derivation.
     rbind (check (derivation_ok (py_str rv) derivation)
              (fixture_error (if py_str rv \<in> {''derived'', ''reconstructed''} then [] else ''non-derived snapshot must not claim derivation: ''))) (\<lambda>_.
     rbind (check (map_of found i = None) (fixture_error ''duplicate source snapshot: '')) (\<lambda>_.
       Inr (AList.update i snapshot found)))))))))))))))))))))"

definition read_snapshots :: "fixture_config \<Rightarrow> fs \<Rightarrow> (string \<times> dict) list \<Rightarrow> (string \<times> dict) list res" where
  "read_snapshots cfg d artifacts = rfold (read_snapshot cfg d artifacts) [] (json_files d [''sources'', ''snapshots''])"

section \<open>Events\<close>

text \<open>The events read so far carry their ids, which are the set \<open>seen\<close> of the source.\<close>

definition read_event ::
  "fixture_config \<Rightarrow> fs \<Rightarrow> string \<Rightarrow> pack_access \<Rightarrow> path \<Rightarrow> (string \<times> dict) list \<Rightarrow> path \<Rightarrow> (string \<times> dict) list res" where
  "read_event cfg d pack_id a root seen p =
     rbind (load_fixture d p) (\<lambda>event.
     rbind (validate_schema (fx_event cfg) event) (\<lambda>_.
     rbind (dindex event ''event_id'') (\<lambda>iv. let i = py_str iv in
     rbind (check (map_of seen i = None) (fixture_error ''duplicate event_id in pack: '')) (\<lambda>_.
     rbind (dindex event ''pack_id'') (\<lambda>pv.
     rbind (check (py_eq pv (JStr pack_id)) (fixture_error ''event '')) (\<lambda>_.
     rbind (check (is_ok (require_write a pack_id)) (fixture_error ''pack '')) (\<lambda>_.
     let idem = dget event ''idempotency_key'' in
     rbind (check (truthy idem \<longrightarrow> i = deterministic_event_id (fx_sha cfg) pack_id (py_str idem))
              (fixture_error ''event_id does not match deterministic idempotency identity: '')) (\<lambda>_.
     rbind (check (p = root @ event_path i) (fixture_error ''event path does not match stable identity: '')) (\<lambda>_.
       Inr (seen @ [(i, event)]))))))))))"

definition read_event_root ::
  "fixture_config \<Rightarrow> fs \<Rightarrow> string \<Rightarrow> pack_access \<Rightarrow> (string \<times> dict) list \<Rightarrow> json \<Rightarrow> (string \<times> dict) list res" where
  "read_event_root cfg d pack_id a seen relative =
     (let root = path_of (py_str relative) in
      rbind (check (is_dir d root) (fixture_error ''event root is missing: '')) (\<lambda>_.
        rfold (read_event cfg d pack_id a root) seen (json_files d root)))"

definition read_events :: "fixture_config \<Rightarrow> fs \<Rightarrow> dict \<Rightarrow> dict list res" where
  "read_events cfg d manifest =
     rbind (dindex manifest ''pack_id'') (\<lambda>pv.
     rbind (from_manifest manifest) (\<lambda>a.
     rbind (rbind (dindex manifest ''event_roots'') py_iter) (\<lambda>relatives.
     rbind (rfold (read_event_root cfg d (py_str pv) a) [] relatives) (\<lambda>seen.
       Inr (map snd seen)))))"

section \<open>Owners\<close>

text \<open>An index maps an identity to the set of packs that hold it.\<close>

type_synonym owner_index = "(string \<times> string list) list"

definition owners_of :: "owner_index \<Rightarrow> string \<Rightarrow> string list" where
  "owners_of idx i = (case map_of idx i of None \<Rightarrow> [] | Some ps \<Rightarrow> ps)"

definition add_owner :: "string \<Rightarrow> owner_index \<Rightarrow> string \<Rightarrow> owner_index" where
  "add_owner pack idx i = AList.update i (if pack \<in> set (owners_of idx i) then owners_of idx i else owners_of idx i @ [pack]) idx"

record owners =
  own_artifacts :: owner_index
  own_snapshots :: owner_index
  own_events :: owner_index
  own_claims :: owner_index
  own_relations :: owner_index

definition no_owners :: owners where
  "no_owners = \<lparr> own_artifacts = [], own_snapshots = [], own_events = [], own_claims = [], own_relations = [] \<rparr>"

definition register_event :: "string \<Rightarrow> owners \<Rightarrow> dict \<Rightarrow> owners res" where
  "register_event pack idx event =
     rbind (dindex event ''event_id'') (\<lambda>iv.
     rbind (dindex event ''event_type'') (\<lambda>kind.
     rbind (if py_eq kind (JStr ''claim.proposed'')
            then rbind (dindex event ''subject_refs'') (\<lambda>rs. rbind (first_item rs) (\<lambda>c. Inr [py_str c])) else Inr []) (\<lambda>cs.
     rbind (if py_eq kind (JStr ''relation.proposed'')
            then rbind (dindex event ''payload'') (\<lambda>pl. rbind (index pl ''relation_id'') (\<lambda>r. Inr [py_str r])) else Inr []) (\<lambda>rs.
       Inr (idx\<lparr>own_events := add_owner pack (own_events idx) (py_str iv),
                own_claims := foldl (add_owner pack) (own_claims idx) cs,
                own_relations := foldl (add_owner pack) (own_relations idx) rs\<rparr>)))))"

definition register_pack :: "owners \<Rightarrow> string \<times> pack_contents \<Rightarrow> owners res" where
  "register_pack idx entry =
     (case entry of (pack, contents) \<Rightarrow>
        rfold (register_event pack)
          (idx\<lparr>own_artifacts := foldl (add_owner pack) (own_artifacts idx) (map fst (pc_artifacts contents)),
               own_snapshots := foldl (add_owner pack) (own_snapshots idx) (map fst (pc_snapshots contents))\<rparr>)
          (pc_events contents))"

definition unique_owners :: "owner_index \<Rightarrow> bool" where
  "unique_owners idx \<longleftrightarrow> list_all (\<lambda>(i, ps). length ps \<le> 1) idx"

definition readable_owner :: "pack_access \<Rightarrow> owner_index \<Rightarrow> string \<Rightarrow> string res" where
  "readable_owner a idx i =
     rbind (check (owners_of idx i \<noteq> []) (fixture_error ''unknown '')) (\<lambda>_.
       case sort (filter (\<lambda>p. p \<in> read_mounts a) (owners_of idx i)) of
         [] \<Rightarrow> Inl (fixture_error [])
       | p # _ \<Rightarrow> Inr p)"

section \<open>Citations\<close>

definition int_value :: "json \<Rightarrow> int option" where
  "int_value v = (case v of JInt i \<Rightarrow> Some i | JBool b \<Rightarrow> Some (if b then 1 else 0) | _ \<Rightarrow> None)"

text \<open>The cited bytes and the passage part of the citation's identity.\<close>

definition cited_bytes :: "(string \<Rightarrow> string) \<Rightarrow> string \<Rightarrow> json \<Rightarrow> json \<Rightarrow> json \<Rightarrow> (string \<times> string) res" where
  "cited_bytes sha data start end_value passage_hash =
     rbind (check ((start = JNull) = (end_value = JNull)) (fixture_error ''citation span must provide both endpoints: '')) (\<lambda>_.
     if start = JNull
     then rbind (check (passage_hash = JNull) (fixture_error ''whole-artifact citation must not include passage_hash: '')) (\<lambda>_.
            Inr (data, ''whole-artifact''))
     else (case (int_value start, int_value end_value) of
         (Some a, Some b) \<Rightarrow>
           rbind (check (0 \<le> a \<and> a < b \<and> b \<le> int (length data))
                    (fixture_error ''citation span is outside source artifact bounds: '')) (\<lambda>_.
           let passage = py_slice data a b in
           rbind (check (case passage_hash of JObj h \<Rightarrow> py_eq (dget h ''digest'') (JStr (sha passage)) | _ \<Rightarrow> False)
                    (fixture_error ''citation passage hash does not match source bytes: '')) (\<lambda>_.
             Inr (passage, sha passage)))
       | _ \<Rightarrow> Inl (fixture_error ''citation span is outside source artifact bounds: '')))"

definition citation_bytes ::
  "fixture_config \<Rightarrow> (string \<Rightarrow> fs) \<Rightarrow> pack_access \<Rightarrow> (string \<times> pack_contents) list \<Rightarrow> owner_index \<Rightarrow> dict \<Rightarrow> string res" where
  "citation_bytes cfg disk a packs snapshot_owners citation =
     rbind (validate_schema (fx_citation cfg) citation) (\<lambda>_.
     rbind (dindex citation ''snapshot_id'') (\<lambda>sv. let i = py_str sv in
     rbind (readable_owner a snapshot_owners i) (\<lambda>owner.
     rbind (of_option (Exn KeyError owner) (map_of packs owner)) (\<lambda>pack.
     rbind (of_option (Exn KeyError i) (map_of (pc_snapshots pack) i)) (\<lambda>snapshot.
     rbind (dindex snapshot ''artifact_id'') (\<lambda>sa. rbind (dindex citation ''artifact_id'') (\<lambda>ca.
     rbind (check (py_eq sa ca) (fixture_error ''citation artifact does not match source snapshot: '')) (\<lambda>_.
     rbind (of_option (Exn KeyError (py_str ca)) (map_of (pc_artifacts pack) (py_str ca))) (\<lambda>artifact.
     rbind (item_digest artifact) (\<lambda>digest.
     rbind (read_file (disk (pc_root pack)) (fixture_blob_path digest)) (\<lambda>data.
     rbind (dindex citation ''byte_start'') (\<lambda>start. rbind (dindex citation ''byte_end'') (\<lambda>end_value.
     rbind (dindex citation ''passage_hash'') (\<lambda>ph.
     rbind (cited_bytes (fx_sha cfg) data start end_value ph) (\<lambda>(passage, passage_digest).
     rbind (dindex citation ''citation_id'') (\<lambda>cv.
     rbind (check (py_eq cv (JStr (stable_id (fx_sha cfg) ''cite''
                [i, py_str ca, py_str start, py_str end_value, passage_digest] 24)))
              (fixture_error ''citation_id does not match immutable citation identity: '')) (\<lambda>_.
       Inr passage)))))))))))))))))"

section \<open>The audit\<close>

definition readable_refs :: "pack_access \<Rightarrow> owner_index \<Rightarrow> json list \<Rightarrow> unit res" where
  "readable_refs a idx refs = each (\<lambda>r. rbind (readable_owner a idx (py_str r)) (\<lambda>_. Inr ())) refs"

definition check_parents :: "pack_access \<Rightarrow> owner_index \<Rightarrow> dict \<Rightarrow> unit res" where
  "check_parents a idx snapshot =
     (case dget snapshot ''derivation'' of
        JObj d \<Rightarrow> rbind (py_iter (dget_or d ''parent_snapshot_refs'' (JArr []))) (readable_refs a idx)
      | _ \<Rightarrow> Inr ())"

definition event_citation :: "dict \<Rightarrow> json res" where
  "event_citation event = get_attr (dget_or event ''payload'' (JObj [])) ''citation'' JNull"

definition check_endpoint :: "pack_access \<Rightarrow> owner_index \<Rightarrow> dict \<Rightarrow> string \<Rightarrow> unit res" where
  "check_endpoint a idx event side =
     rbind (dindex event ''payload'') (\<lambda>pl. rbind (index pl side) (\<lambda>rv.
       if starts_with ''clm_'' (py_str rv) then rbind (readable_owner a idx (py_str rv)) (\<lambda>_. Inr ()) else Inr ()))"

text \<open>The checks of one event; the result is the number of its citations.\<close>

definition check_event ::
  "fixture_config \<Rightarrow> (string \<Rightarrow> fs) \<Rightarrow> (string \<times> pack_contents) list \<Rightarrow> owners \<Rightarrow> pack_access \<Rightarrow> dict \<Rightarrow> nat res" where
  "check_event cfg disk packs idx a event =
     rbind (rbind (py_iter (dget_or event ''evidence_refs'' (JArr []))) (readable_refs a (own_artifacts idx))) (\<lambda>_.
     rbind (rbind (py_iter (dget_or event ''source_snapshot_refs'' (JArr []))) (readable_refs a (own_snapshots idx))) (\<lambda>_.
     rbind (rbind (py_iter (dget_or event ''caused_by_event_ids'' (JArr []))) (readable_refs a (own_events idx))) (\<lambda>_.
     rbind (event_citation event) (\<lambda>cv.
     rbind (case cv of
              JObj citation \<Rightarrow> rbind (citation_bytes cfg disk a packs (own_snapshots idx) citation) (\<lambda>_. Inr (1 :: nat))
            | _ \<Rightarrow> Inr 0) (\<lambda>n.
     rbind (dindex event ''event_type'') (\<lambda>kind.
     rbind (if py_eq kind (JStr ''relation.proposed'')
            then each (check_endpoint a (own_claims idx) event) [''source_ref'', ''target_ref''] else Inr ()) (\<lambda>_.
       Inr n)))))))"

text \<open>\<open>sorted(events, key=(recorded_at, event_id))\<close>.\<close>

definition event_key :: "dict \<Rightarrow> string list res" where
  "event_key event =
     rbind (dindex event ''recorded_at'') (\<lambda>t. rbind (dindex event ''event_id'') (\<lambda>i. Inr [py_str t, py_str i]))"

definition sort_events :: "dict list \<Rightarrow> dict list res" where
  "sort_events evs = rbind (rmap (\<lambda>e. rbind (event_key e) (\<lambda>k. Inr (k, e))) evs) (\<lambda>keyed. Inr (map snd (sort_key fst keyed)))"

text \<open>\<open>except (classes) as exc: raise PackFixtureIntegrityError(m)\<close>.\<close>

definition refail :: "exn_class list \<Rightarrow> string \<Rightarrow> 'a res \<Rightarrow> 'a res" where
  "refail classes m r =
     (case r of Inr x \<Rightarrow> Inr x
      | Inl e \<Rightarrow> if list_ex (exn_isa (exn_class e)) classes then Inl (fixture_error m) else Inl e)"

lemma refail_Inr_iff [simp, res_simps]: "refail classes m r = Inr x \<longleftrightarrow> r = Inr x"
  by (cases r) (simp_all add: refail_def)

definition audit_pack ::
  "fixture_config \<Rightarrow> (string \<Rightarrow> fs) \<Rightarrow> (string \<times> pack_contents) list \<Rightarrow> owners \<Rightarrow> string \<times> pack_contents \<Rightarrow> nat res" where
  "audit_pack cfg disk packs idx entry =
     (let pack = snd entry in
      rbind (each (\<lambda>(_, s). check_parents (pc_access pack) (own_snapshots idx) s) (pc_snapshots pack)) (\<lambda>_.
      rbind (rmap (check_event cfg disk packs idx (pc_access pack)) (pc_events pack)) (\<lambda>ns.
      rbind (sort_events (pc_events pack)) (\<lambda>ordered.
      rbind (refail [KeyError, ValueError] ''lifecycle replay failed for pack '' (replay ordered)) (\<lambda>_.
        Inr (sum_list ns))))))"

definition load_manifests_of :: "(string \<Rightarrow> fs) \<Rightarrow> string list \<Rightarrow> (string \<times> dict) list res" where
  "load_manifests_of disk roots =
     rfold (\<lambda>m r. rbind (load_fixture (disk r) [''manifest.json'']) (\<lambda>v. Inr (AList.update r v m))) [] roots"

definition read_pack :: "fixture_config \<Rightarrow> (string \<Rightarrow> fs) \<Rightarrow> (string \<times> string) list \<Rightarrow> string \<times> dict \<Rightarrow> (string \<times> pack_contents) res" where
  "read_pack cfg disk root_by_pack entry =
     (case entry of (pack_id, manifest) \<Rightarrow>
      rbind (of_option (Exn KeyError pack_id) (map_of root_by_pack pack_id)) (\<lambda>root.
      rbind (read_artifacts cfg (disk root) manifest) (\<lambda>artifacts.
      rbind (read_snapshots cfg (disk root) artifacts) (\<lambda>snaps.
      rbind (read_events cfg (disk root) manifest) (\<lambda>evs.
      rbind (from_manifest manifest) (\<lambda>a.
        Inr (pack_id, \<lparr> pc_root = root, pc_manifest = manifest, pc_access = a, pc_artifacts = artifacts,
                        pc_snapshots = snaps, pc_events = evs \<rparr>)))))))"

definition read_packs :: "fixture_config \<Rightarrow> (string \<Rightarrow> fs) \<Rightarrow> string list \<Rightarrow> (string \<times> pack_contents) list res" where
  "read_packs cfg disk roots =
     rbind (check (roots \<noteq> []) (fixture_error ''at least one pack root is required'')) (\<lambda>_.
     rbind (load_manifests_of disk roots) (\<lambda>manifest_by_root.
     rbind (refail [ValidationError, PackBoundaryError] ''knowledge-pack manifest set is invalid: ''
              (validate_set (fx_pack cfg) (map snd manifest_by_root))) (\<lambda>manifests.
     rbind (rfold (\<lambda>m (r, manifest). rbind (dindex manifest ''pack_id'') (\<lambda>p. Inr (AList.update (py_str p) r m)))
              [] manifest_by_root) (\<lambda>root_by_pack.
     rbind (check (set (map fst root_by_pack) = set (map fst manifests))
              (fixture_error ''pack roots must have unique pack IDs'')) (\<lambda>_.
       rmap (read_pack cfg disk root_by_pack) manifests)))))"

definition audit_packs ::
  "fixture_config \<Rightarrow> (string \<Rightarrow> fs) \<Rightarrow> (string \<times> pack_contents) list \<Rightarrow> fixture_audit res" where
  "audit_packs cfg disk packs =
     rbind (rfold register_pack no_owners packs) (\<lambda>idx.
     rbind (each (\<lambda>i. check (unique_owners i) (fixture_error ''globally duplicate ''))
              [own_events idx, own_claims idx, own_relations idx]) (\<lambda>_.
     rbind (rmap (audit_pack cfg disk packs idx) packs) (\<lambda>ns.
       Inr \<lparr> aud_packs = sorted_set (set (map fst packs)),
             aud_artifacts = sum_list (map (\<lambda>(_, p). length (pc_artifacts p)) packs),
             aud_snapshots = sum_list (map (\<lambda>(_, p). length (pc_snapshots p)) packs),
             aud_events = sum_list (map (\<lambda>(_, p). length (pc_events p)) packs),
             aud_citations = sum_list ns,
             aud_claims = length (own_claims idx), aud_relations = length (own_relations idx) \<rparr>)))"

definition validate_pack_fixtures ::
  "fixture_config \<Rightarrow> (string \<Rightarrow> fs) \<Rightarrow> string list \<Rightarrow> fixture_audit res" where
  "validate_pack_fixtures cfg disk roots = rbind (read_packs cfg disk roots) (audit_packs cfg disk)"

section \<open>What the readers establish\<close>

definition artifact_intact :: "fixture_config \<Rightarrow> fs \<Rightarrow> string \<Rightarrow> dict \<Rightarrow> bool" where
  "artifact_intact cfg d a m \<longleftrightarrow>
     (\<exists>digest data. item_digest m = Inr digest \<and> a = artifact_id_for_digest digest
        \<and> map_of d (fixture_blob_path digest) = Some data \<and> fx_sha cfg data = digest
        \<and> rbind (dindex m ''byte_size'') py_int = Inr (int (length data)))"

definition artifacts_intact :: "fixture_config \<Rightarrow> fs \<Rightarrow> (string \<times> dict) list \<Rightarrow> bool" where
  "artifacts_intact cfg d ms \<longleftrightarrow> (\<forall>a m. map_of ms a = Some m \<longrightarrow> artifact_intact cfg d a m)"

lemma read_artifact_intact:
  assumes "read_artifact cfg d found p = Inr found'" and "artifacts_intact cfg d found"
  shows "artifacts_intact cfg d found'"
proof -
  from assms(1) obtain a item digest data where "item_digest item = Inr digest" "a = artifact_id_for_digest digest"
    "map_of d (fixture_blob_path digest) = Some data" "fx_sha cfg data = digest"
    "rbind (dindex item ''byte_size'') py_int = Inr (int (length data))" "found' = AList.update a item found"
    by (auto simp: read_artifact_def Let_def)
  then have "artifact_intact cfg d a item" "found' = AList.update a item found"
    unfolding artifact_intact_def by blast+
  then show ?thesis using assms(2) by (auto simp: artifacts_intact_def)
qed

lemma read_artifacts_intact: "read_artifacts cfg d m = Inr arts \<Longrightarrow> artifacts_intact cfg d arts"
  by (auto simp: read_artifacts_def simp del: py_eq_def elim!: rfold_invariant [where P = "artifacts_intact cfg d"]
      intro: read_artifact_intact) (simp add: artifacts_intact_def)

definition snapshot_intact :: "fixture_config \<Rightarrow> (string \<times> dict) list \<Rightarrow> string \<Rightarrow> dict \<Rightarrow> bool" where
  "snapshot_intact cfg arts i s \<longleftrightarrow>
     fx_snapshot cfg (JObj s) \<and> snapshot_identity (fx_sha cfg) s = Inr i
     \<and> (\<exists>a m. map_of s ''artifact_id'' = Some a \<and> map_of arts (py_str a) = Some m
          \<and> py_eq (dget s ''content_hash'') (dget m ''content_hash''))
     \<and> (\<exists>l. map_of s ''locator'' = Some (JObj l) \<and> rbind (source_id_for_locator (fx_sha cfg) l) (\<lambda>k. Inr (JStr k)) = dindex s ''source_id'')
     \<and> derivation_ok (py_str (dget s ''source_role'')) (dget s ''derivation'')"

definition snapshots_intact :: "fixture_config \<Rightarrow> (string \<times> dict) list \<Rightarrow> (string \<times> dict) list \<Rightarrow> bool" where
  "snapshots_intact cfg arts ss \<longleftrightarrow> (\<forall>i s. map_of ss i = Some s \<longrightarrow> snapshot_intact cfg arts i s)"

lemma read_snapshot_Inr:
  assumes "read_snapshot cfg d arts found p = Inr found'"
  obtains i s where "snapshot_intact cfg arts i s" "found' = AList.update i s found" "map_of found i = None"
proof -
  from assms obtain s iv l k av m sh ah rv dv where s:
    "fx_snapshot cfg (JObj s)" "map_of s ''locator'' = Some (JObj l)" "source_id_for_locator (fx_sha cfg) l = Inr k"
    "map_of s ''source_id'' = Some (JStr k)" "map_of s ''artifact_id'' = Some av" "map_of arts (py_str av) = Some m"
    "map_of s ''content_hash'' = Some sh" "map_of m ''content_hash'' = Some ah" "py_eq sh ah"
    "snapshot_identity (fx_sha cfg) s = Inr (py_str iv)" "map_of s ''source_role'' = Some rv"
    "map_of s ''derivation'' = Some dv" "derivation_ok (py_str rv) dv" "map_of found (py_str iv) = None"
    "found' = AList.update (py_str iv) s found"
    by (auto simp: read_snapshot_def Let_def validate_schema_def split: json.split_asm)
  then have "snapshot_intact cfg arts (py_str iv) s"
    by (simp add: snapshot_intact_def dget_def dindex_def)
  with s show ?thesis by (intro that)
qed

lemma read_snapshots_intact:
  assumes "read_snapshots cfg d arts = Inr ss"
  shows "snapshots_intact cfg arts ss"
  using assms unfolding read_snapshots_def
proof (rule rfold_invariant [where P = "snapshots_intact cfg arts"])
  show "snapshots_intact cfg arts []" by (simp add: snapshots_intact_def)
next
  fix found p found'
  assume "snapshots_intact cfg arts found" and "read_snapshot cfg d arts found p = Inr found'"
  then show "snapshots_intact cfg arts found'" by (elim read_snapshot_Inr) (auto simp: snapshots_intact_def)
qed

definition event_intact :: "fixture_config \<Rightarrow> string \<Rightarrow> pack_access \<Rightarrow> dict \<Rightarrow> bool" where
  "event_intact cfg pack_id a e \<longleftrightarrow>
     fx_event cfg (JObj e) \<and> map_of e ''pack_id'' = Some (JStr pack_id) \<and> pack_id \<in> write_targets a
     \<and> (\<exists>iv. map_of e ''event_id'' = Some iv \<and> (truthy (dget e ''idempotency_key'') \<longrightarrow>
          py_str iv = deterministic_event_id (fx_sha cfg) pack_id (py_str (dget e ''idempotency_key''))))"

definition event_name :: "dict \<Rightarrow> string" where
  "event_name e = py_str (dget e ''event_id'')"

definition seen_ok :: "fixture_config \<Rightarrow> string \<Rightarrow> pack_access \<Rightarrow> (string \<times> dict) list \<Rightarrow> bool" where
  "seen_ok cfg pack_id a seen \<longleftrightarrow> distinct (map fst seen)
     \<and> (\<forall>(i, e) \<in> set seen. i = event_name e \<and> event_intact cfg pack_id a e)"

lemma read_event_ok:
  assumes "read_event cfg d pack_id a root seen p = Inr seen'" and "seen_ok cfg pack_id a seen"
  shows "seen_ok cfg pack_id a seen'"
proof -
  from assms(1) obtain e iv where e: "fx_event cfg (JObj e)" "map_of e ''event_id'' = Some iv" "map_of seen (py_str iv) = None"
    "map_of e ''pack_id'' = Some (JStr pack_id)" "pack_id \<in> write_targets a"
    "truthy (dget e ''idempotency_key'') \<longrightarrow> py_str iv = deterministic_event_id (fx_sha cfg) pack_id (py_str (dget e ''idempotency_key''))"
    "seen' = seen @ [(py_str iv, e)]"
    by (auto simp: read_event_def Let_def validate_schema_def is_ok_iff)
  then have "event_intact cfg pack_id a e" "py_str iv = event_name e"
    by (auto simp: event_intact_def event_name_def dget_def)
  then show ?thesis using assms(2) e(3,7) by (auto simp: seen_ok_def map_of_eq_None_set)
qed

lemma read_event_root_ok:
  "read_event_root cfg d pack_id a seen rel = Inr seen' \<Longrightarrow> seen_ok cfg pack_id a seen \<Longrightarrow> seen_ok cfg pack_id a seen'"
  by (auto simp: read_event_root_def Let_def elim!: rfold_invariant [where P = "seen_ok cfg pack_id a"] intro: read_event_ok)

lemma read_events_ok:
  assumes "read_events cfg d m = Inr evs" and "from_manifest m = Inr a" and "map_of m ''pack_id'' = Some pv"
  shows "distinct (map event_name evs) \<and> (\<forall>e \<in> set evs. event_intact cfg (py_str pv) a e)"
proof -
  from assms obtain rels seen where seen: "rfold (read_event_root cfg d (py_str pv) a) [] rels = Inr seen" "evs = map snd seen"
    by (auto simp: read_events_def)
  from seen(1) have ok: "seen_ok cfg (py_str pv) a seen"
    by (rule rfold_invariant [where P = "seen_ok cfg (py_str pv) a"]) (simp add: seen_ok_def, rule read_event_root_ok)
  have "map event_name (map snd seen) = map fst seen" using ok unfolding seen_ok_def map_map by (intro map_cong) auto
  then have "distinct (map event_name evs)" using ok unfolding seen(2) seen_ok_def by metis
  moreover have "\<forall>e \<in> set evs. event_intact cfg (py_str pv) a e" using ok unfolding seen(2) seen_ok_def by auto
  ultimately show ?thesis by blast
qed

definition pack_intact :: "fixture_config \<Rightarrow> (string \<Rightarrow> fs) \<Rightarrow> string \<Rightarrow> pack_contents \<Rightarrow> bool" where
  "pack_intact cfg disk i pc \<longleftrightarrow>
     artifacts_intact cfg (disk (pc_root pc)) (pc_artifacts pc) \<and> snapshots_intact cfg (pc_artifacts pc) (pc_snapshots pc)
     \<and> distinct (map event_name (pc_events pc)) \<and> (\<forall>e \<in> set (pc_events pc). event_intact cfg i (pc_access pc) e)
     \<and> map_of (pc_manifest pc) ''pack_id'' = Some (JStr i) \<and> from_manifest (pc_manifest pc) = Inr (pc_access pc)
     \<and> load_fixture (disk (pc_root pc)) [''manifest.json''] = Inr (pc_manifest pc)
     \<and> read_events cfg (disk (pc_root pc)) (pc_manifest pc) = Inr (pc_events pc)"

lemma read_pack_intact:
  assumes "read_pack cfg disk rbp (i, m) = Inr (j, pc)" and "map_of m ''pack_id'' = Some (JStr i)"
    and "\<And>r. map_of rbp i = Some r \<Longrightarrow> load_fixture (disk r) [''manifest.json''] = Inr m"
  shows "j = i \<and> pack_intact cfg disk i pc \<and> map_of rbp i = Some (pc_root pc)"
proof -
  from assms(1) have pc: "j = i" "map_of rbp i = Some (pc_root pc)" "pc_manifest pc = m"
    "read_artifacts cfg (disk (pc_root pc)) m = Inr (pc_artifacts pc)"
    "read_snapshots cfg (disk (pc_root pc)) (pc_artifacts pc) = Inr (pc_snapshots pc)"
    "read_events cfg (disk (pc_root pc)) m = Inr (pc_events pc)" "from_manifest m = Inr (pc_access pc)"
    by (auto simp: read_pack_def)
  show ?thesis unfolding pack_intact_def
    using pc assms(2,3) read_artifacts_intact [OF pc(4)] read_snapshots_intact [OF pc(5)] read_events_ok [OF pc(6,7) assms(2)]
    by simp
qed

text \<open>The manifests by root, and the inverse table.\<close>

lemma load_manifests_of_ok:
  assumes "load_manifests_of disk roots = Inr ms"
  shows "distinct (map fst ms) \<and> (\<forall>(r, m) \<in> set ms. load_fixture (disk r) [''manifest.json''] = Inr m) \<and> fst ` set ms = set roots"
proof -
  have "rfold (\<lambda>m r. rbind (load_fixture (disk r) [''manifest.json'']) (\<lambda>v. Inr (AList.update r v m))) ms0 roots = Inr ms \<Longrightarrow>
      distinct (map fst ms0) \<Longrightarrow> (\<forall>r m. map_of ms0 r = Some m \<longrightarrow> load_fixture (disk r) [''manifest.json''] = Inr m) \<Longrightarrow>
      distinct (map fst ms) \<and> (\<forall>r m. map_of ms r = Some m \<longrightarrow> load_fixture (disk r) [''manifest.json''] = Inr m)
      \<and> fst ` set ms = fst ` set ms0 \<union> set roots" for ms0
  proof (induction roots arbitrary: ms0)
    case (Cons r roots)
    from Cons.prems(1) obtain v where v: "load_fixture (disk r) [''manifest.json''] = Inr v"
      "rfold (\<lambda>m r. rbind (load_fixture (disk r) [''manifest.json'']) (\<lambda>v. Inr (AList.update r v m))) (AList.update r v ms0) roots = Inr ms"
      by auto
    have d: "distinct (map fst (AList.update r v ms0))" using Cons.prems(2) by simp
    have l: "\<forall>r' m. map_of (AList.update r v ms0) r' = Some m \<longrightarrow> load_fixture (disk r') [''manifest.json''] = Inr m"
      using Cons.prems(3) v(1) by simp
    have "fst ` set (AList.update r v ms0) \<union> set roots = fst ` set ms0 \<union> set (r # roots)" by auto
    with Cons.IH [OF v(2) d l] show ?case by (elim conjE) (intro conjI, assumption, assumption, simp only:)
  qed simp
  note all = this [of "[]", OF assms [unfolded load_manifests_of_def]]
  have d: "distinct (map fst ms)" and l: "\<forall>r m. map_of ms r = Some m \<longrightarrow> load_fixture (disk r) [''manifest.json''] = Inr m"
    and k: "fst ` set ms = set roots" using all by simp_all
  from d l have "\<forall>(r, m) \<in> set ms. load_fixture (disk r) [''manifest.json''] = Inr m" by auto
  with d k show ?thesis by simp
qed

definition root_table :: "(string \<times> dict) list \<Rightarrow> (string \<times> string) list res" where
  "root_table ms = rfold (\<lambda>m (r, manifest). rbind (dindex manifest ''pack_id'') (\<lambda>p. Inr (AList.update (py_str p) r m))) [] ms"

lemma root_table_ok:
  assumes "root_table ms = Inr rbp" and "map_of rbp i = Some r"
  shows "\<exists>m p. (r, m) \<in> set ms \<and> map_of m ''pack_id'' = Some p \<and> i = py_str p"
proof -
  let ?P = "\<lambda>t. \<forall>i r. map_of t i = Some r \<longrightarrow> (\<exists>m p. (r, m) \<in> set ms \<and> map_of m ''pack_id'' = Some p \<and> i = py_str p)"
  have "?P rbp"
    using assms(1) unfolding root_table_def
  proof (rule rfold_invariant)
    fix t x t' assume x: "x \<in> set ms" and t: "?P t"
      and s: "(case x of (r, manifest) \<Rightarrow> rbind (dindex manifest ''pack_id'') (\<lambda>p. Inr (AList.update (py_str p) r t))) = Inr t'"
    obtain r m where rm: "x = (r, m)" by (cases x)
    with s obtain p where "map_of m ''pack_id'' = Some p" "t' = AList.update (py_str p) r t" by auto
    then show "?P t'" using t x rm by auto
  qed simp
  with assms(2) show ?thesis by blast
qed

lemma read_packs_ok:
  assumes "read_packs cfg disk roots = Inr packs"
  shows "distinct (map fst packs) \<and> (\<forall>(i, pc) \<in> set packs. pack_intact cfg disk i pc \<and> pc_root pc \<in> set roots)"
proof -
  from assms obtain ms catalog rbp where ms: "load_manifests_of disk roots = Inr ms"
    "validate_set (fx_pack cfg) (map snd ms) = Inr catalog" "root_table ms = Inr rbp"
    "rmap (read_pack cfg disk rbp) catalog = Inr packs"
    by (auto simp: read_packs_def root_table_def)
  note load = load_manifests_of_ok [OF ms(1)]
  from validate_set_sound [OF ms(2)] validate_catalog_sound
  have cat: "catalog_ok (fx_pack cfg) catalog" "map snd catalog = map snd ms" by blast+
  have one: "fst e' = fst e \<and> pack_intact cfg disk (fst e) (snd e') \<and> pc_root (snd e') \<in> set roots"
    if e: "e \<in> set catalog" and e': "read_pack cfg disk rbp e = Inr e'" for e e'
  proof -
    obtain i m j pc where im: "e = (i, m)" "e' = (j, pc)" by (cases e; cases e')
    have pid: "map_of m ''pack_id'' = Some (JStr i)" using cat(1) e im by (auto simp: catalog_ok_def)
    have ld: "load_fixture (disk r) [''manifest.json''] = Inr m \<and> r \<in> set roots" if r: "map_of rbp i = Some r" for r
    proof -
      from root_table_ok [OF ms(3) r] obtain m' p where m': "(r, m') \<in> set ms" "map_of m' ''pack_id'' = Some p" "i = py_str p" by blast
      then have "m' \<in> set (map snd catalog)" unfolding cat(2) by force
      then obtain k where k: "(k, m') \<in> set catalog" by auto
      then have "map_of m' ''pack_id'' = Some (JStr k)" using cat(1) by (auto simp: catalog_ok_def)
      with m'(2) have "p = JStr k" by simp
      with m'(3) have "k = i" by simp
      with k e im cat(1) have "m' = m" by (auto simp: catalog_ok_def dest: eq_key_imp_eq_value)
      with m'(1) load show ?thesis by force
    qed
    from read_pack_intact [OF e' [unfolded im] pid] ld show ?thesis unfolding im by auto
  qed
  have len: "length packs = length catalog" and nth: "\<forall>k < length catalog. read_pack cfg disk rbp (catalog ! k) = Inr (packs ! k)"
    using ms(4) by (auto simp: rmap_Inr_iff)
  have "map fst packs = map fst catalog"
    by (rule nth_equalityI) (use len nth one in auto)
  then have "distinct (map fst packs)" using cat(1) by (simp add: catalog_ok_def)
  moreover have "pack_intact cfg disk i pc \<and> pc_root pc \<in> set roots" if "(i, pc) \<in> set packs" for i pc
  proof -
    from that obtain k where k: "k < length catalog" "packs ! k = (i, pc)" unfolding len [symmetric] in_set_conv_nth by blast
    with one [of "catalog ! k" "packs ! k"] nth show ?thesis by auto
  qed
  ultimately show ?thesis by blast
qed

section \<open>What the audit establishes\<close>

lemma owners_add [simp]:
  "set (owners_of (add_owner p idx i) j) = (if j = i then insert p (set (owners_of idx j)) else set (owners_of idx j))"
  by (auto simp: owners_of_def add_owner_def split: option.splits)

lemma owners_adds [simp]:
  "set (owners_of (foldl (add_owner p) idx is) j) = (if j \<in> set is then insert p (set (owners_of idx j)) else set (owners_of idx j))"
  by (induction "is" arbitrary: idx) auto

text \<open>The identities an event introduces.\<close>

definition proposes_claim :: "dict \<Rightarrow> string \<Rightarrow> bool" where
  "proposes_claim e c \<longleftrightarrow> map_of e ''event_type'' = Some (JStr ''claim.proposed'')
     \<and> (\<exists>rs v. map_of e ''subject_refs'' = Some rs \<and> first_item rs = Inr v \<and> c = py_str v)"

definition proposes_relation :: "dict \<Rightarrow> string \<Rightarrow> bool" where
  "proposes_relation e i \<longleftrightarrow> map_of e ''event_type'' = Some (JStr ''relation.proposed'')
     \<and> (\<exists>pl v. map_of e ''payload'' = Some pl \<and> index pl ''relation_id'' = Inr v \<and> i = py_str v)"

lemma register_event_Inr:
  assumes "register_event p idx e = Inr idx'"
  shows "own_artifacts idx' = own_artifacts idx \<and> own_snapshots idx' = own_snapshots idx
    \<and> (\<forall>j. set (owners_of (own_events idx') j) = (if j = event_name e then insert p (set (owners_of (own_events idx) j)) else set (owners_of (own_events idx) j)))
    \<and> (\<forall>j. set (owners_of (own_claims idx') j) = (if proposes_claim e j then insert p (set (owners_of (own_claims idx) j)) else set (owners_of (own_claims idx) j)))
    \<and> (\<forall>j. set (owners_of (own_relations idx') j) = (if proposes_relation e j then insert p (set (owners_of (own_relations idx) j)) else set (owners_of (own_relations idx) j)))"
proof -
  from assms obtain iv kind cs rs where e: "map_of e ''event_id'' = Some iv" "map_of e ''event_type'' = Some kind"
    and cs: "(if py_eq kind (JStr ''claim.proposed'')
            then rbind (dindex e ''subject_refs'') (\<lambda>rs. rbind (first_item rs) (\<lambda>c. Inr [py_str c])) else Inr []) = Inr cs"
    and rs: "(if py_eq kind (JStr ''relation.proposed'')
            then rbind (dindex e ''payload'') (\<lambda>pl. rbind (index pl ''relation_id'') (\<lambda>r. Inr [py_str r])) else Inr []) = Inr rs"
    and idx': "idx' = idx\<lparr>own_events := add_owner p (own_events idx) (py_str iv),
                own_claims := foldl (add_owner p) (own_claims idx) cs,
                own_relations := foldl (add_owner p) (own_relations idx) rs\<rparr>"
    unfolding register_event_def rbind_Inr_iff dindex_Inr_iff by blast
  have "\<forall>j. proposes_claim e j \<longleftrightarrow> j \<in> set cs" using cs e(2) by (auto simp: proposes_claim_def split: if_split_asm)
  moreover have "\<forall>j. proposes_relation e j \<longleftrightarrow> j \<in> set rs" using rs e(2) by (auto simp: proposes_relation_def split: if_split_asm)
  moreover have "event_name e = py_str iv" using e(1) by (simp add: event_name_def dget_def)
  ultimately show ?thesis unfolding idx' by simp
qed

text \<open>The holders of an identity in a list of packs.\<close>

definition holders :: "(pack_contents \<Rightarrow> string \<Rightarrow> bool) \<Rightarrow> (string \<times> pack_contents) list \<Rightarrow> string \<Rightarrow> string set" where
  "holders H packs i = {p. \<exists>pc. (p, pc) \<in> set packs \<and> H pc i}"

definition has_artifact :: "pack_contents \<Rightarrow> string \<Rightarrow> bool" where
  "has_artifact pc i \<longleftrightarrow> map_of (pc_artifacts pc) i \<noteq> None"

definition has_snapshot :: "pack_contents \<Rightarrow> string \<Rightarrow> bool" where
  "has_snapshot pc i \<longleftrightarrow> map_of (pc_snapshots pc) i \<noteq> None"

definition has_event :: "pack_contents \<Rightarrow> string \<Rightarrow> bool" where
  "has_event pc i \<longleftrightarrow> (\<exists>e \<in> set (pc_events pc). event_name e = i)"

definition has_pack_claim :: "pack_contents \<Rightarrow> string \<Rightarrow> bool" where
  "has_pack_claim pc i \<longleftrightarrow> (\<exists>e \<in> set (pc_events pc). proposes_claim e i)"

definition has_relation :: "pack_contents \<Rightarrow> string \<Rightarrow> bool" where
  "has_relation pc i \<longleftrightarrow> (\<exists>e \<in> set (pc_events pc). proposes_relation e i)"

definition index_ok :: "owners \<Rightarrow> (string \<times> pack_contents) list \<Rightarrow> bool" where
  "index_ok idx packs \<longleftrightarrow>
     (\<forall>i. set (owners_of (own_artifacts idx) i) = holders has_artifact packs i)
     \<and> (\<forall>i. set (owners_of (own_snapshots idx) i) = holders has_snapshot packs i)
     \<and> (\<forall>i. set (owners_of (own_events idx) i) = holders has_event packs i)
     \<and> (\<forall>i. set (owners_of (own_claims idx) i) = holders has_pack_claim packs i)
     \<and> (\<forall>i. set (owners_of (own_relations idx) i) = holders has_relation packs i)"

lemma register_events_Inr:
  assumes "rfold (register_event p) idx es = Inr idx'"
  shows "own_artifacts idx' = own_artifacts idx \<and> own_snapshots idx' = own_snapshots idx
    \<and> (\<forall>j. set (owners_of (own_events idx') j) = {q. q = p \<and> (\<exists>e \<in> set es. event_name e = j)} \<union> set (owners_of (own_events idx) j))
    \<and> (\<forall>j. set (owners_of (own_claims idx') j) = {q. q = p \<and> (\<exists>e \<in> set es. proposes_claim e j)} \<union> set (owners_of (own_claims idx) j))
    \<and> (\<forall>j. set (owners_of (own_relations idx') j) = {q. q = p \<and> (\<exists>e \<in> set es. proposes_relation e j)} \<union> set (owners_of (own_relations idx) j))"
  using assms
proof (induction es arbitrary: idx)
  case (Cons e es)
  from Cons.prems obtain m where m: "register_event p idx e = Inr m" "rfold (register_event p) m es = Inr idx'" by auto
  note one = register_event_Inr [OF m(1)] and rest = Cons.IH [OF m(2)]
  show ?case
  proof (intro conjI allI)
    fix j
    show "set (owners_of (own_events idx') j) = {q. q = p \<and> (\<exists>e \<in> set (e # es). event_name e = j)} \<union> set (owners_of (own_events idx) j)"
      using one rest by auto
    show "set (owners_of (own_claims idx') j) = {q. q = p \<and> (\<exists>e \<in> set (e # es). proposes_claim e j)} \<union> set (owners_of (own_claims idx) j)"
      using one rest by auto
    show "set (owners_of (own_relations idx') j) = {q. q = p \<and> (\<exists>e \<in> set (e # es). proposes_relation e j)} \<union> set (owners_of (own_relations idx) j)"
      using one rest by auto
  qed (use one rest in simp_all)
qed simp

lemma holders_snoc: "holders H (packs @ [(p, pc)]) i = {q. q = p \<and> H pc i} \<union> holders H packs i"
  by (auto simp: holders_def)

lemma register_pack_ok:
  assumes "register_pack idx (p, pc) = Inr idx'" and "index_ok idx packs"
  shows "index_ok idx' (packs @ [(p, pc)])"
proof -
  note r = register_events_Inr [OF assms(1) [unfolded register_pack_def prod.case]]
  have a: "j \<in> fst ` set (pc_artifacts pc) \<longleftrightarrow> has_artifact pc j" for j
    by (simp add: has_artifact_def map_of_eq_None_set)
  have s: "j \<in> fst ` set (pc_snapshots pc) \<longleftrightarrow> has_snapshot pc j" for j
    by (simp add: has_snapshot_def map_of_eq_None_set)
  show ?thesis unfolding index_ok_def holders_snoc
    using r assms(2) [unfolded index_ok_def] a s
    by (intro conjI allI) (auto simp: has_event_def has_pack_claim_def has_relation_def)
qed

lemma register_packs_ok:
  assumes "rfold register_pack no_owners packs = Inr idx"
  shows "index_ok idx packs"
proof -
  have "rfold register_pack i0 rest = Inr idx \<Longrightarrow> index_ok i0 seen \<Longrightarrow> index_ok idx (seen @ rest)" for i0 rest seen
  proof (induction rest arbitrary: i0 seen)
    case (Cons e rest)
    obtain p pc where e: "e = (p, pc)" by (cases e)
    from Cons.prems(1) obtain m where m: "register_pack i0 (p, pc) = Inr m" "rfold register_pack m rest = Inr idx" unfolding e by auto
    from Cons.IH [OF m(2) register_pack_ok [OF m(1) Cons.prems(2)]] show ?case unfolding e by simp
  qed simp
  from this [OF assms, of "[]"] show ?thesis
    by (simp add: index_ok_def no_owners_def owners_of_def holders_def)
qed

lemma readable_owner_D:
  assumes "readable_owner a idx i = Inr p"
  shows "p \<in> set (owners_of idx i) \<and> p \<in> read_mounts a"
proof -
  from assms obtain ps where "sort (filter (\<lambda>p. p \<in> read_mounts a) (owners_of idx i)) = p # ps"
    by (auto simp: readable_owner_def split: list.split_asm)
  then have "p \<in> set (sort (filter (\<lambda>p. p \<in> read_mounts a) (owners_of idx i)))" by (metis list.set_intros(1))
  then show ?thesis by simp
qed

definition citation_authentic ::
  "fixture_config \<Rightarrow> (string \<Rightarrow> fs) \<Rightarrow> pack_access \<Rightarrow> (string \<times> pack_contents) list \<Rightarrow> dict \<Rightarrow> bool" where
  "citation_authentic cfg disk a packs c \<longleftrightarrow>
     (\<exists>owner pc sv s av m data. owner \<in> read_mounts a \<and> (owner, pc) \<in> set packs
        \<and> map_of c ''snapshot_id'' = Some sv \<and> map_of (pc_snapshots pc) (py_str sv) = Some s
        \<and> map_of c ''artifact_id'' = Some av \<and> py_eq (dget s ''artifact_id'') av
        \<and> map_of (pc_artifacts pc) (py_str av) = Some m \<and> item_digest m = Inr (fx_sha cfg data)
        \<and> map_of (disk (pc_root pc)) (fixture_blob_path (fx_sha cfg data)) = Some data
        \<and> (dget c ''byte_start'' = JNull \<and> dget c ''byte_end'' = JNull \<and> dget c ''passage_hash'' = JNull
           \<or> (\<exists>x y h. int_value (dget c ''byte_start'') = Some x \<and> int_value (dget c ''byte_end'') = Some y
                \<and> 0 \<le> x \<and> x < y \<and> y \<le> int (length data) \<and> dget c ''passage_hash'' = JObj h
                \<and> dget h ''digest'' = JStr (fx_sha cfg (drop (nat x) (take (nat y) data))))))"

lemma cited_bytes_Inr:
  assumes "cited_bytes sha data start end_value ph = Inr r"
  shows "start = JNull \<and> end_value = JNull \<and> ph = JNull
    \<or> (\<exists>x y h. int_value start = Some x \<and> int_value end_value = Some y \<and> 0 \<le> x \<and> x < y \<and> y \<le> int (length data)
         \<and> ph = JObj h \<and> dget h ''digest'' = JStr (sha (drop (nat x) (take (nat y) data))))"
proof (cases "start = JNull")
  case True
  then show ?thesis using assms by (auto simp: cited_bytes_def)
next
  case False
  then obtain x y h where "int_value start = Some x" "int_value end_value = Some y" "0 \<le> x \<and> x < y \<and> y \<le> int (length data)"
    "ph = JObj h" "dget h ''digest'' = JStr (sha (py_slice data x y))"
    using assms by (auto simp: cited_bytes_def Let_def split: option.split_asm json.split_asm)
  then show ?thesis by (auto simp: py_slice_def slice_index_def)
qed

lemma citation_bytes_authentic:
  assumes "citation_bytes cfg disk a packs (own_snapshots idx) c = Inr r"
    and packs: "distinct (map fst packs)" "\<forall>(i, pc) \<in> set packs. pack_intact cfg disk i pc"
  shows "citation_authentic cfg disk a packs c"
proof -
  from assms(1) obtain sv owner pc s sa ca m digest data st en ph q where c:
    "map_of c ''snapshot_id'' = Some sv" "readable_owner a (own_snapshots idx) (py_str sv) = Inr owner"
    "map_of packs owner = Some pc" "map_of (pc_snapshots pc) (py_str sv) = Some s" "map_of s ''artifact_id'' = Some sa"
    "map_of c ''artifact_id'' = Some ca" "py_eq sa ca" "map_of (pc_artifacts pc) (py_str ca) = Some m"
    "item_digest m = Inr digest" "read_file (disk (pc_root pc)) (fixture_blob_path digest) = Inr data"
    "map_of c ''byte_start'' = Some st" "map_of c ''byte_end'' = Some en" "map_of c ''passage_hash'' = Some ph"
    "cited_bytes (fx_sha cfg) data st en ph = Inr q"
    unfolding citation_bytes_def Let_def rbind_Inr_iff dindex_Inr_iff of_option_Inr_iff check_Inr_iff by blast
  from c(3) have mem: "(owner, pc) \<in> set packs" by (rule map_of_SomeD)
  with packs(2) c(8) have "artifact_intact cfg (disk (pc_root pc)) (py_str ca) m"
    by (auto simp: pack_intact_def artifacts_intact_def)
  then obtain data' where d: "item_digest m = Inr (fx_sha cfg data')"
    "map_of (disk (pc_root pc)) (fixture_blob_path (fx_sha cfg data')) = Some data'"
    by (auto simp: artifact_intact_def)
  with c(9,10) have "data' = data" by (simp add: read_file_def)
  note d = d [unfolded this]
  note c14 = c(14)
  have eq: "dget s ''artifact_id'' = sa" "dget c ''byte_start'' = st" "dget c ''byte_end'' = en" "dget c ''passage_hash'' = ph"
    using c by (simp_all add: dget_def)
  have ca: "py_eq (dget s ''artifact_id'') ca" using c(7) eq(1) by simp
  show ?thesis unfolding citation_authentic_def eq
    by (rule exI [of _ owner], rule exI [of _ pc], rule exI [of _ sv], rule exI [of _ s], rule exI [of _ ca],
        rule exI [of _ m], rule exI [of _ data])
      (intro conjI readable_owner_D [OF c(2), THEN conjunct2] mem c(1) c(4) c(6) ca c(8) d cited_bytes_Inr [OF c14])
qed

lemma validate_pack_fixtures_Inr:
  assumes "validate_pack_fixtures cfg disk roots = Inr audit"
  obtains packs idx where "read_packs cfg disk roots = Inr packs" "rfold register_pack no_owners packs = Inr idx"
    "unique_owners (own_events idx)" "unique_owners (own_claims idx)" "unique_owners (own_relations idx)"
    "\<forall>(i, pc) \<in> set packs. \<exists>n. audit_pack cfg disk packs idx (i, pc) = Inr n"
proof -
  from assms obtain packs idx ns u where p: "read_packs cfg disk roots = Inr packs" "rfold register_pack no_owners packs = Inr idx"
    "each (\<lambda>i. check (unique_owners i) (fixture_error ''globally duplicate '')) [own_events idx, own_claims idx, own_relations idx] = Inr u"
    "rmap (audit_pack cfg disk packs idx) packs = Inr ns"
    unfolding validate_pack_fixtures_def audit_packs_def rbind_Inr_iff by blast
  have "\<forall>(i, pc) \<in> set packs. \<exists>n. audit_pack cfg disk packs idx (i, pc) = Inr n"
    using p(4) unfolding rmap_Inr_iff by (auto simp: in_set_conv_nth) metis
  with p(1-3) show ?thesis by (intro that [of packs idx]) auto
qed

lemma audit_pack_Inr:
  assumes "audit_pack cfg disk packs idx (i, pc) = Inr n"
  shows "(\<forall>(k, s) \<in> set (pc_snapshots pc). check_parents (pc_access pc) (own_snapshots idx) s = Inr ())
    \<and> (\<forall>e \<in> set (pc_events pc). \<exists>k. check_event cfg disk packs idx (pc_access pc) e = Inr k)
    \<and> (\<exists>ordered st. sort_events (pc_events pc) = Inr ordered \<and> replay ordered = Inr st)"
proof -
  from assms obtain ns ordered st where p:
    "each (\<lambda>(_, s). check_parents (pc_access pc) (own_snapshots idx) s) (pc_snapshots pc) = Inr ()"
    "rmap (check_event cfg disk packs idx (pc_access pc)) (pc_events pc) = Inr ns"
    "sort_events (pc_events pc) = Inr ordered" "replay ordered = Inr st"
    by (auto simp: audit_pack_def Let_def)
  from p(2) have "\<forall>e \<in> set (pc_events pc). \<exists>k. check_event cfg disk packs idx (pc_access pc) e = Inr k"
    unfolding rmap_Inr_iff by (auto simp: in_set_conv_nth)
  with p show ?thesis by auto
qed

lemma check_event_Inr:
  assumes "check_event cfg disk packs idx a e = Inr n"
  shows "(\<exists>rs. py_iter (dget_or e ''evidence_refs'' (JArr [])) = Inr rs \<and> readable_refs a (own_artifacts idx) rs = Inr ())
    \<and> (\<exists>rs. py_iter (dget_or e ''source_snapshot_refs'' (JArr [])) = Inr rs \<and> readable_refs a (own_snapshots idx) rs = Inr ())
    \<and> (\<exists>rs. py_iter (dget_or e ''caused_by_event_ids'' (JArr [])) = Inr rs \<and> readable_refs a (own_events idx) rs = Inr ())
    \<and> (\<forall>c. event_citation e = Inr (JObj c) \<longrightarrow> is_ok (citation_bytes cfg disk a packs (own_snapshots idx) c))
    \<and> is_ok (event_citation e)
    \<and> (map_of e ''event_type'' = Some (JStr ''relation.proposed'') \<longrightarrow>
         (\<forall>side \<in> {''source_ref'', ''target_ref''}. check_endpoint a (own_claims idx) e side = Inr ()))"
proof -
  from assms obtain r1 r2 r3 cv k where p:
    "rbind (py_iter (dget_or e ''evidence_refs'' (JArr []))) (readable_refs a (own_artifacts idx)) = Inr r1"
    "rbind (py_iter (dget_or e ''source_snapshot_refs'' (JArr []))) (readable_refs a (own_snapshots idx)) = Inr r2"
    "rbind (py_iter (dget_or e ''caused_by_event_ids'' (JArr []))) (readable_refs a (own_events idx)) = Inr r3"
    "event_citation e = Inr cv"
    "(case cv of JObj citation \<Rightarrow> rbind (citation_bytes cfg disk a packs (own_snapshots idx) citation) (\<lambda>_. Inr (1 :: nat)) | _ \<Rightarrow> Inr 0) = Inr k"
    "\<exists>kind r4. map_of e ''event_type'' = Some kind \<and> (if py_eq kind (JStr ''relation.proposed'')
            then each (check_endpoint a (own_claims idx) e) [''source_ref'', ''target_ref''] else Inr ()) = Inr r4"
    unfolding check_event_def rbind_Inr_iff [where f = "\<lambda>_. Inr _"] rbind_Inr_iff dindex_Inr_iff by blast
  have "is_ok (citation_bytes cfg disk a packs (own_snapshots idx) c)" if "event_citation e = Inr (JObj c)" for c
    using that p(4,5) by (auto simp: is_ok_iff)
  with p show ?thesis by auto
qed

definition refs_of :: "dict \<Rightarrow> string \<Rightarrow> string list" where
  "refs_of d k = (case py_iter (dget_or d k (JArr [])) of Inr vs \<Rightarrow> map py_str vs | Inl _ \<Rightarrow> [])"

definition parents_of :: "dict \<Rightarrow> string list" where
  "parents_of s = (case dget s ''derivation'' of JObj d \<Rightarrow> refs_of d ''parent_snapshot_refs'' | _ \<Rightarrow> [])"

definition endpoint_of :: "dict \<Rightarrow> string \<Rightarrow> string" where
  "endpoint_of e side = py_str (dget (case dget e ''payload'' of JObj d \<Rightarrow> d | _ \<Rightarrow> []) side)"

text \<open>A reference resolves for a pack: some pack it mounts for reading holds the identity.\<close>

definition resolves :: "pack_access \<Rightarrow> (pack_contents \<Rightarrow> string \<Rightarrow> bool) \<Rightarrow> (string \<times> pack_contents) list \<Rightarrow> string \<Rightarrow> bool" where
  "resolves a H packs r \<longleftrightarrow> (\<exists>p \<in> read_mounts a. p \<in> holders H packs r)"

definition event_refs_resolve :: "pack_access \<Rightarrow> (string \<times> pack_contents) list \<Rightarrow> dict \<Rightarrow> bool" where
  "event_refs_resolve a packs e \<longleftrightarrow>
     (\<forall>r \<in> set (refs_of e ''evidence_refs''). resolves a has_artifact packs r)
     \<and> (\<forall>r \<in> set (refs_of e ''source_snapshot_refs''). resolves a has_snapshot packs r)
     \<and> (\<forall>r \<in> set (refs_of e ''caused_by_event_ids''). resolves a has_event packs r)
     \<and> (map_of e ''event_type'' = Some (JStr ''relation.proposed'') \<longrightarrow>
          (\<forall>side \<in> {''source_ref'', ''target_ref''}.
             starts_with ''clm_'' (endpoint_of e side) \<longrightarrow> resolves a has_pack_claim packs (endpoint_of e side)))"

lemma readable_refs_resolve:
  assumes "readable_refs a idx rs = Inr ()" and "\<forall>i. set (owners_of idx i) = holders H packs i"
  shows "\<forall>r \<in> set rs. resolves a H packs (py_str r)"
proof
  fix r assume "r \<in> set rs"
  with assms(1) obtain p where "readable_owner a idx (py_str r) = Inr p" by (auto simp: readable_refs_def)
  from readable_owner_D [OF this] assms(2) show "resolves a H packs (py_str r)" by (auto simp: resolves_def)
qed

lemma refs_resolve:
  assumes "\<exists>rs. py_iter (dget_or d k (JArr [])) = Inr rs \<and> readable_refs a idx rs = Inr ()"
    and "\<forall>i. set (owners_of idx i) = holders H packs i"
  shows "\<forall>r \<in> set (refs_of d k). resolves a H packs r"
  using assms readable_refs_resolve [OF _ assms(2), of a] by (auto simp: refs_of_def)

lemma check_endpoint_resolves:
  assumes "check_endpoint a idx e side = Inr ()" and "\<forall>i. set (owners_of idx i) = holders H packs i"
    and "starts_with ''clm_'' (endpoint_of e side)"
  shows "resolves a H packs (endpoint_of e side)"
proof -
  from assms(1) obtain d v where d: "map_of e ''payload'' = Some (JObj d)" "map_of d side = Some v"
    "(if starts_with ''clm_'' (py_str v) then rbind (readable_owner a idx (py_str v)) (\<lambda>_. Inr ()) else Inr ()) = Inr ()"
    by (auto simp: check_endpoint_def)
  then have v: "endpoint_of e side = py_str v" by (simp add: endpoint_of_def dget_def)
  with d(3) assms(3) obtain p where "readable_owner a idx (py_str v) = Inr p" by auto
  from readable_owner_D [OF this] assms(2) v show ?thesis by (auto simp: resolves_def)
qed

lemma unique_owners_D:
  assumes "unique_owners idx" and "p \<in> set (owners_of idx i)" and "q \<in> set (owners_of idx i)"
  shows "p = q"
proof -
  from assms(2) obtain ps where ps: "map_of idx i = Some ps" "owners_of idx i = ps"
    by (cases "map_of idx i") (auto simp: owners_of_def)
  from assms(1) map_of_SomeD [OF ps(1)] have "length ps \<le> 1" by (auto simp: unique_owners_def list_all_iff)
  with assms(2,3) ps(2) show ?thesis by (cases ps) auto
qed

section \<open>Properties\<close>

text \<open>Code equations for the evaluation of ASCII texts.\<close>

lemma of_char_small [code_unfold]: "of_char c < (32 :: nat) \<longleftrightarrow> \<not> digit5 c \<and> \<not> digit6 c \<and> \<not> digit7 c"
  by (cases c) (simp add: of_char_def horner_sum_simps)

lemma of_char_ascii: "of_char c < (128 :: nat) \<longleftrightarrow> \<not> digit7 c"
  by (cases c) (simp add: of_char_def horner_sum_simps)

lemma utf8_valid_code [code]: "utf8_valid bs \<longleftrightarrow> list_all (\<lambda>c. \<not> digit7 c) bs \<or> utf8_bytes (map of_char bs)"
proof -
  have "utf8_bytes (map of_char bs)" if "list_all (\<lambda>c. \<not> digit7 c) bs"
    using that by (induction bs) (simp_all add: of_char_ascii)
  then show ?thesis by (auto simp: utf8_valid_def)
qed

section \<open>An audited repository\<close>

text \<open>One pack: an artifact, a snapshot of it, a claim that cites two of its bytes, and a later change
  of the claim's state. The hash of the example is short except for the artifact.\<close>

definition hex_sha :: "string \<Rightarrow> string" where
  "hex_sha t = (if t = ''hello'' then replicate 64 (CHR ''0'') else take 8 (filter lower_hex t))"

definition demo_fixture :: fixture_config where
  "demo_fixture = \<lparr> fx_sha = hex_sha, fx_pack = \<lambda>_. True, fx_event = \<lambda>_. True, fx_snapshot = \<lambda>_. True, fx_citation = \<lambda>_. True \<rparr>"

definition fixture_disk :: \<open>string \<Rightarrow> fs\<close> where
  \<open>fixture_disk r =
     [([''manifest.json''],
      ''{"artifact_manifests":["i"],"event_roots":["e"],"pack_id":"p","read_mounts":["p"],"write_targets":["p"]}''),
      ([''i''],
      ''{"artifact_id":"art_00000000000000000000000000000000","byte_size":5,"content_hash":{"algorithm":"sha256","digest":"0000000000000000000000000000000000000000000000000000000000000000"},"media_type":"t"}''),
      ([''artifacts'', ''manifests'', ''00'', ''art_00000000000000000000000000000000.json''],
      ''{"artifact_id":"art_00000000000000000000000000000000","byte_size":5,"content_hash":{"algorithm":"sha256","digest":"0000000000000000000000000000000000000000000000000000000000000000"},"media_type":"t"}''),
      ([''artifacts'', ''blobs'', ''sha256'', ''00'', ''0000000000000000000000000000000000000000000000000000000000000000''],
      ''hello''),
      ([''sources'', ''snapshots'', ''ce'', ''snap_cedefeee.json''],
      ''{"artifact_id":"art_00000000000000000000000000000000","content_hash":{"algorithm":"sha256","digest":"0000000000000000000000000000000000000000000000000000000000000000"},"derivation":null,"locator":{"url":"u"},"retrieved_at":"1","snapshot_id":"snap_cedefeee","source_id":"source_defeeef","source_role":"primary","version_metadata":{}}''),
      ([''e'', ''aa'', ''evt_aa1.json''],
      ''{"event_id":"evt_aa1","event_type":"claim.proposed","pack_id":"p","payload":{"citation":{"artifact_id":"art_00000000000000000000000000000000","byte_end":3,"byte_start":1,"citation_id":"cite_acedefee","passage_hash":{"digest":"e"},"snapshot_id":"snap_cedefeee"},"claim_text":"c"},"recorded_at":"1","subject_refs":["clm_1"]}''),
      ([''e'', ''aa'', ''evt_aa2.json''],
      ''{"event_id":"evt_aa2","event_type":"claim.state_changed","pack_id":"p","payload":{"to_state":"supported"},"recorded_at":"2","subject_refs":["clm_1"]}'')]\<close>

text \<open>C34. Citations of audited packs are authentic. When the audit passes, every pack it read is intact
  (artifacts stored under the hash of their bytes, snapshots under the identity of what they
  record, events in their own pack under their deterministic id), and every citation of every event
  resolves, inside the packs its own pack mounts, to a snapshot and to the bytes of its artifact; a
  span lies within these bytes and its passage hash is the hash of exactly the cited bytes.\<close>

theorem audited_citations_are_authentic:
  assumes "validate_pack_fixtures cfg disk roots = Inr audit"
  shows "\<exists>packs. read_packs cfg disk roots = Inr packs \<and>
    (\<forall>(i, pc) \<in> set packs. pack_intact cfg disk i pc \<and>
       (\<forall>e \<in> set (pc_events pc). \<forall>c. event_citation e = Inr (JObj c) \<longrightarrow>
          citation_authentic cfg disk (pc_access pc) packs c))"
proof -
  from assms obtain packs idx where p: "read_packs cfg disk roots = Inr packs"
    and a: "\<forall>(i, pc) \<in> set packs. \<exists>n. audit_pack cfg disk packs idx (i, pc) = Inr n" by (rule validate_pack_fixtures_Inr)
  note ok = read_packs_ok [OF p]
  then have d: "distinct (map fst packs)" and intact: "\<forall>(i, pc) \<in> set packs. pack_intact cfg disk i pc" by auto
  have "citation_authentic cfg disk (pc_access pc) packs c"
    if "(i, pc) \<in> set packs" "e \<in> set (pc_events pc)" "event_citation e = Inr (JObj c)" for i pc e c
  proof -
    from that(1) a obtain n where "audit_pack cfg disk packs idx (i, pc) = Inr n" by blast
    from audit_pack_Inr [OF this] that(2) obtain k where "check_event cfg disk packs idx (pc_access pc) e = Inr k" by blast
    from check_event_Inr [OF this] that(3) obtain r where "citation_bytes cfg disk (pc_access pc) packs (own_snapshots idx) c = Inr r"
      by (auto simp: is_ok_iff)
    then show ?thesis by (rule citation_bytes_authentic [OF _ d intact])
  qed
  then show ?thesis using p intact by blast
qed

lemma fixture_audited: "is_ok (validate_pack_fixtures demo_fixture fixture_disk [''r''])"
  by code_simp

theorem audited_citations_are_authentic_witness:
  "\<exists>packs. read_packs demo_fixture fixture_disk [''r''] = Inr packs \<and>
    (\<forall>(i, pc) \<in> set packs. \<forall>e \<in> set (pc_events pc). \<forall>c. event_citation e = Inr (JObj c) \<longrightarrow>
       citation_authentic demo_fixture fixture_disk (pc_access pc) packs c)"
proof -
  from fixture_audited obtain audit where "validate_pack_fixtures demo_fixture fixture_disk [''r''] = Inr audit" by (rule is_okE)
  from audited_citations_are_authentic [OF this] show ?thesis by fast
qed

text \<open>C35. References of audited packs resolve within the mounts. When the audit passes, every parent of
  a derived snapshot, every artifact, snapshot and causing event that an event refers to, and every
  claim that a proposed relation connects is held by a pack that the referring pack mounts for
  reading; and no event, claim or relation id belongs to two packs.\<close>

theorem audited_references_resolve:
  assumes "validate_pack_fixtures cfg disk roots = Inr audit"
  shows "\<exists>packs. read_packs cfg disk roots = Inr packs \<and>
    (\<forall>(i, pc) \<in> set packs.
       (\<forall>(k, s) \<in> set (pc_snapshots pc). \<forall>r \<in> set (parents_of s). resolves (pc_access pc) has_snapshot packs r)
       \<and> (\<forall>e \<in> set (pc_events pc). event_refs_resolve (pc_access pc) packs e))
    \<and> (\<forall>H \<in> {has_event, has_pack_claim, has_relation}. \<forall>x. \<forall>p \<in> holders H packs x. \<forall>q \<in> holders H packs x. p = q)"
proof -
  from assms obtain packs idx where p: "read_packs cfg disk roots = Inr packs" "rfold register_pack no_owners packs = Inr idx"
    and u: "unique_owners (own_events idx)" "unique_owners (own_claims idx)" "unique_owners (own_relations idx)"
    and a: "\<forall>(i, pc) \<in> set packs. \<exists>n. audit_pack cfg disk packs idx (i, pc) = Inr n" by (rule validate_pack_fixtures_Inr)
  note ix = register_packs_ok [OF p(2), unfolded index_ok_def]
  have "(\<forall>(k, s) \<in> set (pc_snapshots pc). \<forall>r \<in> set (parents_of s). resolves (pc_access pc) has_snapshot packs r)
       \<and> (\<forall>e \<in> set (pc_events pc). event_refs_resolve (pc_access pc) packs e)" if mem: "(i, pc) \<in> set packs" for i pc
  proof -
    from mem a obtain n where "audit_pack cfg disk packs idx (i, pc) = Inr n" by blast
    note ap = audit_pack_Inr [OF this]
    have "\<forall>r \<in> set (parents_of s). resolves (pc_access pc) has_snapshot packs r" if "(k, s) \<in> set (pc_snapshots pc)" for k s
    proof (cases "dget s ''derivation''")
      case (JObj d)
      from ap that have "check_parents (pc_access pc) (own_snapshots idx) s = Inr ()" by blast
      then have "\<exists>rs. py_iter (dget_or d ''parent_snapshot_refs'' (JArr [])) = Inr rs \<and> readable_refs (pc_access pc) (own_snapshots idx) rs = Inr ()"
        using JObj by (auto simp: check_parents_def)
      from refs_resolve [OF this] ix show ?thesis using JObj by (simp add: parents_of_def)
    qed (simp_all add: parents_of_def)
    moreover have "event_refs_resolve (pc_access pc) packs e" if "e \<in> set (pc_events pc)" for e
    proof -
      from ap that obtain k where "check_event cfg disk packs idx (pc_access pc) e = Inr k" by blast
      note ce = check_event_Inr [OF this]
      show ?thesis unfolding event_refs_resolve_def
      proof (intro conjI impI)
        show "\<forall>r \<in> set (refs_of e ''evidence_refs''). resolves (pc_access pc) has_artifact packs r"
          by (rule refs_resolve) (use ce ix in blast)+
        show "\<forall>r \<in> set (refs_of e ''source_snapshot_refs''). resolves (pc_access pc) has_snapshot packs r"
          by (rule refs_resolve) (use ce ix in blast)+
        show "\<forall>r \<in> set (refs_of e ''caused_by_event_ids''). resolves (pc_access pc) has_event packs r"
          by (rule refs_resolve) (use ce ix in blast)+
        assume "map_of e ''event_type'' = Some (JStr ''relation.proposed'')"
        with ce have "\<forall>side \<in> {''source_ref'', ''target_ref''}. check_endpoint (pc_access pc) (own_claims idx) e side = Inr ()" by blast
        then show "\<forall>side \<in> {''source_ref'', ''target_ref''}.
             starts_with ''clm_'' (endpoint_of e side) \<longrightarrow> resolves (pc_access pc) has_pack_claim packs (endpoint_of e side)"
          using check_endpoint_resolves ix by blast
      qed
    qed
    ultimately show ?thesis by blast
  qed
  moreover have "p = q" if "p \<in> holders has_event packs x" "q \<in> holders has_event packs x" for p q x
    using unique_owners_D [OF u(1), of p x q] that ix by blast
  moreover have "p = q" if "p \<in> holders has_pack_claim packs x" "q \<in> holders has_pack_claim packs x" for p q x
    using unique_owners_D [OF u(2), of p x q] that ix by blast
  moreover have "p = q" if "p \<in> holders has_relation packs x" "q \<in> holders has_relation packs x" for p q x
    using unique_owners_D [OF u(3), of p x q] that ix by blast
  ultimately show ?thesis using p(1) by blast
qed

theorem audited_references_resolve_witness:
  "\<exists>packs. read_packs demo_fixture fixture_disk [''r''] = Inr packs \<and>
    (\<forall>(i, pc) \<in> set packs. \<forall>e \<in> set (pc_events pc). event_refs_resolve (pc_access pc) packs e)"
proof -
  from fixture_audited obtain audit where "validate_pack_fixtures demo_fixture fixture_disk [''r''] = Inr audit" by (rule is_okE)
  from audited_references_resolve [OF this] show ?thesis by fast
qed

end
