(* ===== verification/Pack_Corpus.thy ===== *)
theory Pack_Corpus
  imports Pack_Fixture
begin

text \<open>
  The retrieval documents built from audited packs (\<open>application/rebuild/pack_corpus.py\<close>): one
  document for each claim and relation of the replayed state of each pack, today's or as of a cutoff
  on \<open>recorded_at\<close>. The corpus as of a cutoff is a restriction of the corpus without one: the lemmas
  relate the two scans event by event.
\<close>

section \<open>Retrieval documents\<close>

definition load_object :: "fs \<Rightarrow> path \<Rightarrow> dict res" where
  "load_object d p =
     rbind (read_file d p) (\<lambda>bytes. rbind (decode_utf8 bytes) (\<lambda>t. rbind (parse_json t) (\<lambda>v.
       case v of JObj m \<Rightarrow> Inr m | _ \<Rightarrow> Inl (Exn ValueError ''expected JSON object: ''))))"

text \<open>The events of one event root up to a cutoff; the string \<open>recorded_at\<close> is compared.\<close>

definition root_events :: "fs \<Rightarrow> string option \<Rightarrow> dict list \<Rightarrow> json \<Rightarrow> dict list res" where
  "root_events d as_of acc relative =
     rfold (\<lambda>acc p. rbind (load_object d p) (\<lambda>event.
         rbind (case as_of of None \<Rightarrow> Inr False
                | Some cutoff \<Rightarrow> rbind (dindex event ''recorded_at'') (\<lambda>t. Inr (cutoff < py_str t))) (\<lambda>late.
           Inr (if late then acc else acc @ [event])))) acc (json_files d (path_of (py_str relative)))"

definition events_for_pack :: "fs \<Rightarrow> dict \<Rightarrow> string option \<Rightarrow> dict list res" where
  "events_for_pack d manifest as_of =
     rbind (rbind (dindex manifest ''event_roots'') py_iter) (\<lambda>relatives.
     rbind (rfold (root_events d as_of) [] relatives) sort_events)"

record corpus_scan =
  events_by_pack :: "(string \<times> dict list) list"
  state_by_pack :: "(string \<times> knowledge_state) list"
  claim_text :: "(string \<times> string) list"
  claim_event :: "(string \<times> dict) list"
  relation_event :: "(string \<times> dict) list"

definition empty_corpus :: corpus_scan where
  "empty_corpus = \<lparr> events_by_pack = [], state_by_pack = [], claim_text = [], claim_event = [], relation_event = [] \<rparr>"

definition scan_event :: "corpus_scan \<Rightarrow> dict \<Rightarrow> corpus_scan res" where
  "scan_event s event =
     rbind (dindex event ''event_type'') (\<lambda>kind.
     if py_eq kind (JStr ''claim.proposed'') then
       rbind (dindex event ''subject_refs'') (\<lambda>rs. rbind (first_item rs) (\<lambda>cv.
       rbind (dindex event ''payload'') (\<lambda>pl. rbind (index pl ''claim_text'') (\<lambda>tv.
         Inr (s\<lparr>claim_text := AList.update (py_str cv) (py_str tv) (claim_text s),
                claim_event := AList.update (py_str cv) event (claim_event s)\<rparr>)))))
     else if py_eq kind (JStr ''relation.proposed'') then
       rbind (dindex event ''payload'') (\<lambda>pl. rbind (index pl ''relation_id'') (\<lambda>rv.
         Inr (s\<lparr>relation_event := AList.update (py_str rv) event (relation_event s)\<rparr>)))
     else Inr s)"

definition scan_root :: "(string \<Rightarrow> fs) \<Rightarrow> string option \<Rightarrow> corpus_scan \<Rightarrow> string \<Rightarrow> corpus_scan res" where
  "scan_root disk as_of s r =
     rbind (load_object (disk r) [''manifest.json'']) (\<lambda>manifest.
     rbind (dindex manifest ''pack_id'') (\<lambda>pv.
     rbind (events_for_pack (disk r) manifest as_of) (\<lambda>evs.
     rbind (replay evs) (\<lambda>st.
       rfold scan_event
         (s\<lparr>events_by_pack := AList.update (py_str pv) evs (events_by_pack s),
            state_by_pack := AList.update (py_str pv) st (state_by_pack s)\<rparr>) evs))))"

definition str_list :: "dict \<Rightarrow> string \<Rightarrow> json res" where
  "str_list d k = rbind (py_iter (dget_or d k (JArr []))) (\<lambda>vs. Inr (strs (map py_str vs)))"

text \<open>What a claim document and a relation document share: the history of the state and its provenance.\<close>

definition provenance_fields :: "string \<Rightarrow> string list \<Rightarrow> dict \<Rightarrow> dict res" where
  "provenance_fields current history event =
     rbind (dindex event ''event_id'') (\<lambda>iv.
     rbind (str_list event ''evidence_refs'') (\<lambda>evidence.
     rbind (str_list event ''source_snapshot_refs'') (\<lambda>snaps.
       Inr [(''current_state'', JStr current), (''state_history'', strs history), (''proposed_event_id'', JStr (py_str iv)),
            (''evidence_refs'', evidence), (''source_snapshot_refs'', snaps)])))"

definition claim_document :: "corpus_scan \<Rightarrow> string \<Rightarrow> knowledge_state \<Rightarrow> string \<Rightarrow> dict res" where
  "claim_document s pack st c =
     rbind (of_option (Exn KeyError c) (map_of (claim_event s) c)) (\<lambda>event.
     rbind (of_option (Exn KeyError c) (map_of (claim_text s) c)) (\<lambda>text.
     rbind (of_option (Exn KeyError c) (map_of (claims st) c)) (\<lambda>current.
     rbind (of_option (Exn KeyError c) (map_of (claim_history st) c)) (\<lambda>history.
     rbind (provenance_fields current history event) (\<lambda>fields.
     rbind (event_citation event) (\<lambda>citation.
       Inr ([(''id'', JStr c), (''pack_id'', JStr pack), (''text'', JStr text), (''document_type'', JStr ''claim'')]
            @ fields @ (if is_obj citation then [(''citation'', citation)] else []))))))))"

text \<open>\<open>claim_text.get(ref, ref)\<close>, formatted.\<close>

definition ref_text :: "corpus_scan \<Rightarrow> json \<Rightarrow> string res" where
  "ref_text s v =
     rbind (check (hashable v) (Exn TypeError ''unhashable'')) (\<lambda>_.
       Inr (case v of JStr c \<Rightarrow> (case map_of (claim_text s) c of Some t \<Rightarrow> t | None \<Rightarrow> c) | _ \<Rightarrow> py_str v))"

definition relation_document :: "corpus_scan \<Rightarrow> string \<Rightarrow> knowledge_state \<Rightarrow> string \<Rightarrow> dict res" where
  "relation_document s pack st i =
     rbind (of_option (Exn KeyError i) (map_of (relations st) i)) (\<lambda>r.
     rbind (of_option (Exn KeyError i) (map_of (relation_event s) i)) (\<lambda>event.
     rbind (ref_text s (source_ref r)) (\<lambda>source_text. rbind (ref_text s (target_ref r)) (\<lambda>target_text.
     rbind (of_option (Exn KeyError i) (map_of (relation_history st) i)) (\<lambda>history.
     rbind (provenance_fields (rel_state r) history event) (\<lambda>fields.
       Inr ([(''id'', JStr i), (''pack_id'', JStr pack),
             (''text'', JStr (source_text @ [CHR 0x0A] @ ''Relation: '' @ relation_type r @ [CHR 0x0A] @ target_text)),
             (''document_type'', JStr ''relation''), (''relation_type'', JStr (relation_type r)),
             (''source_ref'', source_ref r), (''target_ref'', target_ref r)] @ fields)))))))"

definition pack_documents :: "corpus_scan \<Rightarrow> string \<Rightarrow> dict list res" where
  "pack_documents s pack =
     rbind (of_option (Exn KeyError pack) (map_of (state_by_pack s) pack)) (\<lambda>st.
     rbind (rmap (claim_document s pack st) (sorted_set (set (map fst (claims st))))) (\<lambda>cs.
     rbind (rmap (relation_document s pack st) (sorted_set (set (map fst (relations st))))) (\<lambda>rs.
       Inr (cs @ rs))))"

definition document_key :: "dict \<Rightarrow> string list" where
  "document_key d = [py_str (dget d ''pack_id''), py_str (dget d ''id'')]"

definition retrieval_documents ::
  "fixture_config \<Rightarrow> (string \<Rightarrow> fs) \<Rightarrow> string list \<Rightarrow> string option \<Rightarrow> dict list res" where
  "retrieval_documents cfg disk roots as_of =
     rbind (validate_pack_fixtures cfg disk roots) (\<lambda>_.
     rbind (rfold (scan_root disk as_of) empty_corpus roots) (\<lambda>s.
     rbind (rmap (pack_documents s) (sorted_set (set (map fst (events_by_pack s))))) (\<lambda>dss.
       Inr (sort_key document_key (concat dss)))))"

section \<open>Historical reconstruction\<close>

definition known_by :: "string \<Rightarrow> dict \<Rightarrow> bool" where
  "known_by t e \<longleftrightarrow> py_str (dget e ''recorded_at'') \<le> t"

text \<open>With a cutoff the same files are read, and the later events are left out.\<close>

lemma root_events_cutoff:
  assumes "root_events d None acc rel = Inr evs" and "\<forall>e \<in> set evs. map_of e ''recorded_at'' \<noteq> None"
  shows "root_events d (Some t) (filter (known_by t) acc) rel = Inr (filter (known_by t) evs) \<and> set acc \<subseteq> set evs"
proof -
  let ?F = "\<lambda>as_of acc p. rbind (load_object d p) (\<lambda>event.
         rbind (case as_of of None \<Rightarrow> Inr False
                | Some cutoff \<Rightarrow> rbind (dindex event ''recorded_at'') (\<lambda>t. Inr (cutoff < py_str t))) (\<lambda>late.
           Inr (if late then acc else acc @ [event])))"
  have "rfold (?F None) acc ps = Inr evs \<Longrightarrow> (\<forall>e \<in> set evs. map_of e ''recorded_at'' \<noteq> None) \<Longrightarrow>
    rfold (?F (Some t)) (filter (known_by t) acc) ps = Inr (filter (known_by t) evs) \<and> set acc \<subseteq> set evs" for ps
  proof (induction ps arbitrary: acc)
    case (Cons p ps)
    from Cons.prems(1) obtain e where e: "load_object d p = Inr e" "rfold (?F None) (acc @ [e]) ps = Inr evs" by auto
    note ih = Cons.IH [OF e(2) Cons.prems(2)]
    then have "e \<in> set evs" by simp
    with Cons.prems(2) obtain v where v: "map_of e ''recorded_at'' = Some v" by auto
    have "?F (Some t) (filter (known_by t) acc) p = Inr (filter (known_by t) (acc @ [e]))"
      using e(1) v by (simp add: known_by_def dget_def not_less dindex_def)
    then have "rfold (?F (Some t)) (filter (known_by t) acc) (p # ps) = rfold (?F (Some t)) (filter (known_by t) (acc @ [e])) ps"
      by (simp only: rfold.simps rbind.simps)
    with ih show ?case by (simp only: set_append) blast
  qed simp
  from this [OF assms(1) [unfolded root_events_def] assms(2)] show ?thesis by (simp add: root_events_def)
qed

lemma roots_events_cutoff:
  assumes "rfold (root_events d None) acc rels = Inr evs" and "\<forall>e \<in> set evs. map_of e ''recorded_at'' \<noteq> None"
  shows "rfold (root_events d (Some t)) (filter (known_by t) acc) rels = Inr (filter (known_by t) evs) \<and> set acc \<subseteq> set evs"
  using assms
proof (induction rels arbitrary: acc)
  case (Cons r rels)
  from Cons.prems(1) obtain m where m: "root_events d None acc r = Inr m" "rfold (root_events d None) m rels = Inr evs" by auto
  note ih = Cons.IH [OF m(2) Cons.prems(2)]
  with root_events_cutoff [OF m(1), of t] Cons.prems(2) show ?case by (auto simp del: filter_append)
qed simp

text \<open>Sorting by the key, and its restriction to the events before the cutoff.\<close>

definition key_of :: "dict \<Rightarrow> string list" where
  "key_of e = [py_str (dget e ''recorded_at''), py_str (dget e ''event_id'')]"

lemma event_key_Inr: "event_key e = Inr k \<Longrightarrow> k = key_of e \<and> map_of e ''recorded_at'' \<noteq> None \<and> map_of e ''event_id'' \<noteq> None"
  by (auto simp: event_key_def key_of_def dget_def)

lemma event_key_ok: "map_of e ''recorded_at'' \<noteq> None \<Longrightarrow> map_of e ''event_id'' \<noteq> None \<Longrightarrow> event_key e = Inr (key_of e)"
  by (auto simp: event_key_def key_of_def dget_def dindex_def)

lemma map_snd_sort_pairs: "map snd (sort_key fst (map (\<lambda>e. (f e, e)) xs)) = sort_key f xs"
proof -
  have pairs: "sort_key fst (map (\<lambda>e. (f e, e)) xs) = map (\<lambda>e. (f e, e)) (sort_key f xs)"
  proof (induction xs)
    case (Cons x xs)
    have "insort_key fst (f x, x) (map (\<lambda>e. (f e, e)) ys) = map (\<lambda>e. (f e, e)) (insort_key f x ys)" for ys
      by (induction ys) auto
    with Cons show ?case by simp
  qed simp
  show ?thesis unfolding pairs by (simp add: comp_def)
qed

lemma sort_events_iff:
  "sort_events evs = Inr s \<longleftrightarrow>
     (\<forall>e \<in> set evs. map_of e ''recorded_at'' \<noteq> None \<and> map_of e ''event_id'' \<noteq> None) \<and> s = sort_key key_of evs"
proof -
  have "rmap (\<lambda>e. rbind (event_key e) (\<lambda>k. Inr (k, e))) evs = Inr (map (\<lambda>e. (key_of e, e)) evs)"
    if "\<forall>e \<in> set evs. map_of e ''recorded_at'' \<noteq> None \<and> map_of e ''event_id'' \<noteq> None"
    by (rule rmap_cong_pure) (use that event_key_ok in simp)
  moreover have "\<forall>e \<in> set evs. map_of e ''recorded_at'' \<noteq> None \<and> map_of e ''event_id'' \<noteq> None"
    if "rmap (\<lambda>e. rbind (event_key e) (\<lambda>k. Inr (k, e))) evs = Inr ks" for ks
    using that event_key_Inr by (auto simp: rmap_Inr_iff in_set_conv_nth) blast+
  ultimately show ?thesis by (auto simp: sort_events_def map_snd_sort_pairs)
qed

lemma key_of_known: "key_of x \<le> key_of y \<Longrightarrow> known_by t y \<Longrightarrow> known_by t x"
  by (auto simp: key_of_def known_by_def)

lemma sorted_filter_prefix:
  assumes "sorted (map key_of xs)"
  shows "xs = filter (known_by t) xs @ filter (\<lambda>x. \<not> known_by t x) xs"
  using assms
proof (induction xs)
  case (Cons x xs)
  show ?case
  proof (cases "known_by t x")
    case True
    then show ?thesis using Cons by simp
  next
    case False
    then have "filter (known_by t) xs = []" using Cons.prems key_of_known by (auto simp: filter_empty_conv)
    then show ?thesis using False Cons by (simp add: filter_empty_conv)
  qed
qed simp

lemma events_for_pack_cutoff:
  assumes "events_for_pack d m None = Inr evs"
  shows "\<exists>rest. events_for_pack d m (Some t) = Inr (filter (known_by t) evs) \<and> evs = filter (known_by t) evs @ rest"
proof -
  from assms obtain rv rels all where r: "map_of m ''event_roots'' = Some rv" "py_iter rv = Inr rels"
    "rfold (root_events d None) [] rels = Inr all" "sort_events all = Inr evs" by (auto simp: events_for_pack_def)
  note s = r(4) [unfolded sort_events_iff]
  from roots_events_cutoff [OF r(3), of t] s have "rfold (root_events d (Some t)) [] rels = Inr (filter (known_by t) all)" by simp
  moreover have "sort_events (filter (known_by t) all) = Inr (filter (known_by t) evs)"
    unfolding sort_events_iff using s by (simp add: filter_sort)
  ultimately have "events_for_pack d m (Some t) = Inr (filter (known_by t) evs)"
    using r(1,2) by (simp add: events_for_pack_def)
  moreover have "sorted (map key_of evs)" using s by simp
  ultimately show ?thesis using sorted_filter_prefix [of evs t] by blast
qed

text \<open>Along a replay, relations keep their type and endpoints.\<close>

definition relations_kept :: "knowledge_state \<Rightarrow> knowledge_state \<Rightarrow> bool" where
  "relations_kept st st' \<longleftrightarrow> (\<forall>k r. map_of (relations st) k = Some r \<longrightarrow>
     (\<exists>r'. map_of (relations st') k = Some r' \<and> relation_type r' = relation_type r \<and> source_ref r' = source_ref r \<and> target_ref r' = target_ref r))"

lemma relations_kept_refl [simp]: "relations_kept st st"
  by (simp add: relations_kept_def)

lemma relations_kept_trans: "relations_kept a b \<Longrightarrow> relations_kept b c \<Longrightarrow> relations_kept a c"
  unfolding relations_kept_def by metis

lemma relations_same: "relations st' = relations st \<Longrightarrow> relations_kept st st'"
  by (simp add: relations_kept_def)

lemma apply_kind_relations:
  assumes "apply_kind st kind payload subject = Inr st'"
  shows "relations_kept st st'"
proof -
  consider "kind = JStr ''claim.proposed''" | "kind = JStr ''claim.state_changed''"
    | "kind = JStr ''claim.superseded''" | "kind = JStr ''relation.proposed''"
    | "kind \<noteq> JStr ''claim.proposed''" "kind \<noteq> JStr ''claim.state_changed''" "kind \<noteq> JStr ''claim.superseded''" "kind \<noteq> JStr ''relation.proposed''"
    by blast
  then show ?thesis
  proof cases
    case 1
    then show ?thesis using assms by (auto simp: apply_kind_def intro: relations_same)
  next
    case 2
    then show ?thesis using assms by (auto simp: apply_kind_def dest!: change_claim_step intro: relations_same)
  next
    case 3
    then obtain c exp s where "change_claim st c (JStr ''superseded'') exp = Inr s" "mark_dependents_stale s c = Inr st'"
      using assms by (auto simp: apply_kind_def)
    with change_claim_step mark_dependents_step have "relations st' = relations st" by metis
    then show ?thesis by (rule relations_same)
  next
    case 4
    then have "propose_relation st payload = Inr st'" using assms by (simp add: apply_kind_def)
    then show ?thesis by (elim propose_relation_Inr) (auto simp: relations_kept_def)
  next
    case 5
    then obtain b where b: "in_names kind [''relation.state_changed'', ''relation.superseded''] = Inr b"
      "(if b then rbind (key_str kind) (\<lambda>k. change_relation st k payload) else Inr st) = Inr st'"
      using assms by (auto simp: apply_kind_def)
    show ?thesis
    proof (cases b)
      case True
      with b(2) obtain k where "change_relation st k payload = Inr st'" by auto
      then show ?thesis by (elim change_relation_Inr) (auto simp: relations_kept_def)
    qed (use b in simp)
  qed
qed

lemma apply_event_relations: "apply_event st e = Inr st' \<Longrightarrow> relations_kept st st'"
  using apply_kind_relations by (auto simp: apply_event_def)

lemma replay_relations:
  assumes "rfold apply_event st es = Inr st'"
  shows "relations_kept st st'"
  using assms by (rule rfold_invariant [where P = "relations_kept st"]) (auto intro: relations_kept_trans apply_event_relations)

text \<open>Every claim and relation of a replayed state was proposed by one of the events.\<close>

lemma marks_keys:
  "rfold (mark_relation p) st rs = Inr st' \<Longrightarrow> map_of (claims st') c \<noteq> None \<Longrightarrow> map_of (claims st) c \<noteq> None"
  by (drule marks_claims [where c = c]) auto

lemma apply_event_keys:
  assumes "apply_event st e = Inr st'"
  shows "(map_of (claims st') c \<noteq> None \<longrightarrow> map_of (claims st) c \<noteq> None \<or> proposes_claim e c)
    \<and> (map_of (relations st') k \<noteq> None \<longrightarrow> map_of (relations st) k \<noteq> None \<or> proposes_relation e k)"
proof -
  from assms obtain kind payload refs subject where e: "map_of e ''event_type'' = Some kind" "map_of e ''payload'' = Some payload"
    "map_of e ''subject_refs'' = Some refs" "first_item refs = Inr subject" "apply_kind st kind payload subject = Inr st'"
    by (auto simp: apply_event_def)
  consider "kind = JStr ''claim.proposed''" | "kind = JStr ''claim.state_changed''"
    | "kind = JStr ''claim.superseded''" | "kind = JStr ''relation.proposed''"
    | "kind \<noteq> JStr ''claim.proposed''" "kind \<noteq> JStr ''claim.state_changed''" "kind \<noteq> JStr ''claim.superseded''" "kind \<noteq> JStr ''relation.proposed''"
    by blast
  then show ?thesis
  proof cases
    case 1
    then obtain x where x: "subject = JStr x" "claims st' = AList.update x ''proposed'' (claims st)" "relations st' = relations st"
      using e(5) by (auto simp: apply_kind_def)
    have "proposes_claim e x" using e 1 x by (simp add: proposes_claim_def)
    then show ?thesis using x by auto
  next
    case 2
    then obtain x v exp where "change_claim st x v exp = Inr st'" using e(5) by (auto simp: apply_kind_def)
    then show ?thesis by (elim change_claim_Inr) auto
  next
    case 3
    then obtain x exp s where s: "change_claim st x (JStr ''superseded'') exp = Inr s" "mark_dependents_stale s x = Inr st'"
      using e(5) by (auto simp: apply_kind_def)
    have "relations st' = relations st" using change_claim_step [OF s(1)] mark_dependents_step [OF s(2)] by simp
    moreover have "map_of (claims st') c \<noteq> None \<Longrightarrow> map_of (claims s) c \<noteq> None"
      using marks_keys s(2) unfolding mark_dependents_stale_def by blast
    moreover have "map_of (claims s) c \<noteq> None \<Longrightarrow> map_of (claims st) c \<noteq> None"
      using s(1) by (elim change_claim_Inr) (auto split: if_split_asm)
    ultimately show ?thesis by auto
  next
    case 4
    then have pr: "propose_relation st payload = Inr st'" using e(5) by (simp add: apply_kind_def)
    then obtain rv rid where "index payload ''relation_id'' = Inr rv" "key_str rv = Inr rid"
      by (auto simp: propose_relation_def)
    then have p: "proposes_relation e rid" "index payload ''relation_id'' = Inr (JStr rid)"
      using e(1,2) 4 by (auto simp: proposes_relation_def key_str_def split: json.split_asm)
    then have "claims st' = claims st \<and> (\<exists>r. relations st' = AList.update rid r (relations st))"
      using pr by (auto simp: propose_relation_def)
    with p(1) show ?thesis by (auto split: if_split_asm)
  next
    case 5
    then obtain b where b: "in_names kind [''relation.state_changed'', ''relation.superseded''] = Inr b"
      "(if b then rbind (key_str kind) (\<lambda>k. change_relation st k payload) else Inr st) = Inr st'"
      using e(5) by (auto simp: apply_kind_def)
    show ?thesis
    proof (cases b)
      case True
      with b(2) obtain k where "change_relation st k payload = Inr st'" by auto
      then show ?thesis by (elim change_relation_Inr) auto
    qed (use b in simp)
  qed
qed

lemma replay_keys:
  assumes "rfold apply_event st es = Inr st'"
  shows "(map_of (claims st') c \<noteq> None \<longrightarrow> map_of (claims st) c \<noteq> None \<or> (\<exists>e \<in> set es. proposes_claim e c))
    \<and> (map_of (relations st') k \<noteq> None \<longrightarrow> map_of (relations st) k \<noteq> None \<or> (\<exists>e \<in> set es. proposes_relation e k))"
  using assms
proof (rule rfold_invariant)
  fix s e s' assume "e \<in> set es" and
    "(map_of (claims s) c \<noteq> None \<longrightarrow> map_of (claims st) c \<noteq> None \<or> (\<exists>e \<in> set es. proposes_claim e c))
    \<and> (map_of (relations s) k \<noteq> None \<longrightarrow> map_of (relations st) k \<noteq> None \<or> (\<exists>e \<in> set es. proposes_relation e k))"
    and "apply_event s e = Inr s'"
  with apply_event_keys [of s e s' c k]
  show "(map_of (claims s') c \<noteq> None \<longrightarrow> map_of (claims st) c \<noteq> None \<or> (\<exists>e \<in> set es. proposes_claim e c))
    \<and> (map_of (relations s') k \<noteq> None \<longrightarrow> map_of (relations st) k \<noteq> None \<or> (\<exists>e \<in> set es. proposes_relation e k))" by blast
qed simp

text \<open>The scan of a list of events: what it adds, and that it depends on each event alone.\<close>

definition scannable :: "dict \<Rightarrow> bool" where
  "scannable e \<longleftrightarrow> is_ok (scan_event empty_corpus e)"

lemma is_ok_rbind_iff: "is_ok (rbind r f) \<longleftrightarrow> (\<exists>x. r = Inr x \<and> is_ok (f x))"
  by (cases r) simp_all

lemma scan_event_ok: "is_ok (scan_event s e) = scannable e"
  by (simp add: scannable_def scan_event_def is_ok_rbind_iff if_distrib [where f = is_ok] cong: if_cong)

definition scan_keeps :: "corpus_scan \<Rightarrow> corpus_scan \<Rightarrow> bool" where
  "scan_keeps s s' \<longleftrightarrow> events_by_pack s' = events_by_pack s \<and> state_by_pack s' = state_by_pack s
     \<and> (\<forall>c. map_of (claim_event s) c \<noteq> None \<longrightarrow> map_of (claim_event s') c \<noteq> None)
     \<and> (\<forall>c. map_of (claim_text s) c \<noteq> None \<longrightarrow> map_of (claim_text s') c \<noteq> None)
     \<and> (\<forall>i. map_of (relation_event s) i \<noteq> None \<longrightarrow> map_of (relation_event s') i \<noteq> None)"

definition scan_drawn :: "(dict \<Rightarrow> bool) \<Rightarrow> corpus_scan \<Rightarrow> bool" where
  "scan_drawn G s \<longleftrightarrow> (\<forall>c e. map_of (claim_event s) c = Some e \<longrightarrow> G e) \<and> (\<forall>i e. map_of (relation_event s) i = Some e \<longrightarrow> G e)"

lemma scan_event_cases:
  assumes "scan_event s e = Inr s'"
  obtains (claim) c t where "s' = s\<lparr>claim_text := AList.update c t (claim_text s), claim_event := AList.update c e (claim_event s)\<rparr>"
      "\<And>x. proposes_claim e x \<longleftrightarrow> x = c" "\<And>x. \<not> proposes_relation e x"
  | (relation) i where "s' = s\<lparr>relation_event := AList.update i e (relation_event s)\<rparr>"
      "\<And>x. \<not> proposes_claim e x" "\<And>x. proposes_relation e x \<longleftrightarrow> x = i"
  | (other) "s' = s" "\<And>x. \<not> proposes_claim e x" "\<And>x. \<not> proposes_relation e x"
proof -
  from assms obtain kind where k: "map_of e ''event_type'' = Some kind" by (auto simp: scan_event_def)
  consider "kind = JStr ''claim.proposed''" | "kind = JStr ''relation.proposed''"
    | "kind \<noteq> JStr ''claim.proposed''" "kind \<noteq> JStr ''relation.proposed''" by blast
  then show thesis
  proof cases
    case 1
    then obtain rs cv pl tv where p: "map_of e ''subject_refs'' = Some rs" "first_item rs = Inr cv"
      "s' = s\<lparr>claim_text := AList.update (py_str cv) (py_str tv) (claim_text s), claim_event := AList.update (py_str cv) e (claim_event s)\<rparr>"
      using assms k by (auto simp: scan_event_def)
    show thesis by (rule claim [OF p(3)]) (use p k 1 in \<open>auto simp: proposes_claim_def proposes_relation_def\<close>)
  next
    case 2
    then obtain pl rv where p: "map_of e ''payload'' = Some pl" "index pl ''relation_id'' = Inr rv"
      "s' = s\<lparr>relation_event := AList.update (py_str rv) e (relation_event s)\<rparr>"
      using assms k by (auto simp: scan_event_def)
    show thesis by (rule relation [OF p(3)]) (use p k 2 in \<open>auto simp: proposes_claim_def proposes_relation_def\<close>)
  next
    case 3
    then show thesis using assms k by (intro other) (auto simp: scan_event_def proposes_claim_def proposes_relation_def)
  qed
qed

lemma scan_event_step:
  assumes "scan_event s e = Inr s'"
  shows "scan_keeps s s' \<and> (G e \<longrightarrow> scan_drawn G s \<longrightarrow> scan_drawn G s')
    \<and> (\<forall>c. proposes_claim e c \<longrightarrow> map_of (claim_event s') c \<noteq> None \<and> map_of (claim_text s') c \<noteq> None)
    \<and> (\<forall>i. proposes_relation e i \<longrightarrow> map_of (relation_event s') i \<noteq> None)"
  using assms by (cases rule: scan_event_cases) (auto simp: scan_keeps_def scan_drawn_def)

lemma scan_keeps_refl [simp]: "scan_keeps s s"
  by (simp add: scan_keeps_def)

lemma scan_keeps_trans: "scan_keeps s t \<Longrightarrow> scan_keeps t u \<Longrightarrow> scan_keeps s u"
  by (simp add: scan_keeps_def)

lemma scan_events_step:
  assumes "rfold scan_event s es = Inr s'"
  shows "scan_keeps s s' \<and> ((\<forall>e \<in> set es. G e) \<longrightarrow> scan_drawn G s \<longrightarrow> scan_drawn G s')
    \<and> (\<forall>c. (\<exists>e \<in> set es. proposes_claim e c) \<longrightarrow> map_of (claim_event s') c \<noteq> None \<and> map_of (claim_text s') c \<noteq> None)
    \<and> (\<forall>i. (\<exists>e \<in> set es. proposes_relation e i) \<longrightarrow> map_of (relation_event s') i \<noteq> None)"
  using assms
proof (induction es arbitrary: s)
  case (Cons e es)
  from Cons.prems obtain m where m: "scan_event s e = Inr m" "rfold scan_event m es = Inr s'" by auto
  note one = scan_event_step [OF m(1), of G] and rest = Cons.IH [OF m(2)]
  from one rest have "scan_keeps s s'" using scan_keeps_trans by blast
  moreover have "(\<forall>e \<in> set (e # es). G e) \<longrightarrow> scan_drawn G s \<longrightarrow> scan_drawn G s'" using one rest by auto
  moreover have "\<forall>c. (\<exists>e \<in> set (e # es). proposes_claim e c) \<longrightarrow> map_of (claim_event s') c \<noteq> None \<and> map_of (claim_text s') c \<noteq> None"
  proof (intro allI impI)
    fix c assume "\<exists>e \<in> set (e # es). proposes_claim e c"
    then consider "proposes_claim e c" | "\<exists>e \<in> set es. proposes_claim e c" by auto
    then show "map_of (claim_event s') c \<noteq> None \<and> map_of (claim_text s') c \<noteq> None"
    proof cases
      case 1
      with one have "map_of (claim_event m) c \<noteq> None \<and> map_of (claim_text m) c \<noteq> None" by blast
      with rest show ?thesis unfolding scan_keeps_def by blast
    qed (use rest in blast)
  qed
  moreover have "\<forall>i. (\<exists>e \<in> set (e # es). proposes_relation e i) \<longrightarrow> map_of (relation_event s') i \<noteq> None"
  proof (intro allI impI)
    fix i assume "\<exists>e \<in> set (e # es). proposes_relation e i"
    then consider "proposes_relation e i" | "\<exists>e \<in> set es. proposes_relation e i" by auto
    then show "map_of (relation_event s') i \<noteq> None"
    proof cases
      case 1
      with one have "map_of (relation_event m) i \<noteq> None" by blast
      with rest show ?thesis unfolding scan_keeps_def by blast
    qed (use rest in blast)
  qed
  ultimately show ?case by blast
qed simp

lemma scan_events_ok: "is_ok (rfold scan_event s es) \<longleftrightarrow> (\<forall>e \<in> set es. scannable e)"
proof (induction es arbitrary: s)
  case (Cons e es)
  show ?case
  proof (cases "scan_event s e")
    case (Inl x)
    then show ?thesis using scan_event_ok [of s e] by simp
  next
    case (Inr m)
    then show ?thesis using scan_event_ok [of s e] Cons.IH [of m] by simp
  qed
qed simp

lemma rmap_ok_iff: "is_ok (rmap f xs) \<longleftrightarrow> (\<forall>x \<in> set xs. is_ok (f x))"
  by (induction xs) (auto simp: is_ok_rbind_iff is_ok_iff)

lemma rmap_member: "rmap f xs = Inr ys \<Longrightarrow> x \<in> set xs \<Longrightarrow> \<exists>y \<in> set ys. f x = Inr y"
  by (auto simp: rmap_Inr_iff in_set_conv_nth)

text \<open>What is read of a document.\<close>

definition describes :: "dict \<Rightarrow> string \<Rightarrow> string \<Rightarrow> string \<Rightarrow> string list \<Rightarrow> dict \<Rightarrow> bool" where
  "describes d i pack kind history e \<longleftrightarrow> dget d ''id'' = JStr i \<and> dget d ''pack_id'' = JStr pack
     \<and> dget d ''document_type'' = JStr kind \<and> dget d ''state_history'' = strs history
     \<and> dget d ''proposed_event_id'' = JStr (event_name e)"

definition documentable :: "dict \<Rightarrow> bool" where
  "documentable e \<longleftrightarrow> map_of e ''event_id'' \<noteq> None \<and> is_ok (py_iter (dget_or e ''evidence_refs'' (JArr [])))
     \<and> is_ok (py_iter (dget_or e ''source_snapshot_refs'' (JArr []))) \<and> is_ok (event_citation e)"

lemma provenance_fields_Inr:
  assumes "provenance_fields cur h e = Inr fs"
  shows "\<exists>a b. fs = [(''current_state'', JStr cur), (''state_history'', strs h), (''proposed_event_id'', JStr (event_name e)),
     (''evidence_refs'', a), (''source_snapshot_refs'', b)]"
  using assms by (auto simp: provenance_fields_def event_name_def dget_def)

lemma provenance_fields_ok: "documentable e \<Longrightarrow> is_ok (provenance_fields cur h e)"
  by (auto simp: documentable_def provenance_fields_def str_list_def is_ok_rbind_iff is_ok_iff)

lemma claim_document_Inr:
  assumes "claim_document s pack st c = Inr d"
  shows "\<exists>h e. map_of (claim_history st) c = Some h \<and> map_of (claim_event s) c = Some e \<and> describes d c pack ''claim'' h e"
proof -
  from assms obtain h e cur tx fs cit where p: "map_of (claim_event s) c = Some e" "map_of (claim_history st) c = Some h"
    "provenance_fields cur h e = Inr fs"
    "d = [(''id'', JStr c), (''pack_id'', JStr pack), (''text'', JStr tx), (''document_type'', JStr ''claim'')]
            @ fs @ (if is_obj cit then [(''citation'', cit)] else [])"
    by (auto simp: claim_document_def)
  from provenance_fields_Inr [OF p(3)] obtain a b where "fs = [(''current_state'', JStr cur), (''state_history'', strs h),
     (''proposed_event_id'', JStr (event_name e)), (''evidence_refs'', a), (''source_snapshot_refs'', b)]" by blast
  with p(4) have "describes d c pack ''claim'' h e" by (simp add: describes_def dget_def)
  with p(1,2) show ?thesis by blast
qed

lemma relation_document_Inr:
  assumes "relation_document s pack st i = Inr d"
  shows "\<exists>r h e. map_of (relations st) i = Some r \<and> hashable (source_ref r) \<and> hashable (target_ref r)
     \<and> map_of (relation_history st) i = Some h \<and> map_of (relation_event s) i = Some e \<and> describes d i pack ''relation'' h e"
proof -
  from assms obtain r h e x y fs where p: "map_of (relations st) i = Some r" "map_of (relation_event s) i = Some e"
    "hashable (source_ref r)" "hashable (target_ref r)"
    "map_of (relation_history st) i = Some h" "provenance_fields (rel_state r) h e = Inr fs"
    "d = [(''id'', JStr i), (''pack_id'', JStr pack), (''text'', JStr x), (''document_type'', JStr ''relation''),
          (''relation_type'', JStr (relation_type r)), (''source_ref'', source_ref r), (''target_ref'', target_ref r)] @ fs"
    by (auto simp: relation_document_def ref_text_def)
  from provenance_fields_Inr [OF p(6)] obtain a b where "fs = [(''current_state'', JStr (rel_state r)), (''state_history'', strs h),
     (''proposed_event_id'', JStr (event_name e)), (''evidence_refs'', a), (''source_snapshot_refs'', b)]" by blast
  with p(7) have "describes d i pack ''relation'' h e" by (simp add: describes_def dget_def)
  with p show ?thesis by blast
qed

definition covered :: "corpus_scan \<Rightarrow> knowledge_state \<Rightarrow> bool" where
  "covered s st \<longleftrightarrow> (\<forall>c. map_of (claims st) c \<noteq> None \<longrightarrow> map_of (claim_event s) c \<noteq> None \<and> map_of (claim_text s) c \<noteq> None)
     \<and> (\<forall>i. map_of (relations st) i \<noteq> None \<longrightarrow> map_of (relation_event s) i \<noteq> None)"

lemma covered_keeps: "scan_keeps s s' \<Longrightarrow> covered s st \<Longrightarrow> covered s' st"
  unfolding scan_keeps_def covered_def by blast

lemma knowledge_histories:
  assumes "knowledge_ok st"
  shows "map_of (claims st) c = Some v \<Longrightarrow> \<exists>h. map_of (claim_history st) c = Some h"
    "map_of (relations st) i = Some r \<Longrightarrow> \<exists>h. map_of (relation_history st) i = Some h"
  using assms tracked_history_Some [of "claims st"] tracked_history_Some [of "relation_states st" "relation_history st" RELATION_STATES i "rel_state r"]
  by (auto simp: knowledge_ok_def map_of_relation_states)

lemma claim_document_ok:
  assumes "covered s st" "scan_drawn G s" "knowledge_ok st" "\<And>e. G e \<Longrightarrow> documentable e" "map_of (claims st) c = Some v"
  shows "is_ok (claim_document s pack st c)"
proof -
  from assms(1,5) obtain e tx where e: "map_of (claim_event s) c = Some e" "map_of (claim_text s) c = Some tx"
    by (auto simp: covered_def)
  with assms(2,4) have d: "documentable e" by (auto simp: scan_drawn_def)
  from knowledge_histories(1) [OF assms(3,5)] obtain h where "map_of (claim_history st) c = Some h" ..
  then show ?thesis using e assms(5) provenance_fields_ok [OF d] d
    by (auto simp: claim_document_def is_ok_rbind_iff documentable_def dest!: is_ok_iff [THEN iffD1])
qed

lemma relation_document_ok:
  assumes "covered s st" "scan_drawn G s" "knowledge_ok st" "\<And>e. G e \<Longrightarrow> documentable e" "map_of (relations st) i = Some r"
    "hashable (source_ref r)" "hashable (target_ref r)"
  shows "is_ok (relation_document s pack st i)"
proof -
  from assms(1,5) obtain e where e: "map_of (relation_event s) i = Some e" by (auto simp: covered_def)
  with assms(2,4) have d: "documentable e" by (auto simp: scan_drawn_def)
  from knowledge_histories(2) [OF assms(3,5)] obtain h where "map_of (relation_history st) i = Some h" ..
  then show ?thesis using e assms(5-7) provenance_fields_ok [OF d]
    by (auto simp: relation_document_def is_ok_rbind_iff ref_text_def dest!: is_ok_iff [THEN iffD1])
qed

definition document_extends :: "(dict \<Rightarrow> bool) \<Rightarrow> dict \<Rightarrow> dict \<Rightarrow> bool" where
  "document_extends G early late \<longleftrightarrow>
     (\<exists>i pack kind h k e e'. G e \<and> describes early i pack kind h e \<and> describes late i pack kind (h @ k) e')"

lemma pack_documents_extend:
  assumes c: "covered s' st'" "scan_drawn G s'" "knowledge_ok st'" and G: "\<And>e. G e \<Longrightarrow> documentable e"
    and ext: "knowledge_ok st" "knowledge_grows st' st" "relations_kept st' st"
    and st: "map_of (state_by_pack s') pack = Some st'" "map_of (state_by_pack s) pack = Some st"
    and docs: "pack_documents s pack = Inr ds"
  shows "\<exists>ds'. pack_documents s' pack = Inr ds' \<and> (\<forall>d' \<in> set ds'. \<exists>d \<in> set ds. document_extends G d' d)"
proof -
  from docs st(2) obtain cs rs where p: "rmap (claim_document s pack st) (sorted_set (set (map fst (claims st)))) = Inr cs"
    "rmap (relation_document s pack st) (sorted_set (set (map fst (relations st)))) = Inr rs" "ds = cs @ rs"
    by (auto simp: pack_documents_def)
  have claim: "is_ok (claim_document s' pack st' c) \<and> (\<forall>d'. claim_document s' pack st' c = Inr d' \<longrightarrow> (\<exists>d \<in> set cs. document_extends G d' d))"
    if c': "c \<in> set (map fst (claims st'))" for c
  proof -
    from c' obtain v where v: "map_of (claims st') c = Some v" by (metis map_of_eq_None_set list.set_map not_Some_eq)
    from knowledge_histories(1) [OF c(3) v] obtain h where h: "map_of (claim_history st') c = Some h" ..
    with ext(2) obtain k where k: "map_of (claim_history st) c = Some (h @ k)" unfolding knowledge_grows_def grows_def by blast
    have "map_of (claims st) c \<noteq> None" using ext(1) k by (auto simp: knowledge_ok_def tracked_def tracked_at_def dest: spec [of _ c])
    then have "c \<in> set (sorted_set (set (map fst (claims st))))" by (simp add: map_of_eq_None_set)
    from rmap_member [OF p(1) this] obtain d where d: "d \<in> set cs" "claim_document s pack st c = Inr d" by blast
    from claim_document_Inr [OF d(2)] k obtain e' where e': "describes d c pack ''claim'' (h @ k) e'" by auto
    have "document_extends G d' d" if d': "claim_document s' pack st' c = Inr d'" for d'
    proof -
      from claim_document_Inr [OF d'] h obtain e where "map_of (claim_event s') c = Some e" "describes d' c pack ''claim'' h e" by auto
      with c(2) e' show ?thesis unfolding document_extends_def scan_drawn_def by blast
    qed
    with d(1) claim_document_ok [OF c G v] show ?thesis by blast
  qed
  have relation: "is_ok (relation_document s' pack st' i) \<and> (\<forall>d'. relation_document s' pack st' i = Inr d' \<longrightarrow> (\<exists>d \<in> set rs. document_extends G d' d))"
    if i': "i \<in> set (map fst (relations st'))" for i
  proof -
    from i' obtain r where r: "map_of (relations st') i = Some r" by (metis map_of_eq_None_set list.set_map not_Some_eq)
    from knowledge_histories(2) [OF c(3) r] obtain h where h: "map_of (relation_history st') i = Some h" ..
    with ext(2) obtain k where k: "map_of (relation_history st) i = Some (h @ k)" unfolding knowledge_grows_def grows_def by blast
    from ext(3) r obtain r1 where r1: "map_of (relations st) i = Some r1" "source_ref r1 = source_ref r" "target_ref r1 = target_ref r"
      by (auto simp: relations_kept_def)
    then have "i \<in> set (sorted_set (set (map fst (relations st))))" by (simp add: map_of_Some_key)
    from rmap_member [OF p(2) this] obtain d where d: "d \<in> set rs" "relation_document s pack st i = Inr d" by blast
    from relation_document_Inr [OF d(2)] k r1 obtain e' where e': "describes d i pack ''relation'' (h @ k) e'"
      and hs: "hashable (source_ref r)" "hashable (target_ref r)" by auto
    have "document_extends G d' d" if d': "relation_document s' pack st' i = Inr d'" for d'
    proof -
      from relation_document_Inr [OF d'] h obtain e where "map_of (relation_event s') i = Some e" "describes d' i pack ''relation'' h e" by auto
      with c(2) e' show ?thesis unfolding document_extends_def scan_drawn_def by blast
    qed
    with d(1) relation_document_ok [OF c G r hs] show ?thesis by blast
  qed
  have "is_ok (rmap (claim_document s' pack st') (sorted_set (set (map fst (claims st')))))"
    unfolding rmap_ok_iff using claim by simp
  then obtain cs' where cs': "rmap (claim_document s' pack st') (sorted_set (set (map fst (claims st')))) = Inr cs'" by (rule is_okE)
  have "is_ok (rmap (relation_document s' pack st') (sorted_set (set (map fst (relations st')))))"
    unfolding rmap_ok_iff using relation by simp
  then obtain rs' where rs': "rmap (relation_document s' pack st') (sorted_set (set (map fst (relations st')))) = Inr rs'" by (rule is_okE)
  have "\<exists>d \<in> set ds. document_extends G d' d" if "d' \<in> set (cs' @ rs')" for d'
  proof -
    from that consider "d' \<in> set cs'" | "d' \<in> set rs'" by auto
    then show ?thesis
    proof cases
      case 1
      with rmap_Inr_set [OF cs'] obtain c where "c \<in> set (map fst (claims st'))" "claim_document s' pack st' c = Inr d'" by auto
      with claim obtain d where "d \<in> set cs" "document_extends G d' d" by blast
      then show ?thesis using p(3) by auto
    next
      case 2
      with rmap_Inr_set [OF rs'] obtain i where "i \<in> set (map fst (relations st'))" "relation_document s' pack st' i = Inr d'" by auto
      with relation obtain d where "d \<in> set rs" "document_extends G d' d" by blast
      then show ?thesis using p(3) by auto
    qed
  qed
  with cs' rs' st(1) show ?thesis by (auto simp: pack_documents_def)
qed

text \<open>The corpus reads the events that the audit read, in every root.\<close>

lemma load_fixture_object:
  assumes "load_fixture d p = Inr m"
  shows "load_object d p = Inr m"
proof -
  from assms obtain bytes t v where l: "map_of d p = Some bytes" "decode_utf8 bytes = Inr t" "loads t = Some v"
    "(case v of JObj m \<Rightarrow> Inr m | _ \<Rightarrow> Inl (fixture_error ''fixture must contain a JSON object: '')) = Inr m"
    unfolding load_fixture_def rbind_Inr_iff of_option_Inr_iff by blast
  then have "v = JObj m" by (cases v) auto
  with l show ?thesis by (simp add: load_object_def read_file_def parse_json_def)
qed

lemma read_event_root_events:
  assumes "read_event_root cfg d i a seen rel = Inr seen'"
  shows "root_events d None (map snd seen) rel = Inr (map snd seen')"
proof -
  let ?F = "\<lambda>acc p. rbind (load_object d p) (\<lambda>event.
         rbind (case None of None \<Rightarrow> Inr False
                | Some cutoff \<Rightarrow> rbind (dindex event ''recorded_at'') (\<lambda>t. Inr (cutoff < py_str t))) (\<lambda>late.
           Inr (if late then acc else acc @ [event])))"
  have step: "?F (map snd seen) p = Inr (map snd seen')" if r: "read_event cfg d i a root seen p = Inr seen'" for root seen seen' p
  proof -
    from r obtain e iv where "load_fixture d p = Inr e" "seen' = seen @ [(iv, e)]" by (auto simp: read_event_def Let_def)
    then show ?thesis using load_fixture_object by simp
  qed
  have "rfold (read_event cfg d i a root) seen ps = Inr seen' \<Longrightarrow> rfold ?F (map snd seen) ps = Inr (map snd seen')" for root ps
  proof (induction ps arbitrary: seen)
    case (Cons p ps)
    from Cons.prems obtain m where m: "read_event cfg d i a root seen p = Inr m" "rfold (read_event cfg d i a root) m ps = Inr seen'" by auto
    from step [OF m(1)] Cons.IH [OF m(2)] show ?case by (simp only: rfold.simps rbind.simps)
  qed simp
  with assms show ?thesis by (auto simp: read_event_root_def root_events_def Let_def)
qed

lemma read_events_corpus:
  assumes "read_events cfg d m = Inr evs" and "events_for_pack d m None = Inr s"
  shows "set s = set evs"
proof -
  from assms(1) obtain pv a rv rels seen where r: "map_of m ''event_roots'' = Some rv" "py_iter rv = Inr rels"
    "rfold (read_event_root cfg d (py_str pv) a) [] rels = Inr seen" "evs = map snd seen" by (auto simp: read_events_def)
  have "rfold (read_event_root cfg d i a) s0 rs = Inr seen \<Longrightarrow> rfold (root_events d None) (map snd s0) rs = Inr (map snd seen)" for i s0 rs
  proof (induction rs arbitrary: s0)
    case (Cons x rs)
    from Cons.prems obtain m where m: "read_event_root cfg d i a s0 x = Inr m" "rfold (read_event_root cfg d i a) m rs = Inr seen" by auto
    from read_event_root_events [OF m(1)] Cons.IH [OF m(2)] show ?case by simp
  qed simp
  from this [OF r(3)] have "rfold (root_events d None) [] rels = Inr evs" using r(4) by simp
  then have "sort_events evs = Inr s" using assms(2) r(1,2) by (simp add: events_for_pack_def)
  then show ?thesis by (simp add: sort_events_iff)
qed

lemma root_table_keys:
  assumes "root_table ms = Inr rbp" and "(r, m) \<in> set ms"
  shows "map_of rbp (py_str (dget m ''pack_id'')) \<noteq> None"
proof -
  let ?f = "\<lambda>m (r, manifest). rbind (dindex manifest ''pack_id'') (\<lambda>p. Inr (AList.update (py_str p) r m))"
  have "rfold ?f t xs = Inr rbp \<Longrightarrow> map_of t k \<noteq> None \<or> (\<exists>(r, m) \<in> set xs. py_str (dget m ''pack_id'') = k) \<Longrightarrow> map_of rbp k \<noteq> None" for t xs k
  proof (induction xs arbitrary: t)
    case (Cons x xs)
    obtain r m where x: "x = (r, m)" by (cases x)
    with Cons.prems(1) obtain p where p: "map_of m ''pack_id'' = Some p" "rfold ?f (AList.update (py_str p) r t) xs = Inr rbp" by auto
    have "map_of (AList.update (py_str p) r t) k \<noteq> None \<or> (\<exists>(r, m) \<in> set xs. py_str (dget m ''pack_id'') = k)"
      using Cons.prems(2) p(1) unfolding x by (auto simp: dget_def)
    from Cons.IH [OF p(2) this] show ?case .
  qed simp
  from this [OF assms(1) [unfolded root_table_def], of "py_str (dget m ''pack_id'')"] assms(2) show ?thesis by blast
qed

lemma read_packs_roots:
  assumes "read_packs cfg disk roots = Inr packs" and "r \<in> set roots"
  shows "\<exists>i pc. (i, pc) \<in> set packs \<and> pc_root pc = r"
proof -
  from assms(1) obtain ms catalog rbp where ms: "load_manifests_of disk roots = Inr ms"
    "validate_set (fx_pack cfg) (map snd ms) = Inr catalog" "root_table ms = Inr rbp"
    "rmap (read_pack cfg disk rbp) catalog = Inr packs"
    by (auto simp: read_packs_def root_table_def)
  from load_manifests_of_ok [OF ms(1)] assms(2) obtain m where m: "(r, m) \<in> set ms" by force
  from validate_set_sound [OF ms(2)] validate_catalog_sound
  have cat: "catalog_ok (fx_pack cfg) catalog" "map snd catalog = map snd ms" by blast+
  let ?pid = "\<lambda>m. py_str (dget m ''pack_id'')"
  have key: "?pid m' = i" if "(i, m') \<in> set catalog" for i m'
    using cat(1) that by (auto simp: catalog_ok_def dget_def)
  have "map fst catalog = map ?pid (map snd catalog)" unfolding map_map by (rule map_cong) (use key in auto)
  then have "map fst catalog = map (?pid \<circ> snd) ms" unfolding cat(2) by simp
  then have dist: "distinct (map (?pid \<circ> snd) ms)" using cat(1) by (simp add: catalog_ok_def)
  from m have "m \<in> set (map snd catalog)" unfolding cat(2) by force
  then obtain i where i: "(i, m) \<in> set catalog" by auto
  from root_table_keys [OF ms(3) m] key [OF i] obtain r' where r': "map_of rbp i = Some r'" by auto
  from root_table_ok [OF ms(3) r'] obtain m' p where m': "(r', m') \<in> set ms" "map_of m' ''pack_id'' = Some p" "i = py_str p" by blast
  then have "(?pid \<circ> snd) (r', m') = (?pid \<circ> snd) (r, m)" using key [OF i] by (simp add: dget_def)
  with dist m m'(1) have "(r', m') = (r, m)" unfolding distinct_map by (meson inj_onD)
  with r' have "map_of rbp i = Some r" by simp
  moreover from rmap_member [OF ms(4) i] obtain e where e: "e \<in> set packs" "read_pack cfg disk rbp (i, m) = Inr e" by blast
  ultimately have "pc_root (snd e) = r" by (auto simp: read_pack_def)
  moreover have "(fst e, snd e) \<in> set packs" using e(1) by simp
  ultimately show ?thesis by blast
qed

text \<open>The two scans, with and without the cutoff, side by side.\<close>

definition state_extends :: "knowledge_state \<Rightarrow> knowledge_state \<Rightarrow> bool" where
  "state_extends st' st \<longleftrightarrow> knowledge_ok st' \<and> knowledge_ok st \<and> knowledge_grows st' st \<and> relations_kept st' st"

definition scans_related :: "(dict \<Rightarrow> bool) \<Rightarrow> corpus_scan \<Rightarrow> corpus_scan \<Rightarrow> bool" where
  "scans_related G s' s \<longleftrightarrow> scan_drawn G s' \<and> fst ` set (events_by_pack s') = fst ` set (events_by_pack s)
     \<and> fst ` set (state_by_pack s) = fst ` set (events_by_pack s) \<and> fst ` set (state_by_pack s') = fst ` set (events_by_pack s)
     \<and> (\<forall>p st' st. map_of (state_by_pack s') p = Some st' \<longrightarrow> map_of (state_by_pack s) p = Some st \<longrightarrow> covered s' st' \<and> state_extends st' st)"

lemma scan_root_step:
  assumes R: "scans_related G s' s" and s: "scan_root disk None s r = Inr s1"
    and G: "\<And>m evs e. load_object (disk r) [''manifest.json''] = Inr m \<Longrightarrow> events_for_pack (disk r) m None = Inr evs \<Longrightarrow>
      e \<in> set evs \<Longrightarrow> known_by t e \<Longrightarrow> G e"
  shows "\<exists>s1'. scan_root disk (Some t) s' r = Inr s1' \<and> scans_related G s1' s1"
proof -
  let ?upd = "\<lambda>p evs st (s :: corpus_scan). s\<lparr>events_by_pack := AList.update (py_str p) evs (events_by_pack s),
            state_by_pack := AList.update (py_str p) st (state_by_pack s)\<rparr>"
  from s obtain m p evs st where p: "load_object (disk r) [''manifest.json''] = Inr m" "map_of m ''pack_id'' = Some p"
    "events_for_pack (disk r) m None = Inr evs" "replay evs = Inr st" "rfold scan_event (?upd p evs st s) evs = Inr s1"
    by (auto simp: scan_root_def)
  let ?evs = "filter (known_by t) evs"
  from events_for_pack_cutoff [OF p(3), of t] obtain rest where c: "events_for_pack (disk r) m (Some t) = Inr ?evs" "evs = ?evs @ rest" by blast
  from p(4) have "rfold apply_event empty_knowledge (?evs @ rest) = Inr st" unfolding replay_def using c(2) by simp
  then obtain st' where st': "rfold apply_event empty_knowledge ?evs = Inr st'" "rfold apply_event st' rest = Inr st"
    by (auto simp: rfold_append)
  have ok': "knowledge_ok st'" using lifecycle.run_ok [OF st'(1)] by simp
  then have ext: "state_extends st' st" unfolding state_extends_def
    using lifecycle.run_ok [OF st'(2)] replay_relations [OF st'(2)] by simp
  have "is_ok (rfold scan_event (?upd p evs st s) evs)" using p(5) by simp
  then have "\<forall>e \<in> set evs. scannable e" unfolding scan_events_ok .
  then have "is_ok (rfold scan_event (?upd p ?evs st' s') ?evs)" unfolding scan_events_ok by simp
  then obtain s1' where s1': "rfold scan_event (?upd p ?evs st' s') ?evs = Inr s1'" by (rule is_okE)
  then have run: "scan_root disk (Some t) s' r = Inr s1'"
    using p(1,2) c(1) st'(1) by (simp add: scan_root_def replay_def)
  note k1 = scan_events_step [OF p(5), of G] and k1' = scan_events_step [OF s1', of G]
  have "scan_drawn G (?upd p ?evs st' s')" using R by (simp add: scans_related_def scan_drawn_def)
  moreover have "\<forall>e \<in> set ?evs. G e" using G [OF p(1,3)] by simp
  ultimately have drawn: "scan_drawn G s1'" using k1' by blast
  have keep: "scan_keeps (?upd p evs st s) s1" "scan_keeps (?upd p ?evs st' s') s1'" using k1 k1' by blast+
  then have e: "events_by_pack s1 = AList.update (py_str p) evs (events_by_pack s)" "state_by_pack s1 = AList.update (py_str p) st (state_by_pack s)"
    "events_by_pack s1' = AList.update (py_str p) ?evs (events_by_pack s')" "state_by_pack s1' = AList.update (py_str p) st' (state_by_pack s')"
    by (simp_all add: scan_keeps_def)
  have claim: "map_of (claim_event s1') c \<noteq> None \<and> map_of (claim_text s1') c \<noteq> None" if "map_of (claims st') c \<noteq> None" for c
  proof -
    from replay_keys [OF st'(1), of c] that have "\<exists>e \<in> set ?evs. proposes_claim e c" by (simp add: empty_knowledge_def)
    with k1' show ?thesis by blast
  qed
  have relation: "map_of (relation_event s1') i \<noteq> None" if "map_of (relations st') i \<noteq> None" for i
  proof -
    from replay_keys [OF st'(1), of undefined i] that have "\<exists>e \<in> set ?evs. proposes_relation e i" by (simp add: empty_knowledge_def)
    with k1' show ?thesis by blast
  qed
  from claim relation have new: "covered s1' st'" unfolding covered_def by blast
  have old: "covered s1' x" if "covered s' x" for x
  proof -
    have "covered (?upd p ?evs st' s') x" using that by (simp add: covered_def)
    then show ?thesis by (rule covered_keeps [OF keep(2)])
  qed
  have "scans_related G s1' s1" unfolding scans_related_def e
  proof (intro conjI allI impI)
    show "scan_drawn G s1'" by (fact drawn)
    fix q x' x
    assume *: "map_of (AList.update (py_str p) st' (state_by_pack s')) q = Some x'" "map_of (AList.update (py_str p) st (state_by_pack s)) q = Some x"
    show "covered s1' x'" "state_extends x' x"
      using * R new old ext by (auto simp: scans_related_def split: if_split_asm)
  qed (use R in \<open>auto simp: scans_related_def dom_update\<close>)
  with run show ?thesis by blast
qed

lemma scan_roots:
  assumes "scans_related G s' s" and "rfold (scan_root disk None) s rs = Inr s1"
    and "\<And>r m evs e. r \<in> set rs \<Longrightarrow> load_object (disk r) [''manifest.json''] = Inr m \<Longrightarrow> events_for_pack (disk r) m None = Inr evs \<Longrightarrow>
      e \<in> set evs \<Longrightarrow> known_by t e \<Longrightarrow> G e"
  shows "\<exists>s1'. rfold (scan_root disk (Some t)) s' rs = Inr s1' \<and> scans_related G s1' s1"
  using assms
proof (induction rs arbitrary: s s')
  case (Cons r rs)
  from Cons.prems(2) obtain m where m: "scan_root disk None s r = Inr m" "rfold (scan_root disk None) m rs = Inr s1" by auto
  obtain m' where m': "scan_root disk (Some t) s' r = Inr m'" "scans_related G m' m"
    using scan_root_step [OF Cons.prems(1) m(1), where t = t] Cons.prems(3) by (metis list.set_intros(1))
  have "\<exists>s1'. rfold (scan_root disk (Some t)) m' rs = Inr s1' \<and> scans_related G s1' s1"
    by (rule Cons.IH [OF m'(2) m(2)]) (rule Cons.prems(3), simp_all)
  with m'(1) show ?case by simp
qed simp

definition audited_events :: "(string \<times> pack_contents) list \<Rightarrow> dict set" where
  "audited_events packs = (\<Union>(i, pc) \<in> set packs. set (pc_events pc))"

lemma audited_documentable:
  assumes v: "validate_pack_fixtures cfg disk roots = Inr audit" and r: "read_packs cfg disk roots = Inr packs"
    and e: "e \<in> audited_events packs"
  shows "documentable e"
proof -
  from v obtain packs' idx where p: "read_packs cfg disk roots = Inr packs'"
    and a: "\<forall>(i, pc) \<in> set packs'. \<exists>n. audit_pack cfg disk packs' idx (i, pc) = Inr n" by (rule validate_pack_fixtures_Inr)
  from p r have "packs' = packs" by simp
  note a = a [unfolded this]
  from e obtain i pc where pc: "(i, pc) \<in> set packs" "e \<in> set (pc_events pc)" by (auto simp: audited_events_def)
  with a obtain n where "audit_pack cfg disk packs idx (i, pc) = Inr n" by blast
  from audit_pack_Inr [OF this] pc(2) obtain k where "check_event cfg disk packs idx (pc_access pc) e = Inr k" by blast
  note ce = check_event_Inr [OF this]
  from read_packs_ok [OF r] pc have "event_intact cfg i (pc_access pc) e" by (auto simp: pack_intact_def)
  then have "map_of e ''event_id'' \<noteq> None" by (auto simp: event_intact_def)
  with ce show ?thesis by (auto simp: documentable_def)
qed

lemma corpus_events_audited:
  assumes r: "read_packs cfg disk roots = Inr packs" and "root \<in> set roots"
    and m: "load_object (disk root) [''manifest.json''] = Inr m" and evs: "events_for_pack (disk root) m None = Inr evs"
  shows "set evs \<subseteq> audited_events packs"
proof -
  from read_packs_roots [OF r assms(2)] obtain i pc where pc: "(i, pc) \<in> set packs" "pc_root pc = root" by blast
  with read_packs_ok [OF r] have "load_fixture (disk root) [''manifest.json''] = Inr (pc_manifest pc)"
    and re: "read_events cfg (disk root) (pc_manifest pc) = Inr (pc_events pc)" by (auto simp: pack_intact_def)
  from load_fixture_object [OF this(1)] m have "m = pc_manifest pc" by simp
  with read_events_corpus [OF re] evs have "set evs = set (pc_events pc)" by simp
  with pc(1) show ?thesis by (auto simp: audited_events_def)
qed

lemma all_pack_documents_extend:
  assumes R: "scans_related G s' s" and G: "\<And>e. G e \<Longrightarrow> documentable e"
    and docs: "rmap (pack_documents s) (sorted_set (set (map fst (events_by_pack s)))) = Inr dss"
  shows "\<exists>dss'. rmap (pack_documents s') (sorted_set (set (map fst (events_by_pack s')))) = Inr dss'
    \<and> (\<forall>d' \<in> set (concat dss'). \<exists>d \<in> set (concat dss). document_extends G d' d)"
proof -
  let ?ps = "sorted_set (set (map fst (events_by_pack s)))"
  have ps: "sorted_set (set (map fst (events_by_pack s'))) = ?ps" using R by (simp add: scans_related_def)
  have one: "\<exists>ds' ds. pack_documents s' p = Inr ds' \<and> ds \<in> set dss \<and> (\<forall>d' \<in> set ds'. \<exists>d \<in> set ds. document_extends G d' d)"
    if p: "p \<in> set ?ps" for p
  proof -
    from p have "p \<in> fst ` set (events_by_pack s)" by simp
    then have "p \<in> fst ` set (state_by_pack s)" "p \<in> fst ` set (state_by_pack s')" using R by (simp_all add: scans_related_def)
    then obtain st st' where st: "map_of (state_by_pack s') p = Some st'" "map_of (state_by_pack s) p = Some st"
      by (metis map_of_eq_None_iff not_Some_eq)
    with R have x: "covered s' st'" "scan_drawn G s'" "state_extends st' st" by (auto simp: scans_related_def)
    from rmap_member [OF docs p] obtain ds where ds: "ds \<in> set dss" "pack_documents s p = Inr ds" by blast
    from x(3) have "knowledge_ok st'" "knowledge_ok st" "knowledge_grows st' st" "relations_kept st' st"
      by (auto simp: state_extends_def)
    from pack_documents_extend [OF x(1,2) this(1) G this(2-4) st ds(2)] ds(1) show ?thesis by blast
  qed
  have "is_ok (rmap (pack_documents s') ?ps)" unfolding rmap_ok_iff using one is_ok_iff by blast
  then obtain dss' where dss': "rmap (pack_documents s') ?ps = Inr dss'" by (rule is_okE)
  have "\<exists>d \<in> set (concat dss). document_extends G d' d" if "d' \<in> set (concat dss')" for d'
  proof -
    from that obtain ds' where ds': "ds' \<in> set dss'" "d' \<in> set ds'" by auto
    with rmap_Inr_set [OF dss'] obtain p where p: "p \<in> set ?ps" "pack_documents s' p = Inr ds'" by auto
    from one [OF p(1)] p(2) ds'(2) obtain ds d where "ds \<in> set dss" "d \<in> set ds" "document_extends G d' d" by auto
    then show ?thesis by auto
  qed
  then show ?thesis unfolding ps using dss' by blast
qed

lemma empty_corpus_related [simp]: "scans_related G empty_corpus empty_corpus"
  by (simp add: scans_related_def scan_drawn_def empty_corpus_def)

section \<open>Properties\<close>

text \<open>C36. Historical documents are prefixes of today's. When the corpus of the audited roots can be built,
  the corpus as of any cutoff can be built too; each of its documents rests on an audited event
  recorded by the cutoff, and is the earlier form of a document of today's corpus: the same claim or
  relation of the same pack, whose state history the later one extends.\<close>

theorem historical_documents_extend:
  assumes "retrieval_documents cfg disk roots None = Inr docs"
  shows "\<exists>packs docs'. read_packs cfg disk roots = Inr packs \<and> retrieval_documents cfg disk roots (Some t) = Inr docs'
    \<and> (\<forall>d' \<in> set docs'. \<exists>d \<in> set docs. document_extends (\<lambda>e. known_by t e \<and> e \<in> audited_events packs) d' d)"
proof -
  from assms obtain audit s dss where p: "validate_pack_fixtures cfg disk roots = Inr audit"
    "rfold (scan_root disk None) empty_corpus roots = Inr s"
    "rmap (pack_documents s) (sorted_set (set (map fst (events_by_pack s)))) = Inr dss" "docs = sort_key document_key (concat dss)"
    by (auto simp: retrieval_documents_def)
  from p(1) obtain packs where r: "read_packs cfg disk roots = Inr packs" by (auto simp: validate_pack_fixtures_def)
  let ?G = "\<lambda>e. known_by t e \<and> e \<in> audited_events packs"
  have "\<exists>s'. rfold (scan_root disk (Some t)) empty_corpus roots = Inr s' \<and> scans_related ?G s' s"
    by (rule scan_roots [OF empty_corpus_related p(2)]) (use corpus_events_audited [OF r] in blast)
  then obtain s' where s': "rfold (scan_root disk (Some t)) empty_corpus roots = Inr s'" "scans_related ?G s' s" by blast
  have "?G e \<Longrightarrow> documentable e" for e using audited_documentable [OF p(1) r] by blast
  from all_pack_documents_extend [OF s'(2) this p(3)]
  obtain dss' where d: "rmap (pack_documents s') (sorted_set (set (map fst (events_by_pack s')))) = Inr dss'"
    "\<forall>d' \<in> set (concat dss'). \<exists>d \<in> set (concat dss). document_extends ?G d' d" by blast
  have "retrieval_documents cfg disk roots (Some t) = Inr (sort_key document_key (concat dss'))"
    using p(1) s'(1) d(1) by (simp add: retrieval_documents_def)
  moreover have "\<forall>d' \<in> set (sort_key document_key (concat dss')). \<exists>d \<in> set docs. document_extends ?G d' d"
    using d(2) p(4) by simp
  ultimately show ?thesis using r by blast
qed

lemma fixture_scan_runs:
  "is_ok (rbind (rfold (scan_root fixture_disk None) empty_corpus [''r'']) (\<lambda>s.
     rmap (pack_documents s) (sorted_set (set (map fst (events_by_pack s))))))"
  by code_simp

lemma fixture_documents_run: "is_ok (retrieval_documents demo_fixture fixture_disk [''r''] None)"
  using fixture_audited fixture_scan_runs by (auto simp: retrieval_documents_def is_ok_rbind_iff elim!: is_okE)

theorem historical_documents_extend_witness:
  "\<exists>docs packs docs'. retrieval_documents demo_fixture fixture_disk [''r''] None = Inr docs
    \<and> retrieval_documents demo_fixture fixture_disk [''r''] (Some ''1'') = Inr docs'
    \<and> (\<forall>d' \<in> set docs'. \<exists>d \<in> set docs. document_extends (\<lambda>e. known_by ''1'' e \<and> e \<in> audited_events packs) d' d)"
proof -
  from fixture_documents_run obtain docs where d: "retrieval_documents demo_fixture fixture_disk [''r''] None = Inr docs" by (rule is_okE)
  from historical_documents_extend [OF d, of "''1''"] d show ?thesis by blast
qed

end
