(* ===== verification/Shared_Capture.thy ===== *)
theory Shared_Capture
  imports Artifact_Store
begin

text \<open>
  Shared-chat capture receipts (\<open>application/ingest/shared_chat_capture.py\<close>): a receipt accounts for
  the nodes of a conversation graph that a provider exposed, and is complete only when the graph is
  exhausted. The JSON schema of receipts is the parameter \<open>V\<close>, \<open>sha\<close> is SHA-256 in hexadecimal. The
  nodes an adapter parsed are an association list from their ids.
\<close>

section \<open>Validation of a receipt\<close>

definition capture_error :: "string \<Rightarrow> exn" where
  "capture_error m = Exn SharedChatCaptureError m"

text \<open>\<open>all(attempt.get("outcome") == "success" for attempt in attempts)\<close>.\<close>

fun all_success :: "json list \<Rightarrow> bool res" where
  "all_success [] = Inr True"
| "all_success (a # as) =
     rbind (get_attr a ''outcome'' JNull) (\<lambda>v. if py_eq v (JStr ''success'') then all_success as else Inr False)"

definition continuation_is_terminal_success :: "json \<Rightarrow> bool res" where
  "continuation_is_terminal_success c =
     rbind (get_attr c ''state'' JNull) (\<lambda>state.
     rbind (get_attr c ''termination_reason'' JNull) (\<lambda>reason.
     rbind (rbind (get_attr c ''attempts'' (JArr [])) py_iter) (\<lambda>attempts.
       if py_eq state (JStr ''not_present'') then Inr (py_eq reason (JStr ''source_terminal'') \<and> attempts = [])
       else if py_eq state (JStr ''resolved'')
         then (if py_eq reason (JStr ''continuation_exhausted'') \<and> attempts \<noteq> [] then all_success attempts else Inr False)
       else Inr False)))"

text \<open>
  The sets of node ids of a receipt, without repetitions. The counts are integers by the schema, an
  integral float among them (\<open>eq_form\<close>).
\<close>

definition capture_ids :: "json \<Rightarrow> string \<Rightarrow> string list res" where
  "capture_ids graph field = rbind (rbind (index graph field) py_iter) (\<lambda>vs. Inr (remdups (map py_str vs)))"

definition capture_count :: "json \<Rightarrow> string \<Rightarrow> int res" where
  "capture_count graph field = rbind (index graph field) (\<lambda>v. py_int (eq_form v))"

record capture_sets =
  cs_discovered :: "string list"
  cs_accounted :: "string list"
  cs_messages :: "string list"
  cs_roots :: "string list"
  cs_active :: "string list"
  cs_non_active :: "string list"

definition read_sets :: "json \<Rightarrow> capture_sets res" where
  "read_sets graph =
     rbind (capture_ids graph ''discovered_node_ids'') (\<lambda>d. rbind (capture_ids graph ''accounted_node_ids'') (\<lambda>a.
     rbind (capture_ids graph ''message_node_ids'') (\<lambda>m. rbind (capture_ids graph ''root_node_ids'') (\<lambda>r.
     rbind (capture_ids graph ''active_branch_node_ids'') (\<lambda>b. rbind (capture_ids graph ''non_active_exposed_node_ids'') (\<lambda>n.
       Inr \<lparr> cs_discovered = d, cs_accounted = a, cs_messages = m, cs_roots = r, cs_active = b, cs_non_active = n \<rparr>))))))"

definition check_counts :: "json \<Rightarrow> capture_sets \<Rightarrow> unit res" where
  "check_counts graph s =
     each (\<lambda>(field, ids). rbind (capture_count graph field) (\<lambda>n.
             check (n = int (length ids)) (capture_error ''capture '')))
       [(''discovered_node_count'', cs_discovered s), (''accounted_node_count'', cs_accounted s),
        (''message_node_count'', cs_messages s)]"

definition check_partition :: "capture_sets \<Rightarrow> unit res" where
  "check_partition s =
     rbind (check (set (cs_accounted s) \<subseteq> set (cs_discovered s))
              (capture_error ''capture accounted_node_ids must be a subset of discovered_node_ids'')) (\<lambda>_.
     rbind (check (set (cs_messages s) \<subseteq> set (cs_discovered s))
              (capture_error ''capture message_node_ids must be a subset of discovered_node_ids'')) (\<lambda>_.
     rbind (check (set (cs_roots s) \<subseteq> set (cs_discovered s))
              (capture_error ''capture root_node_ids must be a subset of discovered_node_ids'')) (\<lambda>_.
     rbind (check (set (cs_active s) \<subseteq> set (cs_discovered s))
              (capture_error ''capture active_branch_node_ids must be a subset of discovered_node_ids'')) (\<lambda>_.
     rbind (check (set (cs_non_active s) \<subseteq> set (cs_discovered s))
              (capture_error ''capture non_active_exposed_node_ids must be a subset of discovered_node_ids'')) (\<lambda>_.
     rbind (check (set (cs_active s) \<inter> set (cs_non_active s) = {})
              (capture_error ''capture active and non-active exposed node sets must be disjoint'')) (\<lambda>_.
       check (set (cs_active s) \<union> set (cs_non_active s) = set (cs_discovered s))
         (capture_error ''capture active and non-active exposed node sets must partition discovered nodes'')))))))"

definition check_references :: "json \<Rightarrow> capture_sets \<Rightarrow> unit res" where
  "check_references graph s =
     rbind (index graph ''current_node_id'') (\<lambda>current.
     rbind (check (current = JNull \<or> py_str current \<in> set (cs_discovered s))
              (capture_error ''capture current_node_id must reference a discovered node'')) (\<lambda>_.
     rbind (rbind (index graph ''unresolved_refs'') py_iter)
       (each (\<lambda>u. rbind (index u ''from_node_id'') (\<lambda>f.
          check (py_str f \<in> set (cs_discovered s))
            (capture_error ''capture unresolved reference source must be a discovered node''))))))"

definition check_complete :: "dict \<Rightarrow> json \<Rightarrow> capture_sets \<Rightarrow> unit res" where
  "check_complete receipt graph s =
     rbind (dindex receipt ''completeness'') (\<lambda>c.
       if \<not> py_eq c (JStr ''complete'') then Inr ()
       else
         rbind (check (cs_discovered s \<noteq> []) (capture_error ''complete capture requires at least one discovered node'')) (\<lambda>_.
         rbind (check (cs_messages s \<noteq> []) (capture_error ''complete capture requires at least one message-bearing node'')) (\<lambda>_.
         rbind (check (cs_roots s \<noteq> []) (capture_error ''complete capture requires at least one root node'')) (\<lambda>_.
         rbind (check (set (cs_accounted s) = set (cs_discovered s))
                  (capture_error ''complete capture requires every discovered node to be accounted for'')) (\<lambda>_.
         rbind (index graph ''unresolved_refs'') (\<lambda>u.
         rbind (check (\<not> truthy u) (capture_error ''complete capture cannot contain unresolved graph references'')) (\<lambda>_.
         rbind (rbind (dindex receipt ''continuation'') continuation_is_terminal_success) (\<lambda>b.
           check b (capture_error ''complete capture requires successful terminal continuation accounting'')))))))))"

definition validate_capture_receipt :: "(json \<Rightarrow> bool) \<Rightarrow> dict \<Rightarrow> dict res" where
  "validate_capture_receipt V receipt =
     rbind (check (V (JObj receipt)) (Exn ValidationError [])) (\<lambda>_.
     rbind (dindex receipt ''graph'') (\<lambda>graph.
     rbind (read_sets graph) (\<lambda>s.
     rbind (check_counts graph s) (\<lambda>_.
     rbind (check_partition s) (\<lambda>_.
     rbind (check_references graph s) (\<lambda>_.
     rbind (check_complete receipt graph s) (\<lambda>_.
       Inr receipt)))))))"

definition bind_capture_source ::
  "(json \<Rightarrow> bool) \<Rightarrow> (string \<Rightarrow> string) \<Rightarrow> dict \<Rightarrow> string \<Rightarrow> string option \<Rightarrow> dict res" where
  "bind_capture_source V sha receipt source_bytes artifact_id =
     rbind (validate_capture_receipt V receipt) (\<lambda>candidate.
     let digest = sha source_bytes; expected = artifact_id_for_digest digest in
     rbind (dindex candidate ''source'') (\<lambda>source.
     rbind (index source ''sha256'') (\<lambda>h.
     rbind (check (py_eq h (JStr digest)) (capture_error ''capture source sha256 does not match the exact source bytes'')) (\<lambda>_.
     rbind (capture_count source ''byte_count'') (\<lambda>n.
     rbind (check (n = int (length source_bytes))
              (capture_error ''capture source byte_count does not match the exact source bytes'')) (\<lambda>_.
     rbind (get_attr source ''artifact_id'' JNull) (\<lambda>declared.
     rbind (check (declared = JNull \<or> py_eq declared (JStr expected))
              (capture_error ''capture source artifact identity does not match source sha256'')) (\<lambda>_.
     rbind (check (case artifact_id of None \<Rightarrow> True | Some a \<Rightarrow> a = expected)
              (capture_error ''stored capture artifact identity does not match source sha256'')) (\<lambda>_.
     rbind (as_dict source) (\<lambda>fs.
       validate_capture_receipt V (AList.update ''source'' (JObj (AList.update ''artifact_id'' (JStr expected) fs)) candidate)))))))))))"

section \<open>The graph\<close>

type_synonym capture_nodes = "(string \<times> dict) list"

definition normalized_nodes :: "capture_nodes \<Rightarrow> capture_nodes" where
  "normalized_nodes nodes = foldl (\<lambda>m (i, node). AList.update i node m) [] nodes"

definition parent_id :: "dict \<Rightarrow> string option" where
  "parent_id node = (let v = dget node ''parent_id'' in if v = JNull then None else Some (py_str v))"

definition child_ids :: "dict \<Rightarrow> string list res" where
  "child_ids node = rbind (py_iter (dget_or node ''child_ids'' (JArr []))) (\<lambda>vs. Inr (map py_str vs))"

text \<open>An unresolved reference: the source node, the relation and the target.\<close>

type_synonym graph_ref = "string \<times> string \<times> string"

definition parent_refs :: "capture_nodes \<Rightarrow> string \<Rightarrow> dict \<Rightarrow> graph_ref list res" where
  "parent_refs nodes i node =
     (case parent_id node of
        None \<Rightarrow> Inr []
      | Some p \<Rightarrow> (case map_of nodes p of
            None \<Rightarrow> Inr [(i, ''parent'', p)]
          | Some pn \<Rightarrow> rbind (child_ids pn) (\<lambda>cs. Inr (if i \<in> set cs then [] else [(i, ''other'', p)]))))"

definition child_refs :: "capture_nodes \<Rightarrow> string \<Rightarrow> dict \<Rightarrow> graph_ref list res" where
  "child_refs nodes i node =
     rbind (child_ids node) (\<lambda>cs.
       Inr (concat (map (\<lambda>c. case map_of nodes c of
                None \<Rightarrow> [(i, ''child'', c)]
              | Some cn \<Rightarrow> if parent_id cn = Some i then [] else [(i, ''other'', c)]) cs)))"

text \<open>
  The walk to the ancestors of a node, \<open>n\<close> steps at most: it reports the node at which it closes a
  cycle. The steps are those of the source, the number of nodes.
\<close>

fun cycle_refs :: "capture_nodes \<Rightarrow> nat \<Rightarrow> string list \<Rightarrow> string option \<Rightarrow> graph_ref list" where
  "cycle_refs nodes n visited None = []"
| "cycle_refs nodes n visited (Some c) =
     (case map_of nodes c of
        None \<Rightarrow> []
      | Some node \<Rightarrow>
          if c \<in> set visited then [(c, ''other'', c)]
          else (case n of 0 \<Rightarrow> [(c, ''other'', c)] | Suc m \<Rightarrow> cycle_refs nodes m (c # visited) (parent_id node)))"

definition graph_unresolved_refs :: "capture_nodes \<Rightarrow> graph_ref list res" where
  "graph_unresolved_refs nodes =
     (let ids = sort (map fst nodes) in
      rbind (rmap (\<lambda>i. rbind (of_option (Exn KeyError i) (map_of nodes i)) (\<lambda>node.
               rbind (parent_refs nodes i node) (\<lambda>ps. rbind (child_refs nodes i node) (\<lambda>cs. Inr (ps @ cs))))) ids) (\<lambda>rss.
        Inr (concat rss @ concat (map (\<lambda>i. cycle_refs nodes (length nodes) [] (Some i)) ids))))"

text \<open>
  The branch from the current node up to its last known ancestor. The source's \<open>visited\<close> holds the
  members of the path; only known nodes are climbed.
\<close>

fun climb :: "capture_nodes \<Rightarrow> nat \<Rightarrow> string list \<Rightarrow> string \<Rightarrow> string list \<times> graph_ref list" where
  "climb nodes n path c =
     (if c \<in> set path then (path, [(c, ''other'', c)])
      else (case n of
          0 \<Rightarrow> (path, [(c, ''other'', c)])
        | Suc m \<Rightarrow>
            (case map_of nodes c of
               None \<Rightarrow> (path @ [c], [])
             | Some node \<Rightarrow>
                 (case parent_id node of
                    None \<Rightarrow> (path @ [c], [])
                  | Some p \<Rightarrow> if map_of nodes p = None then (path @ [c], []) else climb nodes m (path @ [c]) p))))"

definition active_branch :: "capture_nodes \<Rightarrow> string option \<Rightarrow> string list \<times> graph_ref list" where
  "active_branch nodes current =
     (case current of
        None \<Rightarrow> ([], [])
      | Some c \<Rightarrow>
          if map_of nodes c = None
          then ([], if nodes = [] then [] else [(hd (sort (map fst nodes)), ''other'', c)])
          else (let (path, refs) = climb nodes (length nodes) [] c in (rev path, refs)))"

section \<open>The receipt\<close>

record capture_input =
  cap_id :: string
  cap_provider :: string
  cap_adapter :: json
  cap_source :: dict
  cap_fidelity :: string
  cap_nodes :: capture_nodes
  cap_current :: "string option"
  cap_continuation :: dict

definition ref_dict :: "graph_ref \<Rightarrow> json" where
  "ref_dict r = (case r of (f, k, t) \<Rightarrow>
     JObj [(''from_node_id'', JStr f), (''relation'', JStr k), (''target_node_id'', JStr t)])"

definition derive_capture_receipt :: "capture_input \<Rightarrow> dict res" where
  "derive_capture_receipt inp =
     (let nodes = normalized_nodes (cap_nodes inp); ids = sort (map fst nodes);
          roots = sort (map fst (filter (\<lambda>(_, node). parent_id node = None) nodes));
          messages = sort (map fst (filter (\<lambda>(_, node). truthy (dget_or node ''message_present'' (JBool False))) nodes)) in
      rbind (graph_unresolved_refs nodes) (\<lambda>graph_refs.
      let (active, active_refs) = active_branch nodes (cap_current inp);
          unresolved = sort_key (\<lambda>(f, k, t). [f, k, t]) (graph_refs @ active_refs);
          current = (case cap_current inp of None \<Rightarrow> JNull | Some c \<Rightarrow> if map_of nodes c = None then JNull else JStr c);
          continuation = JObj (cap_continuation inp) in
      rbind (if ids \<noteq> [] \<and> messages \<noteq> [] \<and> roots \<noteq> [] \<and> unresolved = []
             then continuation_is_terminal_success continuation else Inr False) (\<lambda>complete.
        Inr [(''schema_version'', JStr ''fossil.shared-chat-capture-receipt.v1''),
             (''capture_id'', JStr (cap_id inp)), (''provider'', JStr (cap_provider inp)),
             (''adapter_version'', cap_adapter inp), (''source'', JObj (cap_source inp)),
             (''fidelity'', JStr (cap_fidelity inp)),
             (''completeness'', JStr (if complete then ''complete'' else ''incomplete'')),
             (''graph'', JObj
               [(''discovered_node_count'', JInt (int (length ids))), (''accounted_node_count'', JInt (int (length ids))),
                (''message_node_count'', JInt (int (length messages))), (''discovered_node_ids'', strs ids),
                (''accounted_node_ids'', strs ids), (''message_node_ids'', strs messages), (''root_node_ids'', strs roots),
                (''current_node_id'', current), (''active_branch_node_ids'', strs active),
                (''non_active_exposed_node_ids'', strs (filter (\<lambda>i. i \<notin> set active) ids)),
                (''unresolved_refs'', JArr (map ref_dict unresolved))]),
             (''continuation'', continuation)])))"

definition build_capture_receipt :: "(json \<Rightarrow> bool) \<Rightarrow> capture_input \<Rightarrow> dict res" where
  "build_capture_receipt V inp = rbind (derive_capture_receipt inp) (validate_capture_receipt V)"

definition require_complete_capture :: "(json \<Rightarrow> bool) \<Rightarrow> dict \<Rightarrow> dict res" where
  "require_complete_capture V receipt =
     rbind (validate_capture_receipt V receipt) (\<lambda>candidate.
     rbind (dindex candidate ''completeness'') (\<lambda>c.
     rbind (check (py_str c = ''complete'') (capture_error ''shared-chat capture completeness is '')) (\<lambda>_.
       Inr candidate)))"

section \<open>Derived receipts are consistent\<close>

declare climb.simps [simp del]

lemma climb_stop: "c \<in> set path \<or> n = 0 \<Longrightarrow> climb nodes n path c = (path, [(c, ''other'', c)])"
  by (subst climb.simps) auto

lemma climb_last:
  "c \<notin> set path \<Longrightarrow> map_of nodes c = Some node \<Longrightarrow> \<not> (\<exists>p. parent_id node = Some p \<and> map_of nodes p \<noteq> None) \<Longrightarrow>
     climb nodes (Suc m) path c = (path @ [c], [])"
  by (subst climb.simps) (auto split: option.split)

lemma climb_next:
  "c \<notin> set path \<Longrightarrow> map_of nodes c = Some node \<Longrightarrow> parent_id node = Some p \<Longrightarrow> map_of nodes p \<noteq> None \<Longrightarrow>
     climb nodes (Suc m) path c = climb nodes m (path @ [c]) p"
  by (subst climb.simps) auto

lemma normalized_distinct [simp]: "distinct (map fst (normalized_nodes nodes))"
proof -
  have "distinct (map fst m) \<Longrightarrow> distinct (map fst (foldl (\<lambda>m (i, node). AList.update i node m) m nodes))" for m
    by (induction nodes arbitrary: m) (auto simp: case_prod_beta)
  then show ?thesis by (simp add: normalized_nodes_def)
qed

definition node_ids :: "capture_nodes \<Rightarrow> string list" where
  "node_ids nodes = sort (map fst nodes)"

lemma in_node_ids [simp]: "i \<in> set (node_ids nodes) \<longleftrightarrow> map_of nodes i \<noteq> None"
  by (simp add: node_ids_def map_of_eq_None_set)

lemma node_ids_Nil [simp]: "node_ids nodes = [] \<longleftrightarrow> nodes = []"
  by (metis length_0_conv length_map length_sort node_ids_def)

definition refs_known :: "capture_nodes \<Rightarrow> graph_ref list \<Rightarrow> bool" where
  "refs_known nodes rs \<longleftrightarrow> (\<forall>r \<in> set rs. map_of nodes (fst r) \<noteq> None)"

lemma refs_known_simps [simp]: "refs_known nodes []" "refs_known nodes (r # rs) \<longleftrightarrow> map_of nodes (fst r) \<noteq> None \<and> refs_known nodes rs"
  "refs_known nodes (xs @ ys) \<longleftrightarrow> refs_known nodes xs \<and> refs_known nodes ys"
  "refs_known nodes (concat rss) \<longleftrightarrow> (\<forall>rs \<in> set rss. refs_known nodes rs)"
  by (auto simp: refs_known_def)

lemma cycle_refs_known [simp]: "refs_known nodes (cycle_refs nodes n visited c)"
  by (induction nodes n visited c rule: cycle_refs.induct) (simp_all split: option.split nat.split)

lemma parent_refs_known: "parent_refs nodes i node = Inr rs \<Longrightarrow> map_of nodes i \<noteq> None \<Longrightarrow> refs_known nodes rs"
  by (auto simp: parent_refs_def split: option.split_asm if_split_asm)

lemma child_refs_known: "child_refs nodes i node = Inr rs \<Longrightarrow> map_of nodes i \<noteq> None \<Longrightarrow> refs_known nodes rs"
  by (auto simp: child_refs_def split: option.split)

lemma graph_unresolved_refs_Inr:
  assumes "graph_unresolved_refs nodes = Inr rs"
  shows "refs_known nodes rs
    \<and> (\<forall>i node. map_of nodes i = Some node \<longrightarrow> (\<exists>ps cs. parent_refs nodes i node = Inr ps \<and> child_refs nodes i node = Inr cs
         \<and> set ps \<subseteq> set rs \<and> set cs \<subseteq> set rs \<and> set (cycle_refs nodes (length nodes) [] (Some i)) \<subseteq> set rs))"
proof -
  let ?f = "\<lambda>i. rbind (of_option (Exn KeyError i) (map_of nodes i)) (\<lambda>node.
               rbind (parent_refs nodes i node) (\<lambda>ps. rbind (child_refs nodes i node) (\<lambda>cs. Inr (ps @ cs))))"
  from assms obtain rss where r: "rmap ?f (node_ids nodes) = Inr rss"
    "rs = concat rss @ concat (map (\<lambda>i. cycle_refs nodes (length nodes) [] (Some i)) (node_ids nodes))"
    by (auto simp: graph_unresolved_refs_def Let_def node_ids_def)
  note mem = rmap_Inr_set [OF r(1)]
  have "\<exists>ps cs. parent_refs nodes i node = Inr ps \<and> child_refs nodes i node = Inr cs
      \<and> set ps \<subseteq> set rs \<and> set cs \<subseteq> set rs \<and> set (cycle_refs nodes (length nodes) [] (Some i)) \<subseteq> set rs"
    if n: "map_of nodes i = Some node" for i node
  proof -
    from n have i: "i \<in> set (node_ids nodes)" by simp
    with r(1) obtain y where y: "?f i = Inr y" "y \<in> set rss" unfolding rmap_Inr_iff in_set_conv_nth by force
    from y(1) n obtain ps cs where "parent_refs nodes i node = Inr ps" "child_refs nodes i node = Inr cs" "y = ps @ cs" by auto
    moreover from y(2) this(3) have "set ps \<subseteq> set rs" "set cs \<subseteq> set rs" unfolding r(2) by fastforce+
    moreover have "set (cycle_refs nodes (length nodes) [] (Some i)) \<subseteq> set rs"
      using i unfolding r(2) by (auto simp del: cycle_refs.simps in_node_ids)
    ultimately show ?thesis by blast
  qed
  moreover have "refs_known nodes y" if "y \<in> set rss" for y
  proof -
    from that mem obtain i where "?f i = Inr y" by blast
    then obtain node ps cs where "map_of nodes i = Some node" "parent_refs nodes i node = Inr ps" "child_refs nodes i node = Inr cs" "y = ps @ cs" by auto
    then show ?thesis using parent_refs_known child_refs_known by simp
  qed
  then have "refs_known nodes rs" unfolding r(2) by (auto simp del: cycle_refs.simps)
  ultimately show ?thesis by blast
qed

lemma climb_known:
  assumes "climb nodes n path c = (path', refs)" and "map_of nodes c \<noteq> None" and "\<forall>x \<in> set path. map_of nodes x \<noteq> None"
  shows "(\<forall>x \<in> set path'. map_of nodes x \<noteq> None) \<and> refs_known nodes refs"
  using assms
proof (induction nodes n path c rule: climb.induct)
  case (1 nodes n path c)
  from 1(3) obtain node where c: "map_of nodes c = Some node" by auto
  show ?case
  proof (cases "c \<in> set path \<or> n = 0")
    case True
    with 1(2) climb_stop have "path' = path" "refs = [(c, ''other'', c)]" by auto
    with 1(4) c show ?thesis by simp
  next
    case False
    then obtain m where m: "n = Suc m" by (cases n) auto
    show ?thesis
    proof (cases "\<exists>p. parent_id node = Some p \<and> map_of nodes p \<noteq> None")
      case True
      then obtain p where p: "parent_id node = Some p" "map_of nodes p \<noteq> None" by blast
      have "climb nodes m (path @ [c]) p = (path', refs)" using 1(2) False m climb_next [OF _ c p] by simp
      from 1(1) [OF _ m c p this] False p(2) 1(4) c show ?thesis by simp
    next
      case no: False
      then have "path' = path @ [c]" "refs = []" using 1(2) False m climb_last [OF _ c no] by auto
      with 1(4) c show ?thesis by simp
    qed
  qed
qed

lemma active_branch_known:
  assumes "active_branch nodes current = (active, refs)"
  shows "(\<forall>x \<in> set active. map_of nodes x \<noteq> None) \<and> refs_known nodes refs"
proof (cases current)
  case (Some c)
  show ?thesis
  proof (cases "map_of nodes c = None")
    case True
    have "hd (node_ids nodes) \<in> set (node_ids nodes)" if "nodes \<noteq> []"
      by (rule hd_in_set) (use that in simp)
    with True Some assms show ?thesis
      unfolding active_branch_def node_ids_def [symmetric] by (cases "nodes = []") auto
  next
    case False
    obtain path rs where c: "climb nodes (length nodes) [] c = (path, rs)" by force
    from climb_known [OF c False] have "\<forall>x \<in> set path. map_of nodes x \<noteq> None" "refs_known nodes rs" by auto
    with assms Some False c show ?thesis by (auto simp: active_branch_def simp del: climb.simps)
  qed
qed (use assms in \<open>auto simp: active_branch_def\<close>)

lemma capture_ids_strs: "map_of graph f = Some (strs is) \<Longrightarrow> capture_ids (JObj graph) f = Inr (remdups is)"
  by (simp add: capture_ids_def strs_def comp_def)

text \<open>What derivation puts into a receipt.\<close>

definition message_ids :: "capture_nodes \<Rightarrow> string list" where
  "message_ids nodes = sort (map fst (filter (\<lambda>(_, node). truthy (dget_or node ''message_present'' (JBool False))) nodes))"

definition root_ids :: "capture_nodes \<Rightarrow> string list" where
  "root_ids nodes = sort (map fst (filter (\<lambda>(_, node). parent_id node = None) nodes))"

definition branch_ids :: "capture_nodes \<Rightarrow> string option \<Rightarrow> string list" where
  "branch_ids nodes current = fst (active_branch nodes current)"

definition all_refs :: "capture_nodes \<Rightarrow> string option \<Rightarrow> graph_ref list \<Rightarrow> graph_ref list" where
  "all_refs nodes current rs = sort_key (\<lambda>(f, k, t). [f, k, t]) (rs @ snd (active_branch nodes current))"

definition capture_graph :: "capture_nodes \<Rightarrow> string option \<Rightarrow> graph_ref list \<Rightarrow> dict" where
  "capture_graph nodes current refs =
     [(''discovered_node_count'', JInt (int (length (node_ids nodes)))), (''accounted_node_count'', JInt (int (length (node_ids nodes)))),
      (''message_node_count'', JInt (int (length (message_ids nodes)))), (''discovered_node_ids'', strs (node_ids nodes)),
      (''accounted_node_ids'', strs (node_ids nodes)), (''message_node_ids'', strs (message_ids nodes)), (''root_node_ids'', strs (root_ids nodes)),
      (''current_node_id'', case current of None \<Rightarrow> JNull | Some c \<Rightarrow> if map_of nodes c = None then JNull else JStr c),
      (''active_branch_node_ids'', strs (branch_ids nodes current)),
      (''non_active_exposed_node_ids'', strs (filter (\<lambda>i. i \<notin> set (branch_ids nodes current)) (node_ids nodes))),
      (''unresolved_refs'', JArr (map ref_dict refs))]"

lemma derive_capture_receipt_Inr:
  assumes "derive_capture_receipt inp = Inr r"
  shows "\<exists>rs refs complete. graph_unresolved_refs (normalized_nodes (cap_nodes inp)) = Inr rs
    \<and> refs = all_refs (normalized_nodes (cap_nodes inp)) (cap_current inp) rs
    \<and> map_of r ''graph'' = Some (JObj (capture_graph (normalized_nodes (cap_nodes inp)) (cap_current inp) refs))
    \<and> map_of r ''continuation'' = Some (JObj (cap_continuation inp))
    \<and> map_of r ''completeness'' = Some (JStr (if complete then ''complete'' else ''incomplete''))
    \<and> (complete \<longrightarrow> node_ids (normalized_nodes (cap_nodes inp)) \<noteq> [] \<and> message_ids (normalized_nodes (cap_nodes inp)) \<noteq> []
       \<and> root_ids (normalized_nodes (cap_nodes inp)) \<noteq> [] \<and> refs = []
       \<and> continuation_is_terminal_success (JObj (cap_continuation inp)) = Inr True)"
proof -
  let ?n = "normalized_nodes (cap_nodes inp)"
  obtain active arefs where ab: "active_branch ?n (cap_current inp) = (active, arefs)" by force
  from assms obtain rs complete where d: "graph_unresolved_refs ?n = Inr rs"
    "(if node_ids ?n \<noteq> [] \<and> message_ids ?n \<noteq> [] \<and> root_ids ?n \<noteq> [] \<and> all_refs ?n (cap_current inp) rs = []
             then continuation_is_terminal_success (JObj (cap_continuation inp)) else Inr False) = Inr complete"
    "r = [(''schema_version'', JStr ''fossil.shared-chat-capture-receipt.v1''),
             (''capture_id'', JStr (cap_id inp)), (''provider'', JStr (cap_provider inp)),
             (''adapter_version'', cap_adapter inp), (''source'', JObj (cap_source inp)),
             (''fidelity'', JStr (cap_fidelity inp)),
             (''completeness'', JStr (if complete then ''complete'' else ''incomplete'')),
             (''graph'', JObj (capture_graph ?n (cap_current inp) (all_refs ?n (cap_current inp) rs))),
             (''continuation'', JObj (cap_continuation inp))]"
    unfolding derive_capture_receipt_def Let_def ab prod.case rbind_Inr_iff capture_graph_def all_refs_def branch_ids_def fst_conv snd_conv
      node_ids_def message_ids_def root_ids_def by (elim exE conjE) simp
  show ?thesis
    by (rule exI [of _ rs], rule exI [of _ "all_refs ?n (cap_current inp) rs"], rule exI [of _ complete])
      (use d in \<open>auto split: if_split_asm\<close>)
qed

lemma message_ids_props: "distinct (map fst nodes) \<Longrightarrow> distinct (message_ids nodes)" "set (message_ids nodes) \<subseteq> set (node_ids nodes)"
  by (auto simp: message_ids_def node_ids_def intro: distinct_map_filter)

lemma root_ids_props: "set (root_ids nodes) \<subseteq> set (node_ids nodes)"
  by (auto simp: root_ids_def node_ids_def)

lemma branch_ids_props: "set (branch_ids nodes current) \<subseteq> set (node_ids nodes)"
proof -
  obtain a rs where "active_branch nodes current = (a, rs)" by force
  from active_branch_known [OF this] this show ?thesis by (auto simp: branch_ids_def)
qed

lemma all_refs_known:
  assumes "graph_unresolved_refs nodes = Inr rs"
  shows "\<forall>r \<in> set (all_refs nodes current rs). map_of nodes (fst r) \<noteq> None"
proof -
  obtain a ars where ab: "active_branch nodes current = (a, ars)" by force
  from graph_unresolved_refs_Inr [OF assms] active_branch_known [OF ab] have "refs_known nodes (rs @ ars)" by simp
  with ab show ?thesis by (auto simp: all_refs_def refs_known_def)
qed

text \<open>Whatever the graph, its receipt agrees with itself; only the schema can refuse it.\<close>

lemma read_derived_sets:
  assumes "distinct (map fst nodes)"
  shows "read_sets (JObj (capture_graph nodes current refs)) = Inr \<lparr> cs_discovered = node_ids nodes, cs_accounted = node_ids nodes,
     cs_messages = message_ids nodes, cs_roots = remdups (root_ids nodes), cs_active = remdups (branch_ids nodes current),
     cs_non_active = filter (\<lambda>i. i \<notin> set (branch_ids nodes current)) (node_ids nodes) \<rparr>"
proof -
  have d: "distinct (node_ids nodes)" "distinct (message_ids nodes)" "distinct (filter (\<lambda>i. i \<notin> set (branch_ids nodes current)) (node_ids nodes))"
    using assms message_ids_props(1) by (auto simp: node_ids_def)
  let ?g = "capture_graph nodes current refs"
  have "capture_ids (JObj ?g) ''discovered_node_ids'' = Inr (node_ids nodes)"
    "capture_ids (JObj ?g) ''accounted_node_ids'' = Inr (node_ids nodes)"
    "capture_ids (JObj ?g) ''message_node_ids'' = Inr (message_ids nodes)"
    "capture_ids (JObj ?g) ''root_node_ids'' = Inr (remdups (root_ids nodes))"
    "capture_ids (JObj ?g) ''active_branch_node_ids'' = Inr (remdups (branch_ids nodes current))"
    "capture_ids (JObj ?g) ''non_active_exposed_node_ids'' = Inr (filter (\<lambda>i. i \<notin> set (branch_ids nodes current)) (node_ids nodes))"
    using d by (simp_all add: capture_ids_strs capture_graph_def distinct_remdups_id)
  then show ?thesis by (simp add: read_sets_def)
qed

lemma derived_receipt_validates:
  assumes "derive_capture_receipt inp = Inr r" and "V (JObj r)"
  shows "validate_capture_receipt V r = Inr r"
proof -
  define nodes where nodes: "nodes = normalized_nodes (cap_nodes inp)"
  from derive_capture_receipt_Inr [OF assms(1), folded nodes] obtain rs refs complete where
    d: "nodes = normalized_nodes (cap_nodes inp)" "graph_unresolved_refs nodes = Inr rs" "refs = all_refs nodes (cap_current inp) rs"
    "map_of r ''graph'' = Some (JObj (capture_graph nodes (cap_current inp) refs))"
    "map_of r ''continuation'' = Some (JObj (cap_continuation inp))"
    "map_of r ''completeness'' = Some (JStr (if complete then ''complete'' else ''incomplete''))"
    and c: "complete \<longrightarrow> node_ids nodes \<noteq> [] \<and> message_ids nodes \<noteq> [] \<and> root_ids nodes \<noteq> [] \<and> refs = []
       \<and> continuation_is_terminal_success (JObj (cap_continuation inp)) = Inr True" using nodes by blast
  let ?cur = "cap_current inp" let ?g = "JObj (capture_graph nodes ?cur refs)" let ?b = "branch_ids nodes ?cur"
  let ?s = "\<lparr> cs_discovered = node_ids nodes, cs_accounted = node_ids nodes, cs_messages = message_ids nodes,
     cs_roots = remdups (root_ids nodes), cs_active = remdups ?b, cs_non_active = filter (\<lambda>i. i \<notin> set ?b) (node_ids nodes) \<rparr>"
  have sets: "read_sets ?g = Inr ?s" by (rule read_derived_sets) (simp add: d(1))
  have counts: "check_counts ?g ?s = Inr ()"
    by (simp add: check_counts_def capture_count_def capture_graph_def py_int_def)
  note sub = message_ids_props(2) [of nodes] root_ids_props [of nodes] branch_ids_props [of nodes ?cur]
  have partition: "check_partition ?s = Inr ()"
    using sub by (auto simp: check_partition_def simp del: in_node_ids)
  have "\<forall>u \<in> set (map ref_dict refs). rbind (index u ''from_node_id'') (\<lambda>f.
          check (py_str f \<in> set (node_ids nodes)) (capture_error ''capture unresolved reference source must be a discovered node'')) = Inr ()"
  proof
    fix u assume "u \<in> set (map ref_dict refs)"
    then obtain f k t where u: "u = ref_dict (f, k, t)" "(f, k, t) \<in> set refs" by auto
    with all_refs_known [OF d(2)] d(3) have "map_of nodes f \<noteq> None" by fastforce
    then show "rbind (index u ''from_node_id'') (\<lambda>f.
          check (py_str f \<in> set (node_ids nodes)) (capture_error ''capture unresolved reference source must be a discovered node'')) = Inr ()"
      using u(1) by (simp add: ref_dict_def)
  qed
  then have references: "check_references ?g ?s = Inr ()"
    by (auto simp: check_references_def capture_graph_def split: option.split)
  have "check_complete r ?g ?s = Inr ()"
    using d(5,6) c by (cases complete) (auto simp: check_complete_def capture_graph_def)
  with sets counts partition references d(4) assms(2) show ?thesis by (simp add: validate_capture_receipt_def)
qed

section \<open>Complete captures\<close>

definition parent_of :: "capture_nodes \<Rightarrow> string \<Rightarrow> string option" where
  "parent_of nodes i = (case map_of nodes i of None \<Rightarrow> None | Some node \<Rightarrow> parent_id node)"

definition children_of :: "capture_nodes \<Rightarrow> string \<Rightarrow> string list" where
  "children_of nodes i = (case map_of nodes i of None \<Rightarrow> [] | Some node \<Rightarrow> (case child_ids node of Inr cs \<Rightarrow> cs | Inl _ \<Rightarrow> []))"

inductive reaches_root :: "capture_nodes \<Rightarrow> string \<Rightarrow> bool" for nodes where
  root: "map_of nodes i \<noteq> None \<Longrightarrow> parent_of nodes i = None \<Longrightarrow> reaches_root nodes i"
| up: "parent_of nodes i = Some p \<Longrightarrow> reaches_root nodes p \<Longrightarrow> reaches_root nodes i"

text \<open>The two directions of the graph agree, and every node hangs below a root.\<close>

definition capture_forest :: "capture_nodes \<Rightarrow> bool" where
  "capture_forest nodes \<longleftrightarrow>
     (\<forall>i p. parent_of nodes i = Some p \<longrightarrow> map_of nodes p \<noteq> None \<and> i \<in> set (children_of nodes p))
     \<and> (\<forall>i c. c \<in> set (children_of nodes i) \<longrightarrow> map_of nodes c \<noteq> None \<and> parent_of nodes c = Some i)
     \<and> (\<forall>i. map_of nodes i \<noteq> None \<longrightarrow> reaches_root nodes i)"

lemma forest_acyclic: "capture_forest nodes \<Longrightarrow> acyclic {(i, p). parent_of nodes i = Some p}"
proof -
  assume f: "capture_forest nodes"
  let ?R = "{(i, p). parent_of nodes i = Some p}"
  have no: "(i, i) \<notin> ?R\<^sup>+" if "reaches_root nodes i" for i
    using that
  proof induction
    case (root i)
    then show ?case by (auto dest: tranclD)
  next
    case (up i p)
    show ?case
    proof
      assume "(i, i) \<in> ?R\<^sup>+"
      then obtain q where "(i, q) \<in> ?R" "(q, i) \<in> ?R\<^sup>*" by (auto dest: tranclD)
      then have "(p, i) \<in> ?R\<^sup>*" "(i, p) \<in> ?R" using up.hyps(1) by auto
      then have "(p, p) \<in> ?R\<^sup>+" by (rule rtrancl_into_trancl1)
      with up.IH show False ..
    qed
  qed
  have "(i, i) \<notin> ?R\<^sup>+" for i
  proof
    assume c: "(i, i) \<in> ?R\<^sup>+"
    then obtain q where "(i, q) \<in> ?R" by (auto dest: tranclD)
    then have "map_of nodes i \<noteq> None" by (auto simp: parent_of_def split: option.split_asm)
    with f have "reaches_root nodes i" unfolding capture_forest_def by blast
    from no [OF this] c show False ..
  qed
  then show ?thesis by (simp add: acyclic_def)
qed

text \<open>The branch from a root down to the current node.\<close>

definition rooted_branch :: "capture_nodes \<Rightarrow> string list \<Rightarrow> bool" where
  "rooted_branch nodes path \<longleftrightarrow> path \<noteq> [] \<and> map_of nodes (hd path) \<noteq> None \<and> parent_of nodes (hd path) = None
     \<and> (\<forall>k. Suc k < length path \<longrightarrow> parent_of nodes (path ! Suc k) = Some (path ! k))"

lemma cycle_refs_reach:
  assumes "cycle_refs nodes n visited (Some c) = []" and "map_of nodes c \<noteq> None"
    and "\<And>i p. parent_of nodes i = Some p \<Longrightarrow> map_of nodes p \<noteq> None"
  shows "reaches_root nodes c"
  using assms(1,2)
proof (induction n arbitrary: visited c)
  case 0
  then show ?case by (auto split: if_split_asm)
next
  case (Suc n)
  from Suc.prems obtain node where node: "map_of nodes c = Some node" "cycle_refs nodes n (c # visited) (parent_id node) = []"
    by (auto split: if_split_asm)
  show ?case
  proof (cases "parent_id node")
    case None
    then show ?thesis using node(1) by (intro reaches_root.root) (simp_all add: parent_of_def)
  next
    case (Some p)
    with node(1) have p: "parent_of nodes c = Some p" by (simp add: parent_of_def)
    from Suc.IH [of "c # visited" p] node(2) Some assms(3) [OF p] have "reaches_root nodes p" by simp
    with p show ?thesis by (rule reaches_root.up)
  qed
qed

lemma climb_branch:
  assumes "climb nodes n path c = (path', [])" and "map_of nodes c \<noteq> None"
    and "\<And>i p. parent_of nodes i = Some p \<Longrightarrow> map_of nodes p \<noteq> None"
  shows "\<exists>up. path' = path @ rev up \<and> rooted_branch nodes up \<and> last up = c"
  using assms(1,2)
proof (induction n arbitrary: path c)
  case 0
  then show ?case by (simp add: climb_stop)
next
  case (Suc n)
  from Suc.prems have c: "c \<notin> set path" using climb_stop [of c path "Suc n" nodes] by auto
  from Suc.prems obtain node where node: "map_of nodes c = Some node" by auto
  show ?case
  proof (cases "parent_id node")
    case None
    then have "path' = path @ [c]" using Suc.prems climb_last [OF c node] by simp
    then show ?thesis using node None by (intro exI [of _ "[c]"]) (simp add: rooted_branch_def parent_of_def)
  next
    case (Some p)
    with node have p: "parent_of nodes c = Some p" by (simp add: parent_of_def)
    then have pk: "map_of nodes p \<noteq> None" by (rule assms(3))
    from Suc.prems climb_next [OF c node Some pk] have "climb nodes n (path @ [c]) p = (path', [])" by simp
    from Suc.IH [OF this pk] obtain up where up: "path' = path @ [c] @ rev up" "rooted_branch nodes up" "last up = p" by auto
    have "rooted_branch nodes (up @ [c])"
    proof -
      from up(2) have ne: "up \<noteq> []" by (simp add: rooted_branch_def)
      have "parent_of nodes ((up @ [c]) ! Suc k) = Some ((up @ [c]) ! k)" if k: "Suc k < length (up @ [c])" for k
      proof (cases "Suc k < length up")
        case True
        with up(2) show ?thesis by (simp add: rooted_branch_def nth_append)
      next
        case False
        with k have "k = length up - 1" "Suc k = length up" by auto
        with up(3) ne p show ?thesis by (simp add: nth_append last_conv_nth)
      qed
      with up(2) ne show ?thesis by (simp add: rooted_branch_def)
    qed
    with up(1) show ?thesis by (intro exI [of _ "up @ [c]"]) simp
  qed
qed

lemma parent_of_Some: "parent_of nodes i = Some p \<longleftrightarrow> (\<exists>node. map_of nodes i = Some node \<and> parent_id node = Some p)"
  by (auto simp: parent_of_def split: option.splits)

lemma unresolved_free_forest:
  assumes "graph_unresolved_refs nodes = Inr []"
  shows "capture_forest nodes"
proof -
  note all = graph_unresolved_refs_Inr [OF assms]
  have free: "parent_refs nodes i node = Inr [] \<and> child_refs nodes i node = Inr [] \<and> cycle_refs nodes (length nodes) [] (Some i) = []"
    if "map_of nodes i = Some node" for i node
    using all that by (auto simp del: cycle_refs.simps)
  have parents: "map_of nodes p \<noteq> None \<and> i \<in> set (children_of nodes p)" if ip: "parent_of nodes i = Some p" for i p
  proof -
    from ip obtain node where n: "map_of nodes i = Some node" "parent_id node = Some p" by (auto simp: parent_of_Some)
    from free [OF n(1)] n(2) obtain pn cs where "map_of nodes p = Some pn" "child_ids pn = Inr cs" "i \<in> set cs"
      by (auto simp: parent_refs_def split: option.split_asm if_split_asm)
    then show ?thesis by (simp add: children_of_def)
  qed
  have children: "map_of nodes c \<noteq> None \<and> parent_of nodes c = Some i" if ic: "c \<in> set (children_of nodes i)" for i c
  proof -
    from ic obtain node cs where n: "map_of nodes i = Some node" "child_ids node = Inr cs" "c \<in> set cs"
      by (cases "map_of nodes i"; cases "child_ids (the (map_of nodes i))") (auto simp: children_of_def)
    from free [OF n(1)] n(2,3) obtain cn where "map_of nodes c = Some cn" "parent_id cn = Some i"
      by (auto simp: child_refs_def split: option.split_asm if_split_asm)
    then show ?thesis by (simp add: parent_of_def)
  qed
  have "reaches_root nodes i" if i: "map_of nodes i \<noteq> None" for i
  proof -
    from i free have "cycle_refs nodes (length nodes) [] (Some i) = []" by blast
    from cycle_refs_reach [OF this i] parents show ?thesis by blast
  qed
  with parents children show ?thesis unfolding capture_forest_def by blast
qed

lemma active_branch_rooted:
  assumes "active_branch nodes current = (path, [])" and "capture_forest nodes" and "nodes \<noteq> []"
  shows "case current of None \<Rightarrow> path = [] | Some c \<Rightarrow> rooted_branch nodes path \<and> last path = c"
proof (cases current)
  case (Some c)
  with assms(1,3) have c: "map_of nodes c \<noteq> None" by (auto simp: active_branch_def split: if_split_asm)
  obtain up rs where climbed: "climb nodes (length nodes) [] c = (up, rs)" by force
  with assms(1) Some c have "rs = []" "path = rev up" by (auto simp: active_branch_def)
  moreover have "\<And>i p. parent_of nodes i = Some p \<Longrightarrow> map_of nodes p \<noteq> None"
    using assms(2) unfolding capture_forest_def by blast
  ultimately show ?thesis using climb_branch [of nodes "length nodes" "[]" c up] climbed c Some by auto
qed (use assms(1) in \<open>simp add: active_branch_def\<close>)

section \<open>Properties\<close>

definition demo_capture :: capture_input where
  "demo_capture = \<lparr> cap_id = ''cap'', cap_provider = ''p'', cap_adapter = JNull,
     cap_source = [(''sha256'', JStr (replicate 64 (CHR ''0''))), (''byte_count'', JInt 2)], cap_fidelity = ''verbatim'',
     cap_nodes = [(''a'', [(''child_ids'', strs [''b'', ''c'']), (''message_present'', JBool True)]),
                  (''b'', [(''parent_id'', JStr ''a''), (''message_present'', JBool True)]), (''c'', [(''parent_id'', JStr ''a'')])],
     cap_current = Some ''b'',
     cap_continuation = [(''state'', JStr ''not_present''), (''attempts'', JArr []), (''termination_reason'', JStr ''source_terminal'')] \<rparr>"

text \<open>C37. Complete captures are exhausted. When a receipt built from parsed nodes says that the capture is
  complete, the nodes form a forest whose parent and child links agree and in which every node hangs
  below a root; there is a message among them; the receipt accounts for exactly these nodes, has no
  unresolved reference, and its active branch leads from a root to the current node.\<close>

theorem complete_captures_are_forests:
  assumes "build_capture_receipt V inp = Inr r" and "map_of r ''completeness'' = Some (JStr ''complete'')"
  shows "\<exists>nodes g. nodes = normalized_nodes (cap_nodes inp) \<and> capture_forest nodes
    \<and> acyclic {(i, p). parent_of nodes i = Some p} \<and> message_ids nodes \<noteq> []
    \<and> map_of r ''graph'' = Some (JObj g) \<and> map_of g ''discovered_node_ids'' = Some (strs (node_ids nodes))
    \<and> map_of g ''accounted_node_ids'' = Some (strs (node_ids nodes)) \<and> map_of g ''unresolved_refs'' = Some (JArr [])
    \<and> (\<exists>path. map_of g ''active_branch_node_ids'' = Some (strs path)
         \<and> (case cap_current inp of None \<Rightarrow> path = [] | Some c \<Rightarrow> rooted_branch nodes path \<and> last path = c))
    \<and> continuation_is_terminal_success (JObj (cap_continuation inp)) = Inr True"
proof -
  define nodes where nodes: "nodes = normalized_nodes (cap_nodes inp)"
  from assms(1) have "derive_capture_receipt inp = Inr r" by (auto simp: build_capture_receipt_def validate_capture_receipt_def)
  from derive_capture_receipt_Inr [OF this, folded nodes] obtain rs refs complete where
    d: "graph_unresolved_refs nodes = Inr rs" "refs = all_refs nodes (cap_current inp) rs"
    "map_of r ''graph'' = Some (JObj (capture_graph nodes (cap_current inp) refs))"
    "map_of r ''completeness'' = Some (JStr (if complete then ''complete'' else ''incomplete''))"
    and c: "complete \<longrightarrow> node_ids nodes \<noteq> [] \<and> message_ids nodes \<noteq> [] \<and> root_ids nodes \<noteq> [] \<and> refs = []
       \<and> continuation_is_terminal_success (JObj (cap_continuation inp)) = Inr True" by blast
  from d(4) assms(2) c have complete: "node_ids nodes \<noteq> []" "message_ids nodes \<noteq> []" "refs = []"
    "continuation_is_terminal_success (JObj (cap_continuation inp)) = Inr True" by (auto split: if_split_asm)
  obtain path ars where ab: "active_branch nodes (cap_current inp) = (path, ars)" by force
  from complete(3) d(2) ab have "set (rs @ ars) = {}" by (metis all_refs_def set_empty set_sort snd_conv)
  then have none: "rs = []" "ars = []" by auto
  have forest: "capture_forest nodes" using unresolved_free_forest d(1) none(1) by simp
  from active_branch_rooted [OF _ forest] ab none(2) complete(1)
  have "case cap_current inp of None \<Rightarrow> path = [] | Some c \<Rightarrow> rooted_branch nodes path \<and> last path = c" by simp
  then show ?thesis using nodes forest forest_acyclic [OF forest] complete d(3) ab
    by (intro exI [of _ nodes] exI [of _ "capture_graph nodes (cap_current inp) refs"] conjI) (auto simp: capture_graph_def branch_ids_def)
qed

lemma demo_capture_complete:
  "rbind (build_capture_receipt (\<lambda>_. True) demo_capture) (\<lambda>r. dindex r ''completeness'') = Inr (JStr ''complete'')"
  by code_simp

theorem complete_captures_are_forests_witness:
  "\<exists>r. build_capture_receipt (\<lambda>_. True) demo_capture = Inr r \<and> map_of r ''completeness'' = Some (JStr ''complete'')
     \<and> capture_forest (normalized_nodes (cap_nodes demo_capture))"
proof -
  from demo_capture_complete obtain r where r: "build_capture_receipt (\<lambda>_. True) demo_capture = Inr r"
    "map_of r ''completeness'' = Some (JStr ''complete'')" by auto
  from complete_captures_are_forests [OF this] r show ?thesis by blast
qed

text \<open>C38. A derived receipt never contradicts itself. Whatever the parsed graph (dangling links, cycles and
  unknown current nodes included), the receipt that is derived from it passes every check of counts,
  subsets, partition and completeness; only the schema can refuse it.\<close>

theorem derived_receipts_are_consistent:
  assumes "derive_capture_receipt inp = Inr r" and "V (JObj r)"
  shows "build_capture_receipt V inp = Inr r"
  using derived_receipt_validates [of inp r V] assms by (simp add: build_capture_receipt_def)

definition demo_loop :: capture_input where
  "demo_loop = demo_capture\<lparr>cap_nodes := [(''a'', [(''parent_id'', JStr ''b''), (''child_ids'', strs [''b''])]),
     (''b'', [(''parent_id'', JStr ''a''), (''child_ids'', strs [''a'', ''x''])])]\<rparr>"

lemma demo_loop_derived: "is_ok (derive_capture_receipt demo_loop)"
  by code_simp

theorem derived_receipts_are_consistent_witness: "is_ok (build_capture_receipt (\<lambda>_. True) demo_loop)"
proof -
  from demo_loop_derived obtain r where "derive_capture_receipt demo_loop = Inr r" by (rule is_okE)
  from derived_receipts_are_consistent [OF this, of "\<lambda>_. True"] show ?thesis by simp
qed

text \<open>Bound captures are authentic. A receipt bound to bytes was valid before and is valid after, names
  the hash and the number of exactly these bytes, and carries the id under which the artifact store
  holds them; changing one of these facts makes binding fail.\<close>

lemma bound_captures_are_authentic:
  assumes "bind_capture_source V sha receipt bytes stored = Inr r"
  shows "\<exists>fs h n. validate_capture_receipt V receipt = Inr receipt \<and> validate_capture_receipt V r = Inr r
    \<and> map_of r ''source'' = Some (JObj fs) \<and> map_of fs ''sha256'' = Some (JStr (sha bytes))
    \<and> capture_count (JObj fs) ''byte_count'' = Inr (int (length bytes))
    \<and> map_of fs ''artifact_id'' = Some (JStr (artifact_id_for_digest (sha bytes)))
    \<and> (\<forall>a. stored = Some a \<longrightarrow> a = artifact_id_for_digest (sha bytes))"
proof -
  have same: "validate_capture_receipt V c = Inr c' \<Longrightarrow> c' = c" for c c'
    by (auto simp: validate_capture_receipt_def)
  let ?a = "JStr (artifact_id_for_digest (sha bytes))"
  from assms obtain c fs where c: "validate_capture_receipt V receipt = Inr c" "map_of c ''source'' = Some (JObj fs)"
    "map_of fs ''sha256'' = Some (JStr (sha bytes))" "capture_count (JObj fs) ''byte_count'' = Inr (int (length bytes))"
    "\<forall>a. stored = Some a \<longrightarrow> a = artifact_id_for_digest (sha bytes)"
    "validate_capture_receipt V (AList.update ''source'' (JObj (AList.update ''artifact_id'' ?a fs)) c) = Inr r"
    by (auto simp: bind_capture_source_def Let_def split: option.split_asm)
  note r = same [OF c(6)]
  have "map_of r ''source'' = Some (JObj (AList.update ''artifact_id'' ?a fs))" unfolding r by simp
  moreover have "capture_count (JObj (AList.update ''artifact_id'' ?a fs)) ''byte_count'' = Inr (int (length bytes))"
    using c(4) by (simp add: capture_count_def dindex_def)
  ultimately show ?thesis using c same [OF c(1)] r by (intro exI [of _ "AList.update ''artifact_id'' ?a fs"]) auto
qed

end
