(* ===== verification/Reviewed_Evidence.thy ===== *)
theory Reviewed_Evidence
  imports Source_Store Packs
begin

text \<open>
  Reviewed evidence ingestion (\<open>application/ingest/reviewed_evidence.py\<close>): a reviewed source becomes
  an immutable snapshot, and the claims drafted from it become proposals that rest on that snapshot.
  The state is the source store and the event log; the configurations of the two stores and the JSON
  schema of pack manifests are the record \<open>ingest_config\<close>. \<open>u i\<close> is the random id part that is drawn
  for draft \<open>i\<close>.
\<close>

section \<open>Requests\<close>

record reviewed_source =
  rs_data :: string
  rs_kind :: string
  rs_role :: string
  rs_locator :: dict
  rs_retrieved_at :: string
  rs_quality :: dict
  rs_published_at :: "string option"
  rs_version :: "dict option"
  rs_derivation :: "dict option"
  rs_media_type :: string

record claim_draft =
  dr_subject :: string
  dr_text :: string
  dr_reason :: string

record ingest_request =
  ir_manifest :: dict
  ir_source :: reviewed_source
  ir_claims :: "claim_draft list"
  ir_review_ref :: string
  ir_actor :: dict
  ir_occurred_at :: string
  ir_recorded_at :: string
  ir_correlation :: string
  ir_outcome :: string

record ingest_config =
  ic_pack :: "json \<Rightarrow> bool"
  ic_source :: source_config
  ic_events :: event_config

record ingest_stores =
  is_sources :: source_store
  is_events :: event_store

definition RAW_LOG_SOURCE_KINDS :: "string list" where
  "RAW_LOG_SOURCE_KINDS = [''raw_ci_log'', ''raw_build_log'', ''raw_runtime_log'']"

definition ingest_error :: "string \<Rightarrow> exn" where
  "ingest_error m = Exn ReviewedEvidenceIngestError m"

definition receipt_id :: "(string \<Rightarrow> string) \<Rightarrow> string \<Rightarrow> string \<Rightarrow> string \<Rightarrow> string" where
  "receipt_id sha correlation review_ref pack_id =
     ''ingest_receipt_'' @ take 24 (sha (correlation @ [CHR 0x1F] @ review_ref @ [CHR 0x1F] @ pack_id))"

definition normalize_source_kind :: "string \<Rightarrow> string res" where
  "normalize_source_kind k =
     (let n = lower (strip k) in
      rbind (check (n \<noteq> []) (ingest_error ''reviewed evidence ingest requires a non-empty source_kind'')) (\<lambda>_. Inr n))"

section \<open>Receipts\<close>

definition source_part :: "string \<Rightarrow> bool \<Rightarrow> json \<Rightarrow> json \<Rightarrow> json" where
  "source_part kind preserved artifact snapshot =
     JObj [(''source_kind'', JStr kind), (''preserved'', JBool preserved), (''artifact_id'', artifact), (''snapshot_id'', snapshot)]"

definition base_receipt :: "(string \<Rightarrow> string) \<Rightarrow> string \<Rightarrow> string \<Rightarrow> string \<Rightarrow> string \<Rightarrow> bool \<Rightarrow> dict" where
  "base_receipt sha pack_id kind review_ref correlation promotion =
     [(''schema_version'', JStr ''fossil.reviewed-evidence-ingest-receipt.v1''),
      (''receipt_id'', JStr (receipt_id sha correlation review_ref pack_id)),
      (''authority'', JStr ''non_authoritative_receipt''), (''pack_id'', JStr pack_id),
      (''review_ref'', JStr review_ref), (''correlation_id'', JStr correlation),
      (''source'', source_part kind False JNull JNull),
      (''validation'', JObj [(''pack'', JStr ''passed''), (''source'', JStr ''not_run''), (''events'', JStr ''not_run''),
         (''provenance'', JStr ''not_run''), (''evidence'', JStr ''not_run''), (''ontology'', JStr ''not_applicable'')]),
      (''proposal_event_ids'', JArr []), (''proposal_count'', JInt 0), (''accepted_count'', JInt 0),
      (''requires_explicit_promotion'', JBool promotion), (''rejection_reason'', JNull)]"

text \<open>\<open>receipt["validation"].update(kvs)\<close>.\<close>

definition mark_validation :: "(string \<times> string) list \<Rightarrow> dict \<Rightarrow> dict" where
  "mark_validation kvs receipt =
     AList.update ''validation''
       (JObj (foldl (\<lambda>d (k, v). AList.update k (JStr v) d) (case dget receipt ''validation'' of JObj d \<Rightarrow> d | _ \<Rightarrow> []) kvs)) receipt"

definition rejected_receipt :: "dict \<Rightarrow> dict" where
  "rejected_receipt receipt =
     mark_validation [(''source'', ''rejected_by_ingest_policy'')]
       (AList.update ''rejection_reason'' (JStr ''raw_ci_or_log_noise_not_wholesale_ingestable'')
          (AList.update ''status'' (JStr ''rejected'') receipt))"

definition proposed_receipt :: "string \<Rightarrow> string \<Rightarrow> string \<Rightarrow> string list \<Rightarrow> dict \<Rightarrow> dict" where
  "proposed_receipt kind artifact snapshot ids receipt =
     AList.update ''proposal_count'' (JInt (int (length ids)))
       (AList.update ''proposal_event_ids'' (strs ids)
         (AList.update ''status'' (JStr ''proposed'')
           (mark_validation [(''events'', ''passed''), (''provenance'', ''passed''), (''evidence'', ''passed'')]
             (mark_validation [(''source'', ''passed'')]
               (AList.update ''source'' (source_part kind True (JStr artifact) (JStr snapshot)) receipt)))))"

section \<open>Ingestion\<close>

text \<open>What is decided before any store is touched: the pack, the kind of source, the first receipt.\<close>

definition ingest_admit :: "ingest_config \<Rightarrow> ingest_request \<Rightarrow> (string \<times> string \<times> dict) res" where
  "ingest_admit cfg r =
     rbind (pack_validate (ic_pack cfg) (ir_manifest r)) (\<lambda>_.
     rbind (dindex (ir_manifest r) ''pack_id'') (\<lambda>pv. let pack_id = py_str pv in
     rbind (rbind (dindex (ir_manifest r) ''write_targets'') (py_in (JStr pack_id))) (\<lambda>b.
     rbind (check b (ingest_error ''reviewed evidence ingest requires the target pack as an explicit write target'')) (\<lambda>_.
     rbind (check (ir_review_ref r \<noteq> [] \<and> ir_correlation r \<noteq> [])
              (ingest_error ''reviewed evidence ingest requires review_ref and correlation_id'')) (\<lambda>_.
     rbind (check (ir_outcome r = ''proposed'')
              (ingest_error ''accepted shared knowledge requires explicit review/promotion; reviewed evidence ingest emits proposals only'')) (\<lambda>_.
     rbind (normalize_source_kind (rs_kind (ir_source r))) (\<lambda>kind.
       Inr (pack_id, kind,
         base_receipt (src_sha (ic_source cfg)) pack_id kind (ir_review_ref r) (ir_correlation r)
           (py_str (dget_or (ir_manifest r) ''kind'' (JStr [])) \<in> {''common'', ''domain''})))))))))"

definition source_request :: "reviewed_source \<Rightarrow> snapshot_request" where
  "source_request s =
     \<lparr> req_data = rs_data s, req_locator = rs_locator s, req_retrieved_at = rs_retrieved_at s, req_role = rs_role s,
       req_quality = rs_quality s, req_published_at = rs_published_at s, req_version = rs_version s,
       req_derivation = rs_derivation s, req_media_type = rs_media_type s, req_source_id = None \<rparr>"

definition draft_event :: "ingest_request \<Rightarrow> string \<Rightarrow> string \<Rightarrow> string \<Rightarrow> nat \<Rightarrow> claim_draft \<Rightarrow> dict" where
  "draft_event r pack_id artifact snapshot i d =
     [(''schema_version'', JStr ''dkg.event.v1''), (''event_type'', JStr ''claim.proposed''),
      (''occurred_at'', JStr (ir_occurred_at r)), (''recorded_at'', JStr (ir_recorded_at r)), (''pack_id'', JStr pack_id),
      (''actor'', JObj (ir_actor r)), (''subject_refs'', strs [dr_subject d]), (''correlation_id'', JStr (ir_correlation r)),
      (''idempotency_key'', JStr (''reviewed-evidence-ingest:'' @ ir_correlation r @ '':'' @ show_int (int i) @ '':'' @ dr_subject d)),
      (''evidence_refs'', strs [artifact]), (''source_snapshot_refs'', strs [snapshot]),
      (''payload'', JObj [(''claim_text'', JStr (dr_text d)), (''reason'', JStr (dr_reason d))]),
      (''provenance'', JObj [(''method'', JStr ''reviewed_evidence_ingest''),
         (''prompt_or_policy_ref'', JStr ''skills/research-ingestion/manifest.json''), (''benchmark_ref'', JStr (ir_review_ref r))])]"

definition prepare_draft ::
  "ingest_config \<Rightarrow> (nat \<Rightarrow> string) \<Rightarrow> ingest_request \<Rightarrow> string \<Rightarrow> string \<Rightarrow> string \<Rightarrow> nat \<times> claim_draft \<Rightarrow> dict res" where
  "prepare_draft cfg u r pack_id artifact snapshot draft =
     (case draft of (i, d) \<Rightarrow>
      rbind (check (strip (dr_subject d) \<noteq> []) (ingest_error ''reviewed synthesis requires a stable subject_ref'')) (\<lambda>_.
      rbind (check (strip (dr_text d) \<noteq> []) (ingest_error ''reviewed synthesis requires non-empty claim_text'')) (\<lambda>_.
        validate_event (ic_events cfg) (draft_event r pack_id artifact snapshot i d) (u i))))"

text \<open>A prepared event has its id, so \<open>commit\<close> draws none.\<close>

fun commit_all :: "event_config \<Rightarrow> event_store \<Rightarrow> dict list \<Rightarrow> event_store \<times> json list res" where
  "commit_all cfg st [] = (st, Inr [])"
| "commit_all cfg st (e # es) =
     sbind (commit_event cfg st e []) (\<lambda>st v. sbind (commit_all cfg st es) (\<lambda>st vs. (st, Inr (v # vs))))"

definition ingest_evidence ::
  "ingest_config \<Rightarrow> (nat \<Rightarrow> string) \<Rightarrow> ingest_stores \<Rightarrow> ingest_request \<Rightarrow> ingest_stores \<times> dict res" where
  "ingest_evidence cfg u w r =
     sbind (pure_res w (ingest_admit cfg r)) (\<lambda>w (pack_id, kind, receipt).
       if kind \<in> set RAW_LOG_SOURCE_KINDS then (w, Inr (rejected_receipt receipt))
       else
         let (src, put) = put_snapshot (ic_source cfg) (is_sources w) (source_request (ir_source r)) in
         sbind (pure_res (w\<lparr>is_sources := src\<rparr>)
             (rbind put (\<lambda>snap. rbind (index snap ''artifact_id'') (\<lambda>av. rbind (index snap ''snapshot_id'') (\<lambda>sv.
              rbind (check (ir_claims r \<noteq> [])
                       (ingest_error ''reviewed evidence ingest requires at least one synthesis proposal'')) (\<lambda>_.
              rbind (rmap (prepare_draft cfg u r pack_id (py_str av) (py_str sv)) (enumerate 0 (ir_claims r))) (\<lambda>prepared.
                Inr (py_str av, py_str sv, prepared))))))))
           (\<lambda>w (artifact, snapshot, prepared).
              let (evs, committed) = commit_all (ic_events cfg) (is_events w) prepared in
              pure_res (w\<lparr>is_events := evs\<rparr>)
                (rbind committed (\<lambda>vs.
                 rbind (rmap (\<lambda>v. rbind (index v ''event_id'') (\<lambda>i. Inr (py_str i))) vs) (\<lambda>ids.
                   Inr (proposed_receipt kind artifact snapshot ids receipt))))))"

section \<open>The log grows by the prepared events\<close>

text \<open>What commits add: files of accepted events, on top of everything that was there.\<close>

definition log_adds :: "event_config \<Rightarrow> dict list \<Rightarrow> event_store \<Rightarrow> event_store \<Rightarrow> bool" where
  "log_adds cfg es st st' \<longleftrightarrow> tombstones st' = tombstones st
     \<and> (\<forall>p t. map_of (events st) p = Some t \<longrightarrow> map_of (events st') p = Some t)
     \<and> (\<forall>p t. map_of (events st') p = Some t \<longrightarrow> map_of (events st) p = None \<longrightarrow>
          (\<exists>e \<in> set es. \<exists>c i. validate_event cfg e [] = Inr c \<and> map_of c ''event_id'' = Some (JStr i)
             \<and> p = event_path i \<and> t = canonical (JObj c)))"

lemma log_adds_refl [simp]: "log_adds cfg es st st"
  by (simp add: log_adds_def)

lemma log_adds_trans:
  assumes "log_adds cfg es a b" and "log_adds cfg es' b c"
  shows "log_adds cfg (es @ es') a c"
  unfolding log_adds_def
proof (intro conjI allI impI)
  show "tombstones c = tombstones a" using assms by (simp add: log_adds_def)
  show "map_of (events c) p = Some t" if "map_of (events a) p = Some t" for p t
    using that assms by (simp add: log_adds_def)
  fix p t assume pt: "map_of (events c) p = Some t" "map_of (events a) p = None"
  show "\<exists>e \<in> set (es @ es'). \<exists>c i. validate_event cfg e [] = Inr c \<and> map_of c ''event_id'' = Some (JStr i)
             \<and> p = event_path i \<and> t = canonical (JObj c)"
  proof (cases "map_of (events b) p")
    case None
    with pt(1) assms(2) have "\<exists>e \<in> set es'. \<exists>c i. validate_event cfg e [] = Inr c \<and> map_of c ''event_id'' = Some (JStr i)
             \<and> p = event_path i \<and> t = canonical (JObj c)" unfolding log_adds_def by blast
    then show ?thesis by auto
  next
    case (Some t')
    with pt assms(2) have "t' = t" unfolding log_adds_def by (metis option.inject)
    with Some pt(2) assms(1) have "\<exists>e \<in> set es. \<exists>c i. validate_event cfg e [] = Inr c \<and> map_of c ''event_id'' = Some (JStr i)
             \<and> p = event_path i \<and> t = canonical (JObj c)" unfolding log_adds_def by blast
    then show ?thesis by auto
  qed
qed

lemma commit_adds: "log_adds cfg [e] st (fst (commit_event cfg st e []))"
proof (cases rule: commit_event_cases [of cfg st e "[]"])
  case (stored c i)
  then show ?thesis
    by (cases rule: store_event_cases [of st i c]) (auto simp: log_adds_def)
qed simp

lemma commit_all_adds: "log_adds cfg es st (fst (commit_all cfg st es))"
proof (induction es arbitrary: st)
  case (Cons e es)
  obtain st1 r where c: "commit_event cfg st e [] = (st1, r)" by force
  with commit_adds [of cfg e st] have one: "log_adds cfg [e] st st1" by simp
  show ?case
  proof (cases r)
    case (Inl x)
    with c one log_adds_trans [OF one log_adds_refl [of cfg es]] show ?thesis by simp
  next
    case (Inr v)
    obtain st2 r2 where c2: "commit_all cfg st1 es = (st2, r2)" by force
    with Cons.IH [of st1] have "log_adds cfg es st1 st2" by simp
    from log_adds_trans [OF one this] c Inr c2 show ?thesis by (cases r2) simp_all
  qed
qed simp

text \<open>Preparing an event only sets its id.\<close>

lemma prepared_fields:
  assumes "validate_event cfg ev u = Inr c" and "k \<noteq> ''event_id''"
  shows "map_of c k = map_of ev k"
  using assms by (auto simp: validate_event_def prepare_event_def Let_def split: if_split_asm)

section \<open>Snapshots\<close>

definition snapshot_files_ok :: "source_store \<Rightarrow> bool" where
  "snapshot_files_ok st \<longleftrightarrow> (\<forall>p t. map_of (snapshots st) p = Some t \<longrightarrow> (\<exists>d. wf_json (JObj d) \<and> t = canonical (JObj d)))"

definition source_wf :: "reviewed_source \<Rightarrow> bool" where
  "source_wf s \<longleftrightarrow> wf_json (JObj (rs_locator s)) \<and> wf_json (JObj (rs_quality s)) \<and> wf_json (JObj (dict_or_empty (rs_version s)))
     \<and> wf_json (JObj (dict_or_empty (rs_derivation s)))"

lemma wf_dget: "wf_json (JObj d) \<Longrightarrow> wf_json (dget d k)"
  by (cases "map_of d k") (auto simp: dget_def dest: map_of_SomeD)

lemma wf_updates:
  "wf_json (JObj a) \<Longrightarrow> list_all (\<lambda>kv. wf_json (snd kv)) kvs \<Longrightarrow> wf_json (JObj (foldl (\<lambda>d (k, v). AList.update k v d) a kvs))"
proof (induction kvs arbitrary: a)
  case (Cons x kvs)
  have "wf_json (snd x)" using Cons.prems(2) by (simp only: list.pred_inject(2))
  with Cons.prems(1) have "wf_json (JObj (AList.update (fst x) (snd x) a))" by (rule wf_update)
  moreover have "list_all (\<lambda>kv. wf_json (snd kv)) kvs" using Cons.prems(2) by (simp only: list.pred_inject(2))
  ultimately have "wf_json (JObj (foldl (\<lambda>d (k, v). AList.update k v d) (AList.update (fst x) (snd x) a) kvs))" by (rule Cons.IH)
  then show ?case by (cases x) (simp only: foldl.simps prod.case fst_conv snd_conv)
qed simp

lemma wf_merged_version:
  assumes "wf_json (JObj (dict_or_empty m))"
  shows "wf_json (JObj (merged_version m))"
  unfolding merged_version_def by (rule wf_updates) (use assms in \<open>auto simp: list_all_iff\<close>)

lemma snapshot_record_wf:
  assumes "source_wf s" and "normalized_locator (rs_locator s) = Inr l" and "wf_json h" and "wf_json a"
  shows "wf_json (JObj (fst (snapshot_record sha (source_request s) l sid digest a h)))"
proof -
  from assms(2) have l: "l = map (\<lambda>k. (k, dget (rs_locator s) k)) [''url'', ''identifier'', ''repository_ref'']"
    by (auto simp: normalized_locator_def Let_def split: if_split_asm)
  have "wf_json (JObj l)" unfolding l using assms(1) wf_dget by (simp add: source_wf_def del: wf_json.simps(3)) simp
  with assms show ?thesis
    using wf_merged_version [of "rs_version s"]
    by (auto simp: snapshot_record_def Let_def source_request_def source_wf_def opt_str_def split: option.split)
qed

lemma index_canon:
  assumes "wf_json (JObj d)" and "map_of d k = Some v"
  shows "index (canon (JObj d)) k = Inr (canon v)"
  using map_of_canon [of d "sort_key fst (map (\<lambda>(k, v). (k, canon v)) d)" k] assms by simp

text \<open>A snapshot that was put reads back, and so do the bytes of its artifact.\<close>

definition snapshot_parts :: "source_config \<Rightarrow> source_store \<Rightarrow> reviewed_source \<Rightarrow> dict \<Rightarrow> dict \<Rightarrow> (dict \<times> string) res" where
  "snapshot_parts cfg st s l artifact =
     rbind (manifest_digest (JObj artifact)) (\<lambda>digest.
     rbind (source_id_for_locator (src_sha cfg) l) (\<lambda>source_id.
     rbind (dindex artifact ''artifact_id'') (\<lambda>a.
     rbind (dindex artifact ''content_hash'') (\<lambda>h.
     let (snapshot, i) = snapshot_record (src_sha cfg) (source_request s) l source_id digest a h in
     rbind (check (snapshot_schema cfg (JObj snapshot)) (Exn ValidationError [])) (\<lambda>_.
       Inr (snapshot, i))))))"

lemma put_snapshot_Inr:
  assumes put: "put_snapshot cfg st (source_request s) = (st', Inr v)"
  shows "\<exists>l ar m c i. normalized_locator (rs_locator s) = Inr l
     \<and> put_bytes (src_sha cfg) (artifacts_of st) (rs_data s) (rs_media_type s) = (ar, Inr m)
     \<and> snapshot_parts cfg st s l m = Inr (c, i) \<and> artifacts_of st' = ar
     \<and> snapshots st' = fst (publish_immutable (snapshot_path i) (canonical (JObj c)) (snapshots st))
     \<and> (if map_of (snapshots st) (snapshot_path i) = None then v = JObj c
        else read_json (snapshots st) (snapshot_path i) = Inr v \<and> canonical v = canonical (JObj c))"
proof -
  obtain ar pr where pb: "put_bytes (src_sha cfg) (artifacts_of st) (rs_data s) (rs_media_type s) = (ar, pr)" by force
  from put obtain l where l: "normalized_locator (rs_locator s) = Inr l"
    and q: "sbind (pure_res (st\<lparr>artifacts_of := ar\<rparr>) (rbind pr (snapshot_parts cfg st s l)))
           (\<lambda>st1 (snapshot, i).
              let encoded = canonical (JObj snapshot);
                  (sn, fresh) = publish_immutable (snapshot_path i) encoded (snapshots st1);
                  st2 = st1\<lparr>snapshots := sn\<rparr>
              in if fresh then (st2, Inr (JObj snapshot))
                 else pure_res st2 (rbind (read_json sn (snapshot_path i)) (\<lambda>existing.
                   if canonical existing \<noteq> encoded then Inl (Exn SourceSnapshotConflict i)
                   else Inr existing))) = (st', Inr v)"
    unfolding put_snapshot_def snapshot_parts_def using pb
    by (auto simp: source_request_def Let_def elim!: sbind_InrE)
  from q obtain m c i where m: "pr = Inr m" "snapshot_parts cfg st s l m = Inr (c, i)"
    by (cases "rbind pr (snapshot_parts cfg st s l)") auto
  with q have "artifacts_of st' = ar \<and> snapshots st' = fst (publish_immutable (snapshot_path i) (canonical (JObj c)) (snapshots st))
     \<and> (if map_of (snapshots st) (snapshot_path i) = None then v = JObj c
        else read_json (snapshots st) (snapshot_path i) = Inr v \<and> canonical v = canonical (JObj c))"
    by (auto simp: publish_immutable_def exists_path_def Let_def split: if_split_asm)
  with l pb m show ?thesis by blast
qed

lemma index_canon_str: "wf_json (JObj d) \<Longrightarrow> map_of d k = Some (JStr s) \<Longrightarrow> index (canon (JObj d)) k = Inr (JStr s)"
  using index_canon [of d k "JStr s"] by simp

lemma snapshot_parts_Inr:
  assumes "snapshot_parts cfg st s l (artifact_manifest (src_sha cfg) (rs_data s) mt) = Inr (c, i)"
    and "source_wf s" and "normalized_locator (rs_locator s) = Inr l"
  shows "wf_json (JObj c) \<and> map_of c ''snapshot_id'' = Some (JStr i)
    \<and> map_of c ''artifact_id'' = Some (JStr (artifact_id_for_digest (src_sha cfg (rs_data s))))"
proof -
  let ?h = "JObj [(''algorithm'', JStr ''sha256''), (''digest'', JStr (src_sha cfg (rs_data s)))]"
  let ?a = "JStr (artifact_id_for_digest (src_sha cfg (rs_data s)))"
  from assms(1) obtain digest sid where c: "snapshot_record (src_sha cfg) (source_request s) l sid digest ?a ?h = (c, i)"
    by (auto simp: snapshot_parts_def artifact_manifest_def manifest_digest_def case_prod_beta prod_eq_iff)
  have "wf_json (JObj (fst (c, i)))" unfolding c [symmetric]
    by (rule snapshot_record_wf [OF assms(2,3)]) simp_all
  moreover from c have "map_of c ''snapshot_id'' = Some (JStr i)" "map_of c ''artifact_id'' = Some ?a"
    by (auto simp: snapshot_record_def Let_def)
  ultimately show ?thesis by simp
qed

lemma put_snapshot_stored:
  assumes put: "put_snapshot cfg st (source_request s) = (st', Inr v)" and files: "snapshot_files_ok st"
    and wf: "source_wf s" and arts: "artifacts_ok (src_sha cfg) (artifacts_of st)"
  shows "\<exists>i. index v ''snapshot_id'' = Inr (JStr i) \<and> index v ''artifact_id'' = Inr (JStr (artifact_id_for_digest (src_sha cfg (rs_data s))))
    \<and> get_snapshot st' i = Inr (canon v) \<and> index (canon v) ''artifact_id'' = Inr (JStr (artifact_id_for_digest (src_sha cfg (rs_data s))))
    \<and> read_bytes (artifacts_of st') (artifact_id_for_digest (src_sha cfg (rs_data s))) = Inr (rs_data s)"
proof -
  from put_snapshot_Inr [OF put] obtain l ar m c i where p: "normalized_locator (rs_locator s) = Inr l"
    "put_bytes (src_sha cfg) (artifacts_of st) (rs_data s) (rs_media_type s) = (ar, Inr m)"
    "snapshot_parts cfg st s l m = Inr (c, i)" "artifacts_of st' = ar"
    "snapshots st' = fst (publish_immutable (snapshot_path i) (canonical (JObj c)) (snapshots st))"
    "if map_of (snapshots st) (snapshot_path i) = None then v = JObj c
        else read_json (snapshots st) (snapshot_path i) = Inr v \<and> canonical v = canonical (JObj c)" by blast
  from read_bytes_put [OF arts p(2)] have rb: "read_bytes ar (artifact_id_for_digest (src_sha cfg (rs_data s))) = Inr (rs_data s)"
    and m: "m = artifact_manifest (src_sha cfg) (rs_data s) (rs_media_type s)" by auto
  from snapshot_parts_Inr [OF p(3) [unfolded m] wf p(1)] have c: "wf_json (JObj c)" "map_of c ''snapshot_id'' = Some (JStr i)"
    "map_of c ''artifact_id'' = Some (JStr (artifact_id_for_digest (src_sha cfg (rs_data s))))" by blast+
  note canonical_index = index_canon_str [OF c(1) c(3)]
  show ?thesis
  proof (cases "map_of (snapshots st) (snapshot_path i)")
    case None
    then have "v = JObj c" "map_of (snapshots st') (snapshot_path i) = Some (canonical (JObj c))"
      using p(5,6) by (simp_all add: map_of_publish)
    with read_json_canonical [OF this(2) c(1)] have "get_snapshot st' i = Inr (canon v)" by (simp add: get_snapshot_def del: canon.simps)
    moreover have "index v ''snapshot_id'' = Inr (JStr i)"
      "index v ''artifact_id'' = Inr (JStr (artifact_id_for_digest (src_sha cfg (rs_data s))))"
      using c(2,3) \<open>v = JObj c\<close> by simp_all
    ultimately show ?thesis using canonical_index \<open>v = JObj c\<close> rb p(4) by blast
  next
    case (Some t)
    with files obtain d where d: "wf_json (JObj d)" "t = canonical (JObj d)" unfolding snapshot_files_ok_def by blast
    note rd = read_json_canonical [OF Some [unfolded d(2)] d(1)]
    with p(6) Some have v: "v = canon (JObj d)" "canonical v = canonical (JObj c)" by auto
    then have "canonical (JObj d) = canonical (JObj c)" by (simp add: canonical_def del: canon.simps)
    from doc.encode_inj [OF d(1) c(1) this] v(1) have vc: "v = canon (JObj c)" by (simp del: canon.simps)
    have "map_of (snapshots st') (snapshot_path i) = Some t" using p(5) Some by (simp add: map_of_publish)
    then have "get_snapshot st' i = Inr (canon v)"
      using read_json_canonical [of "snapshots st'" "snapshot_path i" "JObj d"] d v(1) by (simp add: get_snapshot_def del: canon.simps)
    moreover have "index v ''snapshot_id'' = Inr (JStr i)"
      "index v ''artifact_id'' = Inr (JStr (artifact_id_for_digest (src_sha cfg (rs_data s))))"
      unfolding vc by (rule index_canon_str [OF c(1)], rule c)+
    moreover have "index (canon v) ''artifact_id'' = Inr (JStr (artifact_id_for_digest (src_sha cfg (rs_data s))))"
      using canonical_index unfolding vc canon_idem .
    ultimately show ?thesis using rb p(4) by blast
  qed
qed

section \<open>Committed proposals\<close>

lemma store_event_value:
  assumes ok: "events_ok cfg st" and wf: "wf_json (JObj c)" and s: "store_event st c i = (st', Inr v)"
  shows "v = JObj c \<or> v = canon (JObj c)"
proof (cases rule: store_event_cases [of st i c])
  case (present t)
  from event_file_read [OF ok present(2)] obtain d where d: "t = canonical (JObj d)" "wf_json (JObj d)"
    "read_json (events st) (event_path i) = Inr (canon (JObj d))" by blast
  with s present(3) have v: "v = canon (JObj d)" "canonical v = canonical (JObj c)"
    by (auto simp del: canon.simps split: if_split_asm)
  then have "canonical (JObj d) = canonical (JObj c)" by (simp add: canonical_def del: canon.simps)
  from doc.encode_inj [OF d(2) wf this] v(1) show ?thesis by simp
qed (use s in auto)

lemma get_event_added:
  assumes "log_adds cfg es st st'" and "get_event st i = Inr v"
  shows "get_event st' i = Inr v"
  using assms by (auto simp: get_event_def log_adds_def event_is_redacted_def exists_path_def read_json_def read_file_def split: if_split_asm)

lemma commit_all_Inr:
  assumes "commit_all cfg st es = (st', Inr vs)" and "events_ok cfg st" and "\<forall>e \<in> set es. wf_json (JObj e)"
  shows "list_all2 (\<lambda>e v. \<exists>c i. validate_event cfg e [] = Inr c \<and> wf_json (JObj c) \<and> map_of c ''event_id'' = Some (JStr i)
    \<and> index v ''event_id'' = Inr (JStr i) \<and> get_event st' i = Inr (canon (JObj c))) es vs"
  using assms
proof (induction es arbitrary: st vs)
  case (Cons e es)
  from Cons.prems(1) obtain st1 v ws where p: "commit_event cfg st e [] = (st1, Inr v)" "commit_all cfg st1 es = (st', Inr ws)" "vs = v # ws"
    by (auto elim!: sbind_InrE)
  from p(1) obtain c i where c: "validate_event cfg e [] = Inr c" "map_of c ''event_id'' = Some (JStr i)" "store_event st c i = (st1, Inr v)"
    by (rule commit_event_Inr)
  have we: "wf_json (JObj e)" using Cons.prems(3) by simp
  note wc = validate_event_D(1) [OF c(1) we]
  have "events_ok cfg (event_step cfg st (CommitEvent e []))" by (rule event_step_ok) (use we Cons.prems(2) in \<open>simp_all del: wf_json.simps\<close>)
  with p(1) have ok1: "events_ok cfg st1" by simp
  from stored_then_get [OF Cons.prems(2) wc c(3)] have "get_event st1 i = Inr (canon (JObj c))" by blast
  moreover have "log_adds cfg es st1 st'" using commit_all_adds [of cfg es st1] p(2) by simp
  ultimately have g: "get_event st' i = Inr (canon (JObj c))" by (rule get_event_added [rotated])
  have "index v ''event_id'' = Inr (JStr i)"
    using store_event_value [OF Cons.prems(2) wc c(3)] c(2) index_canon_str [OF wc c(2)] by (elim disjE) (simp_all only: index_JObj dindex_Some)
  with c(1,2) wc g have "\<exists>c i. validate_event cfg e [] = Inr c \<and> wf_json (JObj c) \<and> map_of c ''event_id'' = Some (JStr i)
    \<and> index v ''event_id'' = Inr (JStr i) \<and> get_event st' i = Inr (canon (JObj c))" by blast
  moreover from Cons.IH [OF p(2) ok1] Cons.prems(3) have "list_all2 (\<lambda>e v. \<exists>c i. validate_event cfg e [] = Inr c \<and> wf_json (JObj c) \<and> map_of c ''event_id'' = Some (JStr i)
    \<and> index v ''event_id'' = Inr (JStr i) \<and> get_event st' i = Inr (canon (JObj c))) es ws" by simp
  ultimately show ?case unfolding p(3) by (simp only: list_all2_Cons)
qed auto

section \<open>Properties\<close>

text \<open>An event proposes a draft on the evidence of an artifact and a snapshot, whatever its id.\<close>

definition proposes :: "ingest_request \<Rightarrow> string \<Rightarrow> string \<Rightarrow> claim_draft \<Rightarrow> dict \<Rightarrow> bool" where
  "proposes r artifact snapshot d c \<longleftrightarrow>
     map_of c ''event_type'' = Some (JStr ''claim.proposed'') \<and> map_of c ''actor'' = Some (JObj (ir_actor r))
     \<and> map_of c ''pack_id'' = map_option (\<lambda>v. JStr (py_str v)) (map_of (ir_manifest r) ''pack_id'')
     \<and> map_of c ''subject_refs'' = Some (strs [dr_subject d])
     \<and> map_of c ''evidence_refs'' = Some (strs [artifact]) \<and> map_of c ''source_snapshot_refs'' = Some (strs [snapshot])
     \<and> map_of c ''payload'' = Some (JObj [(''claim_text'', JStr (dr_text d)), (''reason'', JStr (dr_reason d))])"

lemma proposes_cong:
  assumes "\<And>k. k \<noteq> ''event_id'' \<Longrightarrow> map_of c k = map_of e k" and "proposes r a s d e"
  shows "proposes r a s d c"
  using assms unfolding proposes_def by simp

lemma ingest_admit_Inr:
  assumes "ingest_admit cfg r = Inr (pack, kind, receipt)"
  shows "\<exists>pv. map_of (ir_manifest r) ''pack_id'' = Some pv \<and> pack = py_str pv
    \<and> (\<exists>b. receipt = base_receipt (src_sha (ic_source cfg)) pack kind (ir_review_ref r) (ir_correlation r) b)"
  using assms by (auto simp: ingest_admit_def Let_def)

lemma prepare_draft_Inr:
  assumes "prepare_draft cfg u r pack a s (i, d) = Inr e" and "map_of (ir_manifest r) ''pack_id'' = Some pv" and "pack = py_str pv"
  shows "validate_event (ic_events cfg) (draft_event r pack a s i d) (u i) = Inr e \<and> proposes r a s d e"
proof -
  from assms(1) have e: "validate_event (ic_events cfg) (draft_event r pack a s i d) (u i) = Inr e" by (auto simp: prepare_draft_def)
  have "proposes r a s d (draft_event r pack a s i d)" using assms(2,3) by (simp add: proposes_def draft_event_def)
  with e prepared_fields [OF e] show ?thesis by (auto intro: proposes_cong)
qed

text \<open>The outcome of an ingestion, by the point at which it stopped.\<close>

lemma ingest_cases:
  assumes "ingest_evidence cfg u w r = (w', res)"
  obtains (refused) e where "ingest_admit cfg r = Inl e" "w' = w" "res = Inl e"
  | (raw) pack kind rc where "ingest_admit cfg r = Inr (pack, kind, rc)" "kind \<in> set RAW_LOG_SOURCE_KINDS" "w' = w" "res = Inr (rejected_receipt rc)"
  | (stopped) pack kind rc src put where "ingest_admit cfg r = Inr (pack, kind, rc)" "kind \<notin> set RAW_LOG_SOURCE_KINDS"
      "put_snapshot (ic_source cfg) (is_sources w) (source_request (ir_source r)) = (src, put)" "w' = w\<lparr>is_sources := src\<rparr>" "\<not> is_ok res"
  | (committed) pack kind rc src snap av sv prepared evs vs where "ingest_admit cfg r = Inr (pack, kind, rc)" "kind \<notin> set RAW_LOG_SOURCE_KINDS"
      "put_snapshot (ic_source cfg) (is_sources w) (source_request (ir_source r)) = (src, Inr snap)"
      "index snap ''artifact_id'' = Inr av" "index snap ''snapshot_id'' = Inr sv" "ir_claims r \<noteq> []"
      "rmap (prepare_draft cfg u r pack (py_str av) (py_str sv)) (enumerate 0 (ir_claims r)) = Inr prepared"
      "commit_all (ic_events cfg) (is_events w) prepared = (evs, vs)" "w' = w\<lparr>is_sources := src, is_events := evs\<rparr>"
      "res = rbind vs (\<lambda>vs. rbind (rmap (\<lambda>v. rbind (index v ''event_id'') (\<lambda>i. Inr (py_str i))) vs) (\<lambda>ids.
                   Inr (proposed_receipt kind (py_str av) (py_str sv) ids rc)))"
proof (cases "ingest_admit cfg r")
  case (Inl e)
  then show ?thesis using assms by (intro refused) (auto simp: ingest_evidence_def)
next
  case (Inr x)
  obtain pack kind rc where x: "ingest_admit cfg r = Inr (pack, kind, rc)" using Inr by (cases x) auto
  show ?thesis
  proof (cases "kind \<in> set RAW_LOG_SOURCE_KINDS")
    case True
    then show ?thesis using assms x by (intro raw) (auto simp: ingest_evidence_def)
  next
    case False
    obtain src put where put: "put_snapshot (ic_source cfg) (is_sources w) (source_request (ir_source r)) = (src, put)" by force
    let ?p = "rbind put (\<lambda>snap. rbind (index snap ''artifact_id'') (\<lambda>av. rbind (index snap ''snapshot_id'') (\<lambda>sv.
              rbind (check (ir_claims r \<noteq> [])
                       (ingest_error ''reviewed evidence ingest requires at least one synthesis proposal'')) (\<lambda>_.
              rbind (rmap (prepare_draft cfg u r pack (py_str av) (py_str sv)) (enumerate 0 (ir_claims r))) (\<lambda>prepared.
                Inr (py_str av, py_str sv, prepared))))))"
    show ?thesis
    proof (cases ?p)
      case (Inl e)
      then show ?thesis using assms x False put by (intro stopped) (auto simp: ingest_evidence_def)
    next
      case (Inr q)
      then obtain snap av sv prepared where q: "put = Inr snap" "index snap ''artifact_id'' = Inr av" "index snap ''snapshot_id'' = Inr sv"
        "ir_claims r \<noteq> []" "rmap (prepare_draft cfg u r pack (py_str av) (py_str sv)) (enumerate 0 (ir_claims r)) = Inr prepared"
        "q = (py_str av, py_str sv, prepared)" unfolding rbind_Inr_iff check_Inr_iff Inr_inject by blast
      obtain evs vs where cm: "commit_all (ic_events cfg) (is_events w) prepared = (evs, vs)" by force
      show ?thesis
        by (rule committed [OF x False put [unfolded q(1)] q(2-5) cm])
          (use assms x False put Inr q cm in \<open>auto simp: ingest_evidence_def pure_res_def\<close>)
    qed
  qed
qed

text \<open>C39. Ingestion only proposes. However an ingestion ends, the log keeps what it had, and every file it
  gains is an accepted event that proposes one of the drafted claims, in the pack of the manifest and
  by the given actor, on the evidence of one artifact and one snapshot; it gains one only if the
  request was admitted, its source is no raw log and every draft was validated. A refused request or
  a raw log changes nothing at all.\<close>

theorem ingestion_only_proposes:
  assumes "ingest_evidence cfg u w r = (w', res)"
  shows "tombstones (is_events w') = tombstones (is_events w)
    \<and> (\<forall>p t. map_of (events (is_events w)) p = Some t \<longrightarrow> map_of (events (is_events w')) p = Some t)
    \<and> (\<exists>a s. \<forall>p t. map_of (events (is_events w')) p = Some t \<longrightarrow> map_of (events (is_events w)) p = None \<longrightarrow>
         (\<exists>d \<in> set (ir_claims r). \<exists>c i. t = canonical (JObj c) \<and> p = event_path i \<and> map_of c ''event_id'' = Some (JStr i)
            \<and> proposes r a s d c \<and> is_ok (validate_event_for_commit (cfg_payload (ic_events cfg)) c
                 (cfg_endpoints (ic_events cfg)) (cfg_promotions (ic_events cfg))))
         \<and> (\<exists>pack kind rc. ingest_admit cfg r = Inr (pack, kind, rc) \<and> kind \<notin> set RAW_LOG_SOURCE_KINDS
              \<and> (\<forall>d \<in> set (enumerate 0 (ir_claims r)). is_ok (prepare_draft cfg u r pack a s d))))
    \<and> ((\<forall>pack kind rc. ingest_admit cfg r = Inr (pack, kind, rc) \<longrightarrow> kind \<in> set RAW_LOG_SOURCE_KINDS) \<longrightarrow> w' = w)"
  using assms
proof (cases rule: ingest_cases)
  case (committed pack kind rc src snap av sv prepared evs vs)
  let ?cfg = "ic_events cfg" let ?a = "py_str av" let ?s = "py_str sv"
  from ingest_admit_Inr [OF committed(1)] obtain pv where pv: "map_of (ir_manifest r) ''pack_id'' = Some pv" "pack = py_str pv" by blast
  note set_prepared = rmap_Inr_set [OF committed(7)]
  have ok: "is_ok (prepare_draft cfg u r pack ?a ?s d)" if "d \<in> set (enumerate 0 (ir_claims r))" for d
    using that committed(7) by (auto simp: rmap_Inr_iff in_set_conv_nth is_ok_iff)
  have adds: "log_adds ?cfg prepared (is_events w) evs" using commit_all_adds [of ?cfg prepared "is_events w"] committed(8) by simp
  have new: "\<exists>d \<in> set (ir_claims r). \<exists>c i. t = canonical (JObj c) \<and> p = event_path i \<and> map_of c ''event_id'' = Some (JStr i)
            \<and> proposes r ?a ?s d c \<and> is_ok (validate_event_for_commit (cfg_payload ?cfg) c (cfg_endpoints ?cfg) (cfg_promotions ?cfg))"
    if t: "map_of (events evs) p = Some t" "map_of (events (is_events w)) p = None" for p t
  proof -
    from adds t obtain e c i where e: "e \<in> set prepared" "validate_event ?cfg e [] = Inr c" "map_of c ''event_id'' = Some (JStr i)"
      "p = event_path i" "t = canonical (JObj c)" unfolding log_adds_def by blast
    from e(1) set_prepared obtain x where x: "x \<in> set (enumerate 0 (ir_claims r))" "prepare_draft cfg u r pack ?a ?s x = Inr e" by blast
    obtain k d where kd: "x = (k, d)" by force
    from x(1) kd have d: "d \<in> set (ir_claims r)" by (auto simp: in_set_enumerate_eq)
    from prepare_draft_Inr [OF x(2) [unfolded kd] pv] have "proposes r ?a ?s d e" by blast
    with prepared_fields [OF e(2)] have "proposes r ?a ?s d c" by (rule proposes_cong)
    moreover from e(2) have "is_ok (validate_event_for_commit (cfg_payload ?cfg) c (cfg_endpoints ?cfg) (cfg_promotions ?cfg))"
      by (auto simp: validate_event_def is_ok_iff)
    ultimately show ?thesis using d e(3-5) by blast
  qed
  have w': "is_events w' = evs" using committed(9) by simp
  have "\<exists>pack kind rc. ingest_admit cfg r = Inr (pack, kind, rc) \<and> kind \<notin> set RAW_LOG_SOURCE_KINDS
              \<and> (\<forall>d \<in> set (enumerate 0 (ir_claims r)). is_ok (prepare_draft cfg u r pack ?a ?s d))"
    using committed(1,2) ok by blast
  moreover have "tombstones evs = tombstones (is_events w)"
    "\<forall>p t. map_of (events (is_events w)) p = Some t \<longrightarrow> map_of (events evs) p = Some t" using adds by (simp_all add: log_adds_def)
  moreover have "\<not> (\<forall>pack kind rc. ingest_admit cfg r = Inr (pack, kind, rc) \<longrightarrow> kind \<in> set RAW_LOG_SOURCE_KINDS)"
    using committed(1,2) by blast
  ultimately show ?thesis using new unfolding w' by blast
next
  case (stopped pack kind rc src put)
  then have "\<not> (\<forall>pack kind rc. ingest_admit cfg r = Inr (pack, kind, rc) \<longrightarrow> kind \<in> set RAW_LOG_SOURCE_KINDS)" by blast
  with stopped(4) show ?thesis by auto
qed simp_all

definition demo_ingest_config :: ingest_config where
  "demo_ingest_config = \<lparr> ic_pack = \<lambda>_. True, ic_source = demo_source_config, ic_events = demo_config \<rparr>"

definition demo_reviewed :: reviewed_source where
  "demo_reviewed = \<lparr> rs_data = ''hi'', rs_kind = ''paper'', rs_role = ''primary'', rs_locator = [(''url'', JStr ''u'')],
     rs_retrieved_at = ''1'', rs_quality = [], rs_published_at = None, rs_version = None, rs_derivation = None, rs_media_type = ''t'' \<rparr>"

definition demo_ingest :: ingest_request where
  "demo_ingest = \<lparr> ir_manifest = [(''pack_id'', JStr ''p''), (''read_mounts'', strs [''p'']), (''write_targets'', strs [''p''])],
     ir_source = demo_reviewed, ir_claims = [\<lparr> dr_subject = ''clm_1'', dr_text = ''c'', dr_reason = [] \<rparr>], ir_review_ref = ''r'',
     ir_actor = [], ir_occurred_at = ''1'', ir_recorded_at = ''1'', ir_correlation = ''k'', ir_outcome = ''proposed'' \<rparr>"

definition demo_stores :: ingest_stores where
  "demo_stores = \<lparr> is_sources = \<lparr> snapshots = [], artifacts_of = empty_artifacts \<rparr>, is_events = empty_events \<rparr>"

lemma demo_ingest_proposes: "rbind (snd (ingest_evidence demo_ingest_config (\<lambda>_. ''u'') demo_stores demo_ingest)) (\<lambda>c. dindex c ''status'') = Inr (JStr ''proposed'')"
  by code_simp

theorem ingestion_only_proposes_witness:
  "\<exists>w' res a s. ingest_evidence demo_ingest_config (\<lambda>_. ''u'') demo_stores demo_ingest = (w', res)
     \<and> (\<forall>p t. map_of (events (is_events w')) p = Some t \<longrightarrow> (\<exists>c. t = canonical (JObj c) \<and>
          proposes demo_ingest a s \<lparr> dr_subject = ''clm_1'', dr_text = ''c'', dr_reason = [] \<rparr> c))"
proof -
  obtain w' res where w: "ingest_evidence demo_ingest_config (\<lambda>_. ''u'') demo_stores demo_ingest = (w', res)" by force
  have e: "map_of (events (is_events demo_stores)) p = None" for p by (simp add: demo_stores_def empty_events_def)
  have c: "set (ir_claims demo_ingest) = {\<lparr> dr_subject = ''clm_1'', dr_text = ''c'', dr_reason = [] \<rparr>}" by (simp add: demo_ingest_def)
  from conjunct1 [OF conjunct2 [OF conjunct2 [OF ingestion_only_proposes [OF w]]]] obtain a s where
    "\<And>p t. map_of (events (is_events w')) p = Some t \<Longrightarrow> \<exists>d \<in> set (ir_claims demo_ingest). \<exists>c. t = canonical (JObj c) \<and> proposes demo_ingest a s d c"
    using e by blast
  then have "\<forall>p t. map_of (events (is_events w')) p = Some t \<longrightarrow> (\<exists>c. t = canonical (JObj c) \<and>
          proposes demo_ingest a s \<lparr> dr_subject = ''clm_1'', dr_text = ''c'', dr_reason = [] \<rparr> c)"
    unfolding c by blast
  with w show ?thesis by blast
qed

text \<open>C40. Receipts of proposals hold. When the stores are consistent and the receipt says proposed, the
  snapshot and the bytes of the source can be read back under the ids it names, it accepts nothing,
  and its proposal ids are, draft by draft, the ids of events of the log that propose the draft on
  exactly this evidence.\<close>

theorem proposed_receipts_hold:
  assumes run: "ingest_evidence cfg u w r = (w', Inr receipt)" and st: "map_of receipt ''status'' = Some (JStr ''proposed'')"
    and ok: "snapshot_files_ok (is_sources w)" "artifacts_ok (src_sha (ic_source cfg)) (artifacts_of (is_sources w))"
      "events_ok (ic_events cfg) (is_events w)" "source_wf (ir_source r)" "wf_json (JObj (ir_actor r))"
  shows "\<exists>kind a s snap ids. map_of receipt ''source'' = Some (source_part kind True (JStr a) (JStr s))
    \<and> read_bytes (artifacts_of (is_sources w')) a = Inr (rs_data (ir_source r)) \<and> get_snapshot (is_sources w') s = Inr snap
    \<and> index snap ''artifact_id'' = Inr (JStr a)
    \<and> map_of receipt ''proposal_event_ids'' = Some (strs ids) \<and> map_of receipt ''accepted_count'' = Some (JInt 0)
    \<and> list_all2 (\<lambda>d i. \<exists>c. get_event (is_events w') i = Inr (canon (JObj c)) \<and> map_of c ''event_id'' = Some (JStr i) \<and> proposes r a s d c)
        (ir_claims r) ids"
  using run
proof (cases rule: ingest_cases)
  case (raw pack kind rc)
  then show ?thesis using st by (auto simp: rejected_receipt_def mark_validation_def)
next
  case (committed pack kind rc src snap av sv prepared evs vs)
  let ?cfg = "ic_events cfg"
  from ingest_admit_Inr [OF committed(1)] obtain pv b where pv: "map_of (ir_manifest r) ''pack_id'' = Some pv" "pack = py_str pv"
    and rc: "rc = base_receipt (src_sha (ic_source cfg)) pack kind (ir_review_ref r) (ir_correlation r) b" by blast
  from put_snapshot_stored [OF committed(3) ok(1,4,2)] obtain s where s: "index snap ''snapshot_id'' = Inr (JStr s)"
    "index snap ''artifact_id'' = Inr (JStr (artifact_id_for_digest (src_sha (ic_source cfg) (rs_data (ir_source r)))))"
    "get_snapshot src s = Inr (canon snap)"
    "index (canon snap) ''artifact_id'' = Inr (JStr (artifact_id_for_digest (src_sha (ic_source cfg) (rs_data (ir_source r)))))"
    "read_bytes (artifacts_of src) (artifact_id_for_digest (src_sha (ic_source cfg) (rs_data (ir_source r)))) = Inr (rs_data (ir_source r))" by blast
  let ?a = "artifact_id_for_digest (src_sha (ic_source cfg) (rs_data (ir_source r)))"
  from s(1,2) committed(4,5) have as: "py_str av = ?a" "py_str sv = s" by auto
  note prep = committed(7) [unfolded as]
  from committed(10) [symmetric] obtain ws ids where ws: "vs = Inr ws" "rmap (\<lambda>v. rbind (index v ''event_id'') (\<lambda>i. Inr (py_str i))) ws = Inr ids"
    "proposed_receipt kind ?a s ids rc = receipt" unfolding as rbind_Inr_iff by (elim exE conjE) (rule that, simp_all)
  have drafts: "list_all2 (\<lambda>d e. wf_json (JObj e) \<and> proposes r ?a s d e) (ir_claims r) prepared"
    unfolding list_all2_conv_all_nth
  proof (intro conjI allI impI)
    from prep show len: "length (ir_claims r) = length prepared" by (simp add: rmap_Inr_iff)
    fix k assume k: "k < length (ir_claims r)"
    with prep have "prepare_draft cfg u r pack ?a s (k, ir_claims r ! k) = Inr (prepared ! k)"
      by (simp add: rmap_Inr_iff nth_enumerate_eq)
    from prepare_draft_Inr [OF this pv] have e: "validate_event ?cfg (draft_event r pack ?a s k (ir_claims r ! k)) (u k) = Inr (prepared ! k)"
      "proposes r ?a s (ir_claims r ! k) (prepared ! k)" by blast+
    have "wf_json (JObj (draft_event r pack ?a s k (ir_claims r ! k)))" using ok(5) by (simp add: draft_event_def)
    from validate_event_D(1) [OF e(1) this] show "wf_json (JObj (prepared ! k))" .
    show "proposes r ?a s (ir_claims r ! k) (prepared ! k)" by (fact e(2))
  qed
  then have "\<forall>e \<in> set prepared. wf_json (JObj e)" by (auto simp: list_all2_conv_all_nth in_set_conv_nth simp del: wf_json.simps)
  from commit_all_Inr [OF committed(8) [unfolded ws(1)] ok(3) this] have events: "list_all2 (\<lambda>e v. \<exists>c i. validate_event ?cfg e [] = Inr c
      \<and> wf_json (JObj c) \<and> map_of c ''event_id'' = Some (JStr i) \<and> index v ''event_id'' = Inr (JStr i)
      \<and> get_event evs i = Inr (canon (JObj c))) prepared ws" .
  have "list_all2 (\<lambda>d i. \<exists>c. get_event evs i = Inr (canon (JObj c)) \<and> map_of c ''event_id'' = Some (JStr i) \<and> proposes r ?a s d c) (ir_claims r) ids"
    unfolding list_all2_conv_all_nth
  proof (intro conjI allI impI)
    have "length ids = length ws" using ws(2) unfolding rmap_Inr_iff by blast
    with list_all2_lengthD [OF drafts] list_all2_lengthD [OF events] show "length (ir_claims r) = length ids" by simp
    fix k assume k: "k < length (ir_claims r)"
    with drafts have d: "proposes r ?a s (ir_claims r ! k) (prepared ! k)" "k < length prepared" by (simp_all add: list_all2_conv_all_nth)
    from events have ev: "length prepared = length ws" "\<forall>k < length prepared. \<exists>c i. validate_event ?cfg (prepared ! k) [] = Inr c
      \<and> wf_json (JObj c) \<and> map_of c ''event_id'' = Some (JStr i) \<and> index (ws ! k) ''event_id'' = Inr (JStr i)
      \<and> get_event evs i = Inr (canon (JObj c))" unfolding list_all2_conv_all_nth by blast+
    with d(2) obtain c i where c: "validate_event ?cfg (prepared ! k) [] = Inr c" "map_of c ''event_id'' = Some (JStr i)"
      "index (ws ! k) ''event_id'' = Inr (JStr i)" "get_event evs i = Inr (canon (JObj c))" "k < length ws"
      by auto
    from ws(2) c(5) have "rbind (index (ws ! k) ''event_id'') (\<lambda>i. Inr (py_str i)) = Inr (ids ! k)" unfolding rmap_Inr_iff by blast
    then have "ids ! k = i" by (simp only: c(3) rbind.simps py_str.simps sum.inject)
    moreover have "proposes r ?a s (ir_claims r ! k) c" by (rule proposes_cong [OF prepared_fields [OF c(1)] d(1)])
    ultimately show "\<exists>c. get_event evs (ids ! k) = Inr (canon (JObj c)) \<and> map_of c ''event_id'' = Some (JStr (ids ! k))
        \<and> proposes r ?a s (ir_claims r ! k) c" using c by blast
  qed
  moreover have "map_of receipt ''source'' = Some (source_part kind True (JStr ?a) (JStr s))"
    "map_of receipt ''proposal_event_ids'' = Some (strs ids)" "map_of receipt ''accepted_count'' = Some (JInt 0)"
    unfolding ws(3) [symmetric] rc by (simp_all add: proposed_receipt_def mark_validation_def base_receipt_def)
  ultimately show ?thesis using s(3-5) committed(9)
    by (intro exI [of _ kind] exI [of _ ?a] exI [of _ s] exI [of _ "canon snap"] exI [of _ ids] conjI) simp_all
qed simp_all

theorem proposed_receipts_hold_witness:
  "\<exists>w' receipt a. ingest_evidence demo_ingest_config (\<lambda>_. ''u'') demo_stores demo_ingest = (w', Inr receipt)
     \<and> read_bytes (artifacts_of (is_sources w')) a = Inr ''hi'' \<and> map_of receipt ''accepted_count'' = Some (JInt 0)"
proof -
  obtain w' res where w: "ingest_evidence demo_ingest_config (\<lambda>_. ''u'') demo_stores demo_ingest = (w', res)" by force
  with demo_ingest_proposes obtain receipt where r: "res = Inr receipt" "map_of receipt ''status'' = Some (JStr ''proposed'')" by auto
  have "snapshot_files_ok (is_sources demo_stores)" "artifacts_ok (src_sha (ic_source demo_ingest_config)) (artifacts_of (is_sources demo_stores))"
    "events_ok (ic_events demo_ingest_config) (is_events demo_stores)" "source_wf (ir_source demo_ingest)" "wf_json (JObj (ir_actor demo_ingest))"
    by (simp_all add: snapshot_files_ok_def demo_stores_def demo_ingest_def demo_reviewed_def source_wf_def dict_or_empty_def)
  from proposed_receipts_hold [OF w [unfolded r(1)] r(2) this] have "\<exists>a. read_bytes (artifacts_of (is_sources w')) a = Inr ''hi'' \<and> map_of receipt ''accepted_count'' = Some (JInt 0)"
    by (simp add: demo_ingest_def demo_reviewed_def) blast
  with w r(1) show ?thesis by blast
qed

end
