(* ===== verification/Spec2Isabelle.thy ===== *)
theory Spec2Isabelle
  imports Packset_Lock Source_Store Conversation Migration S3_Store Supervisor Query_Context Agent Pack_Corpus Shared_Capture Reviewed_Evidence
begin

text \<open>
  FOSSIL core, a verification library.
\<close>

end
